(* ===== verification/Prelude.thy ===== *)
theory Prelude
  imports Main "HOL-Library.Word" "HOL-Library.Monad_Syntax"
begin

unbundle bit_operations_syntax

text \<open>
  Shared vocabulary of the Icarus development: the fixed-width integers of
  \<^verbatim>\<open>stdint.h\<close>, indexed access to C arrays, and the arithmetic and bit lemmas on
  machine words that the components share.

  Conventions used in every theory.  A C function that changes state takes the state and
  returns the new one.  An error return of the code (\<^verbatim>\<open>-1\<close>, \<^verbatim>\<open>FRAME_ALLOC_FAILED\<close>,
  \<^verbatim>\<open>NULL\<close>) is a value.  An execution that has no defined result (an access outside an
  array, a loop that never ends, a null dereference, a shift by the width of a word) is \<^term>\<open>None\<close>, so every theorem of the form
  \<open>f x = Some y\<close> also says that the code returns.
\<close>

type_synonym u8 = "8 word"
type_synonym u16 = "16 word"
type_synonym u32 = "32 word"
type_synonym u64 = "64 word"

named_theorems word_to_nat \<open>equations that move a machine-word computation to natural numbers\<close>
named_theorems layout \<open>facts about where the parts of a structure lie\<close>

section \<open>Array access\<close>

text \<open>\<open>idx xs i\<close> is \<^verbatim>\<open>xs[i]\<close>; outside the array there is no defined result.\<close>

definition idx :: "'a list \<Rightarrow> nat \<Rightarrow> 'a option" where
  "idx xs i = (if i < length xs then Some (xs ! i) else None)"

lemma idx_in [simp]: "i < length xs \<Longrightarrow> idx xs i = Some (xs ! i)"
  by (simp add: idx_def)

lemma idx_out [simp]: "length xs \<le> i \<Longrightarrow> idx xs i = None"
  by (simp add: idx_def)

lemma idx_eq_Some [simp]: "idx xs i = Some x \<longleftrightarrow> i < length xs \<and> xs ! i = x"
  by (auto simp: idx_def)

lemma bind_eq_Some: "Option.bind m f = Some y \<longleftrightarrow> (\<exists>x. m = Some x \<and> f x = Some y)"
  by (cases m) auto

section \<open>Machine words as natural numbers\<close>

lemma u64_bound: "unat (x :: u64) < 18446744073709551616"
  using unsigned_less [of x] by simp

lemma u32_bound: "unat (x :: u32) < 4294967296"
  using unsigned_less [of x] by simp

lemma u8_bound: "unat (x :: u8) < 256"
  using unsigned_less [of x] by simp

lemma unat_of_nat_u64 [word_to_nat]: "n < 18446744073709551616 \<Longrightarrow> unat (of_nat n :: u64) = n"
  by (simp add: unat_of_nat take_bit_nat_eq_self)

lemma unat_of_nat_u32 [word_to_nat]: "n < 4294967296 \<Longrightarrow> unat (of_nat n :: u32) = n"
  by (simp add: unat_of_nat take_bit_nat_eq_self)

lemma unat_add_u64 [word_to_nat]:
  "unat x + unat y < 18446744073709551616 \<Longrightarrow> unat (x + y :: u64) = unat x + unat y"
  by (simp add: unat_word_ariths)

lemma unat_add_u32 [word_to_nat]:
  "unat x + unat y < 4294967296 \<Longrightarrow> unat (x + y :: u32) = unat x + unat y"
  by (simp add: unat_word_ariths)

lemma unat_mult_u64 [word_to_nat]:
  "unat x * unat y < 18446744073709551616 \<Longrightarrow> unat (x * y :: u64) = unat x * unat y"
  by (simp add: unat_word_ariths)

lemma unat_mult_u32 [word_to_nat]:
  "unat x * unat y < 4294967296 \<Longrightarrow> unat (x * y :: u32) = unat x * unat y"
  by (simp add: unat_word_ariths)

lemma unat_sub_word [word_to_nat]: "y \<le> x \<Longrightarrow> unat (x - y :: 'a::len word) = unat x - unat y"
  by (rule unat_sub)

lemma unat_div_word [word_to_nat]: "unat (x div y :: 'a::len word) = unat x div unat y"
  by (rule unat_div)

lemma unat_mod_word [word_to_nat]: "unat (x mod y :: 'a::len word) = unat x mod unat y"
  by (rule unat_mod)

lemma unat_ucast_u32_u64 [word_to_nat]: "unat (ucast (x :: u32) :: u64) = unat x"
  by (simp add: unsigned_ucast_eq take_bit_nat_eq_self order_less_trans [OF u32_bound])

lemma unat_ucast_u64_u32 [word_to_nat]: "unat (x :: u64) < 4294967296 \<Longrightarrow> unat (ucast x :: u32) = unat x"
  by (simp add: unsigned_ucast_eq take_bit_nat_eq_self)

lemma unat_ucast_u8_u64 [word_to_nat]: "unat (ucast (x :: u8) :: u64) = unat x"
  by (simp add: unsigned_ucast_eq take_bit_nat_eq_self order_less_trans [OF u8_bound])

lemma less_by_unat: "x < y \<longleftrightarrow> unat x < unat (y :: 'a::len word)"
  by (rule word_less_nat_alt)

lemma le_by_unat: "x \<le> y \<longleftrightarrow> unat x \<le> unat (y :: 'a::len word)"
  by (rule word_le_nat_alt)

lemma word_eq_by_unat: "x = y \<longleftrightarrow> unat x = unat (y :: 'a::len word)"
  by (simp add: word_unat_eq_iff)

text \<open>A counter below a bound can be incremented without wrapping; every counting loop needs it.\<close>

lemma unat_Suc_less: "i < n \<Longrightarrow> unat (i + 1 :: 'a::len word) = Suc (unat i)"
proof -
  assume "i < n"
  moreover have "unat n < 2 ^ LENGTH('a)" by (rule unsigned_less)
  ultimately have "Suc (unat i) < 2 ^ LENGTH('a)" unfolding less_by_unat by linarith
  then show ?thesis
    using unat_word_ariths(1) [of i 1] by simp
qed

lemma count_up_less: "i < n \<Longrightarrow> unat n - unat (i + 1 :: 'a::len word) < unat n - unat i"
  by (simp add: unat_Suc_less less_by_unat)

lemma word_Suc_le_iff: "i < n \<Longrightarrow> i + 1 \<le> y \<longleftrightarrow> i < (y :: 'a::len word)"
  by (simp add: le_by_unat less_by_unat unat_Suc_less Suc_le_eq)

section \<open>Bits\<close>

text \<open>\<open>push_bit n 1\<close>, which the simplifier writes \<open>2 ^ n\<close>, is the mask \<^verbatim>\<open>1 << n\<close>.\<close>

lemma bit_mask_single: "bit (2 ^ n :: 'a::len word) k \<longleftrightarrow> k = n \<and> n < LENGTH('a)"
proof -
  have "bit (push_bit n 1 :: 'a word) k \<longleftrightarrow> k = n \<and> n < LENGTH('a)"
    by (auto simp only: bit_push_bit_iff bit_1_iff possible_bit_word)
  then show ?thesis by simp
qed

lemma bit_or_single:
  "bit (w OR push_bit n 1 :: 'a::len word) k \<longleftrightarrow> bit w k \<or> (k = n \<and> n < LENGTH('a))"
  by (simp add: bit_or_iff bit_mask_single)

lemma bit_and_not_single:
  "bit (w AND NOT (push_bit n 1) :: 'a::len word) k \<longleftrightarrow> bit w k \<and> k \<noteq> n"
  by (auto simp: bit_and_iff bit_not_iff bit_mask_single dest: bit_imp_le_length)

lemma bit_above: "LENGTH('a) \<le> k \<Longrightarrow> \<not> bit (w :: 'a::len word) k"
  by (auto dest: bit_imp_le_length)

end
