(* ===== verification/Kernel_Helper.thy ===== *)
theory Kernel_Helper
  imports Prelude
begin

text \<open>
  The address arithmetic of \<^verbatim>\<open>include/kernel_helper.h\<close>: the three windows of the kernel's
  address space, rounding to an alignment, and the conversion between a physical address and
  the place of the same byte in the kernel's direct window.
\<close>

definition KERNEL_VMA :: u64 where "KERNEL_VMA = 0xFFFFFFFF80000000"
definition KERNEL_HEAP_ADDR :: u64 where "KERNEL_HEAP_ADDR = 0xFFFFFF0000000000"
definition KERNEL_MMIO :: u64 where "KERNEL_MMIO = 0xFFFFFE0000000000"

definition INVALID_PHYS_ADDR :: u64 where "INVALID_PHYS_ADDR = 0xFFFFFFFFFFFFFFFF"
definition DEFAULT_PAGE_SIZE :: u64 where "DEFAULT_PAGE_SIZE = 4096"

definition ALIGN_UP :: "u64 \<Rightarrow> u64 \<Rightarrow> u64" where
  "ALIGN_UP addr align = (addr + align - 1) AND NOT (align - 1)"

definition ALIGN_DOWN :: "u64 \<Rightarrow> u64 \<Rightarrow> u64" where
  "ALIGN_DOWN addr align = addr AND NOT (align - 1)"

definition KERNEL_PHYS_TO_VIRT :: "u64 \<Rightarrow> u64" where "KERNEL_PHYS_TO_VIRT p = p + KERNEL_VMA"
definition KERNEL_VIRT_TO_PHYS :: "u64 \<Rightarrow> u64" where "KERNEL_VIRT_TO_PHYS p = p - KERNEL_VMA"
definition MMIO_PHYS_TO_VIRT :: "u64 \<Rightarrow> u64" where "MMIO_PHYS_TO_VIRT p = p + KERNEL_MMIO"
definition MMIO_VIRT_TO_PHYS :: "u64 \<Rightarrow> u64" where "MMIO_VIRT_TO_PHYS p = p - KERNEL_MMIO"

lemma virt_phys_inverse [simp]:
  "KERNEL_VIRT_TO_PHYS (KERNEL_PHYS_TO_VIRT p) = p"
  "KERNEL_PHYS_TO_VIRT (KERNEL_VIRT_TO_PHYS p) = p"
  by (simp_all add: KERNEL_PHYS_TO_VIRT_def KERNEL_VIRT_TO_PHYS_def)

lemma phys_to_virt_inject [simp]: "KERNEL_PHYS_TO_VIRT p = KERNEL_PHYS_TO_VIRT q \<longleftrightarrow> p = q"
  by (simp add: KERNEL_PHYS_TO_VIRT_def)

lemma mask_is_power: "(2 :: u64) ^ n - 1 = mask n"
  by (simp add: mask_eq_decr_exp)

lemma and_not_mask_div: "(x :: u64) AND NOT (mask n) = push_bit n (drop_bit n x)"
  by (rule bit_eqI) (auto simp: bit_simps)

lemma unat_ALIGN_DOWN: "n < 64 \<Longrightarrow> unat (ALIGN_DOWN x (2 ^ n)) = unat x div 2 ^ n * 2 ^ n"
proof -
  assume n: "n < 64"
  have "ALIGN_DOWN x (2 ^ n) = push_bit n (drop_bit n x)"
    by (simp only: ALIGN_DOWN_def mask_is_power and_not_mask_div)
  then have "unat (ALIGN_DOWN x (2 ^ n)) = take_bit 64 (push_bit n (unat (drop_bit n x)))"
    by (simp only: unsigned_push_bit_eq) simp
  also have "\<dots> = take_bit 64 (unat x div 2 ^ n * 2 ^ n)"
    by (simp only: unat_drop_bit_eq) (simp only: drop_bit_eq_div push_bit_eq_mult)
  also have "\<dots> = unat x div 2 ^ n * 2 ^ n"
    using le_less_trans [OF div_times_less_eq_dividend [of "unat x" "2 ^ n"] u64_bound [of x]]
    by (simp add: take_bit_nat_eq_self)
  finally show ?thesis .
qed

lemma ALIGN_DOWN_4096 [word_to_nat]: "unat (ALIGN_DOWN x 4096) = unat x div 4096 * 4096"
  using unat_ALIGN_DOWN [of 12 x] by simp

lemma ALIGN_UP_as_down: "ALIGN_UP x a = ALIGN_DOWN (x + a - 1) a"
  by (simp add: ALIGN_UP_def ALIGN_DOWN_def)

lemma unat_mask_u64: "n < 64 \<Longrightarrow> unat (mask n :: u64) = 2 ^ n - 1"
proof -
  assume "n < 64"
  then have "uint (mask n :: u64) = 2 ^ n - 1"
    by (simp only: uint_mask_eq) (simp add: mask_eq_exp_minus_1 min_def)
  moreover have "nat ((2 :: int) ^ n - 1) = 2 ^ n - 1"
    by (simp add: nat_diff_distrib' nat_power_eq)
  ultimately show ?thesis
    by (simp only: unat_eq_nat_uint)
qed

lemma unat_ALIGN_UP:
  assumes "n < 64" and "unat x + (2 ^ n - 1) < 18446744073709551616"
  shows "unat (ALIGN_UP x (2 ^ n)) = (unat x + (2 ^ n - 1)) div 2 ^ n * 2 ^ n"
proof -
  have one: "unat ((2 :: u64) ^ n - 1) = 2 ^ n - 1"
    using assms(1) by (simp only: mask_is_power unat_mask_u64)
  have eq: "x + 2 ^ n - 1 = x + (2 ^ n - 1 :: u64)" by (simp add: algebra_simps)
  have sum: "unat (x + (2 ^ n - 1 :: u64)) = unat x + (2 ^ n - 1)"
    using assms(2) by (subst unat_add_u64) (simp_all add: one)
  show ?thesis
    by (simp only: ALIGN_UP_as_down unat_ALIGN_DOWN [OF assms(1)] eq sum)
qed

lemma ALIGN_UP_4096 [word_to_nat]:
  "unat x + 4095 < 18446744073709551616 \<Longrightarrow> unat (ALIGN_UP x 4096) = (unat x + 4095) div 4096 * 4096"
  using unat_ALIGN_UP [of 12 x] by simp

lemma ALIGN_UP_64 [word_to_nat]:
  "unat x + 63 < 18446744073709551616 \<Longrightarrow> unat (ALIGN_UP x 64) = (unat x + 63) div 64 * 64"
  using unat_ALIGN_UP [of 6 x] by simp

end
