(* ===== verification/Mem_Utils.thy ===== *)
theory Mem_Utils
  imports Kernel_Helper
begin

text \<open>
  Byte-addressed memory as the kernel sees it, little-endian loads and stores of the widths the
  code uses, and the four routines of \<^verbatim>\<open>src/kernel/util/mem_utils.c\<close> as the loops they
  are.  The lemmas say what each loop does to every byte of memory, so that the other components
  reason about them without unfolding a loop.
\<close>

type_synonym mem = "u64 \<Rightarrow> u8"

section \<open>Little-endian access\<close>

fun load_le :: "mem \<Rightarrow> u64 \<Rightarrow> nat \<Rightarrow> u64" where
  "load_le m a 0 = 0"
| "load_le m a (Suc n) = ucast (m a) OR push_bit 8 (load_le m (a + 1) n)"

fun store_le :: "mem \<Rightarrow> u64 \<Rightarrow> nat \<Rightarrow> u64 \<Rightarrow> mem" where
  "store_le m a 0 v = m"
| "store_le m a (Suc n) v = store_le (m(a := ucast v)) (a + 1) n (drop_bit 8 v)"

definition load64 :: "mem \<Rightarrow> u64 \<Rightarrow> u64" where "load64 m a = load_le m a 8"
definition load32 :: "mem \<Rightarrow> u64 \<Rightarrow> u32" where "load32 m a = ucast (load_le m a 4)"
definition load16 :: "mem \<Rightarrow> u64 \<Rightarrow> u16" where "load16 m a = ucast (load_le m a 2)"
definition store64 :: "mem \<Rightarrow> u64 \<Rightarrow> u64 \<Rightarrow> mem" where "store64 m a v = store_le m a 8 v"

lemma load_le_cong:
  "(\<And>i. i < n \<Longrightarrow> m (a + of_nat i) = m' (a + of_nat i)) \<Longrightarrow> load_le m a n = load_le m' a n"
proof (induction n arbitrary: a)
  case 0
  then show ?case by simp
next
  case (Suc n)
  have "m (a + 1 + of_nat i) = m' (a + 1 + of_nat i)" if "i < n" for i
    using Suc.prems [of "Suc i"] that by (simp add: add.assoc)
  then have "load_le m (a + 1) n = load_le m' (a + 1) n" by (rule Suc.IH)
  with Suc.prems [of 0] show ?case by simp
qed

lemma store_le_other:
  "(\<And>i. i < n \<Longrightarrow> b \<noteq> a + of_nat i) \<Longrightarrow> store_le m a n v b = m b"
proof (induction n arbitrary: m a v)
  case 0
  then show ?case by simp
next
  case (Suc n)
  have "b \<noteq> a + 1 + of_nat i" if "i < n" for i
    using Suc.prems [of "Suc i"] that by (simp add: add.assoc)
  with Suc.IH have "store_le (m(a := ucast v)) (a + 1) n (drop_bit 8 v) b = (m(a := ucast v)) b"
    by blast
  with Suc.prems [of 0] show ?case by simp
qed

lemma of_nat_u64_inject:
  "i < 18446744073709551616 \<Longrightarrow> j < 18446744073709551616 \<Longrightarrow> (of_nat i :: u64) = of_nat j \<longleftrightarrow> i = j"
  by (metis unat_of_nat_u64)

lemma load_store_le_same:
  "n < 18446744073709551616 \<Longrightarrow> load_le (store_le m a n v) a n = take_bit (8 * n) v"
proof (induction n arbitrary: m a v)
  case 0
  then show ?case by simp
next
  case (Suc n)
  have "a \<noteq> a + 1 + of_nat i" if "i < n" for i
    using of_nat_u64_inject [of 0 "Suc i"] that Suc.prems by (simp add: add.assoc)
  then have head: "store_le (m(a := ucast v)) (a + 1) n (drop_bit 8 v) a = ucast v"
    by (subst store_le_other) auto
  have "ucast (ucast v :: u8) OR push_bit 8 (take_bit (8 * n) (drop_bit 8 v)) = take_bit (8 + 8 * n) v"
    by (rule bit_eqI) (auto simp: bit_simps)
  with Suc head show ?case by simp
qed

lemma load64_store64_same [simp]: "load64 (store64 m a v) a = v"
  unfolding load64_def store64_def
  by (subst load_store_le_same) (simp_all add: take_bit_word_eq_self)

lemma bit_load_le:
  "n \<le> 8 \<Longrightarrow> bit (load_le m a n) k \<longleftrightarrow> k < 8 * n \<and> bit (m (a + of_nat (k div 8))) (k mod 8)"
proof (induction n arbitrary: a k)
  case 0
  then show ?case by simp
next
  case (Suc n)
  show ?case
  proof (cases "k < 8")
    case True
    then show ?thesis by (simp add: bit_simps)
  next
    case False
    then obtain j where k: "k = j + 8" by (metis add.commute le_iff_add not_less)
    have "\<not> bit (m a) k" using False by (auto dest: bit_imp_le_length)
    then have "bit (load_le m a (Suc n)) k \<longleftrightarrow> k < 64 \<and> bit (load_le m (a + 1) n) j"
      using k by (simp add: bit_simps)
    moreover have "(j + 8) div 8 = Suc (j div 8)" "(j + 8) mod 8 = j mod 8" by simp_all
    ultimately show ?thesis using Suc k by (auto simp: add.assoc)
  qed
qed

lemma bit_load64: "bit (load64 m a) k \<longleftrightarrow> k < 64 \<and> bit (m (a + of_nat (k div 8))) (k mod 8)"
  by (simp add: load64_def bit_load_le)

text \<open>Qwords at two different multiples of 8 do not overlap.\<close>

lemma aligned_no_wrap: "(a :: u64) mod 8 = 0 \<Longrightarrow> i < 8 \<Longrightarrow> unat (a + of_nat i) = unat a + i"
proof -
  assume a: "a mod 8 = 0" and i: "i < 8"
  from a have "unat a mod 8 = 0"
    using unat_mod_word [of a 8] by simp
  with u64_bound [of a] i have "unat a + i < 18446744073709551616" by presburger
  with i show ?thesis by (simp add: unat_add_u64 unat_of_nat_u64)
qed

lemma aligned_apart:
  assumes "(a :: u64) mod 8 = 0" "b mod 8 = 0" "a \<noteq> b" "i < 8" "j < 8"
  shows "a + of_nat i \<noteq> b + of_nat j"
proof
  assume "a + of_nat i = b + of_nat j"
  then have "unat a + i = unat b + j"
    using aligned_no_wrap [OF assms(1,4)] aligned_no_wrap [OF assms(2,5)] by simp
  moreover have "unat a mod 8 = 0" "unat b mod 8 = 0"
    using assms(1,2) unat_mod_word [of a 8] unat_mod_word [of b 8] by simp_all
  ultimately have "unat a = unat b" using assms(4,5) by presburger
  with assms(3) show False by (simp add: word_eq_by_unat)
qed

lemma load64_store64_other:
  "a mod 8 = 0 \<Longrightarrow> b mod 8 = 0 \<Longrightarrow> a \<noteq> b \<Longrightarrow> load64 (store64 m a v) b = load64 m b"
  unfolding load64_def store64_def
  by (rule load_le_cong, rule store_le_other) (metis aligned_apart)

lemma load64_store64:
  "a mod 8 = 0 \<Longrightarrow> b mod 8 = 0 \<Longrightarrow> load64 (store64 m a v) b = (if b = a then v else load64 m b)"
  by (simp add: load64_store64_other)

section \<open>Fill, copy and compare\<close>

function Imemset_loop :: "mem \<Rightarrow> u64 \<Rightarrow> u8 \<Rightarrow> u64 \<Rightarrow> u64 \<Rightarrow> mem" where
  "Imemset_loop m p val i len =
     (if i < len then Imemset_loop (m(p := val)) (p + 1) val (i + 1) len else m)"
  by pat_completeness auto
termination
  by (relation "measure (\<lambda>(m, p, v, i, n). unat n - unat i)") (auto simp: count_up_less)

definition Imemset :: "mem \<Rightarrow> u64 \<Rightarrow> u8 \<Rightarrow> u64 \<Rightarrow> mem" where
  "Imemset m addr val len = Imemset_loop m addr val 0 len"


declare Imemset_loop.simps [simp del]

text \<open>
  \<open>within a n x\<close>: the address \<open>x\<close> is one of the \<open>n\<close> bytes from \<open>a\<close> on, in the
  wrapping arithmetic of the address space.
\<close>

definition within :: "u64 \<Rightarrow> u64 \<Rightarrow> u64 \<Rightarrow> bool" where
  "within a n x \<longleftrightarrow> x - a < n"

lemma within_iff:
  assumes "unat a + unat n < 18446744073709551616"
  shows "within a n x \<longleftrightarrow> unat a \<le> unat x \<and> unat x < unat a + unat n"
proof
  assume "within a n x"
  then have d: "unat (x - a) < unat n" by (simp add: within_def less_by_unat)
  then have "unat (a + (x - a)) = unat a + unat (x - a)" using assms by (intro unat_add_u64) linarith
  then show "unat a \<le> unat x \<and> unat x < unat a + unat n" using d by simp
next
  assume "unat a \<le> unat x \<and> unat x < unat a + unat n"
  then show "within a n x" by (simp add: within_def less_by_unat unat_sub_word le_by_unat less_diff_conv2)
qed

lemma Imemset_loop_eq:
  "Imemset_loop m (a + i) v i n x = (if i \<le> x - a \<and> x - a < n then v else m x)"
proof (induction m "a + i" v i n rule: Imemset_loop.induct)
  case (1 m v i n)
  show ?case
  proof (cases "i < n")
    case True
    have "Imemset_loop m (a + i) v i n x = Imemset_loop (m(a + i := v)) (a + (i + 1)) v (i + 1) n x"
      using True by (subst Imemset_loop.simps) (simp add: add.assoc)
    also have "\<dots> = (if i + 1 \<le> x - a \<and> x - a < n then v else (m(a + i := v)) x)"
      using "1.hyps" [OF True] by (simp add: add.assoc)
    finally show ?thesis
      using True by (auto simp: word_Suc_le_iff)
  next
    case False
    then show ?thesis by (subst Imemset_loop.simps) auto
  qed
qed

lemma Imemset_eq: "Imemset m a v n x = (if within a n x then v else m x)"
  using Imemset_loop_eq [of m a 0 v n x] by (simp add: Imemset_def within_def)

function Imemcpy_loop :: "mem \<Rightarrow> u64 \<Rightarrow> u64 \<Rightarrow> u64 \<Rightarrow> u64 \<Rightarrow> mem" where
  "Imemcpy_loop m dest src i len =
     (if i < len then Imemcpy_loop (m(dest + i := m (src + i))) dest src (i + 1) len else m)"
  by pat_completeness auto
termination
  by (relation "measure (\<lambda>(m, d, s, i, n). unat n - unat i)") (auto simp: count_up_less)

declare Imemcpy_loop.simps [simp del]

definition Imemcpy :: "mem \<Rightarrow> u64 \<Rightarrow> u64 \<Rightarrow> u64 \<Rightarrow> mem" where
  "Imemcpy m dest src len = Imemcpy_loop m dest src 0 len"

text \<open>
  The copy runs upwards, so a source byte must not have been overwritten before it is read: the
  two regions are disjoint.
\<close>

definition disjoint_regions :: "u64 \<Rightarrow> u64 \<Rightarrow> u64 \<Rightarrow> bool" where
  "disjoint_regions a b n \<longleftrightarrow> (\<forall>x. \<not> (within a n x \<and> within b n x))"

lemma disjoint_regionsD:
  "disjoint_regions d s n \<Longrightarrow> j < n \<Longrightarrow> i < n \<Longrightarrow> s + j \<noteq> d + i"
  unfolding disjoint_regions_def within_def by (metis add_diff_cancel_left')

lemma Imemcpy_loop_eq:
  "disjoint_regions d s n \<Longrightarrow>
   Imemcpy_loop m d s i n x = (if i \<le> x - d \<and> x - d < n then m (s + (x - d)) else m x)"
proof (induction m d s i n rule: Imemcpy_loop.induct)
  case (1 m d s i n)
  show ?case
  proof (cases "i < n")
    case True
    let ?m = "m(d + i := m (s + i))"
    have "Imemcpy_loop m d s i n x = Imemcpy_loop ?m d s (i + 1) n x"
      using True by (subst Imemcpy_loop.simps) simp
    also have "\<dots> = (if i + 1 \<le> x - d \<and> x - d < n then ?m (s + (x - d)) else ?m x)"
      using "1.IH" [OF True "1.prems"] .
    also have "\<dots> = (if i \<le> x - d \<and> x - d < n then m (s + (x - d)) else m x)"
      using disjoint_regionsD [OF "1.prems" _ True, of "x - d"] True
      by (auto simp: word_Suc_le_iff)
    finally show ?thesis .
  next
    case False
    then show ?thesis by (subst Imemcpy_loop.simps) auto
  qed
qed

lemma Imemcpy_eq:
  "disjoint_regions d s n \<Longrightarrow>
   Imemcpy m d s n x = (if within d n x then m (s + (x - d)) else m x)"
  by (simp add: Imemcpy_def Imemcpy_loop_eq within_def)

text \<open>\<^verbatim>\<open>Istrncmp\<close> compares exactly \<open>length\<close> bytes: it does not stop at a NUL.\<close>

function Istrncmp_loop :: "mem \<Rightarrow> u64 \<Rightarrow> u64 \<Rightarrow> u64 \<Rightarrow> u64 \<Rightarrow> int" where
  "Istrncmp_loop m dp sp i len =
     (if i < len
      then (if m (dp + i) \<noteq> m (sp + i) then uint (m (dp + i)) - uint (m (sp + i))
            else Istrncmp_loop m dp sp (i + 1) len)
      else 0)"
  by pat_completeness auto
termination
  by (relation "measure (\<lambda>(m, d, s, i, n). unat n - unat i)") (auto simp: count_up_less)

declare Istrncmp_loop.simps [simp del]

definition Istrncmp :: "mem \<Rightarrow> u64 \<Rightarrow> u64 \<Rightarrow> u64 \<Rightarrow> int" where
  "Istrncmp m cmp1 cmp2 len = Istrncmp_loop m cmp1 cmp2 0 len"

lemma Istrncmp_loop_zero_iff:
  "Istrncmp_loop m a b i n = 0 \<longleftrightarrow> (\<forall>j. i \<le> j \<and> j < n \<longrightarrow> m (a + j) = m (b + j))"
proof (induction m a b i n rule: Istrncmp_loop.induct)
  case (1 m a b i n)
  show ?case
  proof (cases "i < n \<and> m (a + i) = m (b + i)")
    case True
    then have "Istrncmp_loop m a b i n = Istrncmp_loop m a b (i + 1) n"
      by (subst Istrncmp_loop.simps) simp
    moreover have "(\<forall>j. i + 1 \<le> j \<and> j < n \<longrightarrow> m (a + j) = m (b + j)) \<longleftrightarrow>
        (\<forall>j. i \<le> j \<and> j < n \<longrightarrow> m (a + j) = m (b + j))"
      using True by (metis order_le_less word_Suc_le_iff)
    ultimately show ?thesis using "1" True by simp
  next
    case False
    then show ?thesis
      by (subst Istrncmp_loop.simps) (auto simp flip: word_uint_eq_iff)
  qed
qed

lemma Istrncmp_zero_iff:
  "Istrncmp m a b n = 0 \<longleftrightarrow> (\<forall>j < n. m (a + j) = m (b + j))"
  by (simp add: Istrncmp_def Istrncmp_loop_zero_iff)

text \<open>\<^verbatim>\<open>while (count-- > 0)\<close>: the test reads the counter before it is decremented.\<close>

function Imemcmp :: "mem \<Rightarrow> u64 \<Rightarrow> u64 \<Rightarrow> u64 \<Rightarrow> int" where
  "Imemcmp m s1 s2 count =
     (if 0 < count
      then (if m s1 \<noteq> m s2 then (if m s1 < m s2 then - 1 else 1)
            else Imemcmp m (s1 + 1) (s2 + 1) (count - 1))
      else 0)"
  by pat_completeness auto
termination
  by (relation "measure (\<lambda>(m, a, b, n). unat n)") (auto simp: unat_sub_word le_by_unat less_by_unat)

declare Imemcmp.simps [simp del]

lemma Imemcmp_zero_iff:
  "Imemcmp m a b n = 0 \<longleftrightarrow> (\<forall>j < n. m (a + j) = m (b + j))"
proof (induction m a b n rule: Imemcmp.induct)
  case (1 m a b n)
  show ?case
  proof (cases "0 < n \<and> m a = m b")
    case True
    then have "Imemcmp m a b n = Imemcmp m (a + 1) (b + 1) (n - 1)"
      by (subst Imemcmp.simps) simp
    moreover have "(\<forall>j < n - 1. m (a + 1 + j) = m (b + 1 + j)) \<longleftrightarrow> (\<forall>j < n. m (a + j) = m (b + j))"
      (is "?l \<longleftrightarrow> ?r")
    proof
      assume l: ?l
      show ?r
      proof (intro allI impI)
        fix j assume j: "j < n"
        show "m (a + j) = m (b + j)"
        proof (cases "j = 0")
          case False
          then have "j - 1 < n - 1"
            using j True by (simp add: less_by_unat unat_sub_word le_by_unat word_eq_by_unat)
          with l have "m (a + 1 + (j - 1)) = m (b + 1 + (j - 1))" by blast
          then show ?thesis by simp
        qed (use True in simp)
      qed
    next
      assume r: ?r
      show ?l
      proof (intro allI impI)
        fix j assume j: "j < n - 1"
        then have "j + 1 < n"
          using True by (simp add: less_by_unat unat_sub_word le_by_unat unat_Suc_less [OF j])
        with r have "m (a + (j + 1)) = m (b + (j + 1))" by blast
        then show "m (a + 1 + j) = m (b + 1 + j)" by (simp only: ac_simps)
      qed
    qed
    ultimately show ?thesis using "1" True by simp
  next
    case False
    then show ?thesis
      by (subst Imemcmp.simps) (auto simp: word_gt_0 intro: exI [of _ 0])
  qed
qed

end
