(* ===== verification/BitMap.thy ===== *)
theory BitMap
  imports Kernel_Helper
begin

text \<open>
  \<^verbatim>\<open>src/kernel/util/BitMap.c\<close>: the bitmap, its single-bit and range operations.
  \<^verbatim>\<open>data\<close> is a flexible array member at the end of the struct, so the bytes behind the
  \<open>bm_size\<close> bits are the memory that follows: \<open>bm_data\<close> is a function of the byte index and
  a write past the end is visible in it.  Indices are 64-bit and wrap; the loop over whole bytes tests
  \<^verbatim>\<open>i + 8 <= end\<close> and does not end when that sum wraps, which is the value
  \<^term>\<open>None\<close>.  The lemmas read every operation as an update of the set of bits \<open>bm_bit\<close>.
\<close>

record bit_map =
  bm_size :: u64
  bm_data :: "u64 \<Rightarrow> u8"

section \<open>Single bits\<close>

definition bitmap_set_value :: "bit_map \<Rightarrow> u64 \<Rightarrow> u8 \<Rightarrow> int \<times> bit_map" where
  "bitmap_set_value bmap index val =
     (let byte_ind = index div 8; offset = index mod 8 in
      if byte_ind > bm_size bmap div 8 then (- 1, bmap)
      else let val = val AND 1 in
        (0, bmap\<lparr>bm_data := (bm_data bmap)
               (byte_ind := bm_data bmap byte_ind OR push_bit (unat offset) val)\<rparr>))"

definition bitmap_set :: "bit_map \<Rightarrow> u64 \<Rightarrow> int \<times> bit_map" where
  "bitmap_set bmap index =
     (let byte_ind = index div 8; offset = index mod 8 in
      if byte_ind > bm_size bmap div 8 then (- 1, bmap)
      else (0, bmap\<lparr>bm_data := (bm_data bmap)
                    (byte_ind := bm_data bmap byte_ind OR push_bit (unat offset) 1)\<rparr>))"

definition bitmap_clear :: "bit_map \<Rightarrow> u64 \<Rightarrow> int \<times> bit_map" where
  "bitmap_clear bmap index =
     (let byte_ind = index div 8; offset = index mod 8 in
      if byte_ind > bm_size bmap div 8 then (- 1, bmap)
      else (0, bmap\<lparr>bm_data := (bm_data bmap)
                    (byte_ind := bm_data bmap byte_ind AND NOT (push_bit (unat offset) 1))\<rparr>))"

text \<open>The result is a byte, so the error value \<^verbatim>\<open>-1\<close> is 255.\<close>

definition bitmap_get :: "bit_map \<Rightarrow> u64 \<Rightarrow> u8" where
  "bitmap_get bmap index =
     (let byte_ind = index div 8; offset = index mod 8 in
      if byte_ind > bm_size bmap div 8 then - 1
      else drop_bit (unat offset) (bm_data bmap byte_ind AND push_bit (unat offset) 1))"

section \<open>Ranges\<close>

text \<open>
  The three loops of \<^verbatim>\<open>bitmap_set_len\<close> and \<^verbatim>\<open>bitmap_clear_len\<close>: bits up to a
  byte boundary, whole bytes, remaining bits.  \<open>put\<close> is the body's update of one byte at the bit
  index \<open>i\<close>, \<open>fill\<close> the value stored in a whole byte.
\<close>

definition set_bit_at :: "u64 \<Rightarrow> (u64 \<Rightarrow> u8) \<Rightarrow> u64 \<Rightarrow> u8" where
  "set_bit_at i d = d(i div 8 := d (i div 8) OR push_bit (unat (i mod 8)) 1)"

definition clear_bit_at :: "u64 \<Rightarrow> (u64 \<Rightarrow> u8) \<Rightarrow> u64 \<Rightarrow> u8" where
  "clear_bit_at i d = d(i div 8 := d (i div 8) AND NOT (push_bit (unat (i mod 8)) 1))"

function align_loop ::
  "(u64 \<Rightarrow> (u64 \<Rightarrow> u8) \<Rightarrow> u64 \<Rightarrow> u8) \<Rightarrow> u64 \<Rightarrow> u64 \<Rightarrow> (u64 \<Rightarrow> u8) \<Rightarrow> u64 \<times> (u64 \<Rightarrow> u8)"
where
  "align_loop put i stop d =
     (if i < stop \<and> i mod 8 \<noteq> 0 then align_loop put (i + 1) stop (put i d) else (i, d))"
  by pat_completeness auto
termination
  by (relation "measure (\<lambda>(p, i, stop, d). unat stop - unat i)") (auto simp: count_up_less)

partial_function (option) byte_loop ::
  "u8 \<Rightarrow> u64 \<Rightarrow> u64 \<Rightarrow> (u64 \<Rightarrow> u8) \<Rightarrow> (u64 \<times> (u64 \<Rightarrow> u8)) option"
where
  "byte_loop fill i stop d =
     (if i + 8 \<le> stop then byte_loop fill (i + 8) stop (d(i div 8 := fill)) else Some (i, d))"

function tail_loop ::
  "(u64 \<Rightarrow> (u64 \<Rightarrow> u8) \<Rightarrow> u64 \<Rightarrow> u8) \<Rightarrow> u64 \<Rightarrow> u64 \<Rightarrow> (u64 \<Rightarrow> u8) \<Rightarrow> u64 \<Rightarrow> u8"
where
  "tail_loop put i stop d = (if i < stop then tail_loop put (i + 1) stop (put i d) else d)"
  by pat_completeness auto
termination
  by (relation "measure (\<lambda>(p, i, stop, d). unat stop - unat i)") (auto simp: count_up_less)

declare align_loop.simps [simp del] tail_loop.simps [simp del]

definition range_loops ::
  "(u64 \<Rightarrow> (u64 \<Rightarrow> u8) \<Rightarrow> u64 \<Rightarrow> u8) \<Rightarrow> u8 \<Rightarrow> u64 \<Rightarrow> u64 \<Rightarrow> (u64 \<Rightarrow> u8) \<Rightarrow> (u64 \<Rightarrow> u8) option"
where
  "range_loops put fill start stop d = do {
     let (i, d) = align_loop put start stop d;
     (i, d) \<leftarrow> byte_loop fill i stop d;
     Some (tail_loop put i stop d)
   }"

definition bitmap_set_len :: "bit_map \<Rightarrow> u64 \<Rightarrow> u64 \<Rightarrow> (int \<times> bit_map) option" where
  "bitmap_set_len bmap startIndex len =
     (if startIndex > bm_size bmap \<or> len > bm_size bmap - startIndex then Some (- 1, bmap)
      else do {
        d \<leftarrow> range_loops set_bit_at 0xFF startIndex (startIndex + len) (bm_data bmap);
        Some (0, bmap\<lparr>bm_data := d\<rparr>)
      })"

definition bitmap_clear_len :: "bit_map \<Rightarrow> u64 \<Rightarrow> u64 \<Rightarrow> (int \<times> bit_map) option" where
  "bitmap_clear_len bmap startIndex len =
     (if startIndex > bm_size bmap \<or> len > bm_size bmap - startIndex then Some (- 1, bmap)
      else do {
        d \<leftarrow> range_loops clear_bit_at 0 startIndex (startIndex + len) (bm_data bmap);
        Some (0, bmap\<lparr>bm_data := d\<rparr>)
      })"

section \<open>The bits of the map\<close>

text \<open>\<open>data_bit d k\<close> is bit \<open>k mod 8\<close> of byte \<open>k div 8\<close>; the memory holds
  \<open>2 ^ 67\<close> bits.\<close>

definition data_bit :: "(u64 \<Rightarrow> u8) \<Rightarrow> nat \<Rightarrow> bool" where
  "data_bit d k = bit (d (of_nat (k div 8))) (k mod 8)"

definition bm_bit :: "bit_map \<Rightarrow> nat \<Rightarrow> bool" where
  "bm_bit bmap k = data_bit (bm_data bmap) k"

abbreviation (input) ALL_BITS :: nat where "ALL_BITS \<equiv> 147573952589676412928"

lemma byte_of_bit: "k < ALL_BITS \<Longrightarrow> (of_nat (k div 8) :: u64) = i div 8 \<longleftrightarrow> k div 8 = unat i div 8"
  by (simp add: word_eq_by_unat unat_of_nat_u64 unat_div_word)

lemma byte_of_word: "(of_nat (unat i div 8) :: u64) = i div 8"
  using div_le_dividend [of "unat i" 8] u64_bound [of i]
  by (simp add: word_eq_by_unat unat_of_nat_u64 unat_div_word)

lemma same_bit: "k div 8 = unat i div 8 \<Longrightarrow> k mod 8 = unat i mod 8 \<longleftrightarrow> k = unat i"
  by (metis div_mult_mod_eq)

lemma data_bit_set_bit_at:
  "k < ALL_BITS \<Longrightarrow> data_bit (set_bit_at i d) k \<longleftrightarrow> k = unat i \<or> data_bit d k"
  by (cases "k div 8 = unat i div 8")
     (auto simp: data_bit_def set_bit_at_def byte_of_bit byte_of_word bit_or_single unat_mod_word
        same_bit simp del: push_bit_of_1)

lemma data_bit_clear_bit_at:
  "k < ALL_BITS \<Longrightarrow> data_bit (clear_bit_at i d) k \<longleftrightarrow> k \<noteq> unat i \<and> data_bit d k"
  by (cases "k div 8 = unat i div 8")
     (auto simp: data_bit_def clear_bit_at_def byte_of_bit byte_of_word bit_and_not_single unat_mod_word
        same_bit simp del: push_bit_of_1)

lemma data_bit_fill:
  "k < ALL_BITS \<Longrightarrow> data_bit (d(i div 8 := x)) k =
     (if k div 8 = unat i div 8 then bit x (k mod 8) else data_bit d k)"
  by (simp add: data_bit_def byte_of_bit)

lemma data_eqI: "(\<And>k. k < ALL_BITS \<Longrightarrow> data_bit d k = data_bit e k) \<Longrightarrow> d = e"
proof (rule ext, rule bit_word_eqI)
  fix x :: u64 and n
  assume eq: "\<And>k. k < ALL_BITS \<Longrightarrow> data_bit d k = data_bit e k" and n: "n < LENGTH(8)"
  from u64_bound [of x] n have "unat x * 8 + n < ALL_BITS" by simp
  from eq [OF this] n show "bit (d x) n = bit (e x) n" by (simp add: data_bit_def)
qed

text \<open>
  One contract for both directions: a byte update that changes one bit to \<open>v\<close>, and a byte all of
  whose bits are \<open>v\<close>.  The three loops then set exactly the bits of the range to \<open>v\<close>.
\<close>

locale range_writer =
  fixes put :: "u64 \<Rightarrow> (u64 \<Rightarrow> u8) \<Rightarrow> u64 \<Rightarrow> u8"
    and fill :: u8
    and v :: bool
  assumes put_bit: "k < ALL_BITS \<Longrightarrow> data_bit (put i d) k = (if k = unat i then v else data_bit d k)"
    and fill_bit: "j < 8 \<Longrightarrow> bit fill j = v"
begin

definition written :: "nat \<Rightarrow> nat \<Rightarrow> (u64 \<Rightarrow> u8) \<Rightarrow> (u64 \<Rightarrow> u8) \<Rightarrow> bool" where
  "written a b d d' \<longleftrightarrow>
     (\<forall>k < ALL_BITS. data_bit d' k = (if a \<le> k \<and> k < b then v else data_bit d k))"

lemma written_refl: "b \<le> a \<Longrightarrow> written a b d d"
  by (auto simp: written_def)

lemma written_trans:
  "written a b d d' \<Longrightarrow> written b c d' d'' \<Longrightarrow> a \<le> b \<Longrightarrow> b \<le> c \<Longrightarrow> written a c d d''"
  by (auto simp: written_def)

lemma written_put: "written (unat i) (Suc (unat i)) d (put i d)"
  by (auto simp: written_def put_bit)

lemma block_of_8: "(a :: nat) mod 8 = 0 \<Longrightarrow> k div 8 = a div 8 \<longleftrightarrow> a \<le> k \<and> k < a + 8"
proof -
  assume "a mod 8 = 0"
  then obtain q where q: "a = 8 * q" by (auto simp: mod_eq_0_iff_dvd)
  have "k div 8 = q \<longleftrightarrow> q \<le> k div 8 \<and> k div 8 < q + 1" by linarith
  also have "\<dots> \<longleftrightarrow> 8 * q \<le> k \<and> k < 8 * q + 8"
    by (simp add: less_eq_div_iff_mult_less_eq div_less_iff_less_mult mult.commute add.commute)
  finally show ?thesis using q by simp
qed

lemma written_fill:
  assumes "unat i mod 8 = 0"
  shows "written (unat i) (unat i + 8) d (d(i div 8 := fill))"
  unfolding written_def
proof (intro allI impI)
  fix k
  assume "k < ALL_BITS"
  moreover have "bit fill (k mod 8) = v" by (rule fill_bit) simp
  ultimately show "data_bit (d(i div 8 := fill)) k =
      (if unat i \<le> k \<and> k < unat i + 8 then v else data_bit d k)"
    using block_of_8 [OF assms, of k] by (simp only: data_bit_fill)
qed

lemma tail_loop_written: "i \<le> stop \<Longrightarrow> written (unat i) (unat stop) d (tail_loop put i stop d)"
proof (induction "unat stop - unat i" arbitrary: i d rule: less_induct)
  case less
  show ?case
  proof (cases "i < stop")
    case True
    then have "i + 1 \<le> stop" by (simp add: word_Suc_le_iff)
    then have "written (Suc (unat i)) (unat stop) (put i d) (tail_loop put (i + 1) stop (put i d))"
      using less.hyps [OF count_up_less [OF True], of "put i d"] by (simp add: unat_Suc_less [OF True])
    then have "written (unat i) (unat stop) d (tail_loop put (i + 1) stop (put i d))"
      using written_trans [OF written_put] True by (simp add: less_by_unat)
    with True show ?thesis by (subst tail_loop.simps) simp
  next
    case False
    with less.prems show ?thesis
      by (subst tail_loop.simps) (simp add: written_refl le_by_unat less_by_unat)
  qed
qed

lemma align_loop_written:
  assumes "i \<le> stop"
  obtains j e where "align_loop put i stop d = (j, e)" "i \<le> j" "j \<le> stop"
    "j = stop \<or> unat j mod 8 = 0" "written (unat i) (unat j) d e"
  using assms
proof (induction "unat stop - unat i" arbitrary: i d thesis rule: less_induct)
  case less
  show ?case
  proof (cases "i < stop \<and> i mod 8 \<noteq> 0")
    case True
    then have le: "i + 1 \<le> stop" using word_Suc_le_iff [of i stop stop] by blast
    have "unat stop - unat (i + 1) < unat stop - unat i" using True count_up_less by blast
    then obtain j e where IH: "align_loop put (i + 1) stop (put i d) = (j, e)" "i + 1 \<le> j" "j \<le> stop"
      "j = stop \<or> unat j mod 8 = 0" "written (unat (i + 1)) (unat j) (put i d) e"
      using less.hyps le by blast
    have ij: "i < j" using IH(2) True word_Suc_le_iff [of i stop j] by blast
    have "written (unat i) (unat j) d e"
      using IH(5) ij True written_trans [OF written_put]
      by (simp add: unat_Suc_less [of i stop] less_by_unat)
    moreover have "align_loop put i stop d = (j, e)"
      using True IH(1) by (subst align_loop.simps) simp
    ultimately show ?thesis
      using less.prems(1) [OF _ order_less_imp_le [OF ij] IH(3,4)] by blast
  next
    case False
    then have eq: "align_loop put i stop d = (i, d)"
      by (subst align_loop.simps) auto
    have al: "i = stop \<or> unat i mod 8 = 0"
      using False less.prems(2) unat_mod_word [of i 8] by (cases "i = stop") (simp_all del: mod_0_imp_dvd)
    show ?thesis
      by (rule less.prems(1) [OF eq order_refl less.prems(2) al written_refl]) simp
  qed
qed

lemma byte_loop_written:
  assumes "i \<le> stop" "i = stop \<or> unat i mod 8 = 0" "unat stop < 18446744073709551608"
  obtains j e where "byte_loop fill i stop d = Some (j, e)" "i \<le> j" "j \<le> stop"
    "written (unat i) (unat j) d e"
  using assms
proof (induction "unat stop - unat i" arbitrary: i d thesis rule: less_induct)
  case less
  have plus: "unat (i + 8) = unat i + 8"
    using less.prems(2,4) by (subst unat_add_u64) (simp_all add: le_by_unat)
  show ?case
  proof (cases "i + 8 \<le> stop")
    case True
    then have i8: "unat i + 8 \<le> unat stop" by (simp add: le_by_unat plus)
    with less.prems(3) have al: "unat i mod 8 = 0" by auto
    have dec: "unat stop - unat (i + 8) < unat stop - unat i" using i8 by (simp add: plus)
    have al8: "i + 8 = stop \<or> unat (i + 8) mod 8 = 0" using al by (simp only: plus mod_add_self2) simp
    obtain j e where IH: "byte_loop fill (i + 8) stop (d(i div 8 := fill)) = Some (j, e)"
      "i + 8 \<le> j" "j \<le> stop" "written (unat (i + 8)) (unat j) (d(i div 8 := fill)) e"
      using less.hyps [OF dec _ True al8 less.prems(4)] by blast
    have "written (unat i) (unat j) d e"
      using written_trans [OF written_fill [OF al]] IH(2,4) by (simp add: plus le_by_unat)
    moreover have "byte_loop fill i stop d = Some (j, e)"
      using True IH(1) by (subst byte_loop.simps) simp
    moreover have "i \<le> j" using IH(2) by (simp add: le_by_unat plus)
    ultimately show ?thesis using less.prems(1) [OF _ _ IH(3)] by blast
  next
    case False
    then have eq: "byte_loop fill i stop d = Some (i, d)"
      by (subst byte_loop.simps) simp
    show ?thesis
      by (rule less.prems(1) [OF eq order_refl less.prems(2) written_refl]) simp
  qed
qed

lemma range_loops_written:
  assumes "start \<le> stop" "unat stop < 18446744073709551608"
  obtains e where "range_loops put fill start stop d = Some e" "written (unat start) (unat stop) d e"
proof -
  obtain i d1 where 1: "align_loop put start stop d = (i, d1)" "start \<le> i" "i \<le> stop"
    "i = stop \<or> unat i mod 8 = 0" "written (unat start) (unat i) d d1"
    using align_loop_written [OF assms(1)] by blast
  obtain j d2 where 2: "byte_loop fill i stop d1 = Some (j, d2)" "i \<le> j" "j \<le> stop"
    "written (unat i) (unat j) d1 d2"
    using byte_loop_written [OF 1(3,4) assms(2)] by blast
  have "written (unat start) (unat stop) d (tail_loop put j stop d2)"
    using written_trans [OF written_trans [OF 1(5) 2(4)] tail_loop_written [OF 2(3)]] 1(2) 2(2,3)
    by (simp add: le_by_unat)
  moreover have "range_loops put fill start stop d = Some (tail_loop put j stop d2)"
    by (simp add: range_loops_def 1(1) 2(1))
  ultimately show ?thesis using that by blast
qed

end

interpretation range_set: range_writer set_bit_at "0xFF" True
proof
  fix j :: nat
  assume "j < 8"
  then have "bit (mask 8 :: u8) j" by (simp add: bit_mask_iff)
  then show "bit (0xFF :: u8) j = True" by (simp add: mask_eq_exp_minus_1)
qed (simp add: data_bit_set_bit_at)

interpretation range_clear: range_writer clear_bit_at 0 False
  by unfold_locales (simp_all add: data_bit_clear_bit_at)

section \<open>What the range operations do\<close>

lemma bitmap_set_len_spec:
  assumes "unat start + unat len \<le> unat (bm_size b)" "unat (bm_size b) < 18446744073709551608"
  obtains b' where "bitmap_set_len b start len = Some (0, b')" "bm_size b' = bm_size b"
    "\<And>k. k < ALL_BITS \<Longrightarrow> bm_bit b' k \<longleftrightarrow> unat start \<le> k \<and> k < unat start + unat len \<or> bm_bit b k"
proof -
  have sum: "unat (start + len) = unat start + unat len"
    using assms u64_bound [of "bm_size b"] by (simp add: unat_add_u64)
  have guard: "\<not> (start > bm_size b \<or> len > bm_size b - start)"
    using assms by (auto simp: less_by_unat unat_sub_word le_by_unat)
  obtain d where d: "range_loops set_bit_at 0xFF start (start + len) (bm_data b) = Some d"
    "range_set.written (unat start) (unat (start + len)) (bm_data b) d"
    using range_set.range_loops_written [of start "start + len" "bm_data b"] assms
    by (auto simp: le_by_unat sum)
  have "bitmap_set_len b start len = Some (0, b\<lparr>bm_data := d\<rparr>)"
    using guard d(1) by (simp add: bitmap_set_len_def)
  then show ?thesis
    by (rule that) (use d(2) in \<open>auto simp: range_set.written_def bm_bit_def sum\<close>)
qed

lemma bitmap_clear_len_spec:
  assumes "unat start + unat len \<le> unat (bm_size b)" "unat (bm_size b) < 18446744073709551608"
  obtains b' where "bitmap_clear_len b start len = Some (0, b')" "bm_size b' = bm_size b"
    "\<And>k. k < ALL_BITS \<Longrightarrow> bm_bit b' k \<longleftrightarrow> \<not> (unat start \<le> k \<and> k < unat start + unat len) \<and> bm_bit b k"
proof -
  have sum: "unat (start + len) = unat start + unat len"
    using assms u64_bound [of "bm_size b"] by (simp add: unat_add_u64)
  have guard: "\<not> (start > bm_size b \<or> len > bm_size b - start)"
    using assms by (auto simp: less_by_unat unat_sub_word le_by_unat)
  obtain d where d: "range_loops clear_bit_at 0 start (start + len) (bm_data b) = Some d"
    "range_clear.written (unat start) (unat (start + len)) (bm_data b) d"
    using range_clear.range_loops_written [of start "start + len" "bm_data b"] assms
    by (auto simp: le_by_unat sum)
  have "bitmap_clear_len b start len = Some (0, b\<lparr>bm_data := d\<rparr>)"
    using guard d(1) by (simp add: bitmap_clear_len_def)
  then show ?thesis
    by (rule that) (use d(2) in \<open>auto simp: range_clear.written_def bm_bit_def sum\<close>)
qed


section \<open>What the single-bit operations do\<close>

lemma bitmap_get_eq:
  "i div 8 \<le> bm_size b div 8 \<Longrightarrow> bitmap_get b i = (if bm_bit b (unat i) then 1 else 0)"
  unfolding bitmap_get_def Let_def bm_bit_def data_bit_def byte_of_word
  by (auto intro!: bit_word_eqI simp: bit_simps bit_mask_single unat_mod_word)

lemma bitmap_set_spec:
  assumes "i div 8 \<le> bm_size b div 8"
  obtains b' where "bitmap_set b i = (0, b')" "bm_size b' = bm_size b"
    "\<And>k. k < ALL_BITS \<Longrightarrow> bm_bit b' k \<longleftrightarrow> k = unat i \<or> bm_bit b k"
proof
  show "bitmap_set b i = (0, b\<lparr>bm_data := set_bit_at i (bm_data b)\<rparr>)"
    using assms unfolding bitmap_set_def set_bit_at_def Let_def by simp
qed (simp_all add: bm_bit_def data_bit_set_bit_at)

lemma bitmap_clear_spec:
  assumes "i div 8 \<le> bm_size b div 8"
  obtains b' where "bitmap_clear b i = (0, b')" "bm_size b' = bm_size b"
    "\<And>k. k < ALL_BITS \<Longrightarrow> bm_bit b' k \<longleftrightarrow> k \<noteq> unat i \<and> bm_bit b k"
proof
  show "bitmap_clear b i = (0, b\<lparr>bm_data := clear_bit_at i (bm_data b)\<rparr>)"
    using assms unfolding bitmap_clear_def clear_bit_at_def Let_def by simp
qed (simp_all add: bm_bit_def data_bit_clear_bit_at)

end
