(* ===== verification/Find_Run.thy ===== *)
theory Find_Run
  imports Prelude
begin

text \<open>
  \<^verbatim>\<open>find_run_in_word\<close> of \<^verbatim>\<open>src/kernel/Memory/PMM/mem_map.c\<close>: the lowest position
  of \<open>n\<close> consecutive clear bits in a 64-bit word, found by doubling, and the two compiler
  intrinsics the allocator uses.  The counters are \<^verbatim>\<open>unsigned\<close>, and a shift by 64 or more, which C leaves
  undefined, is \<^const>\<open>None\<close>; on lengths below 128 there is none, and the code computes \<open>find_run_nat\<close>, the same
  search on natural numbers.
\<close>

text \<open>\<^verbatim>\<open>__builtin_ctzll\<close> and \<^verbatim>\<open>__builtin_clzll\<close>; undefined for 0 in C, where
  the code never calls them.\<close>

definition ctzll :: "u64 \<Rightarrow> nat" where
  "ctzll w = length (takeWhile (\<lambda>k. \<not> bit w k) [0..<64])"

definition clzll :: "u64 \<Rightarrow> nat" where
  "clzll w = length (takeWhile (\<lambda>k. \<not> bit w k) (rev [0..<64]))"

partial_function (option) cover_loop :: "u64 \<Rightarrow> u32 \<Rightarrow> u32 \<Rightarrow> (u64 \<times> u32) option" where
  "cover_loop free_mask covered run_length =
     (if covered * 2 \<le> run_length
      then (if covered < 64
            then cover_loop (free_mask AND drop_bit (unat covered) free_mask) (covered * 2) run_length
            else None)
      else Some (free_mask, covered))"

definition find_run_in_word :: "u64 \<Rightarrow> u32 \<Rightarrow> int option" where
  "find_run_in_word word run_length = do {
     (free_mask, covered) \<leftarrow> cover_loop (NOT word) 1 run_length;
     free_mask \<leftarrow>
       (if covered < run_length
        then (if run_length - covered < 64
              then Some (free_mask AND drop_bit (unat (run_length - covered)) free_mask)
              else None)
        else Some free_mask);
     Some (if free_mask \<noteq> 0 then int (ctzll free_mask) else - 1)
   }"

section \<open>The same on natural numbers\<close>

function cover_nat :: "u64 \<Rightarrow> nat \<Rightarrow> nat \<Rightarrow> u64 \<times> nat" where
  "cover_nat free_mask covered run_length =
     (if 0 < covered \<and> covered * 2 \<le> run_length
      then cover_nat (free_mask AND drop_bit covered free_mask) (covered * 2) run_length
      else (free_mask, covered))"
  by pat_completeness auto
termination
  by (relation "measure (\<lambda>(m, c, n). n - c)") auto

declare cover_nat.simps [simp del]

definition find_run_nat :: "u64 \<Rightarrow> nat \<Rightarrow> int" where
  "find_run_nat word run_length =
     (let (free_mask, covered) = cover_nat (NOT word) 1 run_length;
          free_mask = (if covered < run_length
                       then free_mask AND drop_bit (run_length - covered) free_mask
                       else free_mask)
      in if free_mask \<noteq> 0 then int (ctzll free_mask) else - 1)"

section \<open>Trailing and leading zeros\<close>

lemma takeWhile_upt_first:
  assumes "bit (w :: u64) k" "\<forall>j < k. \<not> bit w j"
  shows "takeWhile (\<lambda>k. \<not> bit w k) [0..<64] = [0..<k]"
proof -
  have "k < 64" using assms(1) by (auto dest: bit_imp_le_length)
  then have "[0..<64] = [0..<k] @ k # [Suc k..<64]"
    by (metis append_eq_append_conv2 less_imp_le_nat upt_add_eq_append upt_conv_Cons le0 le_add_diff_inverse)
  with assms show ?thesis by (simp add: takeWhile_append)
qed

lemma first_bit_exists: "(w :: u64) \<noteq> 0 \<Longrightarrow> \<exists>k. bit w k \<and> (\<forall>j < k. \<not> bit w j)"
proof -
  assume "w \<noteq> 0"
  then obtain n where "bit w n" by (auto simp: bit_eq_iff)
  then show ?thesis by (rule exists_least_iff [THEN iffD1, OF exI])
qed

lemma ctzll_eqI: "bit w k \<Longrightarrow> \<forall>j < k. \<not> bit w j \<Longrightarrow> ctzll w = k"
  by (simp add: ctzll_def takeWhile_upt_first)

lemma ctzll_nonzero:
  assumes "w \<noteq> 0"
  shows "bit w (ctzll w)" "j < ctzll w \<Longrightarrow> \<not> bit w j" "ctzll w < 64"
proof -
  obtain k where "bit w k" "\<forall>j < k. \<not> bit w j" using first_bit_exists [OF assms] by blast
  moreover from this have "ctzll w = k" by (rule ctzll_eqI)
  ultimately show "bit w (ctzll w)" "j < ctzll w \<Longrightarrow> \<not> bit w j" "ctzll w < 64"
    by (auto dest: bit_imp_le_length)
qed

lemma clzll_aux: "length (takeWhile P (rev [0..<n])) \<le> n \<and>
   (\<forall>j. n - length (takeWhile P (rev [0..<n])) \<le> j \<and> j < n \<longrightarrow> P j) \<and>
   (length (takeWhile P (rev [0..<n])) < n \<longrightarrow> \<not> P (n - Suc (length (takeWhile P (rev [0..<n])))))"
proof (induction n)
  case 0
  then show ?case by simp
next
  case (Suc n)
  then show ?case by (auto simp: less_Suc_eq Suc_diff_le)
qed

lemma clzll_facts:
  "clzll w \<le> 64 \<and> (\<forall>j. 64 - clzll w \<le> j \<and> j < 64 \<longrightarrow> \<not> bit w j) \<and>
   (clzll w < 64 \<longrightarrow> bit w (64 - Suc (clzll w)))"
  unfolding clzll_def by (rule clzll_aux [of "\<lambda>k. \<not> bit w k" 64, unfolded not_not])

lemma clzll_bound: "clzll w \<le> 64"
  and clzll_clear: "64 - clzll w \<le> j \<Longrightarrow> j < 64 \<Longrightarrow> \<not> bit w j"
  and clzll_set: "clzll w < 64 \<Longrightarrow> bit w (63 - clzll w)"
  using clzll_facts [of w] by simp_all

section \<open>The doubling loop\<close>

text \<open>\<open>clear_run w k n\<close>: bits \<open>k .. k + n - 1\<close> of the word are clear and lie inside it.\<close>

definition clear_run :: "u64 \<Rightarrow> nat \<Rightarrow> nat \<Rightarrow> bool" where
  "clear_run w k n \<longleftrightarrow> k + n \<le> 64 \<and> (\<forall>j < n. \<not> bit w (k + j))"

lemma clear_run_split:
  "clear_run w k (a + b) \<longleftrightarrow> clear_run w k a \<and> clear_run w (k + a) b"
  unfolding clear_run_def
proof (intro iffI conjI allI impI)
  fix j assume "(k + a \<le> 64 \<and> (\<forall>j<a. \<not> bit w (k + j))) \<and> k + a + b \<le> 64 \<and> (\<forall>j<b. \<not> bit w (k + a + j))"
    and "j < a + b"
  then show "\<not> bit w (k + j)"
    by (metis add.assoc add_diff_inverse_nat add_less_cancel_left)
qed (auto simp: add.assoc)

text \<open>Two overlapping runs of length \<open>c\<close>, \<open>s \<le> c\<close> apart, are one run of length \<open>c + s\<close>.\<close>

lemma clear_run_overlap:
  assumes "s \<le> c"
  shows "clear_run w k (s + c) \<longleftrightarrow> clear_run w k c \<and> clear_run w (s + k) c"
proof -
  have "clear_run w k (c + s) \<longleftrightarrow> clear_run w k c \<and> clear_run w (k + c) s"
    by (rule clear_run_split)
  moreover have "clear_run w (k + s) c \<longleftrightarrow> clear_run w (k + s) (c - s) \<and> clear_run w (k + c) s"
    using clear_run_split [of w "k + s" "c - s" s] assms by simp
  moreover have "clear_run w k c \<longleftrightarrow> clear_run w k s \<and> clear_run w (k + s) (c - s)"
    using clear_run_split [of w k s "c - s"] assms by simp
  ultimately show ?thesis by (auto simp: add.commute)
qed

definition covers :: "u64 \<Rightarrow> u64 \<Rightarrow> nat \<Rightarrow> bool" where
  "covers w m c \<longleftrightarrow> (\<forall>k. bit m k \<longleftrightarrow> clear_run w k c \<and> k < 64)"

lemma covers_step:
  assumes "covers w m c" "s \<le> c" "0 < c"
  shows "covers w (m AND drop_bit s m) (s + c)"
proof -
  have "clear_run w k c \<Longrightarrow> k < 64" for k
    using assms(3) by (simp add: clear_run_def)
  with assms show ?thesis
    by (auto simp: covers_def bit_simps clear_run_overlap)
qed

lemma cover_nat_covers:
  "covers w m c \<Longrightarrow> 0 < c \<Longrightarrow> c \<le> n \<Longrightarrow>
   (case cover_nat m c n of (m', c') \<Rightarrow> covers w m' c' \<and> 0 < c' \<and> c' \<le> n \<and> n < 2 * c')"
proof (induction m c n rule: cover_nat.induct)
  case (1 m c n)
  show ?case
  proof (cases "c * 2 \<le> n")
    case True
    have "covers w (m AND drop_bit c m) (c * 2)"
      using covers_step [OF "1.prems"(1) order_refl "1.prems"(2)] by (simp add: mult_2_right)
    with True "1" show ?thesis by (subst cover_nat.simps) simp
  next
    case False
    with "1.prems" show ?thesis by (subst cover_nat.simps) simp
  qed
qed

lemma covers_NOT: "covers w (NOT w) 1"
  by (auto simp: covers_def clear_run_def bit_not_iff)

lemma find_run_covers:
  assumes "1 \<le> n"
  obtains m where "covers w m n"
    "find_run_nat w n = (if m \<noteq> 0 then int (ctzll m) else - 1)"
proof -
  obtain m c where mc: "cover_nat (NOT w) 1 n = (m, c)" by (cases "cover_nat (NOT w) 1 n")
  with cover_nat_covers [OF covers_NOT, of n w] assms
  have c: "covers w m c" "0 < c" "c \<le> n" "n < 2 * c" by simp_all
  show ?thesis
  proof (cases "c < n")
    case True
    have "covers w (m AND drop_bit (n - c) m) (n - c + c)"
      by (rule covers_step) (use c in auto)
    then show ?thesis
      using that True c(3) by (simp add: find_run_nat_def mc del: One_nat_def)
  next
    case False
    then show ?thesis
      using that [of m] c by (simp add: find_run_nat_def mc del: One_nat_def)
  qed
qed

lemma find_run_hit_iff:
  assumes "1 \<le> n"
  shows "find_run_nat w n = int k \<longleftrightarrow> clear_run w k n \<and> (\<forall>j < k. \<not> clear_run w j n)"
proof -
  obtain m where m: "covers w m n" "find_run_nat w n = (if m \<noteq> 0 then int (ctzll m) else - 1)"
    using find_run_covers [OF assms] by blast
  have bits: "bit m j \<longleftrightarrow> clear_run w j n" for j
    using m(1) assms by (auto simp: covers_def clear_run_def)
  show ?thesis
  proof (cases "m = 0")
    case True
    with m(2) bits show ?thesis by auto
  next
    case False
    with m(2) bits ctzll_nonzero [OF False] ctzll_eqI [of m k] show ?thesis by auto
  qed
qed

lemma find_run_miss_iff:
  assumes "1 \<le> n"
  shows "find_run_nat w n < 0 \<longleftrightarrow> (\<forall>k. \<not> clear_run w k n)"
proof -
  obtain m where m: "covers w m n" "find_run_nat w n = (if m \<noteq> 0 then int (ctzll m) else - 1)"
    using find_run_covers [OF assms] by blast
  have bits: "bit m j \<longleftrightarrow> clear_run w j n" for j
    using m(1) assms by (auto simp: covers_def clear_run_def)
  have "m = 0 \<longleftrightarrow> (\<forall>j. \<not> bit m j)"
    using ctzll_nonzero(1) [of m] by auto
  with m(2) bits show ?thesis by auto
qed

section \<open>The counters of the code\<close>

lemma cover_loop_nat:
  assumes "0 < unat c" "unat c < 128" "unat n < 128"
  shows "cover_loop m c n = Some (map_prod id of_nat (cover_nat m (unat c) (unat n)))"
  using assms(1,2)
proof (induction "unat n - unat c" arbitrary: m c rule: less_induct)
  case less
  have u: "unat (c * 2) = unat c * 2" using less.prems(2) by (subst unat_mult_u32) simp_all
  then have guard: "c * 2 \<le> n \<longleftrightarrow> unat c * 2 \<le> unat n" by (simp add: le_by_unat)
  show ?case
  proof (cases "unat c * 2 \<le> unat n")
    case True
    then have "cover_loop (m AND drop_bit (unat c) m) (c * 2) n =
        Some (map_prod id of_nat (cover_nat (m AND drop_bit (unat c) m) (unat c * 2) (unat n)))"
      using less.hyps [of "c * 2"] less.prems assms(3) by (simp add: u)
    moreover have "c < 64" using True assms(3) by (simp add: less_by_unat)
    ultimately show ?thesis
      using True less.prems guard by (subst cover_loop.simps, subst cover_nat.simps) simp
  next
    case False
    with guard show ?thesis by (subst cover_loop.simps, subst cover_nat.simps) simp
  qed
qed

lemma find_run_in_word_nat:
  assumes "1 \<le> unat n" "unat n < 128"
  shows "find_run_in_word w n = Some (find_run_nat w (unat n))"
proof -
  obtain m c where mc: "cover_nat (NOT w) 1 (unat n) = (m, c)" by fastforce
  with cover_nat_covers [OF covers_NOT, of "unat n" w] assms(1)
  have c: "0 < c" "c \<le> unat n" "unat n < 2 * c" by simp_all
  have u: "unat (of_nat c :: u32) = c" using c(2) assms(2) by (intro unat_of_nat_u32) linarith
  have "cover_loop (NOT w) 1 n = Some (m, of_nat c)" using cover_loop_nat [of 1 n] assms(2) mc by simp
  moreover have "(of_nat c < n) = (c < unat n)" by (simp add: less_by_unat u)
  moreover have "unat (n - of_nat c) = unat n - c" using c(2) u by (simp add: unat_sub_word le_by_unat)
  moreover from this have "n - of_nat c < 64" using c assms(2) by (simp add: less_by_unat)
  ultimately show ?thesis using mc by (simp add: find_run_in_word_def find_run_nat_def)
qed

text \<open>From 128 on the loop shifts by 64.\<close>

lemma find_run_undefined:
  assumes "128 \<le> n"
  shows "find_run_in_word w n = None"
proof -
  have le: "k \<le> n" if "k \<le> 128" for k :: u32 using that assms by (rule order_trans)
  have "cover_loop m 64 n = None" for m using le by (subst cover_loop.simps) simp
  then have "cover_loop m 32 n = None" for m using le by (subst cover_loop.simps) simp
  then have "cover_loop m 16 n = None" for m using le by (subst cover_loop.simps) simp
  then have "cover_loop m 8 n = None" for m using le by (subst cover_loop.simps) simp
  then have "cover_loop m 4 n = None" for m using le by (subst cover_loop.simps) simp
  then have "cover_loop m 2 n = None" for m using le by (subst cover_loop.simps) simp
  then have "cover_loop m 1 n = None" for m using le by (subst cover_loop.simps) simp
  then show ?thesis by (simp add: find_run_in_word_def)
qed

end
