(* ===== verification/Util_Props.thy ===== *)
theory Util_Props
  imports Mem_Utils BitMap Find_Run
begin

text \<open>
  The properties of the kernel's utility routines: ranges of the bitmap, runs of free bits in a word, copying memory.
\<close>

text \<open>C37. \<^verbatim>\<open>bitmap_set_len\<close> and \<^verbatim>\<open>bitmap_clear_len\<close> always return.  A range that
  does not fit is refused without a change; otherwise exactly the bits of the range get the value, whatever the
  alignment of its ends, and every other bit keeps its own.\<close>

theorem bitmap_range_exact:
  assumes "unat (bm_size b) < 18446744073709551608"
  shows "if unat start + unat len \<le> unat (bm_size b)
    then \<exists>s c. bitmap_set_len b start len = Some (0, s) \<and> bitmap_clear_len b start len = Some (0, c) \<and>
      bm_size s = bm_size b \<and> bm_size c = bm_size b \<and>
      (\<forall>k < ALL_BITS. bm_bit s k = (if unat start \<le> k \<and> k < unat start + unat len then True else bm_bit b k) \<and>
                       bm_bit c k = (if unat start \<le> k \<and> k < unat start + unat len then False else bm_bit b k))
    else bitmap_set_len b start len = Some (- 1, b) \<and> bitmap_clear_len b start len = Some (- 1, b)"
proof (cases "unat start + unat len \<le> unat (bm_size b)")
  case True
  obtain s where s: "bitmap_set_len b start len = Some (0, s)" "bm_size s = bm_size b"
    "\<And>k. k < ALL_BITS \<Longrightarrow> bm_bit s k \<longleftrightarrow> unat start \<le> k \<and> k < unat start + unat len \<or> bm_bit b k"
    using bitmap_set_len_spec [OF True assms] by blast
  obtain c where c: "bitmap_clear_len b start len = Some (0, c)" "bm_size c = bm_size b"
    "\<And>k. k < ALL_BITS \<Longrightarrow> bm_bit c k \<longleftrightarrow> \<not> (unat start \<le> k \<and> k < unat start + unat len) \<and> bm_bit b k"
    using bitmap_clear_len_spec [OF True assms] by blast
  have "bm_bit s k = (if unat start \<le> k \<and> k < unat start + unat len then True else bm_bit b k) \<and>
      bm_bit c k = (if unat start \<le> k \<and> k < unat start + unat len then False else bm_bit b k)" if "k < ALL_BITS" for k
    using s(3) [OF that] c(3) [OF that] by (simp only: if_bool_eq_conj) blast
  with True s(1,2) c(1,2) show ?thesis by (simp only: if_True) blast
next
  case False
  have "start > bm_size b \<or> len > bm_size b - start"
  proof (cases "start > bm_size b")
    case no: False
    then have "unat (bm_size b - start) = unat (bm_size b) - unat start"
      by (simp add: unat_sub_word not_less)
    with False no show ?thesis by (simp add: less_by_unat)
  qed simp
  then have "bitmap_set_len b start len = Some (- 1, b)" "bitmap_clear_len b start len = Some (- 1, b)"
    by (simp_all only: bitmap_set_len_def bitmap_clear_len_def if_True)
  with False show ?thesis by simp
qed

theorem bitmap_range_exact_witness:
  "\<exists>s c. bitmap_set_len \<lparr>bm_size = 64, bm_data = (\<lambda>_. 0)\<rparr> 5 20 = Some (0, s) \<and>
     bitmap_clear_len \<lparr>bm_size = 64, bm_data = (\<lambda>_. 0)\<rparr> 5 20 = Some (0, c) \<and> bm_bit s 24 \<and> \<not> bm_bit s 25"
proof -
  have b25: "\<not> bm_bit \<lparr>bm_size = 64, bm_data = (\<lambda>_. 0)\<rparr> 25" by (simp add: bm_bit_def data_bit_def)
  obtain s c where sc: "bitmap_set_len \<lparr>bm_size = 64, bm_data = (\<lambda>_. 0)\<rparr> 5 20 = Some (0, s)"
    "bitmap_clear_len \<lparr>bm_size = 64, bm_data = (\<lambda>_. 0)\<rparr> 5 20 = Some (0, c)"
    "\<forall>k < ALL_BITS. bm_bit s k = (if unat (5 :: u64) \<le> k \<and> k < unat (5 :: u64) + unat (20 :: u64) then True
       else bm_bit \<lparr>bm_size = 64, bm_data = (\<lambda>_. 0)\<rparr> k)"
    using bitmap_range_exact [of "\<lparr>bm_size = 64, bm_data = (\<lambda>_. 0)\<rparr>" 5 20] by auto
  have "bm_bit s 24" "\<not> bm_bit s 25" using spec [OF sc(3), of 24] spec [OF sc(3), of 25] b25 by simp_all
  with sc(1,2) show ?thesis by blast
qed

text \<open>C38. The branch-free search \<^verbatim>\<open>find_run_in_word\<close>, which doubles the length it covers, returns the
  lowest position of a run of \<open>n\<close> clear bits, and \<^verbatim>\<open>-1\<close> exactly when the word has none, for \<open>n\<close> from 1 to 127; from 128 on
  it shifts by 64, which is undefined.  Its only caller passes at most 64.\<close>

theorem find_run_lowest:
  assumes "1 \<le> n"
  shows "find_run_in_word w n =
    (if 128 \<le> n then None
     else Some (if \<exists>k. clear_run w k (unat n) then int (LEAST k. clear_run w k (unat n)) else - 1))"
proof (cases "128 \<le> n")
  case True
  then show ?thesis by (simp add: find_run_undefined)
next
  case small: False
  have n: "1 \<le> unat n" "unat n < 128" using assms small by (simp_all add: le_by_unat)
  have "find_run_nat w (unat n) = (if \<exists>k. clear_run w k (unat n) then int (LEAST k. clear_run w k (unat n)) else - 1)"
  proof (cases "\<exists>k. clear_run w k (unat n)")
    case True
    then have "clear_run w (LEAST k. clear_run w k (unat n)) (unat n)" by (metis LeastI)
    moreover have "\<forall>j < (LEAST k. clear_run w k (unat n)). \<not> clear_run w j (unat n)" using not_less_Least by blast
    ultimately have "find_run_nat w (unat n) = int (LEAST k. clear_run w k (unat n))"
      using find_run_hit_iff [OF n(1), of w "LEAST k. clear_run w k (unat n)"] by blast
    then show ?thesis unfolding if_P [OF True] .
  next
    case False
    then have "find_run_nat w (unat n) < 0" using find_run_miss_iff [OF n(1)] by blast
    moreover obtain m where "find_run_nat w (unat n) = (if m \<noteq> 0 then int (ctzll m) else - 1)"
      using find_run_covers [OF n(1)] by blast
    ultimately have "find_run_nat w (unat n) = - 1" by (cases "m = 0") simp_all
    then show ?thesis unfolding if_not_P [OF False] .
  qed
  then show ?thesis using find_run_in_word_nat [OF n] small by simp
qed

theorem find_run_lowest_witness:
  "find_run_in_word 0xFFFFFFFFFFFFFF0F 3 = Some (int (LEAST k. clear_run 0xFFFFFFFFFFFFFF0F k 3)) \<and>
   clear_run 0xFFFFFFFFFFFFFF0F 4 3"
proof -
  have "\<not> bit (0xFFFFFFFFFFFFFF0F :: u64) 4" "\<not> bit (0xFFFFFFFFFFFFFF0F :: u64) 5" "\<not> bit (0xFFFFFFFFFFFFFF0F :: u64) 6"
    by simp_all
  then have run: "clear_run 0xFFFFFFFFFFFFFF0F 4 3"
    unfolding clear_run_def by (auto simp: less_Suc_eq numeral_3_eq_3)
  then have "\<exists>k. clear_run 0xFFFFFFFFFFFFFF0F k 3" by (rule exI)
  with find_run_lowest [of 3 "0xFFFFFFFFFFFFFF0F"] run show ?thesis by simp
qed

text \<open>C39. \<^verbatim>\<open>Imemcpy\<close> on regions that do not overlap copies the source, as it was, to the destination
  and changes nothing else; comparing the two afterwards finds them equal.\<close>

theorem Imemcpy_copies:
  assumes "disjoint_regions dest src n"
  shows "(\<forall>x. Imemcpy m dest src n x = (if within dest n x then m (src + (x - dest)) else m x)) \<and>
    Imemcmp (Imemcpy m dest src n) dest src n = 0 \<and> Istrncmp (Imemcpy m dest src n) dest src n = 0"
proof -
  have eq: "Imemcpy m dest src n x = (if within dest n x then m (src + (x - dest)) else m x)" for x
    by (rule Imemcpy_eq [OF assms])
  have "Imemcpy m dest src n (dest + j) = Imemcpy m dest src n (src + j)" if "j < n" for j
  proof -
    have "within src n (src + j)" "within dest n (dest + j)" using that by (simp_all add: within_def)
    then have "\<not> within dest n (src + j)" using assms unfolding disjoint_regions_def by blast
    with \<open>within dest n (dest + j)\<close> show ?thesis by (simp add: eq)
  qed
  then show ?thesis using eq by (simp add: Imemcmp_zero_iff Istrncmp_zero_iff)
qed

theorem Imemcpy_copies_witness:
  "Imemcpy (\<lambda>a. ucast a) 0x100 0x10 4 0x102 = 0x12 \<and> Imemcmp (Imemcpy (\<lambda>a. ucast a) 0x100 0x10 4) 0x100 0x10 4 = 0"
proof -
  have "disjoint_regions 0x100 0x10 4"
    unfolding disjoint_regions_def within_def
  proof (intro allI notI)
    fix x :: u64 assume x: "x - 0x100 < 4 \<and> x - 0x10 < 4"
    define y where "y = x - 0x100"
    have "x - 0x10 = y + 0xF0" unfolding y_def by simp
    then have "y < 4" "y + 0xF0 < 4" using x unfolding y_def by (metis, metis)
    then have "unat y < 4" "unat (y + 0xF0) < 4" by (simp_all add: less_by_unat)
    then show False by (simp add: unat_add_u64)
  qed
  note copied = Imemcpy_copies [OF this, of "\<lambda>a. ucast a"]
  have "Imemcpy (\<lambda>a. ucast a) 0x100 0x10 4 0x102 =
      (if within 0x100 4 0x102 then ucast ((0x10 :: u64) + (0x102 - 0x100)) else ucast (0x102 :: u64))"
    by (rule spec [OF conjunct1 [OF copied]])
  then have "Imemcpy (\<lambda>a. ucast a) 0x100 0x10 4 0x102 = 0x12" by (simp add: within_def)
  moreover have "Imemcmp (Imemcpy (\<lambda>a. ucast a) 0x100 0x10 4) 0x100 0x10 4 = 0"
    by (rule conjunct1 [OF conjunct2 [OF copied]])
  ultimately show ?thesis by (rule conjI)
qed

end
