(* ===== verification/Frame_Scan.thy ===== *)
theory Frame_Scan
  imports Find_Run
begin

text \<open>
  The search of the frame allocator over natural numbers: the word-by-word scan with a run carried
  from one word to the next, and the proof that it is first fit.  \<open>W q\<close> is the \<open>q\<close>-th
  64-bit word of a region's bitmap; slot \<open>k\<close> is free when bit \<open>k mod 64\<close> of word
  \<open>k div 64\<close> is clear.  The machine-word loop of the code is shown to compute this function in
  \<^verbatim>\<open>MemMap.thy\<close>.
\<close>

definition slot_free :: "(nat \<Rightarrow> u64) \<Rightarrow> nat \<Rightarrow> bool" where
  "slot_free W k \<longleftrightarrow> \<not> bit (W (k div 64)) (k mod 64)"

definition free_run :: "(nat \<Rightarrow> u64) \<Rightarrow> nat \<Rightarrow> nat \<Rightarrow> bool" where
  "free_run W s n \<longleftrightarrow> (\<forall>k. s \<le> k \<and> k < s + n \<longrightarrow> slot_free W k)"

function scan_nat :: "(nat \<Rightarrow> u64) \<Rightarrow> nat \<Rightarrow> nat \<Rightarrow> nat \<Rightarrow> nat \<Rightarrow> nat \<Rightarrow> nat option" where
  "scan_nat W Q n q c rs =
     (if q < Q then
        (if W q = 0 then
           (let rs = (if c = 0 then q * 64 else rs); c = c + 64
            in if n \<le> c then Some rs else scan_nat W Q n (Suc q) c rs)
         else if n \<le> c + ctzll (W q) then Some (if c = 0 then q * 64 else rs)
         else (let k = (if n \<le> 64 then find_run_nat (W q) n else - 1)
               in if 0 \<le> k then Some (q * 64 + nat k)
                  else scan_nat W Q n (Suc q) (clzll (W q)) (q * 64 + 64 - clzll (W q))))
      else None)"
  by pat_completeness auto
termination
  by (relation "measure (\<lambda>(W, Q, n, q, c, rs). Q - q)") auto

declare scan_nat.simps [simp del]

text \<open>The least start of a run of \<open>n\<close> free slots that fits below \<open>m\<close>.\<close>

definition first_fit :: "(nat \<Rightarrow> u64) \<Rightarrow> nat \<Rightarrow> nat \<Rightarrow> nat \<Rightarrow> bool" where
  "first_fit W m n s \<longleftrightarrow>
     free_run W s n \<and> s + n \<le> m \<and> (\<forall>s' < s. \<not> free_run W s' n)"

definition no_fit :: "(nat \<Rightarrow> u64) \<Rightarrow> nat \<Rightarrow> nat \<Rightarrow> bool" where
  "no_fit W m n \<longleftrightarrow> (\<forall>s. s + n \<le> m \<longrightarrow> \<not> free_run W s n)"

text \<open>What the loop knows at word \<open>q\<close>: the \<open>c\<close> slots before it are free, the slot before
  those is not, and no run of \<open>n\<close> slots ends before word \<open>q\<close>.\<close>

definition scan_inv :: "(nat \<Rightarrow> u64) \<Rightarrow> nat \<Rightarrow> nat \<Rightarrow> nat \<Rightarrow> nat \<Rightarrow> bool" where
  "scan_inv W n q c rs \<longleftrightarrow>
     c \<le> q * 64 \<and> c < n \<and> free_run W (q * 64 - c) c \<and>
     (c = q * 64 \<or> \<not> slot_free W (q * 64 - c - 1)) \<and>
     (0 < c \<longrightarrow> rs = q * 64 - c) \<and> no_fit W (q * 64) n"

lemma slot_in_word: "j < 64 \<Longrightarrow> slot_free W (q * 64 + j) \<longleftrightarrow> \<not> bit (W q) j"
  by (simp add: slot_free_def)

lemma free_run_iff: "free_run W s n \<longleftrightarrow> (\<forall>j < n. slot_free W (s + j))"
proof
  assume r: "\<forall>j < n. slot_free W (s + j)"
  show "free_run W s n"
    unfolding free_run_def
  proof (intro allI impI)
    fix k assume "s \<le> k \<and> k < s + n"
    then have "k - s < n" "s + (k - s) = k" by linarith+
    with r show "slot_free W k" by metis
  qed
qed (simp add: free_run_def)

lemma free_run_append: "free_run W s a \<Longrightarrow> free_run W (s + a) b \<Longrightarrow> free_run W s (a + b)"
  unfolding free_run_def by (metis add.assoc not_le)

lemma free_run_shorter: "free_run W s n \<Longrightarrow> m \<le> n \<Longrightarrow> free_run W s m"
  by (auto simp: free_run_def)

lemma free_run_in_word: "k + n \<le> 64 \<Longrightarrow> free_run W (q * 64 + k) n \<longleftrightarrow> clear_run (W q) k n"
proof -
  assume k: "k + n \<le> 64"
  have "free_run W (q * 64 + k) n \<longleftrightarrow> (\<forall>j < n. slot_free W (q * 64 + (k + j)))"
    by (simp only: free_run_iff add.assoc)
  also have "\<dots> \<longleftrightarrow> (\<forall>j < n. \<not> bit (W q) (k + j))"
    using k by (simp add: slot_in_word)
  finally show ?thesis using k by (simp add: clear_run_def)
qed

text \<open>A run that does not end before word \<open>q\<close> starts in the carried slots or later.\<close>

lemma run_starts_late:
  assumes "scan_inv W n q c rs" "free_run W s n"
  shows "q * 64 - c \<le> s"
proof (rule ccontr)
  assume "\<not> q * 64 - c \<le> s"
  then have s: "s < q * 64 - c" by simp
  with assms(1) have used: "\<not> slot_free W (q * 64 - c - 1)" by (auto simp: scan_inv_def)
  show False
  proof (cases "s + n \<le> q * 64")
    case True
    with assms show False by (auto simp: scan_inv_def no_fit_def)
  next
    case False
    with s have "s \<le> q * 64 - c - 1 \<and> q * 64 - c - 1 < s + n" by linarith
    with assms(2) have "slot_free W (q * 64 - c - 1)" by (simp only: free_run_def)
    with used show False by contradiction
  qed
qed

lemma carried_hit:
  assumes inv: "scan_inv W n q c rs" and l: "l \<le> 64" "\<forall>j < l. \<not> bit (W q) j" "n \<le> c + l"
    and q: "q < Q"
  shows "first_fit W (Q * 64) n (if c = 0 then q * 64 else rs)"
proof -
  have start: "(if c = 0 then q * 64 else rs) = q * 64 - c"
    using inv by (simp add: scan_inv_def)
  have c: "c \<le> q * 64" "free_run W (q * 64 - c) c" using inv by (auto simp: scan_inv_def)
  have "clear_run (W q) 0 l" using l by (simp add: clear_run_def)
  then have "free_run W (q * 64) l" using free_run_in_word [of 0 l W q] l(1) by simp
  with c have "free_run W (q * 64 - c) (c + l)" using free_run_append [of W "q * 64 - c" c l] by simp
  then have "free_run W (q * 64 - c) n" using l(3) by (rule free_run_shorter)
  moreover have "q * 64 - c + n \<le> Q * 64"
  proof -
    have "q * 64 - c + n \<le> q * 64 + 64" using c(1) l(1,3) by linarith
    also have "\<dots> \<le> Q * 64" using q by simp
    finally show ?thesis .
  qed
  moreover have "\<not> free_run W s' n" if "s' < q * 64 - c" for s'
    using run_starts_late [OF inv, of s'] that by auto
  ultimately show ?thesis unfolding start first_fit_def by blast
qed

lemma all_clear_step:
  assumes inv: "scan_inv W n q c rs" and W: "W q = 0" and n: "c + 64 < n"
  shows "scan_inv W n (Suc q) (c + 64) (if c = 0 then q * 64 else rs)"
proof -
  have c: "c \<le> q * 64" "free_run W (q * 64 - c) c" using inv by (auto simp: scan_inv_def)
  have "free_run W (q * 64) 64"
    using free_run_in_word [of 0 64 W q] W by (simp add: clear_run_def)
  with c have run: "free_run W (q * 64 - c) (c + 64)"
    using free_run_append [of W "q * 64 - c" c 64] by simp
  have "no_fit W (Suc q * 64) n"
    unfolding no_fit_def
  proof (intro allI impI notI)
    fix s assume "s + n \<le> Suc q * 64" "free_run W s n"
    with run_starts_late [OF inv] n c(1) show False by fastforce
  qed
  with inv run c n show ?thesis by (auto simp: scan_inv_def)
qed

text \<open>With a used slot at position \<open>l\<close> of the word and too few free slots before it, the next
  run that ends in this word lies inside it.\<close>

lemma run_inside_word:
  assumes inv: "scan_inv W n q c rs" and l: "l < 64" "bit (W q) l" "c + l < n"
    and s: "free_run W s n" "s + n \<le> q * 64 + 64"
  obtains k where "s = q * 64 + k" "clear_run (W q) k n"
proof -
  have used: "\<not> slot_free W (q * 64 + l)" using l by (simp add: slot_in_word)
  have c: "c \<le> q * 64" using inv by (simp add: scan_inv_def)
  have "q * 64 + l < s"
  proof (rule ccontr)
    assume "\<not> q * 64 + l < s"
    with run_starts_late [OF inv s(1)] c l(3) have "s \<le> q * 64 + l" "q * 64 + l < s + n" by auto
    with s(1) used show False by (auto simp: free_run_def)
  qed
  then obtain k where k: "s = q * 64 + k" by (metis add_leD1 le_iff_add less_imp_le_nat)
  with s free_run_in_word [of k n W q] show ?thesis by (intro that) auto
qed

lemma inside_hit:
  assumes inv: "scan_inv W n q c rs" and l: "l < 64" "bit (W q) l" "c + l < n" and q: "q < Q"
    and k: "clear_run (W q) k n" "\<forall>j < k. \<not> clear_run (W q) j n"
  shows "first_fit W (Q * 64) n (q * 64 + k)"
proof -
  have kn: "k + n \<le> 64" using k(1) by (simp add: clear_run_def)
  then have "free_run W (q * 64 + k) n" using k(1) by (simp add: free_run_in_word)
  moreover have "q * 64 + k + n \<le> Q * 64"
  proof -
    have "q * 64 + k + n \<le> q * 64 + 64" using kn by simp
    also have "\<dots> \<le> Q * 64" using q by simp
    finally show ?thesis .
  qed
  moreover have "\<not> free_run W s' n" if s': "s' < q * 64 + k" for s'
  proof
    assume r: "free_run W s' n"
    have "s' + n \<le> q * 64 + 64" using s' kn by simp
    then obtain j where "s' = q * 64 + j" "clear_run (W q) j n"
      using run_inside_word [OF inv l r] by blast
    with s' k(2) show False by auto
  qed
  ultimately show ?thesis by (simp add: first_fit_def)
qed

lemma trailing_step:
  assumes inv: "scan_inv W n q c rs" and l: "l < 64" "bit (W q) l" "c + l < n"
    and miss: "\<forall>k. \<not> clear_run (W q) k n"
  shows "scan_inv W n (Suc q) (clzll (W q)) (q * 64 + 64 - clzll (W q))"
proof -
  let ?t = "clzll (W q)"
  have t: "?t < 64" using clzll_clear [of "W q" l] clzll_bound [of "W q"] l by fastforce
  have run: "clear_run (W q) (64 - ?t) ?t"
    using clzll_clear [of "W q"] t by (simp add: clear_run_def)
  then have free: "free_run W (q * 64 + (64 - ?t)) ?t"
    using t by (subst free_run_in_word) auto
  have "\<not> slot_free W (q * 64 + (63 - ?t))"
    using clzll_set [OF t] by (simp add: slot_in_word)
  then have edge: "\<not> slot_free W (Suc q * 64 - ?t - 1)"
    using t by (simp add: add.commute)
  have "?t < n"
  proof (rule ccontr)
    assume "\<not> ?t < n"
    then have "clear_run (W q) (64 - ?t) (n + (?t - n))" using run by simp
    then have "clear_run (W q) (64 - ?t) n" by (simp only: clear_run_split)
    with miss show False by blast
  qed
  moreover have "no_fit W (Suc q * 64) n"
    unfolding no_fit_def
  proof (intro allI impI notI)
    fix s assume "s + n \<le> Suc q * 64" "free_run W s n"
    then obtain k where "clear_run (W q) k n"
      using run_inside_word [OF inv l] by (metis add.commute mult_Suc)
    with miss show False by blast
  qed
  ultimately show ?thesis using free edge t by (simp add: scan_inv_def add.commute [of _ 64])
qed

theorem scan_nat_first_fit:
  assumes "scan_inv W n q c rs" "q \<le> Q"
  shows "case scan_nat W Q n q c rs of
           Some s \<Rightarrow> first_fit W (Q * 64) n s | None \<Rightarrow> no_fit W (Q * 64) n"
  using assms
proof (induction W Q n q c rs rule: scan_nat.induct)
  case (1 W Q n q c rs)
  note inv = "1.prems"(1)
  have n: "1 \<le> n" using inv by (simp add: scan_inv_def)
  show ?case
  proof (cases "q < Q")
    case False
    with "1.prems" show ?thesis by (subst scan_nat.simps) (simp add: scan_inv_def)
  next
    case q: True
    consider (clear_hit) "W q = 0" "n \<le> c + 64" | (clear_on) "W q = 0" "c + 64 < n"
      | (lead) "W q \<noteq> 0" "n \<le> c + ctzll (W q)"
      | (inside) "W q \<noteq> 0" "c + ctzll (W q) < n" "n \<le> 64" "0 \<le> find_run_nat (W q) n"
      | (miss) "W q \<noteq> 0" "c + ctzll (W q) < n" "n \<le> 64 \<longrightarrow> find_run_nat (W q) n < 0"
      by linarith
    then show ?thesis
    proof cases
      case clear_hit
      with carried_hit [OF inv, of 64 Q] q show ?thesis by (subst scan_nat.simps) simp
    next
      case clear_on
      with "1.IH"(1) all_clear_step [OF inv] q show ?thesis by (subst scan_nat.simps) simp
    next
      case lead
      with carried_hit [OF inv, of "ctzll (W q)" Q] ctzll_nonzero [OF lead(1)] q
      show ?thesis by (subst scan_nat.simps) simp
    next
      case inside
      note l = ctzll_nonzero(3,1) [OF inside(1)] inside(2)
      obtain k where k: "find_run_nat (W q) n = int k" using inside(4) nonneg_int_cases by blast
      with find_run_hit_iff [OF n] inside_hit [OF inv l q] have "first_fit W (Q * 64) n (q * 64 + k)"
        by blast
      with inside q k show ?thesis by (subst scan_nat.simps) simp
    next
      case miss
      note l = ctzll_nonzero(3,1) [OF miss(1)] miss(2)
      have "\<forall>k. \<not> clear_run (W q) k n"
        using miss(3) find_run_miss_iff [OF n] by (cases "n \<le> 64") (auto simp: clear_run_def)
      with trailing_step [OF inv l]
      have "scan_inv W n (Suc q) (clzll (W q)) (q * 64 + 64 - clzll (W q))" by blast
      with "1.IH"(2) miss q show ?thesis by (subst scan_nat.simps) (auto simp: Let_def)
    qed
  qed
qed

lemma scan_inv_start: "0 < n \<Longrightarrow> scan_inv W n 0 0 0"
  by (simp add: scan_inv_def free_run_def no_fit_def)

end
