(* ===== verification/MemMap.thy ===== *)
theory MemMap
  imports Mem_Utils BitMap Frame_Scan
begin

text \<open>
  The physical memory map, \<^verbatim>\<open>src/kernel/Memory/PMM/mem_map.c\<close>: up to 32 regions of
  usable memory that share one bitmap (one bit per 4 KiB frame, set when in use), each region padded
  to whole 64-bit words.  The model keeps the integer widths of the code: the scan counts in
  \<^verbatim>\<open>uint32_t\<close>, so the byte offset of a frame in its region is computed modulo
  \<open>2 ^ 32\<close>.
\<close>

section \<open>Data\<close>

text \<open>\<^verbatim>\<open>PAGE_TYPE\<close> is a C enum and the code passes page sizes where one is expected, so it
  is its integer.\<close>

type_synonym page_type = u32

definition DEFAULT_PAGE :: page_type where "DEFAULT_PAGE = 0"
definition HUGE_PAGE :: page_type where "HUGE_PAGE = 1"
definition SUPER_PAGE :: page_type where "SUPER_PAGE = 2"

definition PAGE_S :: u64 where "PAGE_S = 4096"
definition HUGE_PS :: u64 where "HUGE_PS = 2097152"
definition SUPER_PS :: u64 where "SUPER_PS = 1073741824"

definition PAGE_TYPE_TO_SIZE :: "page_type \<Rightarrow> u64" where
  "PAGE_TYPE_TO_SIZE type =
     (if type = SUPER_PAGE then SUPER_PS else if type = HUGE_PAGE then HUGE_PS else PAGE_S)"

definition FRAME_ALLOC_FAILED :: u64 where "FRAME_ALLOC_FAILED = 0xFFFFFFFFFFFFFFFF"
definition MAX_MEM_REGIONS :: nat where "MAX_MEM_REGIONS = 32"

record mem_region =
  start_addr :: u64
  len_bytes :: u64
  bitmap_start_addr :: u64
  qword_count :: u64
  free_frames :: u64

record mem_map =
  mem_size :: u64
  region_count :: u8
  regions :: "mem_region list"
  bitmap :: bit_map

section \<open>Building the map\<close>

definition memmap_register_region :: "mem_map \<Rightarrow> u64 \<Rightarrow> u64 \<Rightarrow> mem_map option" where
  "memmap_register_region mmap start stop = do {
     let len = stop - start;
     let real_frames = len div DEFAULT_PAGE_SIZE;
     let n = unat (region_count mmap);
     old \<leftarrow> idx (regions mmap) n;
     bitmap_start \<leftarrow> (if n = 0 then Some 0 else do {
        prev_region \<leftarrow> idx (regions mmap) (n - 1);
        Some (bitmap_start_addr prev_region + qword_count prev_region * 64)
      });
     let region = old\<lparr>start_addr := start, len_bytes := len,
                     qword_count := ALIGN_UP real_frames 64 div 64, free_frames := real_frames,
                     bitmap_start_addr := bitmap_start\<rparr>;
     Some (mmap\<lparr>mem_size := mem_size mmap + len,
                regions := (regions mmap)[n := region],
                bitmap := (bitmap mmap)\<lparr>bm_size := bm_size (bitmap mmap) + qword_count region * 64\<rparr>,
                region_count := region_count mmap + 1\<rparr>)
   }"

text \<open>\<^verbatim>\<open>for (i = 0; i < mmap->region_count; i++)\<close> up to the first region that
  satisfies the test of the body; \<open>Some None\<close> when the loop runs through.\<close>

function region_loop :: "(mem_region \<Rightarrow> bool) \<Rightarrow> mem_map \<Rightarrow> nat \<Rightarrow> nat option option" where
  "region_loop test mmap i =
     (if i < unat (region_count mmap)
      then do {
        region \<leftarrow> idx (regions mmap) i;
        if test region then Some (Some i) else region_loop test mmap (Suc i)
      }
      else Some None)"
  by pat_completeness auto
termination
  by (relation "measure (\<lambda>(t, mm, i). unat (region_count mm) - i)") auto

declare region_loop.simps [simp del]

text \<open>
  The range check shared by \<^verbatim>\<open>set_mem_region\<close>, \<^verbatim>\<open>zero_mem_region\<close> and
  \<^verbatim>\<open>map_dealloc_frame\<close>: below the first region or past the end of the last one.
  With no region at all the last one is \<^verbatim>\<open>regions[-1]\<close>.
\<close>

definition last_region_end :: "mem_map \<Rightarrow> u64 option" where
  "last_region_end mmap =
     (if region_count mmap = 0 then None
      else do {
        r \<leftarrow> idx (regions mmap) (unat (region_count mmap) - 1);
        Some (start_addr r + len_bytes r)
      })"

definition outside_regions :: "mem_map \<Rightarrow> u64 \<Rightarrow> u64 \<Rightarrow> bool option" where
  "outside_regions mmap first_addr end_addr = do {
     r \<leftarrow> idx (regions mmap) 0;
     if first_addr < start_addr r then Some True
     else do { stop \<leftarrow> last_region_end mmap; Some (end_addr > stop) }
   }"

definition set_mem_region :: "mem_map \<Rightarrow> u64 \<Rightarrow> u64 \<Rightarrow> (int \<times> mem_map) option" where
  "set_mem_region mmap first_addr end_addr = do {
     out \<leftarrow> outside_regions mmap first_addr end_addr;
     if out then Some (- 1, mmap)
     else do {
       let len = end_addr - first_addr;
       hit \<leftarrow> region_loop
         (\<lambda>r. \<not> (start_addr r > first_addr \<or> end_addr > start_addr r + len_bytes r)) mmap 0;
       (case hit of
          None \<Rightarrow> Some (0, mmap)
        | Some i \<Rightarrow> do {
            let r = regions mmap ! i;
            let effective_addr = first_addr - start_addr r;
            (_, b) \<leftarrow> bitmap_set_len (bitmap mmap)
              (bitmap_start_addr r + effective_addr div DEFAULT_PAGE_SIZE) (len div DEFAULT_PAGE_SIZE);
            Some (0, mmap\<lparr>regions := (regions mmap)
                           [i := r\<lparr>free_frames := free_frames r - len div DEFAULT_PAGE_SIZE\<rparr>],
                         bitmap := b\<rparr>)
          })
     }
   }"

definition zero_mem_region :: "mem_map \<Rightarrow> u64 \<Rightarrow> u64 \<Rightarrow> (int \<times> mem_map) option" where
  "zero_mem_region mmap first_addr end_addr = do {
     out \<leftarrow> outside_regions mmap first_addr end_addr;
     if out then Some (- 1, mmap)
     else do {
       let len = end_addr - first_addr;
       hit \<leftarrow> region_loop
         (\<lambda>r. \<not> (start_addr r > first_addr \<or> first_addr + len > start_addr r + len_bytes r)) mmap 0;
       (case hit of
          None \<Rightarrow> Some (0, mmap)
        | Some i \<Rightarrow> do {
            let r = regions mmap ! i;
            let effective_addr = first_addr - start_addr r;
            (_, b) \<leftarrow> bitmap_clear_len (bitmap mmap)
              (bitmap_start_addr r + effective_addr div DEFAULT_PAGE_SIZE) (len div DEFAULT_PAGE_SIZE);
            Some (0, mmap\<lparr>regions := (regions mmap)
                           [i := r\<lparr>free_frames := free_frames r + len div DEFAULT_PAGE_SIZE\<rparr>],
                         bitmap := b\<rparr>)
          })
     }
   }"

text \<open>\<^verbatim>\<open>zero_mem_map\<close>: clear the bitmap, then one call of
  \<^verbatim>\<open>set_mem_region\<close> per region with the addresses the code computes, after which the
  region's own frame count is restored.\<close>

function pad_loop :: "mem_map \<Rightarrow> nat \<Rightarrow> nat \<Rightarrow> mem_map option" where
  "pad_loop mmap count i =
     (if i < count
      then do {
        region \<leftarrow> idx (regions mmap) i;
        let fr_count = free_frames region;
        (_, mmap) \<leftarrow> set_mem_region mmap
          (bitmap_start_addr region + len_bytes region)
          (bitmap_start_addr region + (qword_count region * 64) * DEFAULT_PAGE_SIZE);
        region \<leftarrow> idx (regions mmap) i;
        pad_loop (mmap\<lparr>regions := (regions mmap)[i := region\<lparr>free_frames := fr_count\<rparr>]\<rparr>) count (Suc i)
      }
      else Some mmap)"
  by pat_completeness auto
termination
  by (relation "measure (\<lambda>(mm, n, i). n - i)") auto

declare pad_loop.simps [simp del]

definition zero_mem_map :: "mem_map \<Rightarrow> mem_map option" where
  "zero_mem_map mmap =
     (let b = bitmap mmap;
          cleared = mmap\<lparr>bitmap := b\<lparr>bm_data := Imemset (bm_data b) 0 0 (bm_size b div 8)\<rparr>\<rparr>
      in pad_loop cleared (unat (region_count mmap)) 0)"

section \<open>Allocation\<close>

text \<open>\<^verbatim>\<open>region->start_addr + k * DEFAULT_PAGE_SIZE\<close> with a 32-bit
  \<open>k\<close>: the product is 32 bits wide.\<close>

definition frame_addr :: "mem_region \<Rightarrow> u32 \<Rightarrow> u64" where
  "frame_addr r k = start_addr r + ucast (k * 4096)"

definition region_qword :: "mem_map \<Rightarrow> mem_region \<Rightarrow> u32 \<Rightarrow> u64" where
  "region_qword mmap r qword_index =
     load64 (bm_data (bitmap mmap)) (bitmap_start_addr r div 8 + ucast (qword_index * 8))"

text \<open>
  The inner loop of \<^verbatim>\<open>map_alloc_frame_contiguous\<close>: \<open>Some (Some start)\<close> is the
  address at which one of its three branches allocates, \<open>Some None\<close> the end of the region's
  words.
\<close>

partial_function (option) scan_qwords ::
  "mem_map \<Rightarrow> mem_region \<Rightarrow> u64 \<Rightarrow> u32 \<Rightarrow> u32 \<Rightarrow> u32 \<Rightarrow> u64 option option"
where
  "scan_qwords mmap region page_count qword_index carried_run run_start =
     (if ucast qword_index < qword_count region then
        (let qword = region_qword mmap region qword_index in
         if qword = 0 then
           (let run_start = (if carried_run = 0 then qword_index * 64 else run_start);
                carried_run = carried_run + 64
            in if ucast carried_run \<ge> page_count then Some (Some (frame_addr region run_start))
               else scan_qwords mmap region page_count (qword_index + 1) carried_run run_start)
         else
           (let leading_free = of_nat (ctzll qword) in
            if ucast (carried_run + leading_free) \<ge> page_count then
              Some (Some (frame_addr region (if carried_run = 0 then qword_index * 64 else run_start)))
            else
              do {
                bit_index \<leftarrow> (if page_count \<le> 64 then find_run_in_word qword (ucast page_count) else Some (- 1));
                (if bit_index \<ge> 0 then
                   Some (Some (frame_addr region (qword_index * 64 + of_int bit_index)))
                 else
                   (let trailing_free = of_nat (clzll qword)
                    in scan_qwords mmap region page_count (qword_index + 1) trailing_free
                         (qword_index * 64 + 64 - trailing_free)))
              }))
      else Some None)"

text \<open>The outer loop: regions with too few free frames are skipped; the first hit is marked as
  used and returned.  The result of \<^verbatim>\<open>set_mem_region\<close> is not looked at.\<close>

function alloc_loop :: "mem_map \<Rightarrow> u64 \<Rightarrow> nat \<Rightarrow> (u64 \<times> mem_map) option" where
  "alloc_loop mmap page_count i =
     (if i < unat (region_count mmap)
      then do {
        region \<leftarrow> idx (regions mmap) i;
        if free_frames region < page_count then alloc_loop mmap page_count (Suc i)
        else do {
          hit \<leftarrow> scan_qwords mmap region page_count 0 0 0;
          (case hit of
             Some start \<Rightarrow> do {
               (_, mmap) \<leftarrow> set_mem_region mmap start (start + page_count * DEFAULT_PAGE_SIZE);
               Some (start, mmap)
             }
           | None \<Rightarrow> alloc_loop mmap page_count (Suc i))
        }
      }
      else Some (FRAME_ALLOC_FAILED, mmap))"
  by pat_completeness auto
termination
  by (relation "measure (\<lambda>(mm, n, i). unat (region_count mm) - i)") auto

declare alloc_loop.simps [simp del]

definition map_alloc_frame_contiguous :: "mem_map \<Rightarrow> u64 \<Rightarrow> (u64 \<times> mem_map) option" where
  "map_alloc_frame_contiguous mmap page_count = alloc_loop mmap page_count 0"

text \<open>The number of 4 KiB units is stored in a \<^verbatim>\<open>uint8_t\<close>.\<close>

definition map_alloc_frame :: "mem_map \<Rightarrow> page_type \<Rightarrow> (u64 \<times> mem_map) option" where
  "map_alloc_frame mmap page_size =
     (let smallest_unit = (ucast (PAGE_TYPE_TO_SIZE page_size div DEFAULT_PAGE_SIZE) :: u8)
      in map_alloc_frame_contiguous mmap (ucast smallest_unit))"

definition map_dealloc_frame :: "mem_map \<Rightarrow> u64 \<Rightarrow> u64 \<Rightarrow> (int \<times> mem_map) option" where
  "map_dealloc_frame mmap phys_addr page_size = do {
     let cont_units = page_size div DEFAULT_PAGE_SIZE;
     out \<leftarrow> outside_regions mmap phys_addr (phys_addr + page_size);
     if out then Some (- 1, mmap)
     else do {
       hit \<leftarrow> region_loop
         (\<lambda>r. \<not> (start_addr r > phys_addr \<or> phys_addr + page_size > start_addr r + len_bytes r)) mmap 0;
       (case hit of
          None \<Rightarrow> Some (0, mmap)
        | Some i \<Rightarrow> do {
            let r = regions mmap ! i;
            let effective_addr = phys_addr - start_addr r;
            (_, b) \<leftarrow> bitmap_clear_len (bitmap mmap)
              (bitmap_start_addr r + effective_addr div DEFAULT_PAGE_SIZE) cont_units;
            Some (0, mmap\<lparr>regions := (regions mmap)
                           [i := r\<lparr>free_frames := free_frames r + cont_units\<rparr>],
                         bitmap := b\<rparr>)
          })
     }
   }"

end
