(* ===== verification/MemMap_Alloc.thy ===== *)
theory MemMap_Alloc
  imports MemMap
begin

text \<open>
  Correctness of the frame allocator of \<^verbatim>\<open>MemMap.thy\<close>.  \<open>mm_wf\<close> is the layout that
  \<^verbatim>\<open>memmap_register_region\<close> builds together with what the allocator needs of the
  bitmap: regions in ascending order, at most 4 GiB each, consecutive word-aligned slots in the bitmap, padding marked as
  used, and a free count that agrees with the bits.
\<close>

section \<open>The layout invariant\<close>

definition nframes :: "mem_region \<Rightarrow> nat" where
  "nframes r = unat (len_bytes r) div 4096"

definition nslots :: "mem_region \<Rightarrow> nat" where
  "nslots r = unat (qword_count r) * 64"

definition region_end :: "mem_region \<Rightarrow> nat" where
  "region_end r = unat (start_addr r) + unat (len_bytes r)"

definition first_slot :: "mem_region \<Rightarrow> nat" where
  "first_slot r = unat (bitmap_start_addr r)"

definition mm_regions :: "mem_map \<Rightarrow> mem_region list" where
  "mm_regions mm = take (unat (region_count mm)) (regions mm)"

text \<open>One region: page aligned, non-empty, inside the address space, at most \<open>2 ^ 20\<close> frames.\<close>

definition region_ok :: "mem_region \<Rightarrow> bool" where
  "region_ok r \<longleftrightarrow>
     4096 dvd unat (start_addr r) \<and> 4096 dvd unat (len_bytes r) \<and> 0 < nframes r \<and>
     region_end r < 18446744073709551616 \<and> nframes r \<le> 1048576 \<and>
     unat (qword_count r) = (nframes r + 63) div 64 \<and> 64 dvd first_slot r"

definition layout_ok :: "mem_map \<Rightarrow> bool" where
  "layout_ok mm \<longleftrightarrow>
     length (regions mm) = MAX_MEM_REGIONS \<and> 0 < region_count mm \<and> unat (region_count mm) \<le> MAX_MEM_REGIONS \<and>
     (\<forall>r \<in> set (mm_regions mm). region_ok r \<and> first_slot r + nslots r \<le> unat (bm_size (bitmap mm))) \<and>
     sorted_wrt (\<lambda>r s. region_end r \<le> unat (start_addr s) \<and> first_slot r + nslots r \<le> first_slot s)
       (mm_regions mm) \<and>
     unat (bm_size (bitmap mm)) < 18446744073709551608"

definition slot_used :: "mem_map \<Rightarrow> mem_region \<Rightarrow> nat \<Rightarrow> bool" where
  "slot_used mm r k \<longleftrightarrow> bm_bit (bitmap mm) (first_slot r + k)"

definition free_count :: "mem_map \<Rightarrow> mem_region \<Rightarrow> nat" where
  "free_count mm r = card {k. k < nframes r \<and> \<not> slot_used mm r k}"

definition bits_ok :: "mem_map \<Rightarrow> mem_region \<Rightarrow> bool" where
  "bits_ok mm r \<longleftrightarrow>
     (\<forall>k. nframes r \<le> k \<and> k < nslots r \<longrightarrow> slot_used mm r k) \<and>
     unat (free_frames r) = free_count mm r"

definition mm_wf :: "mem_map \<Rightarrow> bool" where
  "mm_wf mm \<longleftrightarrow> layout_ok mm \<and> (\<forall>r \<in> set (mm_regions mm). bits_ok mm r)"

section \<open>The scan of the code computes the scan on natural numbers\<close>

definition region_words :: "mem_map \<Rightarrow> mem_region \<Rightarrow> nat \<Rightarrow> u64" where
  "region_words mm r q = load64 (bm_data (bitmap mm)) (of_nat (first_slot r div 8 + q * 8))"

lemma region_ok_bounds:
  assumes "region_ok r"
  shows "nframes r \<le> nslots r" "nslots r \<le> 1048576" "unat (qword_count r) \<le> 16384"
    "nslots r < nframes r + 64"
proof -
  have q: "unat (qword_count r) = (nframes r + 63) div 64" "nframes r \<le> 1048576"
    using assms by (auto simp: region_ok_def)
  show "nframes r \<le> nslots r" "nslots r < nframes r + 64"
    unfolding nslots_def q(1) by linarith+
  have "(nframes r + 63) div 64 \<le> (1048576 + 63) div 64"
    using q(2) by (intro div_le_mono) simp
  then show "unat (qword_count r) \<le> 16384" using q(1) by simp
  then show "nslots r \<le> 1048576" by (simp add: nslots_def)
qed

lemma region_qword_eq:
  assumes "unat q < 4194304" "first_slot r < 18446744073709551608"
  shows "region_qword mm r q = region_words mm r (unat q)"
proof -
  have "unat (bitmap_start_addr r div 8 + ucast (q * 8)) = first_slot r div 8 + unat q * 8"
    using assms by (simp add: unat_add_u64 unat_div_word unat_ucast_u32_u64 unat_mult_u32 first_slot_def)
  then have "bitmap_start_addr r div 8 + ucast (q * 8) = of_nat (first_slot r div 8 + unat q * 8)"
    using assms by (simp add: word_eq_by_unat unat_of_nat_u64 flip: of_nat_add of_nat_mult)
  then show ?thesis by (simp add: region_qword_def region_words_def)
qed

lemma region_words_bit:
  assumes "64 dvd first_slot r" "first_slot r + k < 18446744073709551608"
  shows "slot_free (region_words mm r) k \<longleftrightarrow> \<not> slot_used mm r k"
proof -
  obtain f where f: "first_slot r = 64 * f" using assms(1) by (auto simp: dvd_def)
  have eq: "first_slot r + k = k mod 64 + (first_slot r div 8 + k div 64 * 8) * 8"
    using mod_mult_div_eq [of k 64] by (simp add: f)
  have div8: "(first_slot r + k) div 8 = first_slot r div 8 + (k div 64 * 8 + k mod 64 div 8)"
    "(first_slot r + k) mod 8 = k mod 64 mod 8"
    unfolding eq by (simp_all only: div_mult_self1 mod_mult_self1)
  show ?thesis
    by (simp add: slot_free_def region_words_def bit_load64 slot_used_def bm_bit_def data_bit_def div8 add.assoc)
qed

text \<open>The 32-bit counters of the loop, while a region has at most \<open>2 ^ 28\<close> slots.\<close>

lemma u32_times_64: "unat (q :: u32) \<le> 4194304 \<Longrightarrow> unat (q * 64) = unat q * 64"
  by (subst unat_mult_u32) simp_all

lemma u32_plus: "a + b \<le> 536870912 \<Longrightarrow> unat (of_nat a + of_nat b :: u32) = a + b"
  by (subst unat_add_u32) (simp_all add: unat_of_nat_u32)

lemma as_of_nat: "(x :: 'a::len word) = of_nat (unat x)"
  by simp

lemma u32_reaches: "unat (c :: u32) + l \<le> 536870912 \<Longrightarrow> n \<le> ucast (c + of_nat l) \<longleftrightarrow> unat (n :: u64) \<le> unat c + l"
  using u32_plus [of "unat c" l] by (simp add: le_by_unat unat_ucast_u32_u64)

lemma scan_qwords_eq:
  assumes r: "unat (qword_count r) \<le> 4194304" "first_slot r < 18446744073709551608"
    and "unat q \<le> unat (qword_count r)" "unat c \<le> unat q * 64"
  shows "scan_qwords mm r n q c rs =
     Some (map_option (\<lambda>s. frame_addr r (of_nat s))
       (scan_nat (region_words mm r) (unat (qword_count r)) (unat n) (unat q) (unat c) (unat rs)))"
  using assms(3,4)
proof (induction "unat (qword_count r) - unat q" arbitrary: q c rs rule: less_induct)
  case less
  let ?Q = "unat (qword_count r)" and ?W = "region_words mm r"
  note Q = r(1)
  have guard: "ucast q < qword_count r \<longleftrightarrow> unat q < ?Q"
    by (simp add: less_by_unat unat_ucast_u32_u64)
  show ?case
  proof (cases "unat q < ?Q")
    case False
    then show ?thesis by (subst scan_qwords.simps, subst scan_nat.simps) (simp add: guard)
  next
    case q: True
    have small: "unat q < 4194304" using q Q by simp
    have word: "region_qword mm r q = ?W (unat q)" using region_qword_eq [OF small r(2)] .
    have q1: "unat (q + 1) = Suc (unat q)" using small by (subst unat_add_u32) simp_all
    have q64: "unat (q * 64) = unat q * 64" using u32_times_64 small by simp
    have c: "unat c \<le> 268435456" using less.prems(2) small by simp
    have step: "scan_qwords mm r n (q + 1) c' rs' =
        Some (map_option (\<lambda>s. frame_addr r (of_nat s))
          (scan_nat ?W ?Q (unat n) (Suc (unat q)) (unat c') (unat rs')))"
      if "unat c' \<le> unat q * 64 + 64" for c' rs'
      using less.hyps [of "q + 1" c' rs'] that q by (simp add: q1)
    have c64: "unat (c + 64) = unat c + 64" using c by (subst unat_add_u32) simp_all
    have zero: "c = 0 \<longleftrightarrow> unat c = 0" by (simp add: unat_eq_zero)
    show ?thesis
    proof (cases "?W (unat q) = 0")
      case W: True
      have "n \<le> ucast (c + 64) \<longleftrightarrow> unat n \<le> unat c + 64"
        by (simp add: le_by_unat unat_ucast_u32_u64 c64)
      with W q step [of "c + 64"] less.prems(2) show ?thesis
        by (subst scan_qwords.simps, subst scan_nat.simps)
           (simp add: guard word q64 c64 zero Let_def)
    next
      case W: False
      let ?l = "ctzll (?W (unat q))" and ?t = "clzll (?W (unat q))"
      have l: "?l < 64" by (rule ctzll_nonzero(3) [OF W])
      have t: "?t \<le> 64" by (rule clzll_bound)
      have reach: "n \<le> ucast (c + of_nat ?l) \<longleftrightarrow> unat n \<le> unat c + ?l"
        using c l by (intro u32_reaches) simp
      have n64: "n \<le> 64 \<longleftrightarrow> unat n \<le> 64" by (simp add: le_by_unat)
      have t32: "unat (of_nat ?t :: u32) = ?t" using t by (simp add: unat_of_nat_u32)
      have rs': "unat (q * 64 + 64 - of_nat ?t) = unat q * 64 + 64 - ?t"
        using t small by (simp add: unat_sub_word le_by_unat t32 unat_add_u32 q64)
      show ?thesis
      proof (cases "unat n \<le> unat c + ?l")
        case True
        with W q show ?thesis
          by (subst scan_qwords.simps, subst scan_nat.simps)
             (simp add: guard word q64 zero Let_def reach)
      next
        case False
        have "find_run_in_word (?W (unat q)) (ucast n) = Some (find_run_nat (?W (unat q)) (unat n))" if "unat n \<le> 64"
          using that False find_run_in_word_nat [of "ucast n" "?W (unat q)"] by (simp add: unat_ucast_u64_u32)
        with False W q step [of "of_nat ?t"] t show ?thesis
          by (subst scan_qwords.simps, subst scan_nat.simps)
             (simp add: guard word q64 zero Let_def reach n64 t32 rs' nat_add_distrib)
      qed
    qed
  qed
qed


section \<open>The region loop\<close>

lemma region_loop_hit:
  assumes "i \<le> k" "k < unat (region_count mm)" "unat (region_count mm) \<le> length (regions mm)"
    and "test (regions mm ! k)" "\<And>j. i \<le> j \<Longrightarrow> j < k \<Longrightarrow> \<not> test (regions mm ! j)"
  shows "region_loop test mm i = Some (Some k)"
  using assms
proof (induction "k - i" arbitrary: i)
  case 0
  then show ?case by (subst region_loop.simps) simp
next
  case (Suc d)
  then have "region_loop test mm i = region_loop test mm (Suc i)"
    by (subst region_loop.simps) simp
  also have "\<dots> = Some (Some k)" using Suc by simp
  finally show ?case .
qed

lemma region_loop_miss:
  assumes "unat (region_count mm) \<le> length (regions mm)"
    and "\<And>j. i \<le> j \<Longrightarrow> j < unat (region_count mm) \<Longrightarrow> \<not> test (regions mm ! j)"
  shows "region_loop test mm i = Some None"
  using assms(2)
proof (induction "unat (region_count mm) - i" arbitrary: i)
  case 0
  then show ?case by (subst region_loop.simps) simp
next
  case (Suc d)
  then have "region_loop test mm i = region_loop test mm (Suc i)"
    using assms(1) by (subst region_loop.simps) simp
  also have "\<dots> = Some None" using Suc by simp
  finally show ?case .
qed

section \<open>Regions of a well-formed map\<close>

lemma mm_regions_nth:
  "layout_ok mm \<Longrightarrow> i < unat (region_count mm) \<Longrightarrow> regions mm ! i = mm_regions mm ! i"
  by (simp add: mm_regions_def)

lemma length_mm_regions: "layout_ok mm \<Longrightarrow> length (mm_regions mm) = unat (region_count mm)"
  by (simp add: mm_regions_def layout_ok_def)

lemma mm_regions_mem: "layout_ok mm \<Longrightarrow> i < unat (region_count mm) \<Longrightarrow> regions mm ! i \<in> set (mm_regions mm)"
  by (metis length_mm_regions mm_regions_nth nth_mem)

lemma layout_region:
  assumes "layout_ok mm" "r \<in> set (mm_regions mm)"
  shows "region_ok r" "first_slot r + nslots r \<le> unat (bm_size (bitmap mm))"
    "first_slot r + nslots r < 18446744073709551608"
  using assms by (auto simp: layout_ok_def)

lemma regions_apart:
  assumes "layout_ok mm" "i < j" "j < unat (region_count mm)"
  shows "region_end (regions mm ! i) \<le> unat (start_addr (regions mm ! j))"
    "first_slot (regions mm ! i) + nslots (regions mm ! i) \<le> first_slot (regions mm ! j)"
proof -
  have "sorted_wrt (\<lambda>r s. region_end r \<le> unat (start_addr s) \<and> first_slot r + nslots r \<le> first_slot s)
      (mm_regions mm)"
    using assms(1) by (simp add: layout_ok_def)
  from sorted_wrt_nth_less [OF this assms(2)] assms
  show "region_end (regions mm ! i) \<le> unat (start_addr (regions mm ! j))"
    "first_slot (regions mm ! i) + nslots (regions mm ! i) \<le> first_slot (regions mm ! j)"
    by (simp_all add: length_mm_regions mm_regions_nth)
qed

lemma region_len: "region_ok r \<Longrightarrow> unat (len_bytes r) = 4096 * nframes r"
  by (auto simp: region_ok_def nframes_def)

lemma region_end_eq: "region_ok r \<Longrightarrow> region_end r = unat (start_addr r) + 4096 * nframes r"
  by (simp add: region_end_def region_len)

lemma unat_region_end: "region_ok r \<Longrightarrow> unat (start_addr r + len_bytes r) = region_end r"
  by (simp add: region_ok_def region_end_def unat_add_u64)

text \<open>The address of frame \<open>s\<close> of a region.\<close>

definition frame_at :: "mem_region \<Rightarrow> nat \<Rightarrow> nat" where
  "frame_at r s = unat (start_addr r) + 4096 * s"

lemma frame_at_le: "region_ok r \<Longrightarrow> s \<le> nframes r \<Longrightarrow> frame_at r s \<le> region_end r"
  by (simp add: frame_at_def region_end_eq)

lemma unat_frame_addr:
  "region_ok r \<Longrightarrow> s < nframes r \<Longrightarrow> unat (frame_addr r (of_nat s)) = frame_at r s"
proof -
  assume r: "region_ok r" and s: "s < nframes r"
  then have lt: "s < 1048576" "frame_at r s < 18446744073709551616"
    using frame_at_le [OF r, of s] by (auto simp: region_ok_def)
  have "unat ((of_nat s :: u32) * 4096) = 4096 * s"
    using lt(1) by (subst unat_mult_u32) (simp_all add: unat_of_nat_u32)
  with lt(2) show ?thesis
    by (simp add: frame_addr_def frame_at_def unat_add_u64 unat_ucast_u32_u64)
qed

text \<open>An address range that starts in region \<open>i\<close> and ends in it is found there.\<close>

definition in_region :: "mem_map \<Rightarrow> nat \<Rightarrow> u64 \<Rightarrow> u64 \<Rightarrow> nat \<Rightarrow> nat \<Rightarrow> bool" where
  "in_region mm i a b s n \<longleftrightarrow>
     i < unat (region_count mm) \<and> 0 < n \<and> s + n \<le> nframes (regions mm ! i) \<and>
     unat a = frame_at (regions mm ! i) s \<and> unat b = frame_at (regions mm ! i) (s + n)"

lemma in_region_outside:
  assumes "layout_ok mm" "in_region mm i a b s n"
  shows "outside_regions mm a b = Some False"
proof -
  let ?c = "unat (region_count mm)" and ?r = "regions mm ! i"
  have c: "i < ?c" "?c \<le> length (regions mm)" "region_count mm \<noteq> 0"
    using assms by (auto simp: in_region_def layout_ok_def)
  have ok: "region_ok (regions mm ! j)" if "j < ?c" for j
    using layout_region(1) [OF assms(1) mm_regions_mem [OF assms(1) that]] .
  have "unat (start_addr (regions mm ! 0)) \<le> unat (start_addr ?r)"
    using regions_apart(1) [OF assms(1), of 0 i] c(1) by (cases "i = 0") (auto simp: region_end_def)
  then have lo: "\<not> a < start_addr (regions mm ! 0)"
    using assms(2) by (simp add: less_by_unat in_region_def frame_at_def)
  have "region_end ?r \<le> region_end (regions mm ! (?c - 1))"
  proof (cases "i = ?c - 1")
    case False
    then have i: "i < ?c - 1" "?c - 1 < ?c" using c(1) by auto
    show ?thesis
      by (rule order_trans [OF regions_apart(1) [OF assms(1) i]]) (simp add: region_end_def)
  qed simp
  moreover have "unat b \<le> region_end ?r"
    using assms(2) frame_at_le [OF ok [OF c(1)], of "s + n"] by (simp add: in_region_def)
  ultimately have "\<not> b > start_addr (regions mm ! (?c - 1)) + len_bytes (regions mm ! (?c - 1))"
    using unat_region_end [OF ok, of "?c - 1"] c by (simp add: less_by_unat)
  moreover have "0 < length (regions mm)" "?c - 1 < length (regions mm)" using c by linarith+
  ultimately show ?thesis
    using lo c by (simp add: outside_regions_def last_region_end_def idx_def del: length_greater_0_conv)
qed

lemma in_region_found:
  assumes wf: "layout_ok mm" and i: "in_region mm i a b s n"
    and test: "\<And>j. j < unat (region_count mm) \<Longrightarrow>
      test (regions mm ! j) \<longleftrightarrow>
        unat (start_addr (regions mm ! j)) \<le> unat a \<and> unat b \<le> region_end (regions mm ! j)"
  shows "region_loop test mm 0 = Some (Some i)"
proof (rule region_loop_hit)
  have c: "i < unat (region_count mm)" using i by (simp add: in_region_def)
  have ok: "region_ok (regions mm ! i)" using layout_region(1) [OF wf mm_regions_mem [OF wf c]] .
  show "test (regions mm ! i)"
    using i frame_at_le [OF ok, of "s + n"] by (simp add: test [OF c] in_region_def frame_at_def)
  show "\<not> test (regions mm ! j)" if "j < i" for j
  proof -
    have "region_end (regions mm ! j) \<le> unat (start_addr (regions mm ! i))"
      using regions_apart(1) [OF wf that c] .
    also have "\<dots> < unat b" using i by (simp add: in_region_def frame_at_def)
    finally show ?thesis using test [of j] that c by simp
  qed
  show "i < unat (region_count mm)" by fact
  show "unat (region_count mm) \<le> length (regions mm)" using wf by (simp add: layout_ok_def)
qed simp

lemma in_region_slots:
  assumes wf: "layout_ok mm" and i: "in_region mm i a b s n"
  shows "(b - a) div DEFAULT_PAGE_SIZE = of_nat n"
    "unat (bitmap_start_addr (regions mm ! i) + (a - start_addr (regions mm ! i)) div DEFAULT_PAGE_SIZE)
       = first_slot (regions mm ! i) + s"
    "first_slot (regions mm ! i) + s + n \<le> unat (bm_size (bitmap mm))"
    "unat (of_nat n :: u64) = n"
proof -
  let ?r = "regions mm ! i"
  have c: "i < unat (region_count mm)" using i by (simp add: in_region_def)
  note lay = layout_region [OF wf mm_regions_mem [OF wf c]]
  have n: "s + n \<le> nframes ?r" "unat a = frame_at ?r s" "unat b = frame_at ?r (s + n)"
    using i by (auto simp: in_region_def)
  have n20: "nframes ?r \<le> 1048576" using lay(1) by (simp add: region_ok_def)
  then show un: "unat (of_nat n :: u64) = n" using n(1) by (simp add: unat_of_nat_u64)
  have "unat ((b - a) div DEFAULT_PAGE_SIZE) = n"
    using n by (simp add: unat_div_word DEFAULT_PAGE_SIZE_def unat_sub_word le_by_unat frame_at_def)
  then show "(b - a) div DEFAULT_PAGE_SIZE = of_nat n" by (simp add: word_eq_by_unat un)
  have "unat ((a - start_addr ?r) div DEFAULT_PAGE_SIZE) = s"
    using n by (simp add: unat_div_word DEFAULT_PAGE_SIZE_def unat_sub_word le_by_unat frame_at_def)
  moreover show fits: "first_slot ?r + s + n \<le> unat (bm_size (bitmap mm))"
    using lay(2) n(1) region_ok_bounds(1) [OF lay(1)] by simp
  ultimately show "unat (bitmap_start_addr ?r + (a - start_addr ?r) div DEFAULT_PAGE_SIZE) = first_slot ?r + s"
    using u64_bound [of "bm_size (bitmap mm)"] by (simp add: unat_add_u64 first_slot_def)
qed

section \<open>Marking and unmarking frames\<close>

text \<open>The state after the frames \<open>s .. s + n - 1\<close> of region \<open>i\<close> got the value \<open>v\<close>
  and the free count of the region the value \<open>f\<close>.\<close>

definition frames_written :: "mem_map \<Rightarrow> nat \<Rightarrow> nat \<Rightarrow> nat \<Rightarrow> bool \<Rightarrow> u64 \<Rightarrow> mem_map \<Rightarrow> bool" where
  "frames_written mm i s n v f mm' \<longleftrightarrow>
     (\<exists>b. mm' = mm\<lparr>regions := (regions mm)[i := (regions mm ! i)\<lparr>free_frames := f\<rparr>], bitmap := b\<rparr> \<and>
        bm_size b = bm_size (bitmap mm) \<and>
        (\<forall>k < ALL_BITS. bm_bit b k \<longleftrightarrow>
           (if first_slot (regions mm ! i) + s \<le> k \<and> k < first_slot (regions mm ! i) + s + n then v
            else bm_bit (bitmap mm) k)))"

lemma set_mem_region_in:
  assumes wf: "layout_ok mm" and i: "in_region mm i a b s n"
  obtains mm' where "set_mem_region mm a b = Some (0, mm')"
    "frames_written mm i s n True (free_frames (regions mm ! i) - of_nat n) mm'"
proof -
  let ?r = "regions mm ! i"
  let ?slot = "bitmap_start_addr ?r + (a - start_addr ?r) div DEFAULT_PAGE_SIZE"
  note sl = in_region_slots [OF wf i]
  have size: "unat (bm_size (bitmap mm)) < 18446744073709551608" using wf by (simp add: layout_ok_def)
  have "unat ?slot + unat (of_nat n :: u64) \<le> unat (bm_size (bitmap mm))" using sl by simp
  then obtain b' where b': "bitmap_set_len (bitmap mm) ?slot (of_nat n) = Some (0, b')"
    "bm_size b' = bm_size (bitmap mm)"
    "\<And>k. k < ALL_BITS \<Longrightarrow> bm_bit b' k \<longleftrightarrow>
       unat ?slot \<le> k \<and> k < unat ?slot + unat (of_nat n :: u64) \<or> bm_bit (bitmap mm) k"
    using bitmap_set_len_spec [OF _ size] by blast
  have test: "\<not> (start_addr (regions mm ! j) > a \<or> b > start_addr (regions mm ! j) + len_bytes (regions mm ! j))
      \<longleftrightarrow> unat (start_addr (regions mm ! j)) \<le> unat a \<and> unat b \<le> region_end (regions mm ! j)"
    if "j < unat (region_count mm)" for j
    using unat_region_end [OF layout_region(1) [OF wf mm_regions_mem [OF wf that]]]
    by (simp add: less_by_unat not_less)
  have loop: "region_loop (\<lambda>r. \<not> (start_addr r > a \<or> b > start_addr r + len_bytes r)) mm 0 = Some (Some i)"
    by (rule in_region_found [OF wf i], rule test)
  show ?thesis
  proof (rule that)
    show "set_mem_region mm a b = Some (0, mm\<lparr>regions := (regions mm)
        [i := ?r\<lparr>free_frames := free_frames ?r - of_nat n\<rparr>], bitmap := b'\<rparr>)"
      by (simp add: set_mem_region_def in_region_outside [OF wf i] loop [simplified] sl(1) b'(1) Let_def)
    show "frames_written mm i s n True (free_frames ?r - of_nat n) (mm\<lparr>regions := (regions mm)
        [i := ?r\<lparr>free_frames := free_frames ?r - of_nat n\<rparr>], bitmap := b'\<rparr>)"
      using b'(2,3) sl(2,4) unfolding frames_written_def by (intro exI [of _ b']) auto
  qed
qed


lemma set_free_frames [simp]:
  "nframes (r\<lparr>free_frames := f\<rparr>) = nframes r" "nslots (r\<lparr>free_frames := f\<rparr>) = nslots r"
  "region_end (r\<lparr>free_frames := f\<rparr>) = region_end r" "first_slot (r\<lparr>free_frames := f\<rparr>) = first_slot r"
  "frame_at (r\<lparr>free_frames := f\<rparr>) k = frame_at r k" "region_ok (r\<lparr>free_frames := f\<rparr>) = region_ok r"
  "slot_used mm (r\<lparr>free_frames := f\<rparr>) k = slot_used mm r k"
  "free_count mm (r\<lparr>free_frames := f\<rparr>) = free_count mm r"
  by (simp_all add: nframes_def nslots_def region_end_def first_slot_def frame_at_def region_ok_def
      slot_used_def free_count_def)

lemma layout_ok_nth:
  "layout_ok mm \<longleftrightarrow>
     length (regions mm) = MAX_MEM_REGIONS \<and> 0 < region_count mm \<and> unat (region_count mm) \<le> MAX_MEM_REGIONS \<and>
     (\<forall>i < unat (region_count mm). region_ok (regions mm ! i) \<and>
        first_slot (regions mm ! i) + nslots (regions mm ! i) \<le> unat (bm_size (bitmap mm))) \<and>
     (\<forall>i j. i < j \<longrightarrow> j < unat (region_count mm) \<longrightarrow>
        region_end (regions mm ! i) \<le> unat (start_addr (regions mm ! j)) \<and>
        first_slot (regions mm ! i) + nslots (regions mm ! i) \<le> first_slot (regions mm ! j)) \<and>
     unat (bm_size (bitmap mm)) < 18446744073709551608"
proof (cases "length (regions mm) = MAX_MEM_REGIONS \<and> unat (region_count mm) \<le> MAX_MEM_REGIONS")
  case True
  then have len: "length (mm_regions mm) = unat (region_count mm)"
    and nth: "\<And>i. i < unat (region_count mm) \<Longrightarrow> mm_regions mm ! i = regions mm ! i"
    by (simp_all add: mm_regions_def)
  have all: "(\<forall>r \<in> set (mm_regions mm). P r) \<longleftrightarrow> (\<forall>i < unat (region_count mm). P (regions mm ! i))" for P
    by (simp add: all_set_conv_all_nth len nth)
  have sorted: "sorted_wrt P (mm_regions mm) \<longleftrightarrow>
      (\<forall>i j. i < j \<longrightarrow> j < unat (region_count mm) \<longrightarrow> P (regions mm ! i) (regions mm ! j))" for P
    by (simp add: sorted_wrt_iff_nth_less len nth cong: imp_cong)
  show ?thesis unfolding layout_ok_def all sorted by (rule refl)
next
  case False
  then show ?thesis unfolding layout_ok_def by blast
qed

lemma mm_wf_nth:
  "mm_wf mm \<longleftrightarrow> layout_ok mm \<and> (\<forall>i < unat (region_count mm). bits_ok mm (regions mm ! i))"
proof (cases "layout_ok mm")
  case True
  then show ?thesis by (auto simp: mm_wf_def all_set_conv_all_nth length_mm_regions mm_regions_nth)
qed (simp add: mm_wf_def)

lemma written_shape:
  assumes "frames_written mm i s n v f mm'"
  obtains b where "mm' = mm\<lparr>regions := (regions mm)[i := (regions mm ! i)\<lparr>free_frames := f\<rparr>], bitmap := b\<rparr>"
    "bm_size b = bm_size (bitmap mm)"
  using assms unfolding frames_written_def by blast

lemma written_bits:
  assumes "frames_written mm i s n v f mm'" "p < ALL_BITS"
  shows "bm_bit (bitmap mm') p \<longleftrightarrow>
    (if first_slot (regions mm ! i) + s \<le> p \<and> p < first_slot (regions mm ! i) + s + n then v
     else bm_bit (bitmap mm) p)"
proof -
  obtain b where b: "mm' = mm\<lparr>regions := (regions mm)[i := (regions mm ! i)\<lparr>free_frames := f\<rparr>], bitmap := b\<rparr>"
    "\<forall>k < ALL_BITS. bm_bit b k \<longleftrightarrow>
       (if first_slot (regions mm ! i) + s \<le> k \<and> k < first_slot (regions mm ! i) + s + n then v
        else bm_bit (bitmap mm) k)"
    using assms(1) unfolding frames_written_def by blast
  have "bitmap mm' = b" unfolding b(1) by simp
  with b(2) assms(2) show ?thesis by blast
qed

lemma written_region_count [simp]: "frames_written mm i s n v f mm' \<Longrightarrow> region_count mm' = region_count mm"
  by (erule written_shape) simp

lemma written_regions:
  assumes "frames_written mm i s n v f mm'" "layout_ok mm" "j < unat (region_count mm)"
  shows "regions mm' ! j = (if j = i then (regions mm ! i)\<lparr>free_frames := f\<rparr> else regions mm ! j)"
proof -
  have "j < length (regions mm)" using assms(2,3) by (simp add: layout_ok_def)
  with assms(1) show ?thesis by (auto elim!: written_shape)
qed

lemma written_layout:
  assumes "frames_written mm i s n v f mm'" "layout_ok mm" "i < unat (region_count mm)"
  shows "layout_ok mm'"
proof -
  obtain b where mm': "mm' = mm\<lparr>regions := (regions mm)[i := (regions mm ! i)\<lparr>free_frames := f\<rparr>], bitmap := b\<rparr>"
    and size: "bm_size b = bm_size (bitmap mm)"
    using assms(1) by (rule written_shape)
  let ?c = "unat (region_count mm)"
  have nth: "regions mm' ! j = (if j = i then (regions mm ! i)\<lparr>free_frames := f\<rparr> else regions mm ! j)"
    if "j < ?c" for j by (rule written_regions [OF assms(1,2) that])
  have same: "nslots (regions mm' ! j) = nslots (regions mm ! j)"
    "first_slot (regions mm' ! j) = first_slot (regions mm ! j)"
    "region_end (regions mm' ! j) = region_end (regions mm ! j)"
    "region_ok (regions mm' ! j) = region_ok (regions mm ! j)"
    "start_addr (regions mm' ! j) = start_addr (regions mm ! j)" if "j < ?c" for j
    by (simp_all add: nth [OF that])
  have "region_count mm' = region_count mm" "bm_size (bitmap mm') = bm_size (bitmap mm)"
    "length (regions mm') = length (regions mm)" by (simp_all add: mm' size)
  with assms(2) show ?thesis unfolding layout_ok_nth by (simp add: same)
qed

text \<open>A write inside the frames of region \<open>i\<close> leaves the slots of the others alone.\<close>

lemma written_slots:
  assumes w: "frames_written mm i s n v f mm'" and wf: "layout_ok mm" and i: "i < unat (region_count mm)"
    and fits: "s + n \<le> nframes (regions mm ! i)" and j: "j < unat (region_count mm)" "k < nslots (regions mm ! j)"
  shows "slot_used mm' (regions mm ! j) k \<longleftrightarrow>
    (if j = i \<and> s \<le> k \<and> k < s + n then v else slot_used mm (regions mm ! j) k)"
proof -
  let ?r = "regions mm ! i" and ?t = "regions mm ! j"
  have fits': "s + n \<le> nslots ?r"
    using fits region_ok_bounds(1) [OF layout_region(1) [OF wf mm_regions_mem [OF wf i]]] by simp
  note bits = written_bits [OF w]
  have lim: "first_slot ?t + k < ALL_BITS"
    using layout_region(3) [OF wf mm_regions_mem [OF wf j(1)]] j(2) by simp
  have apart: "\<not> (first_slot ?r + s \<le> first_slot ?t + k \<and> first_slot ?t + k < first_slot ?r + s + n)"
    if "j \<noteq> i"
  proof (cases "j < i")
    case True
    with regions_apart(2) [OF wf True i] j(2) show ?thesis by auto
  next
    case False
    then have "i < j" using that by simp
    with regions_apart(2) [OF wf this j(1)] fits' show ?thesis by auto
  qed
  show ?thesis
  proof (cases "j = i")
    case True
    then show ?thesis using bits [OF lim] by (simp add: slot_used_def)
  next
    case False
    with bits [OF lim] apart show ?thesis by (simp only: slot_used_def if_False simp_thms)
  qed
qed

end
