(* ===== verification/Frame_Allocator.thy ===== *)
theory Frame_Allocator
  imports MemMap_Alloc
begin

text \<open>
  What the frame allocator of \<^verbatim>\<open>MemMap.thy\<close> promises, on the set of free frame addresses:
  \<^const>\<open>map_alloc_frame_contiguous\<close> takes a block of consecutive frames out of the set or reports
  that no region has one, \<^const>\<open>map_dealloc_frame\<close> puts a block back.  The promise is a locale,
  \<open>frame_allocator\<close>, interpreted on the code's operations.
\<close>

section \<open>The abstract state\<close>

definition block :: "nat \<Rightarrow> nat \<Rightarrow> nat set" where
  "block a n = (\<lambda>j. a + 4096 * j) ` {..<n}"

definition free_slot :: "mem_map \<Rightarrow> nat \<Rightarrow> nat \<Rightarrow> bool" where
  "free_slot mm i k \<longleftrightarrow>
     i < unat (region_count mm) \<and> k < nframes (regions mm ! i) \<and> \<not> slot_used mm (regions mm ! i) k"

definition free_set :: "mem_map \<Rightarrow> nat set" where
  "free_set mm = {frame_at (regions mm ! i) k | i k. free_slot mm i k}"

text \<open>\<open>n\<close> free frames in a row, from slot \<open>s\<close> of region \<open>i\<close>.\<close>

definition free_block :: "mem_map \<Rightarrow> nat \<Rightarrow> nat \<Rightarrow> nat \<Rightarrow> bool" where
  "free_block mm i s n \<longleftrightarrow> (\<forall>j < n. free_slot mm i (s + j))"

definition used_block :: "mem_map \<Rightarrow> nat \<Rightarrow> nat \<Rightarrow> nat \<Rightarrow> bool" where
  "used_block mm i s n \<longleftrightarrow>
     i < unat (region_count mm) \<and> s + n \<le> nframes (regions mm ! i) \<and>
     (\<forall>j < n. slot_used mm (regions mm ! i) (s + j))"

lemma frame_at_inj:
  assumes "layout_ok mm" "i < unat (region_count mm)" "k < nframes (regions mm ! i)"
    "j < unat (region_count mm)" "l < nframes (regions mm ! j)"
    "frame_at (regions mm ! i) k = frame_at (regions mm ! j) l"
  shows "i = j \<and> k = l"
proof -
  have no: False if "i < j" "j < unat (region_count mm)" "k < nframes (regions mm ! i)"
    "frame_at (regions mm ! i) k = frame_at (regions mm ! j) l" for i j k l
  proof -
    have i: "i < unat (region_count mm)" using that by simp
    have "frame_at (regions mm ! i) k < region_end (regions mm ! i)"
      using that(3) region_end_eq [OF layout_region(1) [OF assms(1) mm_regions_mem [OF assms(1) i]]]
      by (simp add: frame_at_def)
    also have "\<dots> \<le> frame_at (regions mm ! j) l"
      using regions_apart(1) [OF assms(1) that(1,2)] by (simp add: frame_at_def)
    finally show False using that(4) by simp
  qed
  have "i = j"
    using no [of i j k l] no [of j i l k] assms by (cases i j rule: linorder_cases) auto
  with assms(6) show ?thesis by (simp add: frame_at_def)
qed

lemma free_set_iff:
  assumes "layout_ok mm" "i < unat (region_count mm)" "k < nframes (regions mm ! i)"
  shows "frame_at (regions mm ! i) k \<in> free_set mm \<longleftrightarrow> \<not> slot_used mm (regions mm ! i) k"
  using frame_at_inj [OF assms] assms by (fastforce simp: free_set_def free_slot_def)

lemma in_block_iff:
  assumes "layout_ok mm" "i < unat (region_count mm)" "s + n \<le> nframes (regions mm ! i)"
    "j < unat (region_count mm)" "k < nframes (regions mm ! j)"
  shows "frame_at (regions mm ! j) k \<in> block (frame_at (regions mm ! i) s) n \<longleftrightarrow> j = i \<and> s \<le> k \<and> k < s + n"
proof
  assume "frame_at (regions mm ! j) k \<in> block (frame_at (regions mm ! i) s) n"
  then obtain d where d: "d < n" "frame_at (regions mm ! j) k = frame_at (regions mm ! i) (s + d)"
    by (auto simp: block_def frame_at_def)
  with frame_at_inj [OF assms(1,4,5,2) _ d(2)] assms(3) show "j = i \<and> s \<le> k \<and> k < s + n" by auto
next
  assume "j = i \<and> s \<le> k \<and> k < s + n"
  then show "frame_at (regions mm ! j) k \<in> block (frame_at (regions mm ! i) s) n"
    unfolding block_def frame_at_def by (intro image_eqI [of _ _ "k - s"]) auto
qed

lemma block_frame_at: "block (frame_at r s) n = {frame_at r k | k. s \<le> k \<and> k < s + n}"
proof (rule set_eqI)
  fix a
  have "a \<in> block (frame_at r s) n \<longleftrightarrow> (\<exists>j < n. a = frame_at r (s + j))"
    by (auto simp: block_def frame_at_def)
  also have "\<dots> \<longleftrightarrow> (\<exists>k. a = frame_at r k \<and> s \<le> k \<and> k < s + n)"
    by (metis add_less_cancel_left le_add1 le_add_diff_inverse)
  finally show "a \<in> block (frame_at r s) n \<longleftrightarrow> a \<in> {frame_at r k | k. s \<le> k \<and> k < s + n}" by auto
qed

section \<open>Writing the frames of a block\<close>

lemma written_frame_at:
  assumes "frames_written mm i s n v f mm'" "layout_ok mm" "j < unat (region_count mm)"
  shows "frame_at (regions mm' ! j) k = frame_at (regions mm ! j) k"
    "nframes (regions mm' ! j) = nframes (regions mm ! j)"
    "nslots (regions mm' ! j) = nslots (regions mm ! j)"
    "slot_used m (regions mm' ! j) k = slot_used m (regions mm ! j) k"
  using written_regions [OF assms] by simp_all

lemma written_free_slot:
  assumes w: "frames_written mm i s n v f mm'" and wf: "layout_ok mm" and i: "i < unat (region_count mm)"
    and fits: "s + n \<le> nframes (regions mm ! i)"
  shows "free_slot mm' j k \<longleftrightarrow>
    (if j = i \<and> s \<le> k \<and> k < s + n then \<not> v else free_slot mm j k)"
proof (cases "j < unat (region_count mm) \<and> k < nframes (regions mm ! j)")
  case True
  then have "k < nslots (regions mm ! j)"
    using region_ok_bounds(1) [OF layout_region(1) [OF wf mm_regions_mem [OF wf, of j]]] by simp
  with True show ?thesis
    using written_slots [OF w wf i fits, of j k] written_frame_at [OF w wf, of j] w
    by (auto simp: free_slot_def)
next
  case False
  with fits i written_frame_at(2) [OF w wf, of j] w show ?thesis by (auto simp: free_slot_def)
qed

lemma written_free_set:
  assumes w: "frames_written mm i s n v f mm'" and wf: "layout_ok mm" and i: "i < unat (region_count mm)"
    and fits: "s + n \<le> nframes (regions mm ! i)"
  shows "free_set mm' = (if v then free_set mm - block (frame_at (regions mm ! i) s) n
                         else free_set mm \<union> block (frame_at (regions mm ! i) s) n)"
proof -
  let ?B = "block (frame_at (regions mm ! i) s) n"
  have B: "?B = {frame_at (regions mm ! i) k | k. s \<le> k \<and> k < s + n}"
    by (rule block_frame_at)
  have at: "frame_at (regions mm' ! j) k = frame_at (regions mm ! j) k" if "free_slot mm' j k" for j k
    using that written_frame_at(1) [OF w wf, of j k] w by (simp add: free_slot_def)
  have fs: "free_set mm' = {frame_at (regions mm ! j) k | j k. free_slot mm' j k}"
    unfolding free_set_def using at by (metis (no_types, lifting))
  note slot = written_free_slot [OF w wf i fits]
  show ?thesis
  proof (cases v)
    case True
    have "frame_at (regions mm ! j) k \<in> ?B \<longleftrightarrow> j = i \<and> s \<le> k \<and> k < s + n" if "free_slot mm j k" for j k
      using that in_block_iff [OF wf i fits, of j k] by (simp add: free_slot_def)
    then have "free_set mm - ?B = {frame_at (regions mm ! j) k | j k. free_slot mm' j k}"
      unfolding free_set_def using True slot by auto
    with fs True show ?thesis by simp
  next
    case False
    have or: "free_slot mm' j k \<longleftrightarrow> free_slot mm j k \<or> j = i \<and> s \<le> k \<and> k < s + n" for j k
      using slot [of j k] False by (simp split: if_splits) blast
    have "free_set mm \<union> ?B = {frame_at (regions mm ! j) k | j k. free_slot mm' j k}"
      unfolding free_set_def B or by auto
    with fs False show ?thesis by simp
  qed
qed

lemma card_slots_removed:
  assumes "s + n \<le> (m :: nat)" "\<forall>k. s \<le> k \<and> k < s + n \<longrightarrow> P k"
    and "\<forall>k < m. Q k \<longleftrightarrow> (if s \<le> k \<and> k < s + n then False else P k)"
  shows "card {k. k < m \<and> P k} = card {k. k < m \<and> Q k} + n"
proof -
  have "{k. k < m \<and> P k} = {k. k < m \<and> Q k} \<union> {s..<s + n}"
    using assms by (auto split: if_splits)
  moreover have "{k. k < m \<and> Q k} \<inter> {s..<s + n} = {}" using assms(1,3) by auto
  ultimately show ?thesis by (simp add: card_Un_disjoint)
qed

lemma written_bits_ok_other:
  assumes w: "frames_written mm i s n v f mm'" and wf: "mm_wf mm" and i: "i < unat (region_count mm)"
    and fits: "s + n \<le> nframes (regions mm ! i)" and j: "j < unat (region_count mm)" "j \<noteq> i"
  shows "bits_ok mm' (regions mm' ! j)"
proof -
  have lay: "layout_ok mm" and ok: "bits_ok mm (regions mm ! j)" using wf j by (auto simp: mm_wf_nth)
  have "nframes (regions mm ! j) \<le> nslots (regions mm ! j)"
    by (rule region_ok_bounds(1) [OF layout_region(1) [OF lay mm_regions_mem [OF lay j(1)]]])
  then have same: "slot_used mm' (regions mm ! j) k = slot_used mm (regions mm ! j) k"
    if "k < nslots (regions mm ! j)" for k
    using written_slots [OF w lay i fits j(1) that] j(2) by simp
  moreover have "free_count mm' (regions mm ! j) = free_count mm (regions mm ! j)"
    unfolding free_count_def by (rule arg_cong [of _ _ card]) (use same \<open>nframes _ \<le> _\<close> in auto)
  moreover have "regions mm' ! j = regions mm ! j" using written_regions [OF w lay j(1)] j(2) by simp
  ultimately show ?thesis using ok by (simp add: bits_ok_def)
qed

lemma written_mm_wf:
  assumes w: "frames_written mm i s n v f mm'" and wf: "mm_wf mm" and i: "i < unat (region_count mm)"
    and fits: "s + n \<le> nframes (regions mm ! i)"
    and before: "\<forall>k. s \<le> k \<and> k < s + n \<longrightarrow> slot_used mm (regions mm ! i) k = (\<not> v)"
    and f: "unat f = (if v then free_count mm (regions mm ! i) - n else free_count mm (regions mm ! i) + n)"
  shows "mm_wf mm'"
proof -
  let ?r = "regions mm ! i"
  have lay: "layout_ok mm" and ok: "bits_ok mm ?r" using wf i by (auto simp: mm_wf_nth)
  have le: "nframes ?r \<le> nslots ?r"
    by (rule region_ok_bounds(1) [OF layout_region(1) [OF lay mm_regions_mem [OF lay i]]])
  have used': "slot_used mm' ?r k \<longleftrightarrow> (if s \<le> k \<and> k < s + n then v else slot_used mm ?r k)"
    if "k < nslots ?r" for k
    using written_slots [OF w lay i fits i that] by simp
  have count: "free_count mm' ?r = unat f"
  proof (cases v)
    case True
    have "free_count mm ?r = free_count mm' ?r + n"
      unfolding free_count_def by (rule card_slots_removed [OF fits]) (use before used' le True in auto)
    then show ?thesis using f True by simp
  next
    case False
    have "free_count mm' ?r = free_count mm ?r + n"
      unfolding free_count_def by (rule card_slots_removed [OF fits]) (use before used' le fits False in auto)
    then show ?thesis using f False by simp
  qed
  have "bits_ok mm' (?r\<lparr>free_frames := f\<rparr>)"
    using ok used' count fits le by (auto simp: bits_ok_def)
  moreover have "regions mm' ! i = ?r\<lparr>free_frames := f\<rparr>" using written_regions [OF w lay i] by simp
  ultimately have "bits_ok mm' (regions mm' ! j)" if "j < unat (region_count mm)" for j
    using written_bits_ok_other [OF w wf i fits that] by (cases "j = i") auto
  moreover have "layout_ok mm'" by (rule written_layout [OF w lay i])
  ultimately show ?thesis using w by (simp add: mm_wf_nth)
qed

section \<open>Searching one region\<close>

lemma scan_start:
  "unat (qword_count r) \<le> 4194304 \<Longrightarrow> first_slot r < 18446744073709551608 \<Longrightarrow>
   scan_qwords mm r n 0 0 0 = Some (map_option (\<lambda>s. frame_addr r (of_nat s))
     (scan_nat (region_words mm r) (unat (qword_count r)) (unat n) 0 0 0))"
  using scan_qwords_eq [of r 0 0 mm n 0] by simp

lemma region_run:
  assumes wf: "mm_wf mm" and i: "i < unat (region_count mm)"
    and n: "0 < n" "s + n \<le> nslots (regions mm ! i)"
  shows "free_run (region_words mm (regions mm ! i)) s n \<longleftrightarrow> free_block mm i s n"
proof -
  let ?r = "regions mm ! i"
  have lay: "layout_ok mm" and ok: "bits_ok mm ?r" using wf i by (auto simp: mm_wf_nth)
  note region = layout_region [OF lay mm_regions_mem [OF lay i]]
  have "slot_free (region_words mm ?r) k \<longleftrightarrow> free_slot mm i k" if "k < s + n" for k
  proof -
    have "slot_free (region_words mm ?r) k \<longleftrightarrow> \<not> slot_used mm ?r k"
      using that n region by (intro region_words_bit) (auto simp: region_ok_def)
    moreover have "k < nframes ?r" if "\<not> slot_used mm ?r k"
      using that ok \<open>k < s + n\<close> n(2) by (auto simp: bits_ok_def) (meson leI less_le_trans)
    ultimately show ?thesis using i by (auto simp: free_slot_def)
  qed
  then have "free_run (region_words mm ?r) s n \<longleftrightarrow> (\<forall>k. s \<le> k \<and> k < s + n \<longrightarrow> free_slot mm i k)"
    unfolding free_run_def by blast
  also have "\<dots> \<longleftrightarrow> free_block mm i s n"
    unfolding free_block_def by (metis add_less_cancel_left le_add1 le_add_diff_inverse)
  finally show ?thesis .
qed

lemma free_block_fits:
  assumes "free_block mm i s n" "0 < n"
  shows "i < unat (region_count mm)" "s + n \<le> nframes (regions mm ! i)"
    "\<forall>k. s \<le> k \<and> k < s + n \<longrightarrow> \<not> slot_used mm (regions mm ! i) k"
proof -
  have "n - 1 < n" using assms(2) by simp
  then have "free_slot mm i (s + (n - 1))" using assms(1) unfolding free_block_def by blast
  then show "i < unat (region_count mm)" "s + n \<le> nframes (regions mm ! i)"
    using assms(2) by (auto simp: free_slot_def)
  show "\<forall>k. s \<le> k \<and> k < s + n \<longrightarrow> \<not> slot_used mm (regions mm ! i) k"
    using assms(1) by (auto simp: free_block_def free_slot_def dest: le_Suc_ex)
qed

lemma free_block_count:
  assumes "free_block mm i s n" "0 < n"
  shows "n \<le> free_count mm (regions mm ! i)"
proof -
  have "{s..<s + n} \<subseteq> {k. k < nframes (regions mm ! i) \<and> \<not> slot_used mm (regions mm ! i) k}"
    using free_block_fits [OF assms] by auto
  from card_mono [OF _ this] show ?thesis by (simp add: free_count_def)
qed

definition first_block :: "mem_map \<Rightarrow> nat \<Rightarrow> nat \<Rightarrow> nat \<Rightarrow> bool" where
  "first_block mm i s n \<longleftrightarrow> free_block mm i s n \<and> (\<forall>s' < s. \<not> free_block mm i s' n)"

lemma scan_region:
  assumes wf: "mm_wf mm" and i: "i < unat (region_count mm)" and n: "0 < n"
  shows "(\<exists>s. scan_qwords mm (regions mm ! i) n 0 0 0 = Some (Some (frame_addr (regions mm ! i) (of_nat s))) \<and>
            first_block mm i s (unat n)) \<or>
         (scan_qwords mm (regions mm ! i) n 0 0 0 = Some None \<and> (\<forall>s. \<not> free_block mm i s (unat n)))"
proof -
  let ?r = "regions mm ! i" and ?n = "unat n"
  have lay: "layout_ok mm" using wf by (simp add: mm_wf_nth)
  note region = layout_region [OF lay mm_regions_mem [OF lay i]]
  note small = region_ok_bounds [OF region(1)]
  have n0: "0 < ?n" using n by (simp add: word_gt_0 unat_gt_0)
  have in_slots: "s + ?n \<le> nslots ?r" if "free_block mm i s ?n" for s
    using free_block_fits(2) [OF that n0] small(1) by simp
  have scan: "scan_qwords mm ?r n 0 0 0 = Some (map_option (\<lambda>s. frame_addr ?r (of_nat s))
      (scan_nat (region_words mm ?r) (unat (qword_count ?r)) ?n 0 0 0))"
    using small(3) region(3) by (intro scan_start) simp_all
  show ?thesis
  proof (cases "scan_nat (region_words mm ?r) (unat (qword_count ?r)) ?n 0 0 0")
    case None
    then have "no_fit (region_words mm ?r) (nslots ?r) ?n"
      using scan_nat_first_fit [OF scan_inv_start [OF n0], where Q = "unat (qword_count ?r)" and W = "region_words mm ?r"]
      by (simp add: nslots_def)
    then have "\<not> free_block mm i s ?n" for s
      using in_slots [of s] region_run [OF wf i n0, of s] by (auto simp: no_fit_def)
    with scan None show ?thesis by simp
  next
    case (Some s)
    then have ff: "first_fit (region_words mm ?r) (nslots ?r) ?n s"
      using scan_nat_first_fit [OF scan_inv_start [OF n0], where Q = "unat (qword_count ?r)" and W = "region_words mm ?r"]
      by (simp add: nslots_def)
    then have "first_block mm i s ?n"
      using region_run [OF wf i n0] in_slots by (auto simp: first_fit_def first_block_def)
    with scan Some show ?thesis by (intro disjI1 exI [of _ s]) simp
  qed
qed

section \<open>Allocating\<close>

lemma set_allocated:
  assumes wf: "mm_wf mm" and fb: "free_block mm i s (unat n)" "0 < n"
  obtains mm' where
    "set_mem_region mm (frame_addr (regions mm ! i) (of_nat s))
       (frame_addr (regions mm ! i) (of_nat s) + n * DEFAULT_PAGE_SIZE) = Some (0, mm')"
    "frames_written mm i s (unat n) True (free_frames (regions mm ! i) - n) mm'" "mm_wf mm'"
proof -
  let ?r = "regions mm ! i" and ?n = "unat n"
  have n0: "0 < ?n" using fb(2) by (simp add: word_gt_0 unat_gt_0)
  note fits = free_block_fits [OF fb(1) n0]
  have lay: "layout_ok mm" and ok: "bits_ok mm ?r" using wf fits(1) by (auto simp: mm_wf_nth)
  note region = layout_region(1) [OF lay mm_regions_mem [OF lay fits(1)]]
  have start: "unat (frame_addr ?r (of_nat s)) = frame_at ?r s"
    using fits(2) n0 by (intro unat_frame_addr [OF region]) simp
  have "frame_at ?r (s + ?n) < 18446744073709551616"
    using frame_at_le [OF region fits(2)] region by (simp add: region_ok_def)
  then have stop: "unat (frame_addr ?r (of_nat s) + n * DEFAULT_PAGE_SIZE) = frame_at ?r (s + ?n)"
    by (simp add: unat_add_u64 unat_mult_u64 start DEFAULT_PAGE_SIZE_def frame_at_def)
  have inr: "in_region mm i (frame_addr ?r (of_nat s)) (frame_addr ?r (of_nat s) + n * DEFAULT_PAGE_SIZE) s ?n"
    using fits n0 start stop by (simp add: in_region_def)
  obtain mm' where mm': "set_mem_region mm (frame_addr ?r (of_nat s))
       (frame_addr ?r (of_nat s) + n * DEFAULT_PAGE_SIZE) = Some (0, mm')"
    "frames_written mm i s ?n True (free_frames ?r - n) mm'"
    using set_mem_region_in [OF lay inr] by auto
  have le: "?n \<le> unat (free_frames ?r)"
    using free_block_count [OF fb(1) n0] ok by (simp add: bits_ok_def)
  have "mm_wf mm'"
  proof (rule written_mm_wf [OF mm'(2) wf fits(1,2)])
    show "\<forall>k. s \<le> k \<and> k < s + ?n \<longrightarrow> slot_used mm ?r k = (\<not> True)" using fits(3) by simp
    show "unat (free_frames ?r - n) = (if True then free_count mm ?r - ?n else free_count mm ?r + ?n)"
      using le ok by (simp add: unat_sub_word le_by_unat bits_ok_def)
  qed
  with mm' show ?thesis by (rule that)
qed

text \<open>The result of the search from region \<open>i\<close> on: the first block of the first region that has
  one, or a failure that leaves the map alone.\<close>

definition no_block :: "mem_map \<Rightarrow> nat \<Rightarrow> nat \<Rightarrow> bool" where
  "no_block mm i n \<longleftrightarrow> (\<forall>s. \<not> free_block mm i s n)"

definition alloc_result :: "mem_map \<Rightarrow> u64 \<Rightarrow> nat \<Rightarrow> (u64 \<times> mem_map) option \<Rightarrow> bool" where
  "alloc_result mm n i res \<longleftrightarrow>
     (res = Some (FRAME_ALLOC_FAILED, mm) \<and> (\<forall>j \<ge> i. no_block mm j (unat n))) \<or>
     (\<exists>j s mm'. i \<le> j \<and> first_block mm j s (unat n) \<and> (\<forall>l. i \<le> l \<and> l < j \<longrightarrow> no_block mm l (unat n)) \<and>
        res = Some (frame_addr (regions mm ! j) (of_nat s), mm') \<and>
        frames_written mm j s (unat n) True (free_frames (regions mm ! j) - n) mm' \<and> mm_wf mm')"

lemma alloc_result_skip:
  assumes "alloc_result mm n (Suc i) res" "no_block mm i (unat n)"
  shows "alloc_result mm n i res"
proof -
  have all: "no_block mm j (unat n)" if "i \<le> j" "Suc i \<le> j \<Longrightarrow> no_block mm j (unat n)" for j
    using that assms(2) by (cases "j = i") auto
  from assms(1) consider "res = Some (FRAME_ALLOC_FAILED, mm)" "\<forall>j \<ge> Suc i. no_block mm j (unat n)"
    | j s mm' where "Suc i \<le> j" "first_block mm j s (unat n)" "\<forall>l. Suc i \<le> l \<and> l < j \<longrightarrow> no_block mm l (unat n)"
      "res = Some (frame_addr (regions mm ! j) (of_nat s), mm')"
      "frames_written mm j s (unat n) True (free_frames (regions mm ! j) - n) mm'" "mm_wf mm'"
    unfolding alloc_result_def by blast
  then show ?thesis
  proof cases
    case 1
    with all show ?thesis by (simp add: alloc_result_def)
  next
    case 2
    moreover from 2(1) have "i \<le> j" by simp
    moreover have "\<forall>l. i \<le> l \<and> l < j \<longrightarrow> no_block mm l (unat n)" using 2(3) all by blast
    ultimately show ?thesis unfolding alloc_result_def by blast
  qed
qed

lemma alloc_loop_spec:
  assumes wf: "mm_wf mm" and n: "0 < n"
  shows "alloc_result mm n i (alloc_loop mm n i)"
proof (induction "unat (region_count mm) - i" arbitrary: i)
  case 0
  then have "\<not> i < unat (region_count mm)" by simp
  moreover have "\<not> free_block mm j s (unat n)" if "i \<le> j" for j s
    using free_block_fits(1) [of mm j s "unat n"] n that 0 by (auto simp: word_gt_0 unat_gt_0)
  ultimately show ?case by (subst alloc_loop.simps) (simp add: alloc_result_def no_block_def)
next
  case (Suc d)
  then have i: "i < unat (region_count mm)" and IH: "alloc_result mm n (Suc i) (alloc_loop mm n (Suc i))"
    by simp_all
  let ?r = "regions mm ! i"
  have lay: "layout_ok mm" and ok: "bits_ok mm ?r" using wf i by (auto simp: mm_wf_nth)
  have in_list: "i < length (regions mm)" using lay i by (simp add: layout_ok_def)
  show ?case
  proof (cases "free_frames ?r < n")
    case True
    then have "\<not> unat n \<le> free_count mm ?r" using ok by (simp add: bits_ok_def less_by_unat)
    then have "no_block mm i (unat n)"
      using free_block_count n by (auto simp: word_gt_0 unat_gt_0 no_block_def)
    moreover have "alloc_loop mm n i = alloc_loop mm n (Suc i)"
      using i in_list True by (subst alloc_loop.simps) simp
    ultimately show ?thesis using alloc_result_skip [OF IH] by simp
  next
    case enough: False
    from scan_region [OF wf i n] show ?thesis
    proof (elim disjE exE conjE)
      assume none: "scan_qwords mm ?r n 0 0 0 = Some None" "\<forall>s. \<not> free_block mm i s (unat n)"
      have "alloc_loop mm n i = alloc_loop mm n (Suc i)"
        using i in_list enough none(1) by (subst alloc_loop.simps) simp
      with none(2) alloc_result_skip [OF IH] show ?thesis by (simp add: no_block_def)
    next
      fix s
      assume hit: "scan_qwords mm ?r n 0 0 0 = Some (Some (frame_addr ?r (of_nat s)))"
        and fb: "first_block mm i s (unat n)"
      then have "free_block mm i s (unat n)" by (simp add: first_block_def)
      then obtain mm' where mm': "set_mem_region mm (frame_addr ?r (of_nat s))
          (frame_addr ?r (of_nat s) + n * DEFAULT_PAGE_SIZE) = Some (0, mm')"
        "frames_written mm i s (unat n) True (free_frames ?r - n) mm'" "mm_wf mm'"
        using set_allocated [OF wf _ n] by blast
      have "alloc_loop mm n i = Some (frame_addr ?r (of_nat s), mm')"
        using i in_list enough hit mm'(1) by (subst alloc_loop.simps) simp
      with fb mm'(2,3) show ?thesis unfolding alloc_result_def by fastforce
    qed
  qed
qed

lemma frame_addr_unat:
  assumes "mm_wf mm" "free_block mm i s n" "0 < n"
  shows "unat (frame_addr (regions mm ! i) (of_nat s)) = frame_at (regions mm ! i) s"
proof -
  note fits = free_block_fits [OF assms(2,3)]
  have "layout_ok mm" using assms(1) by (simp add: mm_wf_nth)
  then have "region_ok (regions mm ! i)" using layout_region(1) mm_regions_mem fits(1) by blast
  then show ?thesis using fits(2) assms(3) by (intro unat_frame_addr) simp_all
qed

lemma free_block_in_free_set:
  assumes "free_block mm i s n"
  shows "block (frame_at (regions mm ! i) s) n \<subseteq> free_set mm"
  using assms by (auto simp: block_def frame_at_def free_block_def free_set_def) 
    (metis frame_at_def distrib_left add.assoc)

lemma frame_at_aligned: "region_ok r \<Longrightarrow> 4096 dvd frame_at r s"
  by (simp add: frame_at_def region_ok_def)

definition inside_region :: "mem_map \<Rightarrow> nat \<Rightarrow> nat \<Rightarrow> bool" where
  "inside_region mm a n \<longleftrightarrow>
     (\<exists>i s. i < unat (region_count mm) \<and> s + n \<le> nframes (regions mm ! i) \<and> a = frame_at (regions mm ! i) s)"

lemma written_inside:
  assumes "frames_written mm i s n v f mm'" "layout_ok mm"
  shows "inside_region mm' = inside_region mm"
proof (intro ext)
  have same: "frame_at (regions mm' ! i) k = frame_at (regions mm ! i) k"
    "nframes (regions mm' ! i) = nframes (regions mm ! i)" if "i < unat (region_count mm)" for i k
    using written_frame_at [OF assms that] by simp_all
  show "inside_region mm' a m = inside_region mm a m" for a m
    unfolding inside_region_def written_region_count [OF assms(1)] using same by metis
qed

section \<open>Giving frames back\<close>

lemma dealloc_in:
  assumes wf: "layout_ok mm" and i: "in_region mm i a (a + sz) s n"
  obtains mm' where "map_dealloc_frame mm a sz = Some (0, mm')"
    "frames_written mm i s n False (free_frames (regions mm ! i) + of_nat n) mm'"
proof -
  let ?r = "regions mm ! i"
  let ?slot = "bitmap_start_addr ?r + (a - start_addr ?r) div DEFAULT_PAGE_SIZE"
  note sl = in_region_slots [OF wf i]
  have size: "unat (bm_size (bitmap mm)) < 18446744073709551608" using wf by (simp add: layout_ok_def)
  have "unat ?slot + unat (of_nat n :: u64) \<le> unat (bm_size (bitmap mm))" using sl by simp
  then obtain b' where b': "bitmap_clear_len (bitmap mm) ?slot (of_nat n) = Some (0, b')"
    "bm_size b' = bm_size (bitmap mm)"
    "\<And>k. k < ALL_BITS \<Longrightarrow> bm_bit b' k \<longleftrightarrow>
       \<not> (unat ?slot \<le> k \<and> k < unat ?slot + unat (of_nat n :: u64)) \<and> bm_bit (bitmap mm) k"
    using bitmap_clear_len_spec [OF _ size] by blast
  have test: "\<not> (start_addr (regions mm ! j) > a \<or> a + sz > start_addr (regions mm ! j) + len_bytes (regions mm ! j))
      \<longleftrightarrow> unat (start_addr (regions mm ! j)) \<le> unat a \<and> unat (a + sz) \<le> region_end (regions mm ! j)"
    if "j < unat (region_count mm)" for j
    using unat_region_end [OF layout_region(1) [OF wf mm_regions_mem [OF wf that]]]
    by (simp add: less_by_unat not_less)
  have loop: "region_loop (\<lambda>r. \<not> (start_addr r > a \<or> a + sz > start_addr r + len_bytes r)) mm 0 = Some (Some i)"
    by (rule in_region_found [OF wf i], rule test)
  have units: "sz div DEFAULT_PAGE_SIZE = of_nat n" using sl(1) by simp
  show ?thesis
  proof (rule that)
    show "map_dealloc_frame mm a sz = Some (0, mm\<lparr>regions := (regions mm)
        [i := ?r\<lparr>free_frames := free_frames ?r + of_nat n\<rparr>], bitmap := b'\<rparr>)"
      by (simp add: map_dealloc_frame_def in_region_outside [OF wf i] loop [simplified] units b'(1) Let_def)
    show "frames_written mm i s n False (free_frames ?r + of_nat n) (mm\<lparr>regions := (regions mm)
        [i := ?r\<lparr>free_frames := free_frames ?r + of_nat n\<rparr>], bitmap := b'\<rparr>)"
      using b'(2,3) sl(2,4) unfolding frames_written_def by (intro exI [of _ b']) auto
  qed
qed

lemma free_count_bound: "mm_wf mm \<Longrightarrow> i < unat (region_count mm) \<Longrightarrow> free_count mm (regions mm ! i) \<le> 1048576"
proof -
  assume wf: "mm_wf mm" and i: "i < unat (region_count mm)"
  have lay: "layout_ok mm" using wf by (simp add: mm_wf_nth)
  have "free_count mm (regions mm ! i) \<le> card {..<nframes (regions mm ! i)}"
    unfolding free_count_def by (rule card_mono) auto
  then show ?thesis
    using layout_region(1) [OF lay mm_regions_mem [OF lay i]] by (simp add: region_ok_def)
qed

lemma dealloc_used_block:
  assumes wf: "mm_wf mm" and ub: "used_block mm i s n" "0 < n"
    and a: "unat a = frame_at (regions mm ! i) s" and size: "unat sz = 4096 * n"
  obtains mm' where "map_dealloc_frame mm a sz = Some (0, mm')" "mm_wf mm'"
    "free_set mm' = free_set mm \<union> block (unat a) n" "inside_region mm' = inside_region mm"
proof -
  let ?r = "regions mm ! i"
  have i: "i < unat (region_count mm)" and fits: "s + n \<le> nframes ?r"
    and used: "\<forall>k. s \<le> k \<and> k < s + n \<longrightarrow> slot_used mm ?r k"
    using ub(1) by (auto simp: used_block_def dest: le_Suc_ex)
  have lay: "layout_ok mm" and ok: "bits_ok mm ?r" using wf i by (auto simp: mm_wf_nth)
  note region = layout_region(1) [OF lay mm_regions_mem [OF lay i]]
  have "frame_at ?r (s + n) < 18446744073709551616"
    using frame_at_le [OF region fits] region by (simp add: region_ok_def)
  then have "unat (a + sz) = frame_at ?r (s + n)"
    by (simp add: unat_add_u64 a size frame_at_def)
  then have "in_region mm i a (a + sz) s n" using i ub(2) fits a by (simp add: in_region_def)
  then obtain mm' where mm': "map_dealloc_frame mm a sz = Some (0, mm')"
    "frames_written mm i s n False (free_frames ?r + of_nat n) mm'"
    using dealloc_in [OF lay] by blast
  have n20: "n \<le> 1048576" using fits region by (simp add: region_ok_def)
  have "mm_wf mm'"
  proof (rule written_mm_wf [OF mm'(2) wf i fits])
    show "\<forall>k. s \<le> k \<and> k < s + n \<longrightarrow> slot_used mm ?r k = (\<not> False)" using used by simp
    show "unat (free_frames ?r + of_nat n) = (if False then free_count mm ?r - n else free_count mm ?r + n)"
      using ok free_count_bound [OF wf i] n20 by (simp add: bits_ok_def unat_add_u64 unat_of_nat_u64)
  qed
  moreover have "free_set mm' = free_set mm \<union> block (unat a) n"
    using written_free_set [OF mm'(2) lay i fits] a by simp
  ultimately show ?thesis using mm'(1) written_inside [OF mm'(2) lay] that by blast
qed

section \<open>The contract\<close>

text \<open>
  What a client of a frame allocator may rely on.  \<open>free\<close> is the set of free frame addresses and
  \<open>inside s a n\<close> says that the \<open>n\<close> frames from \<open>a\<close> on lie in one piece of the managed memory.
\<close>

locale frame_allocator =
  fixes alloc :: "'s \<Rightarrow> u64 \<Rightarrow> (u64 \<times> 's) option"
    and dealloc :: "'s \<Rightarrow> u64 \<Rightarrow> u64 \<Rightarrow> (int \<times> 's) option"
    and inv :: "'s \<Rightarrow> bool"
    and free :: "'s \<Rightarrow> nat set"
    and inside :: "'s \<Rightarrow> nat \<Rightarrow> nat \<Rightarrow> bool"
  assumes alloc_cases: "inv s \<Longrightarrow> 0 < n \<Longrightarrow>
      alloc s n = Some (FRAME_ALLOC_FAILED, s) \<or>
      (\<exists>a s'. alloc s n = Some (a, s') \<and> a \<noteq> FRAME_ALLOC_FAILED \<and> inv s' \<and>
         block (unat a) (unat n) \<subseteq> free s \<and> free s' = free s - block (unat a) (unat n) \<and>
         inside s (unat a) (unat n) \<and> inside s' = inside s)"
    and dealloc_ok: "inv s \<Longrightarrow> inside s (unat a) k \<Longrightarrow> 0 < k \<Longrightarrow> block (unat a) k \<inter> free s = {} \<Longrightarrow>
      unat sz = 4096 * k \<Longrightarrow>
      \<exists>s'. dealloc s a sz = Some (0, s') \<and> inv s' \<and> free s' = free s \<union> block (unat a) k \<and> inside s' = inside s"
    and alloc_complete: "inv s \<Longrightarrow> alloc s 1 = Some (FRAME_ALLOC_FAILED, s') \<Longrightarrow> free s = {}"
begin

lemma alloc_inv: "inv s \<Longrightarrow> 0 < n \<Longrightarrow> alloc s n = Some (a, s') \<Longrightarrow> inv s' \<and> inside s' = inside s"
  using alloc_cases [of s n] by auto

text \<open>Two allocations in a row never overlap.\<close>

lemma alloc_alloc_disjoint:
  assumes "inv s" "0 < n" "alloc s n = Some (a, s')" "a \<noteq> FRAME_ALLOC_FAILED"
    and "0 < m" "alloc s' m = Some (b, s'')" "b \<noteq> FRAME_ALLOC_FAILED"
  shows "block (unat a) (unat n) \<inter> block (unat b) (unat m) = {}"
proof -
  have "inv s'" "free s' = free s - block (unat a) (unat n)"
    using alloc_cases [OF assms(1,2)] assms(3,4) by auto
  moreover have "block (unat b) (unat m) \<subseteq> free s'"
    using alloc_cases [OF \<open>inv s'\<close> assms(5)] assms(6,7) by auto
  ultimately show ?thesis by blast
qed

text \<open>Giving the block back restores the free frames.\<close>

lemma alloc_dealloc_restores:
  assumes "inv s" "0 < n" "alloc s n = Some (a, s')" "a \<noteq> FRAME_ALLOC_FAILED"
    and sz: "unat sz = 4096 * unat n"
  shows "\<exists>s''. dealloc s' a sz = Some (0, s'') \<and> inv s'' \<and> free s'' = free s \<and> inside s'' = inside s"
proof -
  have s': "inv s'" "block (unat a) (unat n) \<subseteq> free s" "free s' = free s - block (unat a) (unat n)"
    "inside s (unat a) (unat n)" "inside s' = inside s"
    using alloc_cases [OF assms(1,2)] assms(3,4) by auto
  have "0 < unat n" using assms(2) by (simp add: word_gt_0 unat_gt_0)
  from dealloc_ok [OF s'(1) _ this _ sz, of a] s' show ?thesis by auto
qed

end

lemma alloc_outcome:
  assumes wf: "mm_wf mm" and n: "0 < n"
  obtains (failed) "map_alloc_frame_contiguous mm n = Some (FRAME_ALLOC_FAILED, mm)"
      "\<forall>i. no_block mm i (unat n)"
  | (block) i s mm' where "first_block mm i s (unat n)" "\<forall>l < i. no_block mm l (unat n)"
      "map_alloc_frame_contiguous mm n = Some (frame_addr (regions mm ! i) (of_nat s), mm')"
      "frames_written mm i s (unat n) True (free_frames (regions mm ! i) - n) mm'" "mm_wf mm'"
      "unat (frame_addr (regions mm ! i) (of_nat s)) = frame_at (regions mm ! i) s"
      "frame_addr (regions mm ! i) (of_nat s) \<noteq> FRAME_ALLOC_FAILED"
proof -
  have "0 < unat n" using n by (simp add: word_gt_0 unat_gt_0)
  have addr: "unat (frame_addr (regions mm ! i) (of_nat s)) = frame_at (regions mm ! i) s"
      "frame_addr (regions mm ! i) (of_nat s) \<noteq> FRAME_ALLOC_FAILED" if "first_block mm i s (unat n)" for i s
  proof -
    have fb: "free_block mm i s (unat n)" using that by (simp add: first_block_def)
    then show u: "unat (frame_addr (regions mm ! i) (of_nat s)) = frame_at (regions mm ! i) s"
      by (rule frame_addr_unat [OF wf _ \<open>0 < unat n\<close>])
    have lay: "layout_ok mm" using wf by (simp add: mm_wf_nth)
    have "region_ok (regions mm ! i)"
      using layout_region(1) [OF lay mm_regions_mem [OF lay free_block_fits(1) [OF fb \<open>0 < unat n\<close>]]] .
    then have "4096 dvd frame_at (regions mm ! i) s" by (rule frame_at_aligned)
    moreover have "\<not> 4096 dvd unat FRAME_ALLOC_FAILED" by (simp add: FRAME_ALLOC_FAILED_def)
    ultimately show "frame_addr (regions mm ! i) (of_nat s) \<noteq> FRAME_ALLOC_FAILED" using u by metis
  qed
  from alloc_loop_spec [OF wf n, of 0] show ?thesis
    unfolding alloc_result_def map_alloc_frame_contiguous_def [symmetric]
  proof (elim disjE exE conjE)
    assume "map_alloc_frame_contiguous mm n = Some (FRAME_ALLOC_FAILED, mm)" "\<forall>j \<ge> 0. no_block mm j (unat n)"
    then show ?thesis by (intro failed) simp_all
  next
    fix j s mm'
    assume "first_block mm j s (unat n)" "\<forall>l. 0 \<le> l \<and> l < j \<longrightarrow> no_block mm l (unat n)"
      "map_alloc_frame_contiguous mm n = Some (frame_addr (regions mm ! j) (of_nat s), mm')"
      "frames_written mm j s (unat n) True (free_frames (regions mm ! j) - n) mm'" "mm_wf mm'"
    then show ?thesis using addr [of j s] by (intro block) auto
  qed
qed

interpretation pmm: frame_allocator map_alloc_frame_contiguous map_dealloc_frame mm_wf free_set inside_region
proof
  fix mm :: mem_map and n :: u64
  assume wf: "mm_wf mm" and n: "0 < n"
  then have lay: "layout_ok mm" and n0: "0 < unat n" by (auto simp: mm_wf_nth word_gt_0 unat_gt_0)
  show "map_alloc_frame_contiguous mm n = Some (FRAME_ALLOC_FAILED, mm) \<or>
      (\<exists>a mm'. map_alloc_frame_contiguous mm n = Some (a, mm') \<and> a \<noteq> FRAME_ALLOC_FAILED \<and> mm_wf mm' \<and>
         block (unat a) (unat n) \<subseteq> free_set mm \<and> free_set mm' = free_set mm - block (unat a) (unat n) \<and>
         inside_region mm (unat a) (unat n) \<and> inside_region mm' = inside_region mm)"
  proof (rule alloc_outcome [OF wf n])
    fix i s mm'
    let ?a = "frame_addr (regions mm ! i) (of_nat s)"
    assume res: "first_block mm i s (unat n)" "map_alloc_frame_contiguous mm n = Some (?a, mm')"
      "frames_written mm i s (unat n) True (free_frames (regions mm ! i) - n) mm'" "mm_wf mm'"
      "unat ?a = frame_at (regions mm ! i) s" "?a \<noteq> FRAME_ALLOC_FAILED"
    have fb: "free_block mm i s (unat n)" using res(1) by (simp add: first_block_def)
    note fits = free_block_fits [OF fb n0]
    have "inside_region mm (unat ?a) (unat n)"
      unfolding inside_region_def res(5) using fits by blast
    moreover have "free_set mm' = free_set mm - block (unat ?a) (unat n)"
      using written_free_set [OF res(3) lay fits(1,2)] res(5) by simp
    moreover have "block (unat ?a) (unat n) \<subseteq> free_set mm"
      using free_block_in_free_set [OF fb] res(5) by simp
    ultimately show ?thesis using res written_inside [OF res(3) lay] by blast
  qed simp
next
  fix mm :: mem_map and a sz :: u64 and n :: nat
  assume wf: "mm_wf mm" and ins: "inside_region mm (unat a) n" and n: "0 < n"
    and used: "block (unat a) n \<inter> free_set mm = {}" and sz: "unat sz = 4096 * n"
  have lay: "layout_ok mm" using wf by (simp add: mm_wf_nth)
  obtain i s where i: "i < unat (region_count mm)" "s + n \<le> nframes (regions mm ! i)"
    "unat a = frame_at (regions mm ! i) s"
    using ins by (auto simp: inside_region_def)
  have "slot_used mm (regions mm ! i) (s + j)" if "j < n" for j
  proof (rule ccontr)
    assume "\<not> ?thesis"
    then have "frame_at (regions mm ! i) (s + j) \<in> free_set mm"
      using free_set_iff [OF lay i(1)] i(2) that by simp
    moreover have "frame_at (regions mm ! i) (s + j) \<in> block (unat a) n"
      using in_block_iff [OF lay i(1,2) i(1), of "s + j"] i that by simp
    ultimately show False using used by blast
  qed
  then have "used_block mm i s n" using i by (simp add: used_block_def)
  with dealloc_used_block [OF wf _ n i(3) sz] obtain mm' where mm': "map_dealloc_frame mm a sz = Some (0, mm')"
    "mm_wf mm'" "free_set mm' = free_set mm \<union> block (unat a) n" "inside_region mm' = inside_region mm" by blast
  then show "\<exists>mm'. map_dealloc_frame mm a sz = Some (0, mm') \<and> mm_wf mm' \<and>
      free_set mm' = free_set mm \<union> block (unat a) n \<and> inside_region mm' = inside_region mm" by blast
next
  fix mm mm' :: mem_map
  assume wf: "mm_wf mm" and failed: "map_alloc_frame_contiguous mm 1 = Some (FRAME_ALLOC_FAILED, mm')"
  show "free_set mm = {}"
  proof (rule alloc_outcome [OF wf, of 1])
    assume "\<forall>i. no_block mm i (unat (1 :: u64))"
    then show ?thesis by (auto simp: free_set_def no_block_def free_block_def)
  qed (use failed in auto)
qed

section \<open>Properties\<close>

lemma block_size_pos: "0 < (n :: u64) \<Longrightarrow> 0 < unat n"
  by (simp add: word_gt_0 unat_gt_0)

lemma alloc_size:
  assumes "mm_wf mm" "0 < n" "map_alloc_frame_contiguous mm n = Some (a, mm')" "a \<noteq> FRAME_ALLOC_FAILED"
  shows "unat n \<le> 1048576" "unat (n * DEFAULT_PAGE_SIZE) = 4096 * unat n"
proof -
  show "unat n \<le> 1048576"
  proof (rule alloc_outcome [OF assms(1,2)])
    fix i s assume "first_block mm i s (unat n)"
    then have fb: "free_block mm i s (unat n)" by (simp add: first_block_def)
    have "unat n \<le> free_count mm (regions mm ! i)"
      by (rule free_block_count [OF fb block_size_pos [OF assms(2)]])
    also have "\<dots> \<le> 1048576"
      by (rule free_count_bound [OF assms(1) free_block_fits(1) [OF fb block_size_pos [OF assms(2)]]])
    finally show ?thesis .
  qed (use assms(3,4) in simp)
  then show "unat (n * DEFAULT_PAGE_SIZE) = 4096 * unat n"
    by (simp add: unat_mult_u64 DEFAULT_PAGE_SIZE_def)
qed

subsection \<open>A concrete map\<close>

text \<open>One region of 64 frames at 1 MiB, all free or all in use; the witnesses run on it.\<close>

definition one_region :: "u64 \<Rightarrow> mem_region" where
  "one_region f = \<lparr>start_addr = 0x100000, len_bytes = 0x40000, bitmap_start_addr = 0, qword_count = 1, free_frames = f\<rparr>"

definition example_map :: mem_map where
  "example_map = \<lparr>mem_size = 0x40000, region_count = 1, regions = replicate 32 (one_region 64),
     bitmap = \<lparr>bm_size = 64, bm_data = (\<lambda>_. 0)\<rparr>\<rparr>"

definition full_map :: mem_map where
  "full_map = \<lparr>mem_size = 0x40000, region_count = 1, regions = replicate 32 (one_region 0),
     bitmap = \<lparr>bm_size = 64, bm_data = (\<lambda>_. 0xFF)\<rparr>\<rparr>"

lemma one_region_simps:
  "nframes (one_region f) = 64" "nslots (one_region f) = 64" "first_slot (one_region f) = 0"
  "region_end (one_region f) = 0x140000" "frame_at (one_region f) k = 0x100000 + 4096 * k" "region_ok (one_region f)"
  by (simp_all add: nframes_def nslots_def first_slot_def region_end_def frame_at_def region_ok_def one_region_def)

lemma example_maps_at:
  "region_count example_map = 1" "regions example_map ! 0 = one_region 64"
  "region_count full_map = 1" "regions full_map ! 0 = one_region 0"
  by (simp_all add: example_map_def full_map_def)

lemma example_maps_slots: "\<not> slot_used example_map r k" "slot_used full_map r k"
proof -
  show "\<not> slot_used example_map r k"
    by (simp add: slot_used_def bm_bit_def data_bit_def example_map_def)
  have "bit (0xFF :: u8) (n mod 8)" for n :: nat
    using bit_mask_iff [of 8 "n mod 8", where 'a = "8 word"] by (simp add: mask_eq_decr_exp)
  then show "slot_used full_map r k"
    by (simp add: slot_used_def bm_bit_def data_bit_def full_map_def)
qed

lemma example_maps_wf: "mm_wf example_map" "mm_wf full_map"
proof -
  have "layout_ok example_map" "layout_ok full_map"
    by (simp_all add: layout_ok_nth example_maps_at one_region_simps)
       (simp_all add: example_map_def full_map_def MAX_MEM_REGIONS_def)
  moreover have "bits_ok example_map (one_region 64)" "bits_ok full_map (one_region 0)"
    by (simp_all add: bits_ok_def free_count_def example_maps_slots one_region_simps)
       (simp_all add: one_region_def)
  ultimately show "mm_wf example_map" "mm_wf full_map"
    by (simp_all add: mm_wf_nth example_maps_at)
qed

lemma example_free: "s + n \<le> 64 \<Longrightarrow> free_block example_map 0 s n"
  by (simp add: free_block_def free_slot_def example_maps_at example_maps_slots one_region_simps)

lemma example_alloc:
  assumes "0 < n" "unat n < 64"
  obtains mm' where "map_alloc_frame_contiguous example_map n = Some (0x100000, mm')"
    "free_block mm' 0 (unat n) 1" "mm_wf mm'"
proof (rule alloc_outcome [OF example_maps_wf(1) assms(1)])
  assume "\<forall>i. no_block example_map i (unat n)"
  then have "\<not> free_block example_map 0 0 (unat n)" unfolding no_block_def by blast
  then show ?thesis using example_free [of 0 "unat n"] assms(2) by simp
next
  fix i s mm'
  assume res: "first_block example_map i s (unat n)"
    "map_alloc_frame_contiguous example_map n = Some (frame_addr (regions example_map ! i) (of_nat s), mm')"
    "frames_written example_map i s (unat n) True (free_frames (regions example_map ! i) - n) mm'" "mm_wf mm'"
  have "free_block example_map i s (unat n)" using res(1) by (simp add: first_block_def)
  from free_block_fits(1) [OF this block_size_pos [OF assms(1)]]
  have i: "i = 0" by (simp add: example_maps_at)
  then have s: "s = 0" using res(1) example_free [of 0 "unat n"] assms(2) by (auto simp: first_block_def)
  have addr: "frame_addr (regions example_map ! i) (of_nat s) = 0x100000"
    by (simp add: i s frame_addr_def example_maps_at one_region_def)
  have lay: "layout_ok example_map" using example_maps_wf(1) by (simp add: mm_wf_nth)
  have "free_slot mm' 0 (unat n)"
    by (subst written_free_slot [OF res(3) lay])
       (use assms(2) in \<open>simp_all add: i s example_maps_at example_maps_slots one_region_simps free_slot_def\<close>)
  then have "free_block mm' 0 (unat n) 1" by (simp add: free_block_def)
  from that [OF res(2) [unfolded addr] this res(4)] show ?thesis .
qed

subsection \<open>The claims\<close>

text \<open>C1. On a well-formed map an allocation of \<open>n > 0\<close> frames always returns: either
  \<^verbatim>\<open>FRAME_ALLOC_FAILED\<close>, and then the map is unchanged and no region has \<open>n\<close> free frames in a
  row; or a page-aligned address whose \<open>n\<close> frames were all free and are now exactly the ones that
  stopped being free.  The map stays well-formed.\<close>

theorem alloc_contiguous_correct:
  assumes "mm_wf mm" "0 < n"
  shows "\<exists>a mm'. map_alloc_frame_contiguous mm n = Some (a, mm') \<and> mm_wf mm' \<and>
     (if a = FRAME_ALLOC_FAILED then mm' = mm \<and> (\<forall>i s. \<not> free_block mm i s (unat n))
      else 4096 dvd unat a \<and> block (unat a) (unat n) \<subseteq> free_set mm \<and>
           free_set mm' = free_set mm - block (unat a) (unat n))"
proof (rule alloc_outcome [OF assms])
  assume "map_alloc_frame_contiguous mm n = Some (FRAME_ALLOC_FAILED, mm)" "\<forall>i. no_block mm i (unat n)"
  with assms(1) show ?thesis by (auto simp: no_block_def)
next
  fix i s mm'
  assume res: "first_block mm i s (unat n)"
    "map_alloc_frame_contiguous mm n = Some (frame_addr (regions mm ! i) (of_nat s), mm')"
    "mm_wf mm'" "unat (frame_addr (regions mm ! i) (of_nat s)) = frame_at (regions mm ! i) s"
    "frame_addr (regions mm ! i) (of_nat s) \<noteq> FRAME_ALLOC_FAILED"
  have fb: "free_block mm i s (unat n)" using res(1) by (simp add: first_block_def)
  have lay: "layout_ok mm" using assms(1) by (simp add: mm_wf_nth)
  have "region_ok (regions mm ! i)"
    using layout_region(1) [OF lay mm_regions_mem [OF lay free_block_fits(1) [OF fb block_size_pos [OF assms(2)]]]] .
  then have "4096 dvd frame_at (regions mm ! i) s" by (rule frame_at_aligned)
  with pmm.alloc_cases [OF assms] res show ?thesis by auto
qed

theorem alloc_contiguous_correct_witness:
  "\<exists>a mm'. map_alloc_frame_contiguous example_map 3 = Some (a, mm') \<and> mm_wf mm' \<and>
     (if a = FRAME_ALLOC_FAILED then mm' = example_map \<and> (\<forall>i s. \<not> free_block example_map i s 3)
      else 4096 dvd unat a \<and> block (unat a) 3 \<subseteq> free_set example_map \<and>
           free_set mm' = free_set example_map - block (unat a) 3)"
  using alloc_contiguous_correct [of example_map 3] example_maps_wf by (simp split del: if_split cong del: if_weak_cong)

text \<open>C2. The allocation is first fit: whenever some region has \<open>n\<close> free frames in a row it
  succeeds, and no block of \<open>n\<close> free frames of one region starts below the address it returns.\<close>

theorem alloc_contiguous_first_fit:
  assumes "mm_wf mm" "0 < n" "free_block mm i s (unat n)"
  shows "\<exists>a mm'. map_alloc_frame_contiguous mm n = Some (a, mm') \<and> a \<noteq> FRAME_ALLOC_FAILED \<and>
     unat a \<le> frame_at (regions mm ! i) s"
proof (rule alloc_outcome [OF assms(1,2)])
  assume "\<forall>i. no_block mm i (unat n)"
  with assms(3) show ?thesis by (simp add: no_block_def)
next
  fix j t mm'
  assume res: "first_block mm j t (unat n)" "\<forall>l < j. no_block mm l (unat n)"
    "map_alloc_frame_contiguous mm n = Some (frame_addr (regions mm ! j) (of_nat t), mm')"
    "unat (frame_addr (regions mm ! j) (of_nat t)) = frame_at (regions mm ! j) t"
    "frame_addr (regions mm ! j) (of_nat t) \<noteq> FRAME_ALLOC_FAILED"
  have lay: "layout_ok mm" using assms(1) by (simp add: mm_wf_nth)
  have "j \<le> i" using res(2) assms(3) by (auto simp: no_block_def not_le [symmetric])
  have "frame_at (regions mm ! j) t \<le> frame_at (regions mm ! i) s"
  proof (cases "j = i")
    case True
    have "t \<le> s" using res(1) assms(3) True by (auto simp: first_block_def not_le [symmetric])
    then show ?thesis using True by (simp add: frame_at_def)
  next
    case False
    then have ji: "j < i" using \<open>j \<le> i\<close> by simp
    have i: "i < unat (region_count mm)" by (rule free_block_fits(1) [OF assms(3) block_size_pos [OF assms(2)]])
    have fb: "free_block mm j t (unat n)" using res(1) by (simp add: first_block_def)
    note fits = free_block_fits(1,2) [OF fb block_size_pos [OF assms(2)]]
    have "frame_at (regions mm ! j) t \<le> region_end (regions mm ! j)"
      using fits by (intro frame_at_le layout_region(1) [OF lay mm_regions_mem [OF lay]]) simp_all
    also have "\<dots> \<le> frame_at (regions mm ! i) s"
      using regions_apart(1) [OF lay ji i] by (simp add: frame_at_def)
    finally show ?thesis .
  qed
  with res show ?thesis by auto
qed

theorem alloc_contiguous_first_fit_witness:
  "\<exists>a mm'. map_alloc_frame_contiguous example_map 3 = Some (a, mm') \<and> a \<noteq> FRAME_ALLOC_FAILED \<and> unat a \<le> 0x105000"
  using alloc_contiguous_first_fit [of example_map 3 0 5] example_maps_wf example_free [of 5 3]
  by (simp add: example_maps_at one_region_simps)

text \<open>Giving back \<open>k\<close> frames that lie in one region and are in use adds exactly those frames to
  the free ones and keeps the map well-formed.\<close>

theorem dealloc_frame_correct:
  assumes "mm_wf mm" "inside_region mm (unat a) k" "0 < k" "block (unat a) k \<inter> free_set mm = {}"
    "unat sz = 4096 * k"
  shows "\<exists>mm'. map_dealloc_frame mm a sz = Some (0, mm') \<and> mm_wf mm' \<and>
     free_set mm' = free_set mm \<union> block (unat a) k"
  using pmm.dealloc_ok [OF assms] by blast

theorem dealloc_frame_correct_witness:
  "\<exists>mm'. map_dealloc_frame full_map 0x101000 8192 = Some (0, mm') \<and> mm_wf mm' \<and>
     free_set mm' = free_set full_map \<union> block 0x101000 2"
proof -
  have "inside_region full_map 0x101000 2"
    unfolding inside_region_def by (rule exI [of _ 0], rule exI [of _ 1]) (simp add: example_maps_at one_region_simps)
  moreover have "free_set full_map = {}" by (simp add: free_set_def free_slot_def example_maps_slots)
  ultimately show ?thesis
    using dealloc_frame_correct [of full_map "0x101000" 2 8192] example_maps_wf by simp
qed

text \<open>C23. Giving an allocated block back restores the set of free frames.\<close>

theorem alloc_dealloc_roundtrip:
  assumes "mm_wf mm" "0 < n" "map_alloc_frame_contiguous mm n = Some (a, mm')" "a \<noteq> FRAME_ALLOC_FAILED"
  shows "\<exists>mm''. map_dealloc_frame mm' a (n * DEFAULT_PAGE_SIZE) = Some (0, mm'') \<and> mm_wf mm'' \<and>
     free_set mm'' = free_set mm"
  using pmm.alloc_dealloc_restores [OF assms alloc_size(2) [OF assms]] by blast

theorem alloc_dealloc_roundtrip_witness:
  "\<exists>mm' mm''. map_alloc_frame_contiguous example_map 3 = Some (0x100000, mm') \<and>
     map_dealloc_frame mm' 0x100000 (3 * DEFAULT_PAGE_SIZE) = Some (0, mm'') \<and> mm_wf mm'' \<and>
     free_set mm'' = free_set example_map"
proof -
  obtain mm' where mm': "map_alloc_frame_contiguous example_map 3 = Some (0x100000, mm')"
    by (rule example_alloc [of 3]) simp_all
  with alloc_dealloc_roundtrip [OF example_maps_wf(1) _ mm'] show ?thesis by (auto simp: FRAME_ALLOC_FAILED_def)
qed

text \<open>The frames of two successive allocations are disjoint.\<close>

theorem allocations_disjoint:
  assumes "mm_wf mm" "0 < n" "map_alloc_frame_contiguous mm n = Some (a, mm')" "a \<noteq> FRAME_ALLOC_FAILED"
    and "0 < m" "map_alloc_frame_contiguous mm' m = Some (b, mm'')" "b \<noteq> FRAME_ALLOC_FAILED"
  shows "block (unat a) (unat n) \<inter> block (unat b) (unat m) = {}"
  using pmm.alloc_alloc_disjoint [OF assms] .

theorem allocations_disjoint_witness:
  "\<exists>mm' b mm''. map_alloc_frame_contiguous example_map 3 = Some (0x100000, mm') \<and>
     map_alloc_frame_contiguous mm' 1 = Some (b, mm'') \<and> block 0x100000 3 \<inter> block (unat b) 1 = {}"
proof -
  obtain mm' where mm': "map_alloc_frame_contiguous example_map 3 = Some (0x100000, mm')"
    "free_block mm' 0 3 1" "mm_wf mm'" by (rule example_alloc [of 3]) simp_all
  have "\<not> no_block mm' 0 1" using mm'(2) by (auto simp: no_block_def)
  then obtain b mm'' where b: "map_alloc_frame_contiguous mm' 1 = Some (b, mm'')" "b \<noteq> FRAME_ALLOC_FAILED"
    by (rule_tac alloc_outcome [OF mm'(3), of 1]) auto
  with allocations_disjoint [OF example_maps_wf(1) _ mm'(1) _ _ b] mm'(1) show ?thesis
    by (auto simp: FRAME_ALLOC_FAILED_def)
qed

end
