(* ===== verification/Frame_Limits.thy ===== *)
theory Frame_Limits
  imports Frame_Allocator
begin

text \<open>
  How the physical memory map gets into the state that \<^verbatim>\<open>Frame_Allocator.thy\<close> starts from
  (\<^const>\<open>zero_mem_map\<close>), and where the allocator leaves its contract: page sizes other than 4 KiB, and
  regions of more than 4 GiB.
\<close>

section \<open>Pages of 2 MiB and 1 GiB\<close>

lemma huge_units: "(ucast (PAGE_TYPE_TO_SIZE t div DEFAULT_PAGE_SIZE) :: u8) = (if t \<in> {HUGE_PAGE, SUPER_PAGE} then 0 else 1)"
  by (simp add: PAGE_TYPE_TO_SIZE_def DEFAULT_PAGE_SIZE_def SUPER_PAGE_def HUGE_PAGE_def SUPER_PS_def HUGE_PS_def PAGE_S_def)

lemma scan_zero: "0 < qword_count r \<Longrightarrow> scan_qwords mm r 0 0 0 0 = Some (Some (start_addr r))"
  by (subst scan_qwords.simps) (simp add: frame_addr_def Let_def)

lemma alloc_zero_frames:
  assumes wf: "mm_wf mm"
  obtains mm' where "map_alloc_frame_contiguous mm 0 = Some (start_addr (regions mm ! 0), mm')"
    "\<And>k. k < ALL_BITS \<Longrightarrow> bm_bit (bitmap mm') k = bm_bit (bitmap mm) k"
    "regions mm' = regions mm" "region_count mm' = region_count mm"
proof -
  let ?r = "regions mm ! 0" and ?c = "unat (region_count mm)"
  have lay: "layout_ok mm" using wf by (simp add: mm_wf_nth)
  have c: "0 < ?c" "?c \<le> length (regions mm)" "unat (bm_size (bitmap mm)) < 18446744073709551608"
    using lay by (auto simp: layout_ok_def word_gt_0 unat_gt_0)
  have ok: "region_ok (regions mm ! i)" if "i < ?c" for i
    using layout_region(1) [OF lay mm_regions_mem [OF lay that]] .
  have "0 < unat (qword_count ?r)" using ok [OF c(1)] by (auto simp: region_ok_def nframes_def)
  then have q: "0 < qword_count ?r" by (simp add: word_gt_0 unat_gt_0)
  have r0: "unat (start_addr ?r) \<le> region_end ?r" by (simp add: region_end_def)
  have "region_end ?r \<le> region_end (regions mm ! (?c - 1))"
  proof (cases "?c = 1")
    case False
    then have "0 < ?c - 1" "?c - 1 < ?c" using c(1) by auto
    from order_trans [OF regions_apart(1) [OF lay this]] show ?thesis by (simp add: region_end_def)
  qed simp
  with r0 have last: "\<not> start_addr ?r > start_addr (regions mm ! (?c - 1)) + len_bytes (regions mm ! (?c - 1))"
    using unat_region_end [OF ok, of "?c - 1"] c(1) by (simp add: less_by_unat)
  have "0 < length (regions mm)" "?c - 1 < length (regions mm)" "region_count mm \<noteq> 0"
    using c by (linarith, linarith, auto)
  then have out: "outside_regions mm (start_addr ?r) (start_addr ?r) = Some False"
    using last by (simp add: outside_regions_def last_region_end_def idx_def del: length_greater_0_conv)
  have loop: "region_loop (\<lambda>r. \<not> (start_addr r > start_addr ?r \<or> start_addr ?r > start_addr r + len_bytes r)) mm 0
      = Some (Some 0)"
  proof (rule region_loop_hit)
    show "\<not> (start_addr ?r > start_addr ?r \<or> start_addr ?r > start_addr ?r + len_bytes ?r)"
      using r0 unat_region_end [OF ok [OF c(1)]] by (simp add: less_by_unat)
  qed (use c in simp_all)
  have "first_slot ?r \<le> unat (bm_size (bitmap mm))"
    using layout_region(2) [OF lay mm_regions_mem [OF lay c(1)]] by simp
  then have "unat (bitmap_start_addr ?r) + unat (0 :: u64) \<le> unat (bm_size (bitmap mm))"
    by (simp add: first_slot_def)
  then obtain b where b: "bitmap_set_len (bitmap mm) (bitmap_start_addr ?r) 0 = Some (0, b)"
    "bm_size b = bm_size (bitmap mm)"
    "\<And>k. k < ALL_BITS \<Longrightarrow> bm_bit b k \<longleftrightarrow>
       unat (bitmap_start_addr ?r) \<le> k \<and> k < unat (bitmap_start_addr ?r) + unat (0 :: u64) \<or> bm_bit (bitmap mm) k"
    using bitmap_set_len_spec [OF _ c(3)] by blast
  have set: "set_mem_region mm (start_addr ?r) (start_addr ?r) = Some (0, mm\<lparr>bitmap := b\<rparr>)"
    by (simp add: set_mem_region_def out loop [simplified] b(1) Let_def)
  have "map_alloc_frame_contiguous mm 0 = Some (start_addr ?r, mm\<lparr>bitmap := b\<rparr>)"
    unfolding map_alloc_frame_contiguous_def
    using c(1,2) by (subst alloc_loop.simps) (simp add: idx_def scan_zero [OF q] set del: length_greater_0_conv)
  moreover have "bm_bit b k = bm_bit (bitmap mm) k" if "k < ALL_BITS" for k
    using b(3) [OF that] by auto
  ultimately show ?thesis by (intro that [of "mm\<lparr>bitmap := b\<rparr>"]) simp_all
qed

section \<open>Regions of more than 4 GiB\<close>

text \<open>The slot number is multiplied by the page size in 32 bits.\<close>

lemma frame_addr_wraps:
  "s < 4294967296 \<Longrightarrow> frame_addr r (of_nat s) = start_addr r + of_nat (4096 * (s mod 1048576))"
proof -
  assume "s < 4294967296"
  have "unat ((of_nat s :: u32) * 4096) = 4096 * s mod 4294967296"
    using \<open>s < 4294967296\<close> by (simp add: unat_word_ariths unat_of_nat_u32 mult.commute)
  also have "\<dots> = 4096 * (s mod 1048576)" by (simp add: mult_mod_right)
  finally have "unat (ucast ((of_nat s :: u32) * 4096) :: u64) = 4096 * (s mod 1048576)"
    by (simp add: unat_ucast_u32_u64)
  then have "(ucast ((of_nat s :: u32) * 4096) :: u64) = of_nat (4096 * (s mod 1048576))"
    by (metis as_of_nat)
  then show ?thesis by (simp add: frame_addr_def)
qed

text \<open>One region of 4 GiB and 64 frames at 4 GiB, all in use but the last 64 frames.\<close>

definition big_region :: mem_region where
  "big_region = \<lparr>start_addr = 0x100000000, len_bytes = 0x100040000, bitmap_start_addr = 0,
     qword_count = 16385, free_frames = 64\<rparr>"

definition big_map :: mem_map where
  "big_map = \<lparr>mem_size = 0x100040000, region_count = 1, regions = replicate 32 big_region,
     bitmap = \<lparr>bm_size = 1048640, bm_data = (\<lambda>a. if a < 131072 then 0xFF else 0)\<rparr>\<rparr>"

lemma big_map_used: "k < 1048640 \<Longrightarrow> slot_used big_map big_region k \<longleftrightarrow> k < 1048576"
proof -
  assume k: "k < 1048640"
  have ones: "bit (0xFF :: u8) (n mod 8)" for n :: nat
    using bit_mask_iff [of 8 "n mod 8", where 'a = "8 word"] by (simp add: mask_eq_decr_exp)
  have "(of_nat (k div 8) :: u64) < 131072 \<longleftrightarrow> k div 8 < 131072"
    using k by (simp add: less_by_unat unat_of_nat_u64)
  also have "\<dots> \<longleftrightarrow> k < 1048576" by linarith
  finally show ?thesis
    using ones by (simp add: slot_used_def bm_bit_def data_bit_def big_map_def big_region_def first_slot_def)
qed

lemma big_map_scan:
  "scan_nat (region_words big_map big_region) 16385 1 0 0 0 = Some 1048576"
proof -
  have free: "slot_free (region_words big_map big_region) k \<longleftrightarrow> \<not> k < 1048576" if "k < 1048640" for k
    using region_words_bit [of big_region k big_map] big_map_used [OF that] that
    by (simp add: first_slot_def big_region_def)
  have run: "free_run (region_words big_map big_region) s 1 \<longleftrightarrow> slot_free (region_words big_map big_region) s" for s
    by (auto simp: free_run_def le_less_Suc_eq)
  have "first_fit (region_words big_map big_region) (16385 * 64) 1 s \<Longrightarrow> s = 1048576" for s
    unfolding first_fit_def run using free by (cases s "1048576 :: nat" rule: linorder_cases) auto
  moreover have "\<not> no_fit (region_words big_map big_region) (16385 * 64) 1"
    unfolding no_fit_def run using free [of 1048576] by (auto intro: exI [of _ 1048576])
  ultimately show ?thesis
    using scan_nat_first_fit [OF scan_inv_start, where Q = 16385 and n = 1 and W = "region_words big_map big_region"]
    by (simp split: option.splits)
qed

lemma big_map_alloc:
  obtains mm' where "map_alloc_frame_contiguous big_map 1 = Some (0x100000000, mm')"
    "\<And>k. k < ALL_BITS \<Longrightarrow> bm_bit (bitmap mm') k \<longleftrightarrow> k = 0 \<or> bm_bit (bitmap big_map) k"
proof -
  have at: "region_count big_map = 1" "regions big_map ! 0 = big_region" "length (regions big_map) = 32"
    by (simp_all add: big_map_def)
  have scan: "scan_qwords big_map big_region 1 0 0 0 = Some (Some 0x100000000)"
  proof -
    have "scan_qwords big_map big_region 1 0 0 0 = Some (Some (frame_addr big_region (of_nat 1048576)))"
      using scan_start [of big_region big_map 1] big_map_scan by (simp add: big_region_def first_slot_def)
    also have "frame_addr big_region (of_nat 1048576) = 0x100000000"
      by (subst frame_addr_wraps) (simp_all add: big_region_def)
    finally show ?thesis .
  qed
  obtain b where b: "bitmap_set_len (bitmap big_map) 0 1 = Some (0, b)"
    "\<And>k. k < ALL_BITS \<Longrightarrow> bm_bit b k \<longleftrightarrow> unat (0 :: u64) \<le> k \<and> k < unat (0 :: u64) + unat (1 :: u64) \<or> bm_bit (bitmap big_map) k"
    using bitmap_set_len_spec [of 0 1 "bitmap big_map"] by (auto simp: big_map_def)
  have loop: "region_loop (\<lambda>r. \<not> (start_addr r > 0x100000000 \<or> 0x100001000 > start_addr r + len_bytes r)) big_map 0
      = Some (Some 0)"
    by (rule region_loop_hit) (simp_all add: at, simp_all add: big_region_def)
  have set: "set_mem_region big_map 0x100000000 0x100001000 =
      Some (0, big_map\<lparr>regions := (regions big_map)[0 := big_region\<lparr>free_frames := 63\<rparr>], bitmap := b\<rparr>)"
    by (simp add: set_mem_region_def outside_regions_def last_region_end_def at loop [simplified] Let_def)
       (simp add: big_region_def DEFAULT_PAGE_SIZE_def b(1))
  let ?mm = "big_map\<lparr>regions := (regions big_map)[0 := big_region\<lparr>free_frames := 63\<rparr>], bitmap := b\<rparr>"
  have res: "map_alloc_frame_contiguous big_map 1 = Some (0x100000000, ?mm)"
    unfolding map_alloc_frame_contiguous_def
    by (subst alloc_loop.simps) (simp add: at scan set DEFAULT_PAGE_SIZE_def, simp add: big_region_def)
  have "bitmap ?mm = b" by simp
  then have "bm_bit (bitmap ?mm) k \<longleftrightarrow> k = 0 \<or> bm_bit (bitmap big_map) k" if "k < ALL_BITS" for k
    using b(2) [OF that] by simp
  then show ?thesis using res that by blast
qed

text \<open>A region of more than 4 GiB breaks the contract: with only the frames from slot
  \<open>2 ^ 20\<close> on free, the allocator returns the first frame of the region, which is in use, and leaves the
  free frame it found free, so that it will find it again.\<close>

theorem alloc_beyond_4GiB_returns_used_frame:
  "\<exists>mm'. map_alloc_frame_contiguous big_map 1 = Some (start_addr big_region, mm') \<and>
     slot_used big_map big_region 0 \<and> \<not> slot_used big_map big_region 1048576 \<and>
     \<not> slot_used mm' big_region 1048576"
proof -
  obtain mm' where mm': "map_alloc_frame_contiguous big_map 1 = Some (0x100000000, mm')"
    "\<And>k. k < ALL_BITS \<Longrightarrow> bm_bit (bitmap mm') k \<longleftrightarrow> k = 0 \<or> bm_bit (bitmap big_map) k"
    using big_map_alloc by blast
  have "slot_used mm' big_region 1048576 = slot_used big_map big_region 1048576"
    using mm'(2) [of 1048576] by (simp add: slot_used_def big_region_def first_slot_def)
  with mm'(1) big_map_used [of 0] big_map_used [of 1048576] show ?thesis
    by (simp add: big_region_def)
qed

text \<open>\<^verbatim>\<open>map_alloc_frame\<close> with a 2 MiB or 1 GiB page always returns the start of the
  first region and marks nothing: the number of 4 KiB units, 512 or 262144, is 0 in a
  \<^verbatim>\<open>uint8_t\<close>.\<close>

theorem alloc_huge_page_reserves_nothing:
  assumes "mm_wf mm" "t \<in> {HUGE_PAGE, SUPER_PAGE}"
  shows "\<exists>mm'. map_alloc_frame mm t = Some (start_addr (regions mm ! 0), mm') \<and> free_set mm' = free_set mm"
proof -
  obtain mm' where mm': "map_alloc_frame_contiguous mm 0 = Some (start_addr (regions mm ! 0), mm')"
    "\<And>k. k < ALL_BITS \<Longrightarrow> bm_bit (bitmap mm') k = bm_bit (bitmap mm) k"
    "regions mm' = regions mm" "region_count mm' = region_count mm"
    using alloc_zero_frames [OF assms(1)] by blast
  have lay: "layout_ok mm" using assms(1) by (simp add: mm_wf_nth)
  have "free_slot mm' i k = free_slot mm i k" for i k
  proof (cases "i < unat (region_count mm) \<and> k < nframes (regions mm ! i)")
    case True
    note region = layout_region [OF lay mm_regions_mem [OF lay, of i]]
    have "first_slot (regions mm ! i) + k < ALL_BITS"
      using region(3) region_ok_bounds(1) [OF region(1)] True by simp
    then show ?thesis using mm' by (simp add: free_slot_def slot_used_def)
  qed (use mm' in \<open>auto simp: free_slot_def\<close>)
  then have "free_set mm' = free_set mm" using mm'(3) by (simp add: free_set_def)
  moreover have "map_alloc_frame mm t = map_alloc_frame_contiguous mm 0"
    using huge_units [of t] assms(2) by (simp add: map_alloc_frame_def Let_def)
  ultimately show ?thesis using mm'(1) by simp
qed

theorem alloc_huge_page_reserves_nothing_witness:
  "\<exists>mm'. map_alloc_frame full_map HUGE_PAGE = Some (0x100000, mm') \<and> free_set mm' = {}"
proof -
  have "free_set full_map = {}" by (simp add: free_set_def free_slot_def example_maps_slots)
  with alloc_huge_page_reserves_nothing [of full_map HUGE_PAGE] example_maps_wf(2) show ?thesis
    by (simp add: example_maps_at) (simp add: one_region_def)
qed

end
