(* ===== verification/Frame_Init.thy ===== *)
theory Frame_Init
  imports Frame_Allocator
begin

text \<open>
  How the physical memory map gets into the state that \<^verbatim>\<open>Frame_Allocator.thy\<close> starts from:
  \<^const>\<open>memmap_register_region\<close> lays the regions out one after another, \<^const>\<open>zero_mem_map\<close>
  clears the bitmap and marks the padding.
\<close>

section \<open>Registering regions\<close>

text \<open>The map while regions are registered: the slots of each region follow those of the one before, and
  the size of the bitmap is where the next region will start.\<close>

definition reg_inv :: "mem_map \<Rightarrow> bool" where
  "reg_inv mm \<longleftrightarrow>
     length (regions mm) = MAX_MEM_REGIONS \<and> unat (region_count mm) \<le> MAX_MEM_REGIONS \<and>
     (\<forall>i < unat (region_count mm). region_ok (regions mm ! i) \<and>
        unat (free_frames (regions mm ! i)) = nframes (regions mm ! i)) \<and>
     (\<forall>i j. i < j \<longrightarrow> j < unat (region_count mm) \<longrightarrow>
        region_end (regions mm ! i) \<le> unat (start_addr (regions mm ! j)) \<and>
        first_slot (regions mm ! i) + nslots (regions mm ! i) \<le> first_slot (regions mm ! j)) \<and>
     unat (bm_size (bitmap mm)) \<le> 1048576 * unat (region_count mm) \<and>
     (if region_count mm = 0 then bm_size (bitmap mm) = 0
      else unat (bm_size (bitmap mm)) =
        first_slot (regions mm ! (unat (region_count mm) - 1)) + nslots (regions mm ! (unat (region_count mm) - 1)))"

lemma qwords_of_frames:
  assumes "unat f \<le> 1048576"
  shows "unat (ALIGN_UP f 64 div 64) = (unat f + 63) div 64"
proof -
  have "unat (ALIGN_UP f 64) = (unat f + 63) div 64 * 64"
    using assms by (subst ALIGN_UP_64) simp_all
  then show ?thesis by (simp add: unat_div_word)
qed

lemma reg_inv_slots:
  assumes "reg_inv mm" "i < unat (region_count mm)"
  shows "first_slot (regions mm ! i) + nslots (regions mm ! i) \<le> unat (bm_size (bitmap mm))"
proof -
  let ?l = "unat (region_count mm) - 1"
  have size: "unat (bm_size (bitmap mm)) = first_slot (regions mm ! ?l) + nslots (regions mm ! ?l)"
    using assms by (auto simp: reg_inv_def split: if_splits)
  show ?thesis
  proof (cases "i = ?l")
    case False
    then have "i < ?l" "?l < unat (region_count mm)" using assms(2) by auto
    with assms(1) have "first_slot (regions mm ! i) + nslots (regions mm ! i) \<le> first_slot (regions mm ! ?l)"
      unfolding reg_inv_def by blast
    with size show ?thesis by simp
  qed (simp add: size)
qed

lemma reg_inv_layout:
  assumes "reg_inv mm" "0 < region_count mm"
  shows "layout_ok mm"
  unfolding layout_ok_nth
proof (intro conjI allI impI)
  have "unat (bm_size (bitmap mm)) \<le> 1048576 * unat (region_count mm)" "unat (region_count mm) \<le> 32"
    using assms(1) by (auto simp: reg_inv_def MAX_MEM_REGIONS_def)
  then show "unat (bm_size (bitmap mm)) < 18446744073709551608" by linarith
qed (use assms reg_inv_slots [OF assms(1)] in \<open>auto simp: reg_inv_def\<close>)

lemma last_index: "c \<noteq> (0 :: u8) \<Longrightarrow> unat c - 1 < unat c \<and> unat c \<noteq> 0"
proof -
  assume "c \<noteq> 0"
  then have "0 < unat c" by (simp add: unat_gt_0)
  then show ?thesis by linarith
qed

definition range_ok :: "mem_map \<Rightarrow> u64 \<Rightarrow> u64 \<Rightarrow> bool" where
  "range_ok mm start stop \<longleftrightarrow>
     4096 dvd unat start \<and> 4096 dvd unat stop \<and> unat start < unat stop \<and>
     unat stop \<le> unat start + 4294967296 \<and>
     (region_count mm = 0 \<or> region_end (regions mm ! (unat (region_count mm) - 1)) \<le> unat start)"

text \<open>The region that gets registered.\<close>

definition new_region :: "mem_map \<Rightarrow> u64 \<Rightarrow> u64 \<Rightarrow> mem_region" where
  "new_region mm start stop =
     (regions mm ! unat (region_count mm))
       \<lparr>start_addr := start, len_bytes := stop - start,
         qword_count := ALIGN_UP ((stop - start) div DEFAULT_PAGE_SIZE) 64 div 64,
         free_frames := (stop - start) div DEFAULT_PAGE_SIZE, bitmap_start_addr := bm_size (bitmap mm)\<rparr>"

lemma register_eq:
  assumes inv: "reg_inv mm" and room: "unat (region_count mm) < MAX_MEM_REGIONS"
  shows "memmap_register_region mm start stop = Some (mm\<lparr>
     mem_size := mem_size mm + (stop - start),
     regions := (regions mm)[unat (region_count mm) := new_region mm start stop],
     bitmap := (bitmap mm)\<lparr>bm_size := bm_size (bitmap mm) + qword_count (new_region mm start stop) * 64\<rparr>,
     region_count := region_count mm + 1\<rparr>)"
proof -
  let ?n = "unat (region_count mm)"
  have n: "?n < length (regions mm)" using inv room by (simp add: reg_inv_def)
  show ?thesis
  proof (cases "region_count mm = 0")
    case True
    then have "bm_size (bitmap mm) = 0" using inv by (simp add: reg_inv_def)
    with True n show ?thesis by (simp add: memmap_register_region_def new_region_def Let_def)
  next
    case False
    let ?p = "regions mm ! (?n - 1)"
    have n1: "?n - 1 < length (regions mm)" "?n - 1 < ?n" "?n \<noteq> 0"
      using n last_index [OF False] by linarith+
    have p: "unat (bm_size (bitmap mm)) = first_slot ?p + nslots ?p" "nslots ?p \<le> 1048576"
      using inv False n1(2) region_ok_bounds(2) [of ?p] by (auto simp: reg_inv_def)
    have "unat (bitmap_start_addr ?p + qword_count ?p * 64) = first_slot ?p + nslots ?p"
      using p u64_bound [of "bm_size (bitmap mm)"]
      by (simp add: unat_add_u64 unat_mult_u64 first_slot_def nslots_def)
    then have "bitmap_start_addr ?p + qword_count ?p * 64 = bm_size (bitmap mm)"
      using p(1) by (simp add: word_eq_by_unat)
    with n n1 show ?thesis by (simp add: memmap_register_region_def new_region_def Let_def)
  qed
qed

lemma new_region_ok:
  assumes inv: "reg_inv mm" and room: "unat (region_count mm) < MAX_MEM_REGIONS" and ok: "range_ok mm start stop"
  shows "region_ok (new_region mm start stop)" "unat (free_frames (new_region mm start stop)) = nframes (new_region mm start stop)"
    "region_end (new_region mm start stop) = unat stop" "first_slot (new_region mm start stop) = unat (bm_size (bitmap mm))"
    "nslots (new_region mm start stop) \<le> 1048576"
    "unat (bm_size (bitmap mm) + qword_count (new_region mm start stop) * 64)
       = unat (bm_size (bitmap mm)) + nslots (new_region mm start stop)"
proof -
  let ?r = "new_region mm start stop" and ?f = "(stop - start) div DEFAULT_PAGE_SIZE"
  have r: "4096 dvd unat start" "4096 dvd unat stop" "unat start < unat stop" "unat stop \<le> unat start + 4294967296"
    using ok by (auto simp: range_ok_def)
  have len: "unat (stop - start) = unat stop - unat start" using r by (simp add: unat_sub_word le_by_unat)
  have f: "unat ?f = (unat stop - unat start) div 4096" by (simp add: unat_div_word DEFAULT_PAGE_SIZE_def len)
  have nf: "nframes ?r = (unat stop - unat start) div 4096" by (simp add: nframes_def new_region_def len)
  then show "unat (free_frames ?r) = nframes ?r" by (simp add: new_region_def f)
  have small: "(unat stop - unat start) div 4096 \<le> 1048576"
  proof -
    have "(unat stop - unat start) div 4096 \<le> 4294967296 div 4096" using r(4) by (intro div_le_mono) linarith
    then show ?thesis by simp
  qed
  have dvd: "4096 dvd unat stop - unat start" by (rule dvd_diff_nat [OF r(2,1)])
  have "(unat stop - unat start) div 4096 * 4096 = unat stop - unat start" using dvd by (rule dvd_div_mult_self)
  then have pos: "0 < (unat stop - unat start) div 4096"
    using r(3) by (cases "(unat stop - unat start) div 4096") simp_all
  have q: "unat (qword_count ?r) = (nframes ?r + 63) div 64"
    unfolding nf using qwords_of_frames [of ?f] small f by (simp add: new_region_def)
  show fs: "first_slot ?r = unat (bm_size (bitmap mm))" by (simp add: first_slot_def new_region_def)
  show re: "region_end ?r = unat stop" using r(3) by (simp add: region_end_def new_region_def len)
  have "64 dvd unat (bm_size (bitmap mm))"
  proof (cases "region_count mm = 0")
    case False
    let ?l = "regions mm ! (unat (region_count mm) - 1)"
    have "unat (bm_size (bitmap mm)) = first_slot ?l + nslots ?l" "region_ok ?l"
      using inv False last_index [OF False] unfolding reg_inv_def by (presburger, blast)
    then show ?thesis by (simp add: region_ok_def nslots_def)
  qed (use inv in \<open>simp add: reg_inv_def\<close>)
  then show rok: "region_ok ?r"
    using r(1) dvd pos small q re fs u64_bound [of stop] by (simp add: region_ok_def nf) (simp add: new_region_def len)
  then show ns: "nslots ?r \<le> 1048576" by (rule region_ok_bounds(2))
  have "unat (bm_size (bitmap mm)) \<le> 1048576 * 32" using inv room by (auto simp: reg_inv_def MAX_MEM_REGIONS_def)
  with ns show "unat (bm_size (bitmap mm) + qword_count ?r * 64) = unat (bm_size (bitmap mm)) + nslots ?r"
    by (simp add: unat_add_u64 unat_mult_u64 nslots_def)
qed

section \<open>Clearing the map\<close>

text \<open>Two maps that differ at most in bitmap bytes past every slot.\<close>

definition same_bits :: "mem_map \<Rightarrow> mem_map \<Rightarrow> bool" where
  "same_bits mm mm' \<longleftrightarrow>
     (\<exists>b. mm' = mm\<lparr>bitmap := b\<rparr> \<and> bm_size b = bm_size (bitmap mm) \<and>
        (\<forall>k < ALL_BITS. bm_bit b k = bm_bit (bitmap mm) k))"

lemma same_bitsD:
  assumes "same_bits mm mm'"
  shows "regions mm' = regions mm" "region_count mm' = region_count mm"
    "bm_size (bitmap mm') = bm_size (bitmap mm)" "k < ALL_BITS \<Longrightarrow> bm_bit (bitmap mm') k = bm_bit (bitmap mm) k"
proof -
  obtain b where b: "mm' = mm\<lparr>bitmap := b\<rparr>" "bm_size b = bm_size (bitmap mm)"
    "\<forall>k < ALL_BITS. bm_bit b k = bm_bit (bitmap mm) k"
    using assms unfolding same_bits_def by blast
  have "bitmap mm' = b" unfolding b(1) by simp
  then show "bm_size (bitmap mm') = bm_size (bitmap mm)"
    "k < ALL_BITS \<Longrightarrow> bm_bit (bitmap mm') k = bm_bit (bitmap mm) k" using b(2,3) by auto
  show "regions mm' = regions mm" "region_count mm' = region_count mm" unfolding b(1) by simp_all
qed

lemma same_bits_refl: "same_bits mm mm"
  unfolding same_bits_def by (rule exI [of _ "bitmap mm"]) simp

lemma same_bits_trans:
  assumes "same_bits m1 m2" "same_bits m2 m3"
  shows "same_bits m1 m3"
proof -
  obtain b c where b: "m2 = m1\<lparr>bitmap := b\<rparr>" "m3 = m2\<lparr>bitmap := c\<rparr>"
    using assms unfolding same_bits_def by blast
  have "m3 = m1\<lparr>bitmap := bitmap m3\<rparr>" using b by simp
  moreover have "\<forall>k < ALL_BITS. bm_bit (bitmap m3) k = bm_bit (bitmap m1) k"
    using same_bitsD(4) [OF assms(1)] same_bitsD(4) [OF assms(2)] by blast
  ultimately show ?thesis
    using same_bitsD(3) [OF assms(1)] same_bitsD(3) [OF assms(2)] unfolding same_bits_def by metis
qed

lemma region_loop_total:
  assumes "unat (region_count mm) \<le> length (regions mm)"
  shows "region_loop test mm i = Some None \<or>
    (\<exists>k. region_loop test mm i = Some (Some k) \<and> k < unat (region_count mm) \<and> test (regions mm ! k))"
proof (induction "unat (region_count mm) - i" arbitrary: i)
  case 0
  then show ?case by (subst (1) region_loop.simps) simp
next
  case (Suc d)
  then have i: "i < unat (region_count mm)" "i < length (regions mm)" using assms by simp_all
  show ?case
  proof (cases "test (regions mm ! i)")
    case True
    then have "region_loop test mm i = Some (Some i)" using i by (subst region_loop.simps) simp
    with True i(1) show ?thesis by blast
  next
    case False
    then have "region_loop test mm i = region_loop test mm (Suc i)" using i by (subst region_loop.simps) simp
    with Suc show ?thesis by simp
  qed
qed

text \<open>A call of \<^const>\<open>set_mem_region\<close> with an empty range.\<close>

lemma set_mem_region_empty:
  assumes lay: "layout_ok mm"
  obtains e mm' where "set_mem_region mm a a = Some (e, mm')" "same_bits mm mm'"
proof -
  have len: "length (regions mm) = 32" "0 < region_count mm" "unat (region_count mm) \<le> 32"
    "unat (bm_size (bitmap mm)) < 18446744073709551608"
    using lay by (auto simp: layout_ok_def MAX_MEM_REGIONS_def)
  have "unat (region_count mm) - 1 < 32" using len(3) by linarith
  then have "\<exists>out. outside_regions mm a a = Some out"
    using len by (auto simp: outside_regions_def last_region_end_def idx_def)
  then obtain out where out: "outside_regions mm a a = Some out" by blast
  let ?test = "\<lambda>r. \<not> (start_addr r > a \<or> a > start_addr r + len_bytes r)"
  consider (out) out | (none) "\<not> out" "region_loop ?test mm 0 = Some None"
    | (hit) k where "\<not> out" "region_loop ?test mm 0 = Some (Some k)" "k < unat (region_count mm)" "?test (regions mm ! k)"
    using region_loop_total [of mm ?test 0] len by auto
  then show ?thesis
  proof cases
    case out
    then show ?thesis using that [OF _ same_bits_refl] \<open>outside_regions mm a a = Some out\<close>
      by (simp add: set_mem_region_def)
  next
    case none
    then show ?thesis using that [OF _ same_bits_refl] out by (simp add: set_mem_region_def)
  next
    case (hit k)
    let ?r = "regions mm ! k"
    note region = layout_region [OF lay mm_regions_mem [OF lay hit(3)]]
    have a: "unat (start_addr ?r) \<le> unat a" "unat a \<le> region_end ?r"
      using hit(4) unat_region_end [OF region(1)] by (auto simp: less_by_unat not_less)
    have "unat ((a - start_addr ?r) div DEFAULT_PAGE_SIZE) \<le> nframes ?r"
      using a region_end_eq [OF region(1)]
      by (simp add: unat_div_word DEFAULT_PAGE_SIZE_def unat_sub_word le_by_unat)
    then have slot: "unat (bitmap_start_addr ?r + (a - start_addr ?r) div DEFAULT_PAGE_SIZE) \<le> unat (bm_size (bitmap mm))"
      using region(2) region_ok_bounds(1) [OF region(1)] u64_bound [of "bm_size (bitmap mm)"]
      by (simp add: unat_add_u64 first_slot_def)
    then obtain b where b: "bitmap_set_len (bitmap mm)
        (bitmap_start_addr ?r + (a - start_addr ?r) div DEFAULT_PAGE_SIZE) 0 = Some (0, b)"
      "bm_size b = bm_size (bitmap mm)" "\<forall>k < ALL_BITS. bm_bit b k = bm_bit (bitmap mm) k"
      using bitmap_set_len_spec [of "bitmap_start_addr ?r + (a - start_addr ?r) div DEFAULT_PAGE_SIZE" 0 "bitmap mm"]
        len(4) by (metis (no_types, lifting) add.right_neutral leD unsigned_0)
    have "set_mem_region mm a a = Some (0, mm\<lparr>bitmap := b\<rparr>)"
      using hit(1) by (simp add: set_mem_region_def out hit(2) [simplified] b(1) Let_def)
    moreover have "same_bits mm (mm\<lparr>bitmap := b\<rparr>)" unfolding same_bits_def using b(2,3) by blast
    ultimately show ?thesis by (rule that)
  qed
qed

text \<open>Regions of whole 64-frame words have no padding, and the loop of \<^const>\<open>zero_mem_map\<close> has
  nothing to mark.\<close>

definition no_padding :: "mem_map \<Rightarrow> bool" where
  "no_padding mm \<longleftrightarrow> (\<forall>i < unat (region_count mm). 64 dvd nframes (regions mm ! i))"

lemma no_padding_len:
  assumes "region_ok r" "64 dvd nframes r"
  shows "qword_count r * 64 * DEFAULT_PAGE_SIZE = len_bytes r" "nslots r = nframes r"
proof -
  obtain q where q: "nframes r = 64 * q" using assms(2) by (auto simp: dvd_def)
  have uq: "unat (qword_count r) = q" using assms(1) by (simp add: region_ok_def q)
  then show "nslots r = nframes r" by (simp add: nslots_def q)
  have "q \<le> 16384" using assms(1) by (simp add: region_ok_def q)
  then have "unat (qword_count r * 64 * DEFAULT_PAGE_SIZE) = 4096 * nframes r"
    by (simp add: unat_mult_u64 uq DEFAULT_PAGE_SIZE_def q)
  also have "\<dots> = unat (len_bytes r)" using assms(1) by (auto simp: region_ok_def nframes_def)
  finally show "qword_count r * 64 * DEFAULT_PAGE_SIZE = len_bytes r" by (simp add: word_eq_by_unat)
qed

lemma pad_loop_nothing:
  assumes "layout_ok mm" "no_padding mm"
  obtains mm' where "pad_loop mm (unat (region_count mm)) i = Some mm'" "same_bits mm mm'"
  using assms
proof (induction "unat (region_count mm) - i" arbitrary: i mm thesis)
  case 0
  then show ?case by (intro "0.prems"(1) [OF _ same_bits_refl]) (subst pad_loop.simps, simp)
next
  case (Suc d)
  let ?r = "regions mm ! i"
  have i: "i < unat (region_count mm)" "i < length (regions mm)"
    using Suc.hyps(2) Suc.prems(2) by (auto simp: layout_ok_def)
  have len: "qword_count ?r * 64 * DEFAULT_PAGE_SIZE = len_bytes ?r"
    using no_padding_len(1) layout_region(1) [OF Suc.prems(2) mm_regions_mem [OF Suc.prems(2) i(1)]]
      Suc.prems(3) i(1) by (simp add: no_padding_def)
  obtain e mm1 where mm1: "set_mem_region mm (bitmap_start_addr ?r + len_bytes ?r) (bitmap_start_addr ?r + len_bytes ?r)
      = Some (e, mm1)" "same_bits mm mm1"
    using set_mem_region_empty [OF Suc.prems(2)] by blast
  note same = same_bitsD [OF mm1(2)]
  have eq: "(regions mm1)[i := (regions mm1 ! i)\<lparr>free_frames := free_frames ?r\<rparr>] = regions mm1"
    using same(1) by simp
  have upd: "mm1\<lparr>regions := regions mm\<rparr> = mm1" by (simp flip: same(1))
  have lay1: "layout_ok mm1" using Suc.prems(2) same by (simp add: layout_ok_nth)
  have pad1: "no_padding mm1" using Suc.prems(3) same by (simp add: no_padding_def)
  have dec: "d = unat (region_count mm1) - Suc i" using Suc.hyps(2) same(2) by simp
  obtain mm' where mm': "pad_loop mm1 (unat (region_count mm1)) (Suc i) = Some mm'" "same_bits mm1 mm'"
    using Suc.hyps(1) [OF dec _ lay1 pad1] by blast
  have "pad_loop mm (unat (region_count mm)) i = Some mm'"
    using i mm' same eq by (subst pad_loop.simps) (simp add: len mm1(1) upd)
  with same_bits_trans [OF mm1(2) mm'(2)] show ?case by (intro Suc.prems(1))
qed

section \<open>The claims\<close>

lemma register_region:
  assumes "reg_inv mm" "unat (region_count mm) < MAX_MEM_REGIONS" "range_ok mm start stop"
  shows "\<exists>mm'. memmap_register_region mm start stop = Some mm' \<and> reg_inv mm' \<and>
     region_count mm' = region_count mm + 1 \<and> take (unat (region_count mm)) (regions mm') = mm_regions mm \<and>
     start_addr (regions mm' ! unat (region_count mm)) = start \<and>
     region_end (regions mm' ! unat (region_count mm)) = unat stop"
proof -
  let ?n = "unat (region_count mm)" and ?r = "new_region mm start stop"
  let ?mm = "mm\<lparr>mem_size := mem_size mm + (stop - start), regions := (regions mm)[?n := ?r],
     bitmap := (bitmap mm)\<lparr>bm_size := bm_size (bitmap mm) + qword_count ?r * 64\<rparr>,
     region_count := region_count mm + 1\<rparr>"
  note new = new_region_ok [OF assms]
  have n: "?n < length (regions mm)" using assms(1,2) by (simp add: reg_inv_def)
  have n1: "unat (region_count mm + 1) = Suc ?n"
    using assms(2) by (intro unat_Suc_less [of _ 255]) (simp add: MAX_MEM_REGIONS_def less_by_unat)
  have start: "unat start \<le> region_end ?r" using new(3) assms(3) by (simp add: range_ok_def)
  have below: "region_end (regions mm ! i) \<le> unat start \<and>
      first_slot (regions mm ! i) + nslots (regions mm ! i) \<le> first_slot ?r" if i: "i < ?n" for i
  proof
    show "first_slot (regions mm ! i) + nslots (regions mm ! i) \<le> first_slot ?r"
      using reg_inv_slots [OF assms(1) i] new(4) by simp
    have last: "region_end (regions mm ! (?n - 1)) \<le> unat start"
      using assms(3) i by (auto simp: range_ok_def)
    show "region_end (regions mm ! i) \<le> unat start"
    proof (cases "i = ?n - 1")
      case False
      then have "i < ?n - 1" "?n - 1 < ?n" using i by auto
      then have "region_end (regions mm ! i) \<le> unat (start_addr (regions mm ! (?n - 1)))"
        using assms(1) unfolding reg_inv_def by blast
      then show ?thesis using last by (simp add: region_end_def)
    qed (use last in simp)
  qed
  have "reg_inv ?mm"
    using assms(1,2) new below n n1
    by (auto simp: reg_inv_def nth_list_update less_Suc_eq new_region_def [THEN arg_cong [of _ _ start_addr]])
  then show ?thesis
    using register_eq [OF assms(1,2)] n new by (simp add: mm_regions_def) (simp add: new_region_def)
qed

text \<open>Registering a page-aligned range of at most 4 GiB above the regions so far keeps the layout:
  the new region follows the others in memory and in the bitmap, and all its frames count as free.\<close>

theorem register_region_layout:
  assumes "reg_inv mm" "unat (region_count mm) < MAX_MEM_REGIONS" "range_ok mm start stop"
  shows "\<exists>mm'. memmap_register_region mm start stop = Some mm' \<and> reg_inv mm' \<and>
     region_count mm' = region_count mm + 1 \<and> take (unat (region_count mm)) (regions mm') = mm_regions mm \<and>
     start_addr (regions mm' ! unat (region_count mm)) = start \<and>
     region_end (regions mm' ! unat (region_count mm)) = unat stop"
  using assms by (rule register_region)

text \<open>An empty map, and a map with one region of 65 frames.\<close>

definition empty_map :: mem_map where
  "empty_map = \<lparr>mem_size = 0, region_count = 0, regions = replicate 32 \<lparr>start_addr = 0, len_bytes = 0,
     bitmap_start_addr = 0, qword_count = 0, free_frames = 0\<rparr>, bitmap = \<lparr>bm_size = 0, bm_data = (\<lambda>_. 0xFF)\<rparr>\<rparr>"

lemma empty_map_inv: "reg_inv empty_map"
  by (simp add: reg_inv_def empty_map_def MAX_MEM_REGIONS_def)

theorem register_region_layout_witness:
  "\<exists>mm'. memmap_register_region empty_map 0x100000 0x141000 = Some mm' \<and> reg_inv mm' \<and>
     region_count mm' = 1 \<and> start_addr (regions mm' ! 0) = 0x100000 \<and> region_end (regions mm' ! 0) = 0x141000"
  using register_region_layout [of empty_map "0x100000" "0x141000"] empty_map_inv
  by (auto simp: range_ok_def empty_map_def MAX_MEM_REGIONS_def)

lemma zero_mem_map_clears:
  assumes "reg_inv mm" "0 < region_count mm" "no_padding mm"
  shows "\<exists>mm'. zero_mem_map mm = Some mm' \<and> mm_wf mm' \<and>
     free_set mm' = {frame_at (regions mm ! i) k | i k. i < unat (region_count mm) \<and> k < nframes (regions mm ! i)} \<and>
     regions mm' = regions mm \<and> region_count mm' = region_count mm \<and> bm_size (bitmap mm') = bm_size (bitmap mm)"
proof -
  let ?b = "(bitmap mm)\<lparr>bm_data := Imemset (bm_data (bitmap mm)) 0 0 (bm_size (bitmap mm) div 8)\<rparr>"
  let ?mm0 = "mm\<lparr>bitmap := ?b\<rparr>"
  have "layout_ok ?mm0" "no_padding ?mm0"
    using reg_inv_layout [OF assms(1,2)] assms(3) by (simp_all add: layout_ok_nth no_padding_def)
  then obtain mm' where mm': "pad_loop ?mm0 (unat (region_count ?mm0)) 0 = Some mm'" "same_bits ?mm0 mm'"
    by (rule pad_loop_nothing)
  note same = same_bitsD [OF mm'(2), simplified]
  have lay: "layout_ok mm'" using \<open>layout_ok ?mm0\<close> same(1,2,3) by (simp add: layout_ok_nth)
  have unused: "\<not> slot_used mm' (regions mm ! i) k"
    if i: "i < unat (region_count mm)" and k: "k < nslots (regions mm ! i)" for i k
  proof -
    let ?s = "first_slot (regions mm ! i) + k" and ?size = "unat (bm_size (bitmap mm))"
    have fits: "first_slot (regions mm ! i) + nslots (regions mm ! i) \<le> ?size"
      by (rule reg_inv_slots [OF assms(1) i])
    have "region_ok (regions mm ! i)" using assms(1) i by (simp add: reg_inv_def)
    then have "64 dvd first_slot (regions mm ! i) + nslots (regions mm ! i)"
      by (simp add: region_ok_def nslots_def)
    then have "8 dvd first_slot (regions mm ! i) + nslots (regions mm ! i)"
      by (rule dvd_trans [rotated]) simp
    then obtain f where f: "first_slot (regions mm ! i) + nslots (regions mm ! i) = 8 * f" by (rule dvdE)
    have "?s div 8 < f" using k f by (simp add: less_mult_imp_div_less mult.commute)
    moreover have "f \<le> ?size div 8" using fits f by (simp add: less_eq_div_iff_mult_less_eq mult.commute)
    ultimately have "unat (of_nat (?s div 8) :: u64) < unat (bm_size (bitmap mm) div 8)"
      using u64_bound [of "bm_size (bitmap mm)"] by (simp add: unat_of_nat_u64 unat_div_word)
    then have "bm_data ?b (of_nat (?s div 8)) = 0"
      by (simp add: Imemset_eq within_def less_by_unat)
    then have "\<not> bm_bit ?b ?s" by (simp add: bm_bit_def data_bit_def)
    moreover have "?s < ALL_BITS" using k fits u64_bound [of "bm_size (bitmap mm)"] by linarith
    ultimately show ?thesis using same(4) by (simp add: slot_used_def)
  qed
  have bits: "bits_ok mm' (regions mm ! i)" if i: "i < unat (region_count mm)" for i
  proof -
    have r: "nslots (regions mm ! i) = nframes (regions mm ! i)"
      "unat (free_frames (regions mm ! i)) = nframes (regions mm ! i)"
      using assms(1,3) i no_padding_len(2) by (auto simp: reg_inv_def no_padding_def)
    have "{k. k < nframes (regions mm ! i) \<and> \<not> slot_used mm' (regions mm ! i) k} = {..<nframes (regions mm ! i)}"
      using unused [OF i] r(1) by auto
    then have "free_count mm' (regions mm ! i) = nframes (regions mm ! i)" by (simp add: free_count_def)
    with r show ?thesis unfolding bits_ok_def by (metis leD)
  qed
  have "mm_wf mm'" using lay bits same(1,2) by (simp add: mm_wf_nth)
  moreover have "free_slot mm' i k \<longleftrightarrow> i < unat (region_count mm) \<and> k < nframes (regions mm ! i)" for i k
    using unused [of i k] same(1,2) region_ok_bounds(1) [of "regions mm ! i"] assms(1)
    by (auto simp: free_slot_def reg_inv_def)
  then have "free_set mm' = {frame_at (regions mm ! i) k | i k. i < unat (region_count mm) \<and> k < nframes (regions mm ! i)}"
    using same(1) by (simp add: free_set_def)
  moreover have "zero_mem_map mm = Some mm'" using mm'(1) by (simp add: zero_mem_map_def Let_def)
  ultimately show ?thesis using same(1,2,3) by blast
qed

text \<open>After the registration of regions of whole 64-frame words, \<^verbatim>\<open>zero_mem_map\<close> leaves a
  well-formed map in which every frame of every region is free.\<close>

theorem zero_mem_map_all_free:
  assumes "reg_inv mm" "0 < region_count mm" "no_padding mm"
  shows "\<exists>mm'. zero_mem_map mm = Some mm' \<and> mm_wf mm' \<and>
     free_set mm' = {frame_at (regions mm ! i) k | i k. i < unat (region_count mm) \<and> k < nframes (regions mm ! i)}"
  using zero_mem_map_clears [OF assms] by blast

theorem zero_mem_map_all_free_witness:
  "\<exists>mm'. zero_mem_map example_map = Some mm' \<and> mm_wf mm' \<and>
     free_set mm' = {frame_at (regions example_map ! i) k | i k.
       i < unat (region_count example_map) \<and> k < nframes (regions example_map ! i)}"
proof (rule zero_mem_map_all_free)
  show "reg_inv example_map"
    by (simp add: reg_inv_def example_maps_at one_region_simps)
       (simp add: example_map_def one_region_def MAX_MEM_REGIONS_def)
qed (simp_all add: no_padding_def example_maps_at one_region_simps)

text \<open>One region of 65 frames at 1 MiB, registered, its bitmap still to be cleared.\<close>

definition padded_region :: mem_region where
  "padded_region = \<lparr>start_addr = 0x100000, len_bytes = 0x41000, bitmap_start_addr = 0, qword_count = 2, free_frames = 65\<rparr>"

definition padded_map :: mem_map where
  "padded_map = \<lparr>mem_size = 0x41000, region_count = 1, regions = replicate 32 padded_region,
     bitmap = \<lparr>bm_size = 128, bm_data = (\<lambda>_. 0)\<rparr>\<rparr>"

lemma padded_region_simps:
  "nframes padded_region = 65" "nslots padded_region = 128" "first_slot padded_region = 0"
  "region_end padded_region = 0x141000" "frame_at padded_region k = 0x100000 + 4096 * k" "region_ok padded_region"
  by (simp_all add: nframes_def nslots_def first_slot_def region_end_def frame_at_def region_ok_def padded_region_def)

lemma padded_map_at: "region_count padded_map = 1" "regions padded_map = replicate 32 padded_region"
  "bm_size (bitmap padded_map) = 128"
  by (simp_all add: padded_map_def)

lemma padded_map_layout: "layout_ok padded_map"
  by (simp add: layout_ok_nth padded_map_at padded_region_simps MAX_MEM_REGIONS_def)

lemma padded_map_zero: "zero_mem_map padded_map = Some padded_map"
proof -
  have "Imemset (\<lambda>_. 0) a 0 n = (\<lambda>_. 0)" for a n by (rule ext) (simp add: Imemset_eq)
  then have clear: "padded_map\<lparr>bitmap := \<lparr>bm_size = 128, bm_data = Imemset (\<lambda>_. 0) 0 0 16\<rparr>\<rparr> = padded_map"
    by (simp add: padded_map_def)
  have set: "set_mem_region padded_map 0x41000 0x80000 = Some (- 1, padded_map)"
    by (simp add: set_mem_region_def outside_regions_def padded_map_at) (simp add: padded_region_def)
  have "pad_loop padded_map 1 0 = Some padded_map"
    by (subst pad_loop.simps) (simp add: padded_map_at, simp add: padded_region_def set DEFAULT_PAGE_SIZE_def,
      subst pad_loop.simps, simp add: padded_map_def padded_region_def list_update_same_conv)
  then show ?thesis using clear by (simp add: zero_mem_map_def padded_map_at Let_def) (simp add: padded_map_def)
qed

text \<open>\<^verbatim>\<open>zero_mem_map\<close> does not mark the padding of a region: it passes bitmap positions where
  physical addresses are expected.  In a region of 65 frames whose frame 30 is in use, a request for 40 frames is then
  served from frame 31 on, which ends 6 frames past the region, and nothing is marked.\<close>

theorem padding_is_allocated:
  "\<exists>mm1 mm2. zero_mem_map padded_map = Some mm1 \<and> set_mem_region mm1 0x11E000 0x11F000 = Some (0, mm2) \<and>
     map_alloc_frame_contiguous mm2 40 = Some (0x11F000, mm2) \<and>
     region_end (regions mm2 ! 0) < 0x11F000 + 40 * 4096"
proof -
  have inr: "in_region padded_map 0 0x11E000 0x11F000 30 1"
    by (simp add: in_region_def padded_map_at padded_region_simps)
  obtain mm2 where mm2: "set_mem_region padded_map 0x11E000 0x11F000 = Some (0, mm2)"
    "frames_written padded_map 0 30 1 True 64 mm2"
    using set_mem_region_in [OF padded_map_layout inr] by (auto simp: padded_map_at padded_region_def)
  have r2: "regions mm2 ! 0 = padded_region\<lparr>free_frames := 64\<rparr>" "region_count mm2 = 1"
    using written_regions [OF mm2(2) padded_map_layout, of 0] mm2(2) by (simp_all add: padded_map_at)
  have lay2: "layout_ok mm2" by (rule written_layout [OF mm2(2) padded_map_layout]) (simp add: padded_map_at)
  then have l2: "0 < length (regions mm2)" by (simp add: layout_ok_def MAX_MEM_REGIONS_def)
  have used: "slot_used mm2 padded_region k \<longleftrightarrow> k = 30" if "k < 128" for k
  proof -
    have "slot_used mm2 padded_region k \<longleftrightarrow> (if 30 \<le> k \<and> k < 31 then True else slot_used padded_map padded_region k)"
      using written_slots [OF mm2(2) padded_map_layout, of 0 k] that by (simp add: padded_map_at padded_region_simps)
    then show ?thesis by (auto simp: slot_used_def bm_bit_def data_bit_def padded_map_def)
  qed
  let ?r = "padded_region\<lparr>free_frames := 64\<rparr>"
  have free: "slot_free (region_words mm2 ?r) k \<longleftrightarrow> k \<noteq> 30" if "k < 128" for k
    using region_words_bit [of ?r k mm2] used [OF that] that by (simp add: padded_region_simps)
  have run: "free_run (region_words mm2 ?r) 31 40" unfolding free_run_def using free by simp
  have fit: "s = 31" if ff: "first_fit (region_words mm2 ?r) 128 40 s" for s
  proof (rule ccontr)
    assume "s \<noteq> 31"
    then have "s < 31 \<or> 31 < s" by auto
    then show False
    proof
      assume s: "s < 31"
      then have "slot_free (region_words mm2 ?r) 30" using ff by (auto simp: first_fit_def free_run_def)
      then show False using free [of 30] by simp
    next
      assume "31 < s"
      with ff run show False by (auto simp: first_fit_def)
    qed
  qed
  have "\<not> no_fit (region_words mm2 ?r) 128 40" using run by (auto simp: no_fit_def intro: exI [of _ 31])
  then have scan: "scan_nat (region_words mm2 ?r) 2 40 0 0 0 = Some 31"
    using scan_nat_first_fit [OF scan_inv_start, where Q = 2 and n = 40 and W = "region_words mm2 ?r"] fit
    by (simp split: option.splits)
  have "scan_qwords mm2 ?r 40 0 0 0 = Some (Some (frame_addr ?r (of_nat 31)))"
    using scan_start [where r = ?r and n = 40 and mm = mm2] scan by (simp add: padded_region_simps) (simp add: padded_region_def)
  then have hit: "scan_qwords mm2 ?r 40 0 0 0 = Some (Some 0x11F000)"
    by (simp add: frame_addr_def padded_region_def)
  have set: "set_mem_region mm2 0x11F000 0x147000 = Some (- 1, mm2)"
    using l2 by (simp add: set_mem_region_def outside_regions_def last_region_end_def r2 idx_def del: length_greater_0_conv)
       (simp add: padded_region_def)
  have "map_alloc_frame_contiguous mm2 40 = Some (0x11F000, mm2)"
    unfolding map_alloc_frame_contiguous_def
    by (subst alloc_loop.simps) (use l2 in \<open>simp add: r2 idx_def hit set DEFAULT_PAGE_SIZE_def del: length_greater_0_conv\<close>)
  moreover have "region_end (regions mm2 ! 0) = 0x141000" by (simp add: r2 padded_region_simps)
  ultimately show ?thesis using padded_map_zero mm2(1) by auto
qed

end
