(* ===== verification/Page_Entry.thy ===== *)
theory Page_Entry
  imports Mem_Utils
begin

text \<open>
  The entries of the four levels of page tables, \<^verbatim>\<open>include/page_definitions.h\<close>, as 64-bit
  words with the bit-fields of the packed structs, and the address and permission macros of
  \<^verbatim>\<open>include/kernel/Memory/memory_mapping.h\<close>.
\<close>

section \<open>Bit-fields\<close>

definition present :: "u64 \<Rightarrow> bool" where "present e = bit e 0"
definition writeable :: "u64 \<Rightarrow> bool" where "writeable e = bit e 1"
definition user_access :: "u64 \<Rightarrow> bool" where "user_access e = bit e 2"
definition write_through :: "u64 \<Rightarrow> bool" where "write_through e = bit e 3"
definition cache_disabled :: "u64 \<Rightarrow> bool" where "cache_disabled e = bit e 4"
definition accessed :: "u64 \<Rightarrow> bool" where "accessed e = bit e 5"
definition dirty :: "u64 \<Rightarrow> bool" where "dirty e = bit e 6"
definition huge :: "u64 \<Rightarrow> bool" where "huge e = bit e 7"
definition execution_disabled :: "u64 \<Rightarrow> bool" where "execution_disabled e = bit e 63"

text \<open>Assignment to a field of one bit.\<close>

definition put_bit :: "nat \<Rightarrow> bool \<Rightarrow> u64 \<Rightarrow> u64" where
  "put_bit n b e = (if b then set_bit n e else unset_bit n e)"

text \<open>\<^verbatim>\<open>page_ppn\<close>, 28 bits from bit 12 on.\<close>

definition page_ppn :: "u64 \<Rightarrow> u64" where
  "page_ppn e = take_bit 28 (drop_bit 12 e)"

definition put_ppn :: "u64 \<Rightarrow> u64 \<Rightarrow> u64" where
  "put_ppn v e = (e AND NOT (push_bit 12 (mask 28))) OR push_bit 12 (take_bit 28 v)"

text \<open>\<^verbatim>\<open>e->page_ppn << 12\<close>.  A bit-field of 28 bits promotes to \<^verbatim>\<open>int\<close>, so the shift
  is done in 32 bits (which GCC defines to wrap) and the result is sign-extended to the 64 bits of the address.\<close>

definition ppn_addr :: "u64 \<Rightarrow> u64" where
  "ppn_addr e = scast (push_bit 12 (ucast (page_ppn e)) :: u32)"

section \<open>Addresses\<close>

definition VA_PML4_INDEX :: "u64 \<Rightarrow> u64" where "VA_PML4_INDEX va = drop_bit 39 va AND 0x1FF"
definition VA_PDPT_INDEX :: "u64 \<Rightarrow> u64" where "VA_PDPT_INDEX va = drop_bit 30 va AND 0x1FF"
definition VA_PD_INDEX :: "u64 \<Rightarrow> u64" where "VA_PD_INDEX va = drop_bit 21 va AND 0x1FF"
definition VA_PT_INDEX :: "u64 \<Rightarrow> u64" where "VA_PT_INDEX va = drop_bit 12 va AND 0x1FF"

text \<open>The offset in the page, by the level at which the walk ends.\<close>

definition VA_OFFSET_4K :: "u64 \<Rightarrow> u64" where "VA_OFFSET_4K va = va AND 0xFFF"
definition VA_OFFSET_2M :: "u64 \<Rightarrow> u64" where "VA_OFFSET_2M va = va AND 0x1FFFFF"
definition VA_OFFSET_1G :: "u64 \<Rightarrow> u64" where "VA_OFFSET_1G va = va AND 0x3FFFFFFF"

definition VA_IS_CANONICAL_48 :: "u64 \<Rightarrow> bool" where
  "VA_IS_CANONICAL_48 va \<longleftrightarrow> signed_drop_bit 16 (push_bit 16 va) = va"

section \<open>Permissions\<close>

definition WRITEABLE_SHIFT :: nat where "WRITEABLE_SHIFT = 0x1"
definition USER_ACCESS_SHIFT :: nat where "USER_ACCESS_SHIFT = 0x3"
definition WRITE_THROUGH_SHIFT :: nat where "WRITE_THROUGH_SHIFT = 0x7"
definition CACHE_DISABLED_SHIFT :: nat where "CACHE_DISABLED_SHIFT = 0xF"
definition EXECUTION_DISABLED_SHIFT :: nat where "EXECUTION_DISABLED_SHIFT = 0x3F"

definition WRITEABLE :: u64 where "WRITEABLE = push_bit WRITEABLE_SHIFT 1"
definition USER_ACCESS :: u64 where "USER_ACCESS = push_bit USER_ACCESS_SHIFT 1"
definition WRITE_THROUGH :: u64 where "WRITE_THROUGH = push_bit WRITE_THROUGH_SHIFT 1"
definition CACHE_DISABLED :: u64 where "CACHE_DISABLED = push_bit CACHE_DISABLED_SHIFT 1"

definition PERM_BIT :: "u64 \<Rightarrow> nat \<Rightarrow> bool" where "PERM_BIT p shift = bit p shift"

definition APPLY_UPPER_PERMS :: "u64 \<Rightarrow> u64 \<Rightarrow> u64" where
  "APPLY_UPPER_PERMS e p =
     (let e = (if PERM_BIT p USER_ACCESS_SHIFT then put_bit 2 True e else e)
      in if PERM_BIT p WRITEABLE_SHIFT then put_bit 1 True e else e)"

definition APPLY_LEAF_PERMS :: "u64 \<Rightarrow> u64 \<Rightarrow> u64" where
  "APPLY_LEAF_PERMS e p =
     put_bit 63 (PERM_BIT p EXECUTION_DISABLED_SHIFT)
       (put_bit 4 (PERM_BIT p CACHE_DISABLED_SHIFT)
         (put_bit 3 (PERM_BIT p WRITE_THROUGH_SHIFT)
           (put_bit 1 (PERM_BIT p WRITEABLE_SHIFT)
             (put_bit 2 (PERM_BIT p USER_ACCESS_SHIFT) e))))"

section \<open>Reading what was written\<close>

named_theorems entry_bits \<open>bits of an entry after an assignment to one of its fields\<close>

lemma bit_put_bit [entry_bits]: "bit (put_bit n b e) k \<longleftrightarrow> (if k = n \<and> n < 64 then b else bit e k)"
  by (auto simp: put_bit_def bit_set_bit_iff bit_unset_bit_iff dest: bit_imp_le_length)

lemma bit_put_ppn [entry_bits]:
  "bit (put_ppn v e) k \<longleftrightarrow> (if 12 \<le> k \<and> k < 40 then bit v (k - 12) else bit e k)"
  by (cases "k < 64")
     (auto simp: put_ppn_def bit_simps dest: bit_imp_le_length)

lemma bit_page_ppn: "bit (page_ppn e) k \<longleftrightarrow> k < 28 \<and> bit e (k + 12)"
  by (auto simp: page_ppn_def bit_simps add.commute)

lemma page_ppn_put_bit [simp]: "n < 12 \<or> 40 \<le> n \<Longrightarrow> page_ppn (put_bit n b e) = page_ppn e"
  by (rule bit_word_eqI) (auto simp: bit_page_ppn entry_bits)

lemma page_ppn_put_ppn [simp]: "page_ppn (put_ppn v e) = take_bit 28 v"
  by (rule bit_word_eqI) (auto simp: bit_page_ppn entry_bits bit_simps)

lemma page_ppn_upper [simp]: "page_ppn (APPLY_UPPER_PERMS e p) = page_ppn e"
  by (simp add: APPLY_UPPER_PERMS_def Let_def)

lemma page_ppn_leaf [simp]: "page_ppn (APPLY_LEAF_PERMS e p) = page_ppn e"
  by (simp add: APPLY_LEAF_PERMS_def)

lemma bit_upper_perms [entry_bits]:
  "bit (APPLY_UPPER_PERMS e p) k \<longleftrightarrow> bit e k \<or> (k = 2 \<and> bit p 3) \<or> (k = 1 \<and> bit p 1)"
  by (auto simp: APPLY_UPPER_PERMS_def Let_def entry_bits PERM_BIT_def USER_ACCESS_SHIFT_def WRITEABLE_SHIFT_def)

lemma bit_leaf_perms [entry_bits]:
  "bit (APPLY_LEAF_PERMS e p) k \<longleftrightarrow>
     (if k = 63 then bit p 63 else if k = 4 then bit p 15 else if k = 3 then bit p 7
      else if k = 1 then bit p 1 else if k = 2 then bit p 3 else bit e k)"
  by (simp add: APPLY_LEAF_PERMS_def entry_bits PERM_BIT_def USER_ACCESS_SHIFT_def WRITEABLE_SHIFT_def
      WRITE_THROUGH_SHIFT_def CACHE_DISABLED_SHIFT_def EXECUTION_DISABLED_SHIFT_def)

text \<open>The address of a page below 2 GiB survives the way through the entry.\<close>

lemma ppn_addr_low:
  assumes "page_ppn e = take_bit 28 (drop_bit 12 a)" "unat a < 2147483648"
  shows "ppn_addr e = a AND NOT 0xFFF"
proof (rule bit_word_eqI)
  fix k :: nat assume k: "k < LENGTH(64)"
  have "take_bit 31 a = a"
    using assms(2) by (intro word_unat_eq_iff [THEN iffD2]) (simp add: unsigned_take_bit_eq take_bit_nat_eq_self)
  then have high: "\<not> bit a j" if "31 \<le> j" for j
    using that by (metis bit_take_bit_iff not_le)
  have low: "(0xFFF :: u64) = mask 12" by (simp add: mask_eq_decr_exp)
  show "bit (ppn_addr e) k \<longleftrightarrow> bit (a AND NOT 0xFFF) k"
    using k high [of k] high [of 31] high [of "12 + (k - 12)"] unfolding ppn_addr_def low
    by (cases "k < 12"; cases "31 \<le> k") (auto simp: bit_simps assms(1) bit_signed_iff min_def)
qed

end
