(* ===== verification/Paging.thy ===== *)
theory Paging
  imports Page_Entry Frame_Allocator
begin

text \<open>
  Page tables, \<^verbatim>\<open>src/kernel/Memory/paging.c\<close>.  The tables live in the kernel's memory, read and
  written through \<^const>\<open>KERNEL_PHYS_TO_VIRT\<close>; that memory is one flat byte array indexed by
  kernel virtual addresses.  The physical memory map at \<^verbatim>\<open>_kernel_end\<close> is a component of its own.
  Console output and the flush of a TLB entry (\<^verbatim>\<open>invlpg\<close>) have no effect on either.
\<close>

record kstate =
  kmem :: mem
  kmmap :: mem_map

text \<open>\<^verbatim>\<open>&table[index]\<close>, and the table an entry points to.\<close>

definition entry_at :: "u64 \<Rightarrow> u64 \<Rightarrow> u64" where
  "entry_at table index = table + 8 * index"

definition next_table :: "u64 \<Rightarrow> u64" where
  "next_table e = KERNEL_PHYS_TO_VIRT (ppn_addr e)"

definition load_entry :: "kstate \<Rightarrow> u64 \<Rightarrow> u64" where
  "load_entry ks a = load64 (kmem ks) a"

definition store_entry :: "kstate \<Rightarrow> u64 \<Rightarrow> u64 \<Rightarrow> kstate" where
  "store_entry ks a e = ks\<lparr>kmem := store64 (kmem ks) a e\<rparr>"

definition ialloc_kframe :: "kstate \<Rightarrow> u64 \<Rightarrow> page_type \<Rightarrow> (u64 \<times> kstate) option" where
  "ialloc_kframe ks pages page_size = do {
     (frame, mm) \<leftarrow> map_alloc_frame_contiguous (kmmap ks) pages;
     Some (frame, ks\<lparr>kmmap := mm\<rparr>)
   }"

text \<open>
  The step that \<^verbatim>\<open>page_in\<close> takes at each of the three upper levels: give an entry that is not
  present a zeroed table, then propagate the permissions.  \<open>False\<close> is the error return.
\<close>

definition need_table :: "kstate \<Rightarrow> u64 \<Rightarrow> (bool \<times> kstate) option" where
  "need_table ks ea =
     (if \<not> present (load_entry ks ea) then do {
        (frame, ks) \<leftarrow> ialloc_kframe ks 1 (ucast DEFAULT_PAGE_SIZE);
        if frame = FRAME_ALLOC_FAILED then Some (False, ks)
        else do {
          let ks = ks\<lparr>kmem := Imemset (kmem ks) (KERNEL_PHYS_TO_VIRT frame) 0 DEFAULT_PAGE_SIZE\<rparr>;
          let ks = store_entry ks ea (put_ppn (drop_bit 12 frame) (load_entry ks ea));
          let ks = store_entry ks ea (put_bit 0 True (load_entry ks ea));
          Some (True, ks)
        }
      }
      else Some (True, ks))"

definition upper_perms :: "kstate \<Rightarrow> u64 \<Rightarrow> u64 \<Rightarrow> kstate" where
  "upper_perms ks ea p = store_entry ks ea (APPLY_UPPER_PERMS (load_entry ks ea) p)"

definition big_leaf :: "kstate \<Rightarrow> u64 \<Rightarrow> u64 \<Rightarrow> u64 \<Rightarrow> kstate" where
  "big_leaf ks ea phys p =
     store_entry ks ea (put_bit 0 True (put_ppn (drop_bit 12 phys)
       (put_bit 7 True (APPLY_LEAF_PERMS (load_entry ks ea) p))))"

definition small_leaf :: "kstate \<Rightarrow> u64 \<Rightarrow> u64 \<Rightarrow> u64 \<Rightarrow> kstate" where
  "small_leaf ks ea phys p =
     store_entry ks ea (put_bit 0 True (put_ppn (drop_bit 12 phys)
       (put_bit 6 False (put_bit 5 False (APPLY_LEAF_PERMS (load_entry ks ea) p)))))"

definition page_in :: "kstate \<Rightarrow> u64 \<Rightarrow> u64 \<Rightarrow> u64 \<Rightarrow> u64 \<Rightarrow> u64 \<Rightarrow> (int \<times> kstate) option" where
  "page_in ks pml4 virt_addr phys_addr pageSize permissions = do {
     let pml4_entry = entry_at pml4 (VA_PML4_INDEX virt_addr);
     (ok, ks) \<leftarrow> need_table ks pml4_entry;
     if \<not> ok then Some (- 1, ks)
     else do {
       let ks = upper_perms ks pml4_entry permissions;
       let pdpt_entry = entry_at (next_table (load_entry ks pml4_entry)) (VA_PDPT_INDEX virt_addr);
       if pageSize = SUPER_PS then Some (0, big_leaf ks pdpt_entry phys_addr permissions)
       else do {
         (ok, ks) \<leftarrow> need_table ks pdpt_entry;
         if \<not> ok then Some (- 1, ks)
         else do {
           let ks = upper_perms ks pdpt_entry permissions;
           let pd_entry = entry_at (next_table (load_entry ks pdpt_entry)) (VA_PD_INDEX virt_addr);
           if pageSize = HUGE_PS then Some (0, big_leaf ks pd_entry phys_addr permissions)
           else do {
             (ok, ks) \<leftarrow> need_table ks pd_entry;
             if \<not> ok then Some (- 1, ks)
             else do {
               let ks = upper_perms ks pd_entry permissions;
               let pt_entry = entry_at (next_table (load_entry ks pd_entry)) (VA_PT_INDEX virt_addr);
               Some (0, small_leaf ks pt_entry phys_addr permissions)
             }
           }
         }
       }
     }
   }"

definition walk_table :: "kstate \<Rightarrow> u64 \<Rightarrow> u64 \<Rightarrow> u64" where
  "walk_table ks pml4 virt_addr =
     (let pml4_entry = load_entry ks (entry_at pml4 (VA_PML4_INDEX virt_addr)) in
      if \<not> present pml4_entry then INVALID_PHYS_ADDR
      else let pdpt_entry = load_entry ks (entry_at (next_table pml4_entry) (VA_PDPT_INDEX virt_addr)) in
      if \<not> present pdpt_entry then INVALID_PHYS_ADDR
      else if huge pdpt_entry then ppn_addr pdpt_entry
      else let pd_entry = load_entry ks (entry_at (next_table pdpt_entry) (VA_PD_INDEX virt_addr)) in
      if \<not> present pd_entry then INVALID_PHYS_ADDR
      else if huge pd_entry then ppn_addr pd_entry
      else let pt_entry = load_entry ks (entry_at (next_table pd_entry) (VA_PT_INDEX virt_addr)) in
      if \<not> present pt_entry then INVALID_PHYS_ADDR
      else ppn_addr pt_entry)"

text \<open>\<^verbatim>\<open>test_walk_table\<close>, which does not look for 1 GiB pages.\<close>

definition test_walk_table :: "kstate \<Rightarrow> u64 \<Rightarrow> u64 \<Rightarrow> u64" where
  "test_walk_table ks pml4 virt_addr =
     (let pml4_entry = load_entry ks (entry_at pml4 (VA_PML4_INDEX virt_addr)) in
      if \<not> present pml4_entry then INVALID_PHYS_ADDR
      else let pdpt_entry = load_entry ks (entry_at (next_table pml4_entry) (VA_PDPT_INDEX virt_addr)) in
      if \<not> present pdpt_entry then INVALID_PHYS_ADDR
      else let pd_entry = load_entry ks (entry_at (next_table pdpt_entry) (VA_PD_INDEX virt_addr)) in
      if huge pd_entry \<and> present pd_entry then ppn_addr pd_entry
      else if \<not> present pd_entry then INVALID_PHYS_ADDR
      else let pt_entry = load_entry ks (entry_at (next_table pd_entry) (VA_PT_INDEX virt_addr)) in
      if \<not> present pt_entry then INVALID_PHYS_ADDR
      else ppn_addr pt_entry)"

definition page_out :: "kstate \<Rightarrow> u64 \<Rightarrow> u64 \<Rightarrow> int \<times> kstate" where
  "page_out ks pml4 virt_addr =
     (let pml4_entry = entry_at pml4 (VA_PML4_INDEX virt_addr) in
      if \<not> present (load_entry ks pml4_entry) then (- 1, ks)
      else let pdpt_entry = entry_at (next_table (load_entry ks pml4_entry)) (VA_PDPT_INDEX virt_addr);
               e = load_entry ks pdpt_entry in
      if huge e \<and> \<not> present e then
        (0, store_entry (store_entry ks pml4_entry 0) pdpt_entry 0)
      else if \<not> present e then (- 2, ks)
      else let pd_entry = entry_at (next_table e) (VA_PD_INDEX virt_addr);
               d = load_entry ks pd_entry in
      if huge d \<and> \<not> present d then
        (0, store_entry (store_entry (store_entry ks pml4_entry 0) pdpt_entry 0) pd_entry 0)
      else if \<not> present d then (- 3, ks)
      else let pt_entry = entry_at (next_table d) (VA_PT_INDEX virt_addr) in
        (0, store_entry (store_entry (store_entry (store_entry ks pml4_entry 0) pdpt_entry 0) pd_entry 0) pt_entry 0))"

text \<open>\<^verbatim>\<open>for (i = 0; i < size; i += DEFAULT_PAGE_SIZE)\<close> of \<^verbatim>\<open>map_mmio\<close>,
  \<^verbatim>\<open>src/kernel/Memory/DMA/MMIO.c\<close>.  \<open>i\<close> may wrap, and then the loop does not end.\<close>

partial_function (option) mmio_loop :: "kstate \<Rightarrow> u64 \<Rightarrow> u64 \<Rightarrow> u64 \<Rightarrow> u64 \<Rightarrow> u64 \<Rightarrow> (bool \<times> kstate) option" where
  "mmio_loop ks pml4 start sz flags i =
     (if i < sz then
        Option.bind (page_in ks pml4 (MMIO_PHYS_TO_VIRT (start + i)) (start + i) DEFAULT_PAGE_SIZE flags)
          (\<lambda>(err, ks). if err \<noteq> 0 then Some (False, ks)
             else mmio_loop ks pml4 start sz flags (i + DEFAULT_PAGE_SIZE))
      else Some (True, ks))"

definition map_mmio :: "kstate \<Rightarrow> u64 \<Rightarrow> u64 \<Rightarrow> u64 \<Rightarrow> u64 \<Rightarrow> (u64 \<times> kstate) option" where
  "map_mmio ks cr3 phys_addr sz flags = do {
     let pml4 = KERNEL_PHYS_TO_VIRT cr3;
     let start = ALIGN_DOWN phys_addr DEFAULT_PAGE_SIZE;
     (ok, ks) \<leftarrow> mmio_loop ks pml4 start sz flags 0;
     if \<not> ok then Some (FRAME_ALLOC_FAILED, ks)
     else Some (MMIO_PHYS_TO_VIRT phys_addr, ks)
   }"

end
