(* ===== verification/Paging_Tree.thy ===== *)
theory Paging_Tree
  imports Paging "HOL-Library.Sublist"
begin

text \<open>
  The tables of \<^verbatim>\<open>Paging.thy\<close> as a tree.  A path is the list of indices from the root, the last
  one first; \<open>tab m r p\<close> is the table it leads to and \<open>ent m r p\<close> the entry it ends in.  The invariant says that
  the tables are page aligned, that no two paths share one, and that none of their frames is free.
\<close>

section \<open>Pages of memory\<close>

lemma page_top: "4096 dvd unat (t :: u64) \<Longrightarrow> unat t + 4096 \<le> 18446744073709551616"
proof -
  assume "4096 dvd unat t"
  then obtain a where a: "unat t = 4096 * a" by (rule dvdE)
  then have "a < 4503599627370496" using u64_bound [of t] by linarith
  then have "Suc a \<le> 4503599627370496" by simp
  then show ?thesis using a by linarith
qed

lemma within_page:
  assumes F: "4096 dvd unat F"
  shows "within F 4096 x \<longleftrightarrow> unat x div 4096 = unat F div 4096"
proof -
  obtain b where b: "unat F = 4096 * b" using F by (rule dvdE)
  define a c where "a = unat x div 4096" and "c = unat x mod 4096"
  have x: "unat x = 4096 * a + c" "c < 4096" by (simp_all add: a_def c_def)
  have lim: "4096 * b + 4096 \<le> 18446744073709551616"
    using page_top [OF F] b by simp
  show ?thesis
  proof (cases "F \<le> x")
    case True
    then have d: "unat (x - F) = 4096 * a + c - 4096 * b" "4096 * b \<le> 4096 * a + c"
      using x(1) b by (simp_all add: unat_sub_word le_by_unat)
    have "b < Suc a" using d(2) x(2) by linarith
    then obtain e where e: "a = b + e" using less_Suc_eq_le le_Suc_ex by blast
    have "unat (x - F) = 4096 * e + c" using d(1) e by simp
    then have "within F 4096 x \<longleftrightarrow> a = b"
      using x(2) e by (cases e) (simp_all add: within_def less_by_unat)
    then show ?thesis by (simp add: b a_def)
  next
    case False
    then have lt: "4096 * a + c < 4096 * b" using x(1) b by (simp add: le_by_unat)
    have "unat (x - F) = 18446744073709551616 - (4096 * b - (4096 * a + c))"
      using lt u64_bound [of F] by (simp add: unat_word_ariths x b unat_sub_if')
    then have "\<not> within F 4096 x" using lim lt by (simp add: within_def less_by_unat)
    moreover have "a \<noteq> b" using lt by linarith
    ultimately show ?thesis by (simp add: b a_def)
  qed
qed

lemma entry_byte:
  assumes t: "4096 dvd unat t" and i: "unat i < 512" and k: "k < 8"
  shows "unat (entry_at t i + of_nat k) = unat t + 8 * unat i + k"
    "unat (entry_at t i + of_nat k) div 4096 = unat t div 4096"
proof -
  obtain a where a: "unat t = 4096 * a" using t by (rule dvdE)
  have lim: "4096 * a + 4096 \<le> 18446744073709551616"
    using page_top [OF t] a by simp
  have "unat (8 * i) = 8 * unat i" using i by (subst unat_mult_u64) simp_all
  then show "unat (entry_at t i + of_nat k) = unat t + 8 * unat i + k"
    using lim i k by (simp add: entry_at_def unat_add_u64 unat_of_nat_u64 a)
  then show "unat (entry_at t i + of_nat k) div 4096 = unat t div 4096"
    using i k a by simp
qed

lemma entry_aligned:
  assumes "4096 dvd unat t" "unat i < 512"
  shows "entry_at t i mod 8 = 0"
proof -
  obtain a where a: "unat t = 4096 * a" using assms(1) by (rule dvdE)
  have "unat (entry_at t i mod 8) = (4096 * a + 8 * unat i) mod 8"
    using entry_byte(1) [OF assms, of 0] by (simp add: unat_mod_word a)
  also have "4096 * a + 8 * unat i = 8 * (512 * a + unat i)" by simp
  also have "8 * (512 * a + unat i) mod 8 = 0" by (rule mod_mult_self1_is_0)
  finally show ?thesis by (simp add: unat_eq_0)
qed

lemma entry_at_inject:
  assumes "4096 dvd unat t" "unat i < 512" "4096 dvd unat u" "unat j < 512" "entry_at t i = entry_at u j"
  shows "t = u \<and> i = j"
proof -
  have t: "unat t div 4096 = unat u div 4096" "unat t + 8 * unat i = unat u + 8 * unat j"
    using entry_byte [OF assms(1,2), of 0] entry_byte [OF assms(3,4), of 0] assms(5) by simp_all
  have "unat t = unat u" using t(1) assms(1,3) by (metis dvd_div_mult_self)
  with t(2) show ?thesis by (simp add: word_eq_by_unat)
qed

lemma load_zeroed:
  assumes F: "4096 dvd unat F" and t: "4096 dvd unat t" "unat i < 512"
  shows "load64 (Imemset m F 0 4096) (entry_at t i) = (if t = F then 0 else load64 m (entry_at t i))"
proof -
  have same: "unat t div 4096 = unat F div 4096 \<longleftrightarrow> t = F"
    using F t(1) by (metis dvd_div_mult_self word_eq_by_unat)
  have w: "within F 4096 (entry_at t i + of_nat k) \<longleftrightarrow> t = F" if "k < 8" for k
    using within_page [OF F] entry_byte(2) [OF t that] same by simp
  show ?thesis
  proof (rule bit_word_eqI)
    fix k :: nat assume "k < LENGTH(64)"
    then have "k div 8 < 8" by (simp add: div_less_iff_less_mult)
    then show "bit (load64 (Imemset m F 0 4096) (entry_at t i)) k \<longleftrightarrow>
        bit (if t = F then 0 else load64 m (entry_at t i)) k"
      using w [of "k div 8"] by (simp add: bit_load64 Imemset_eq)
  qed
qed

section \<open>The tree\<close>

definition path_ok :: "u64 list \<Rightarrow> bool" where
  "path_ok p \<longleftrightarrow> length p \<le> 3 \<and> (\<forall>i \<in> set p. unat i < 512)"

definition points :: "u64 list \<Rightarrow> u64 \<Rightarrow> bool" where
  "points p e \<longleftrightarrow> present e \<and> (p = [] \<or> \<not> huge e)"

fun tab :: "mem \<Rightarrow> u64 \<Rightarrow> u64 list \<Rightarrow> u64 option" where
  "tab m r [] = Some r"
| "tab m r (i # p) = (case tab m r p of None \<Rightarrow> None | Some t \<Rightarrow>
     let e = load64 m (entry_at t i) in if points p e then Some (next_table e) else None)"

fun ent :: "mem \<Rightarrow> u64 \<Rightarrow> u64 list \<Rightarrow> u64 option" where
  "ent m r [] = None"
| "ent m r (i # p) = (case tab m r p of None \<Rightarrow> None | Some t \<Rightarrow> Some (load64 m (entry_at t i)))"

lemma tab_ent: "tab m r (i # p) = (case ent m r (i # p) of None \<Rightarrow> None | Some e \<Rightarrow>
    if points p e then Some (next_table e) else None)"
  by (simp split: option.split)

definition tables_apart :: "mem \<Rightarrow> u64 \<Rightarrow> bool" where
  "tables_apart m r \<longleftrightarrow>
     (\<forall>p t. path_ok p \<longrightarrow> tab m r p = Some t \<longrightarrow> 4096 dvd unat t) \<and>
     (\<forall>p q t. path_ok p \<longrightarrow> path_ok q \<longrightarrow> tab m r p = Some t \<longrightarrow> tab m r q = Some t \<longrightarrow> p = q)"

definition tables_not_free :: "mem \<Rightarrow> u64 \<Rightarrow> nat set \<Rightarrow> bool" where
  "tables_not_free m r free \<longleftrightarrow>
     (\<forall>p t. path_ok p \<longrightarrow> tab m r p = Some t \<longrightarrow> unat (KERNEL_VIRT_TO_PHYS t) \<notin> free)"

definition low_frames :: "mem_map \<Rightarrow> bool" where
  "low_frames mm \<longleftrightarrow> (\<forall>a \<in> free_set mm. a < 2147483648)"

definition pt_inv :: "kstate \<Rightarrow> u64 \<Rightarrow> bool" where
  "pt_inv ks r \<longleftrightarrow>
     tables_apart (kmem ks) r \<and> tables_not_free (kmem ks) r (free_set (kmmap ks)) \<and>
     mm_wf (kmmap ks) \<and> low_frames (kmmap ks)"

lemma path_ok_simps [simp]: "path_ok []" "path_ok (i # p) \<longleftrightarrow> unat i < 512 \<and> length p < 3 \<and> path_ok p"
  by (auto simp: path_ok_def)

lemma tables_apartD:
  assumes "tables_apart m r" "path_ok p" "tab m r p = Some t"
  shows "4096 dvd unat t" "path_ok q \<Longrightarrow> tab m r q = Some t \<Longrightarrow> q = p"
  using assms unfolding tables_apart_def by blast+

section \<open>What a change of one entry changes\<close>

text \<open>\<open>m'\<close> differs from \<open>m\<close>, among the entries of the tree, at most in entry \<open>i\<close> of the table at \<open>p\<close>.\<close>

definition only_at :: "mem \<Rightarrow> mem \<Rightarrow> u64 \<Rightarrow> u64 list \<Rightarrow> u64 \<Rightarrow> bool" where
  "only_at m m' r p i \<longleftrightarrow>
     (\<forall>q u j. path_ok q \<longrightarrow> tab m r q = Some u \<longrightarrow> unat j < 512 \<longrightarrow> j # q \<noteq> i # p \<longrightarrow>
        load64 m' (entry_at u j) = load64 m (entry_at u j))"

lemma only_at_tab:
  assumes "only_at m m' r p i" "path_ok q" "\<not> suffix (i # p) q"
  shows "tab m' r q = tab m r q"
  using assms(2,3)
proof (induction q)
  case (Cons j q)
  have no: "\<not> suffix (i # p) q" "j # q \<noteq> i # p"
    using Cons.prems(2) by (auto simp: suffix_Cons)
  have q: "path_ok q" "unat j < 512" using Cons.prems(1) by auto
  note IH = Cons.IH [OF q(1) no(1)]
  show ?case
  proof (cases "tab m r q")
    case (Some u)
    then have "load64 m' (entry_at u j) = load64 m (entry_at u j)"
      using assms(1) q no(2) unfolding only_at_def by blast
    then show ?thesis using Some IH by simp
  qed (simp add: IH)
qed simp

lemma only_at_ent:
  assumes "only_at m m' r p i" "path_ok q" "unat j < 512" "\<not> suffix (i # p) (j # q)"
  shows "ent m' r (j # q) = ent m r (j # q)"
proof -
  have no: "\<not> suffix (i # p) q" "j # q \<noteq> i # p"
    using assms(4) by (auto simp: suffix_Cons)
  show ?thesis
  proof (cases "tab m r q")
    case (Some u)
    then have "load64 m' (entry_at u j) = load64 m (entry_at u j)"
      using assms(1-3) no(2) unfolding only_at_def by blast
    then show ?thesis using Some only_at_tab [OF assms(1,2) no(1)] by simp
  qed (simp add: only_at_tab [OF assms(1,2) no(1)])
qed

lemma only_at_table: "only_at m m' r p i \<Longrightarrow> path_ok p \<Longrightarrow> tab m' r p = tab m r p"
  by (rule only_at_tab) (auto dest: suffix_length_le)

lemma only_at_store:
  assumes "tables_apart m r" "path_ok p" "tab m r p = Some t" "unat i < 512"
  shows "only_at m (store64 m (entry_at t i) e) r p i"
  unfolding only_at_def
proof (intro allI impI)
  fix q u j assume q: "path_ok q" "tab m r q = Some u" "unat j < 512" "j # q \<noteq> i # p"
  note t = tables_apartD(1) [OF assms(1-3)] and u = tables_apartD(1) [OF assms(1) q(1,2)]
  have "entry_at u j \<noteq> entry_at t i"
  proof
    assume "entry_at u j = entry_at t i"
    then have "u = t" "j = i" using entry_at_inject [OF u q(3) t assms(4)] by auto
    with tables_apartD(2) [OF assms(1-3) q(1)] q(2,4) show False by simp
  qed
  then show "load64 (store64 m (entry_at t i) e) (entry_at u j) = load64 m (entry_at u j)"
    using entry_aligned [OF t assms(4)] entry_aligned [OF u q(3)] by (simp add: load64_store64)
qed

text \<open>Updates that keep what the walk reads of an entry.\<close>

definition same_view :: "u64 \<Rightarrow> u64 \<Rightarrow> bool" where
  "same_view e e' \<longleftrightarrow> present e = present e' \<and> huge e = huge e' \<and> page_ppn e = page_ppn e'"

lemma same_view_points: "same_view e e' \<Longrightarrow> points p e = points p e'"
  "same_view e e' \<Longrightarrow> next_table e = next_table e'" "same_view e e' \<Longrightarrow> ppn_addr e = ppn_addr e'"
  by (auto simp: same_view_def points_def next_table_def ppn_addr_def)

lemma same_view_upper: "same_view e (APPLY_UPPER_PERMS e p)"
  by (simp add: same_view_def present_def huge_def entry_bits)

lemma store_same_view:
  assumes apart: "tables_apart m r" and t: "4096 dvd unat t" "unat i < 512"
    and e: "same_view (load64 m (entry_at t i)) e"
  defines "m' \<equiv> store64 m (entry_at t i) e"
  shows "path_ok q \<Longrightarrow> tab m' r q = tab m r q"
    "path_ok q \<Longrightarrow> unat j < 512 \<Longrightarrow> rel_option same_view (ent m r (j # q)) (ent m' r (j # q))"
proof -
  have view: "same_view (load64 m (entry_at u j)) (load64 m' (entry_at u j))"
    if "4096 dvd unat u" "unat j < 512" for u j
    using e unfolding m'_def load64_store64 [OF entry_aligned [OF t] entry_aligned [OF that]]
    by (auto simp: same_view_def)
  have tabs: "tab m' r q = tab m r q" if "path_ok q" for q
    using that
  proof (induction q)
    case (Cons j q)
    then have q: "path_ok q" "unat j < 512" "tab m' r q = tab m r q" by auto
    show ?case
    proof (cases "tab m r q")
      case (Some u)
      note sv = view [OF tables_apartD(1) [OF apart q(1) Some] q(2)]
      show ?thesis using q(3) Some same_view_points(1,2) [OF sv] by simp
    qed (use q(3) in simp)
  qed simp
  then show "path_ok q \<Longrightarrow> tab m' r q = tab m r q" .
  assume q: "path_ok q" "unat j < 512"
  show "rel_option same_view (ent m r (j # q)) (ent m' r (j # q))"
  proof (cases "tab m r q")
    case (Some u)
    then show ?thesis using tabs [OF q(1)] view [OF tables_apartD(1) [OF apart q(1) Some] q(2)] by simp
  qed (use tabs [OF q(1)] in simp)
qed

lemma tables_same:
  assumes "\<And>q. path_ok q \<Longrightarrow> tab m' r q = tab m r q"
  shows "tables_apart m' r = tables_apart m r" "tables_not_free m' r F = tables_not_free m r F"
  by (simp_all add: tables_apart_def tables_not_free_def assms cong: imp_cong)

section \<open>The walk\<close>

text \<open>The page number that an address is translated to, from the three entries after the root.\<close>

definition walk_ents :: "u64 option \<Rightarrow> u64 option \<Rightarrow> u64 option \<Rightarrow> u64 option" where
  "walk_ents e3 e2 e1 =
     (case e3 of None \<Rightarrow> None
      | Some e3 \<Rightarrow> if \<not> present e3 then None else if huge e3 then Some (page_ppn e3)
        else (case e2 of None \<Rightarrow> None
        | Some e2 \<Rightarrow> if \<not> present e2 then None else if huge e2 then Some (page_ppn e2)
          else (case e1 of None \<Rightarrow> None
          | Some e1 \<Rightarrow> if \<not> present e1 then None else Some (page_ppn e1))))"

text \<open>The paths to the tables that an address goes through.\<close>

definition path1 :: "u64 \<Rightarrow> u64 list" where "path1 va = [VA_PML4_INDEX va]"
definition path2 :: "u64 \<Rightarrow> u64 list" where "path2 va = [VA_PDPT_INDEX va, VA_PML4_INDEX va]"
definition path3 :: "u64 \<Rightarrow> u64 list" where "path3 va = [VA_PD_INDEX va, VA_PDPT_INDEX va, VA_PML4_INDEX va]"
definition path4 :: "u64 \<Rightarrow> u64 list" where
  "path4 va = [VA_PT_INDEX va, VA_PD_INDEX va, VA_PDPT_INDEX va, VA_PML4_INDEX va]"

lemmas paths_def = path1_def path2_def path3_def path4_def

lemma index_bound:
  "unat (VA_PML4_INDEX va) < 512" "unat (VA_PDPT_INDEX va) < 512" "unat (VA_PD_INDEX va) < 512" "unat (VA_PT_INDEX va) < 512"
proof -
  have "unat (x AND 0x1FF) < 512" for x :: u64
  proof -
    have "x AND 0x1FF = take_bit 9 x" by (simp add: take_bit_eq_mask mask_eq_decr_exp)
    then have "unat (x AND 0x1FF) = take_bit 9 (unat x)" by (simp add: unsigned_take_bit_eq)
    then show ?thesis using take_bit_nat_less_exp [of 9 "unat x"] by simp
  qed
  then show "unat (VA_PML4_INDEX va) < 512" "unat (VA_PDPT_INDEX va) < 512" "unat (VA_PD_INDEX va) < 512" "unat (VA_PT_INDEX va) < 512"
    by (simp_all add: VA_PML4_INDEX_def VA_PDPT_INDEX_def VA_PD_INDEX_def VA_PT_INDEX_def)
qed

lemma paths_ok: "path_ok (path1 va)" "path_ok (path2 va)" "path_ok (path3 va)"
  by (simp_all add: paths_def index_bound)

definition translate :: "kstate \<Rightarrow> u64 \<Rightarrow> u64 \<Rightarrow> u64 option" where
  "translate ks r va =
     walk_ents (ent (kmem ks) r (path2 va)) (ent (kmem ks) r (path3 va)) (ent (kmem ks) r (path4 va))"

text \<open>\<^const>\<open>walk_table\<close> shifts the page number in 32 bits.\<close>

definition shifted_ppn :: "u64 \<Rightarrow> u64" where
  "shifted_ppn n = scast (push_bit 12 (ucast n) :: u32)"

lemma walk_table_translate:
  "walk_table ks r va = (case translate ks r va of None \<Rightarrow> INVALID_PHYS_ADDR | Some n \<Rightarrow> shifted_ppn n)"
  by (simp add: translate_def shifted_ppn_def ppn_addr_def walk_table_def walk_ents_def paths_def Let_def points_def load_entry_def)

lemma walk_ents_view:
  assumes "rel_option same_view e3 e3'" "rel_option same_view e2 e2'" "rel_option same_view e1 e1'"
  shows "walk_ents e3 e2 e1 = walk_ents e3' e2' e1'"
  using assms
  by (cases e3; cases e3'; cases e2; cases e2'; cases e1; cases e1')
     (simp_all add: walk_ents_def same_view_def)

lemma translate_same_ents:
  assumes "\<And>j q. path_ok q \<Longrightarrow> unat j < 512 \<Longrightarrow> rel_option same_view (ent (kmem ks) r (j # q)) (ent (kmem ks') r (j # q))"
  shows "translate ks' r va = translate ks r va"
  unfolding translate_def paths_def
  by (rule walk_ents_view [symmetric]; rule assms) (simp_all add: index_bound)

section \<open>A new table\<close>

lemma tab_extend_None: "tab m r p = None \<Longrightarrow> tab m r (s @ p) = None"
  by (induction s) auto

lemma frame_page:
  assumes "4096 dvd unat f"
  shows "4096 dvd unat (KERNEL_PHYS_TO_VIRT f)"
proof -
  have "unat (KERNEL_PHYS_TO_VIRT f) = (unat f + 0xFFFFFFFF80000000) mod 18446744073709551616"
    by (simp add: KERNEL_PHYS_TO_VIRT_def KERNEL_VMA_def unat_word_ariths)
  moreover have "4096 dvd (unat f + 0xFFFFFFFF80000000) mod 18446744073709551616"
    using assms by (intro dvd_mod dvd_add) simp_all
  ultimately show ?thesis by simp
qed

text \<open>\<open>m'\<close> is \<open>m\<close> after entry \<open>i\<close> of the table at \<open>p\<close>, which was not present, got a zeroed table
  in the free frame \<open>f\<close>.\<close>

definition table_added :: "mem \<Rightarrow> mem \<Rightarrow> u64 \<Rightarrow> u64 \<Rightarrow> u64 \<Rightarrow> u64 \<Rightarrow> u64 list \<Rightarrow> u64 \<Rightarrow> nat set \<Rightarrow> bool" where
  "table_added m m' r t f e' p i free \<longleftrightarrow>
     tables_apart m r \<and> tables_not_free m r free \<and> path_ok (i # p) \<and> tab m r p = Some t \<and>
     \<not> present (load64 m (entry_at t i)) \<and> unat f \<in> free \<and> 4096 dvd unat f \<and>
     points p e' \<and> next_table e' = KERNEL_PHYS_TO_VIRT f \<and>
     (\<forall>u j. 4096 dvd unat u \<longrightarrow> unat j < 512 \<longrightarrow>
        load64 m' (entry_at u j) = (if u = t \<and> j = i then e' else if u = KERNEL_PHYS_TO_VIRT f then 0
          else load64 m (entry_at u j)))"

lemma table_addedD:
  assumes "table_added m m' r t f e' p i free"
  shows "tables_apart m r" "tables_not_free m r free" "path_ok (i # p)" "tab m r p = Some t"
    "\<not> present (load64 m (entry_at t i))" "unat f \<in> free" "4096 dvd unat f"
    "points p e'" "next_table e' = KERNEL_PHYS_TO_VIRT f"
    "4096 dvd unat u \<Longrightarrow> unat j < 512 \<Longrightarrow>
      load64 m' (entry_at u j) = (if u = t \<and> j = i then e' else if u = KERNEL_PHYS_TO_VIRT f then 0
        else load64 m (entry_at u j))"
  using assms unfolding table_added_def by blast+

lemma added_t_aligned:
  assumes "table_added m m' r t f e' p i free"
  shows "4096 dvd unat t" "unat i < 512" "path_ok p" "length p < 3"
  using tables_apartD(1) [OF table_addedD(1) [OF assms] _ table_addedD(4) [OF assms]] table_addedD(3) [OF assms] by auto

lemma added_fresh:
  "table_added m m' r t f e' p i free \<Longrightarrow> path_ok q \<Longrightarrow> tab m r q = Some u \<Longrightarrow> u \<noteq> KERNEL_PHYS_TO_VIRT f"
  using table_addedD(2,6) unfolding tables_not_free_def by fastforce

lemma added_only:
  assumes nt: "table_added m m' r t f e' p i free"
  shows "only_at m m' r p i"
  unfolding only_at_def
proof (intro allI impI)
  fix q u j assume q: "path_ok q" "tab m r q = Some u" "unat j < 512" "j # q \<noteq> i # p"
  have "\<not> (u = t \<and> j = i)"
    using tables_apartD(2) [OF table_addedD(1) [OF nt] added_t_aligned(3) [OF nt] table_addedD(4) [OF nt] q(1)] q(2,4) by auto
  then show "load64 m' (entry_at u j) = load64 m (entry_at u j)"
    using table_addedD(10) [OF nt tables_apartD(1) [OF table_addedD(1) [OF nt] q(1,2)] q(3)] added_fresh [OF nt q(1,2)] by auto
qed

lemma added_new_tab:
  assumes nt: "table_added m m' r t f e' p i free"
  shows "tab m' r (i # p) = Some (KERNEL_PHYS_TO_VIRT f)"
  using only_at_table [OF added_only [OF nt] added_t_aligned(3) [OF nt]] table_addedD(4) [OF nt] table_addedD(10) [OF nt added_t_aligned(1,2) [OF nt]] table_addedD(8,9) [OF nt] by simp

lemma added_new_ents:
  assumes nt: "table_added m m' r t f e' p i free" and j: "unat j < 512"
  shows "ent m' r (j # i # p) = Some 0"
proof -
  have "t \<noteq> KERNEL_PHYS_TO_VIRT f" by (rule added_fresh [OF nt added_t_aligned(3) [OF nt] table_addedD(4) [OF nt]])
  then have "load64 m' (entry_at (KERNEL_PHYS_TO_VIRT f) j) = 0"
    using table_addedD(10) [OF nt frame_page [OF table_addedD(7) [OF nt]] j] by auto
  then show ?thesis using added_new_tab [OF nt] by simp
qed

lemma added_beyond:
  assumes nt: "table_added m m' r t f e' p i free" and j: "unat j < 512"
  shows "tab m' r (s @ j # i # p) = None"
proof -
  have "tab m' r (j # i # p) = None"
    using added_new_ents [OF nt j] by (subst tab_ent) (simp add: points_def present_def)
  then show ?thesis by (rule tab_extend_None)
qed

lemma added_tab_cases:
  assumes nt: "table_added m m' r t f e' p i free" and q: "path_ok q" "tab m' r q = Some u"
  shows "(\<not> suffix (i # p) q \<and> tab m r q = Some u) \<or> (q = i # p \<and> u = KERNEL_PHYS_TO_VIRT f)"
proof (cases "suffix (i # p) q")
  case True
  then obtain s where s: "q = s @ i # p" by (auto simp: suffix_def)
  show ?thesis
  proof (cases s rule: rev_cases)
    case Nil
    then show ?thesis using s q(2) added_new_tab [OF nt] by simp
  next
    case (snoc s' j)
    then have "unat j < 512" using q(1) s by (auto simp: path_ok_def)
    from added_beyond [OF nt this, of s'] show ?thesis using q(2) s snoc by simp
  qed
next
  case False
  then show ?thesis using q(2) only_at_tab [OF added_only [OF nt] q(1)] by simp
qed

lemma added_apart_after:
  assumes nt: "table_added m m' r t f e' p i free"
  shows "tables_apart m' r"
  unfolding tables_apart_def
proof (intro conjI allI impI)
  fix q u assume q: "path_ok q" "tab m' r q = Some u"
  show "4096 dvd unat u"
    using added_tab_cases [OF nt q] tables_apartD(1) [OF table_addedD(1) [OF nt] q(1)] frame_page [OF table_addedD(7) [OF nt]] by auto
  fix q2 assume q2: "path_ok q2" "tab m' r q2 = Some u"
  show "q = q2"
    using added_tab_cases [OF nt q] added_tab_cases [OF nt q2] added_fresh [OF nt q(1)] added_fresh [OF nt q2(1)]
      tables_apartD(2) [OF table_addedD(1) [OF nt] q(1) _ q2(1)] by auto
qed

lemma added_not_free_after:
  assumes nt: "table_added m m' r t f e' p i free"
  shows "tables_not_free m' r (free - {unat f})"
  unfolding tables_not_free_def
proof (intro allI impI)
  fix q u assume q: "path_ok q" "tab m' r q = Some u"
  show "unat (KERNEL_VIRT_TO_PHYS u) \<notin> free - {unat f}"
    using added_tab_cases [OF nt q] table_addedD(2) [OF nt] q(1) unfolding tables_not_free_def by auto
qed

text \<open>An empty table translates nothing, as the missing one did.\<close>

lemma added_walk_after:
  assumes nt: "table_added m m' r t f e' p i free"
  shows "walk_ents (ent m' r (path2 va)) (ent m' r (path3 va)) (ent m' r (path4 va)) =
    walk_ents (ent m r (path2 va)) (ent m r (path3 va)) (ent m r (path4 va))"
proof -
  have same: "ent m' r (j # q) = ent m r (j # q)" if "path_ok q" "unat j < 512" "\<not> suffix (i # p) (j # q)" for j q
    by (rule only_at_ent [OF added_only [OF nt] that])
  have absent_ent: "ent m r (i # p) = Some (load64 m (entry_at t i))" using table_addedD(4) [OF nt] by simp
  have new: "ent m' r (i # p) = Some e'"
    using only_at_table [OF added_only [OF nt] added_t_aligned(3) [OF nt]] table_addedD(4) [OF nt] table_addedD(10) [OF nt added_t_aligned(1,2) [OF nt]] by simp
  have none: "ent m r (j # i # p) = None" for j
    using table_addedD(5) [OF nt] by (simp add: table_addedD(4) [OF nt] points_def)
  note ix = index_bound [of va]
  consider (three) "path3 va = i # p" | (two) "path2 va = i # p" | (one) "path1 va = i # p"
    | (off) "\<not> suffix (i # p) (path4 va)" | (leaf) "path4 va = i # p"
    by (auto simp: paths_def suffix_Cons)
  then show ?thesis
  proof cases
    case one
    then have "path2 va = VA_PDPT_INDEX va # i # p" by (simp add: paths_def)
    then have "ent m' r (path2 va) = Some 0" "ent m r (path2 va) = None"
      using added_new_ents [OF nt ix(2)] none by simp_all
    then show ?thesis by (simp add: walk_ents_def present_def)
  next
    case two
    then have "path3 va = VA_PD_INDEX va # i # p" by (simp add: paths_def)
    then have "ent m' r (path3 va) = Some 0" "ent m r (path3 va) = None"
      "ent m' r (path2 va) = Some e'" "ent m r (path2 va) = Some (load64 m (entry_at t i))"
      using added_new_ents [OF nt ix(3)] none two new absent_ent by simp_all
    moreover have "p \<noteq> []" using two by (auto simp: paths_def)
    ultimately show ?thesis using table_addedD(8,5) [OF nt] by (simp add: walk_ents_def points_def present_def)
  next
    case three
    then have "path4 va = VA_PT_INDEX va # i # p" by (simp add: paths_def)
    then have "ent m' r (path4 va) = Some 0" "ent m r (path4 va) = None"
      "ent m' r (path3 va) = Some e'" "ent m r (path3 va) = Some (load64 m (entry_at t i))"
      using added_new_ents [OF nt ix(4)] none three new absent_ent by simp_all
    moreover have "p \<noteq> []" using three by (auto simp: paths_def)
    moreover have "\<not> suffix (i # p) (path2 va)" using three by (auto simp: paths_def dest: suffix_length_le)
    then have "ent m' r (path2 va) = ent m r (path2 va)"
      using same [of "path1 va" "VA_PDPT_INDEX va"] ix paths_ok by (simp add: paths_def)
    ultimately show ?thesis using table_addedD(8,5) [OF nt]
      by (simp add: walk_ents_def points_def present_def split: option.split)
  next
    case off
    then have "\<not> suffix (i # p) (path2 va)" "\<not> suffix (i # p) (path3 va)"
      by (auto simp: paths_def suffix_Cons)
    then show ?thesis
      using off same [of "path1 va" "VA_PDPT_INDEX va"] same [of "path2 va" "VA_PD_INDEX va"]
        same [of "path3 va" "VA_PT_INDEX va"] ix paths_ok by (simp add: paths_def del: ent.simps)
  next
    case leaf
    then show ?thesis using table_addedD(3) [OF nt] by (auto simp: paths_def)
  qed
qed

end
