(* ===== verification/Paging_Steps.thy ===== *)
theory Paging_Steps
  imports Paging_Tree
begin

text \<open>
  What each step of \<^const>\<open>page_in\<close> does to the tree of \<^verbatim>\<open>Paging_Tree.thy\<close>: giving an entry a table and
  raising permissions change no translation, writing a leaf changes those of its page.
\<close>

section \<open>Frames for tables\<close>

lemma free_set_aligned: "mm_wf mm \<Longrightarrow> a \<in> free_set mm \<Longrightarrow> 4096 dvd a"
proof -
  assume wf: "mm_wf mm" and "a \<in> free_set mm"
  then obtain i k where ik: "a = frame_at (regions mm ! i) k" "i < unat (region_count mm)"
    by (auto simp: free_set_def free_slot_def)
  have lay: "layout_ok mm" using wf by (simp add: mm_wf_nth)
  show ?thesis unfolding ik(1)
    by (rule frame_at_aligned [OF layout_region(1) [OF lay mm_regions_mem [OF lay ik(2)]]])
qed

lemma page_mask: "4096 dvd unat (f :: u64) \<Longrightarrow> f AND NOT 0xFFF = f"
proof -
  assume "4096 dvd unat f"
  then have "unat (ALIGN_DOWN f 4096) = unat f" by (simp add: ALIGN_DOWN_4096)
  then have "ALIGN_DOWN f 4096 = f" by (simp add: word_eq_by_unat)
  then show ?thesis by (simp add: ALIGN_DOWN_def)
qed

lemma ialloc_kframe_cases:
  assumes "mm_wf (kmmap ks)"
  obtains (failed) "ialloc_kframe ks 1 t = Some (FRAME_ALLOC_FAILED, ks)" "free_set (kmmap ks) = {}"
  | (frame) f mm where "ialloc_kframe ks 1 t = Some (f, ks\<lparr>kmmap := mm\<rparr>)" "f \<noteq> FRAME_ALLOC_FAILED"
      "unat f \<in> free_set (kmmap ks)" "free_set mm = free_set (kmmap ks) - {unat f}" "mm_wf mm" "4096 dvd unat f"
proof (rule alloc_outcome [OF assms, of 1])
  assume f: "map_alloc_frame_contiguous (kmmap ks) 1 = Some (FRAME_ALLOC_FAILED, kmmap ks)"
    "\<forall>i. no_block (kmmap ks) i (unat (1 :: u64))"
  then have "free_set (kmmap ks) = {}" by (auto simp: free_set_def no_block_def free_block_def)
  with f(1) show thesis by (intro failed) (simp_all add: ialloc_kframe_def)
next
  fix i s mm
  let ?f = "frame_addr (regions (kmmap ks) ! i) (of_nat s)"
  assume "map_alloc_frame_contiguous (kmmap ks) 1 = Some (?f, mm)" "?f \<noteq> FRAME_ALLOC_FAILED"
  moreover have "block a 1 = {a}" for a by (auto simp: block_def)
  ultimately show thesis
    using pmm.alloc_cases [OF assms, of 1] free_set_aligned [OF assms]
    by (intro frame [of ?f mm]) (auto simp: ialloc_kframe_def)
qed simp

definition frames_left :: "kstate \<Rightarrow> nat" where
  "frames_left ks = card (free_set (kmmap ks))"

lemma frames_left_one:
  assumes "free_set (kmmap ks') = free_set (kmmap ks) - {a}"
  shows "frames_left ks \<le> Suc (frames_left ks')"
proof (cases "finite (free_set (kmmap ks)) \<and> a \<in> free_set (kmmap ks)")
  case True
  then show ?thesis by (simp add: frames_left_def assms card_Suc_Diff1)
qed (auto simp: frames_left_def assms)

section \<open>The three steps\<close>

definition no_new_huge :: "mem \<Rightarrow> mem \<Rightarrow> u64 \<Rightarrow> bool" where
  "no_new_huge m m' r \<longleftrightarrow>
     (\<forall>q j e'. path_ok q \<longrightarrow> unat j < 512 \<longrightarrow> ent m' r (j # q) = Some e' \<longrightarrow> huge e' \<longrightarrow>
        (\<exists>e. ent m r (j # q) = Some e \<and> huge e))"

lemma no_new_huge_trans: "no_new_huge m1 m2 r \<Longrightarrow> no_new_huge m2 m3 r \<Longrightarrow> no_new_huge m1 m3 r"
  unfolding no_new_huge_def by blast

lemma no_new_huge_refl: "no_new_huge m m r"
  unfolding no_new_huge_def by blast

text \<open>Entries in use stay in use and keep the right to write (bit 1) and the right of user mode (bit 2).\<close>

definition keeps_access :: "mem \<Rightarrow> mem \<Rightarrow> u64 \<Rightarrow> bool" where
  "keeps_access m m' r \<longleftrightarrow>
     (\<forall>q j e. path_ok q \<longrightarrow> unat j < 512 \<longrightarrow> ent m r (j # q) = Some e \<longrightarrow> present e \<longrightarrow>
        (\<exists>e'. ent m' r (j # q) = Some e' \<and> present e' \<and> (bit e 1 \<longrightarrow> bit e' 1) \<and> (bit e 2 \<longrightarrow> bit e' 2)))"

lemma keeps_access_refl: "keeps_access m m r"
  unfolding keeps_access_def by blast

lemma keeps_access_trans: "keeps_access m1 m2 r \<Longrightarrow> keeps_access m2 m3 r \<Longrightarrow> keeps_access m1 m3 r"
  unfolding keeps_access_def by metis

text \<open>A page that is neither a table nor a free frame, and steps that leave such pages alone.\<close>

definition foreign :: "kstate \<Rightarrow> u64 \<Rightarrow> u64 \<Rightarrow> bool" where
  "foreign ks r P \<longleftrightarrow> 4096 dvd unat P \<and> (\<forall>q t. path_ok q \<longrightarrow> tab (kmem ks) r q = Some t \<longrightarrow> t \<noteq> P) \<and>
     unat (KERNEL_VIRT_TO_PHYS P) \<notin> free_set (kmmap ks)"

definition spares :: "kstate \<Rightarrow> kstate \<Rightarrow> u64 \<Rightarrow> bool" where
  "spares ks ks' r \<longleftrightarrow>
     (\<forall>P. foreign ks r P \<longrightarrow> foreign ks' r P \<and> (\<forall>x. within P 4096 x \<longrightarrow> kmem ks' x = kmem ks x))"

lemma spares_refl: "spares ks ks r"
  by (simp add: spares_def)

lemma spares_trans: "spares k1 k2 r \<Longrightarrow> spares k2 k3 r \<Longrightarrow> spares k1 k3 r"
  unfolding spares_def by metis

text \<open>The same for the tables on some of the paths only: a step leaves the tables on all other paths alone.\<close>

definition foreign_at :: "(u64 list \<Rightarrow> bool) \<Rightarrow> kstate \<Rightarrow> u64 \<Rightarrow> u64 \<Rightarrow> bool" where
  "foreign_at A ks r P \<longleftrightarrow> 4096 dvd unat P \<and> (\<forall>q t. A q \<longrightarrow> path_ok q \<longrightarrow> tab (kmem ks) r q = Some t \<longrightarrow> t \<noteq> P) \<and>
     unat (KERNEL_VIRT_TO_PHYS P) \<notin> free_set (kmmap ks)"

definition spares_at :: "(u64 list \<Rightarrow> bool) \<Rightarrow> kstate \<Rightarrow> kstate \<Rightarrow> u64 \<Rightarrow> bool" where
  "spares_at A ks ks' r \<longleftrightarrow>
     (\<forall>P. foreign_at A ks r P \<longrightarrow> foreign_at A ks' r P \<and> (\<forall>x. within P 4096 x \<longrightarrow> kmem ks' x = kmem ks x))"

lemma spares_at_all: "spares_at (\<lambda>_. True) ks ks' r \<longleftrightarrow> spares ks ks' r"
  by (simp add: spares_at_def spares_def foreign_at_def foreign_def)

lemma spares_at_refl: "spares_at A ks ks r"
  by (simp add: spares_at_def)

lemma spares_at_trans: "spares_at A k1 k2 r \<Longrightarrow> spares_at A k2 k3 r \<Longrightarrow> spares_at A k1 k3 r"
  unfolding spares_at_def by metis

text \<open>A step that leaves alone what lies outside every set of paths that holds \<open>p\<close>.\<close>

definition stays_on :: "u64 list \<Rightarrow> kstate \<Rightarrow> kstate \<Rightarrow> u64 \<Rightarrow> bool" where
  "stays_on p ks ks' r \<longleftrightarrow> (\<forall>A. A p \<longrightarrow> spares_at A ks ks' r)"

lemma stays_on_trans: "stays_on p k1 k2 r \<Longrightarrow> stays_on p k2 k3 r \<Longrightarrow> stays_on p k1 k3 r"
  unfolding stays_on_def by (metis spares_at_trans)

lemma stays_on_spares: "stays_on p ks ks' r \<Longrightarrow> spares ks ks' r"
  by (simp add: stays_on_def spares_at_all [symmetric])

lemma entry_far:
  assumes "4096 dvd unat P" "4096 dvd unat t" "t \<noteq> P" "unat i < 512" "within P 4096 x"
  shows "store64 m (entry_at t i) v x = m x"
proof -
  have "unat t div 4096 \<noteq> unat P div 4096" using assms(1-3) by (metis dvd_div_mult_self word_eq_by_unat)
  moreover have "unat x div 4096 = unat P div 4096" using assms(5) unfolding within_page [OF assms(1)] .
  ultimately have "x \<noteq> entry_at t i + of_nat k" if "k < 8" for k using entry_byte(2) [OF assms(2,4) that] by metis
  then show ?thesis unfolding store64_def by (rule store_le_other)
qed

lemma stays_on_store:
  assumes inv: "pt_inv ks r" and t: "path_ok p" "tab (kmem ks) r p = Some t" "unat i < 512"
    and sub: "\<And>q u. path_ok q \<Longrightarrow> tab (kmem (store_entry ks (entry_at t i) v)) r q = Some u \<Longrightarrow> tab (kmem ks) r q = Some u"
  shows "stays_on p ks (store_entry ks (entry_at t i) v) r"
proof -
  have al: "4096 dvd unat t" using inv t by (auto simp: pt_inv_def dest: tables_apartD(1))
  have "kmem (store_entry ks (entry_at t i) v) x = kmem ks x" if "A p" "foreign_at A ks r P" "within P 4096 x" for A P x
    using entry_far [OF _ al _ t(3) that(3)] that(1,2) t(1,2) by (simp add: foreign_at_def store_entry_def)
  moreover have "foreign_at A (store_entry ks (entry_at t i) v) r P" if "foreign_at A ks r P" for A P
  proof -
    have "kmmap (store_entry ks (entry_at t i) v) = kmmap ks" by (simp add: store_entry_def)
    then show ?thesis using that sub unfolding foreign_at_def by metis
  qed
  ultimately show ?thesis by (simp add: stays_on_def spares_at_def)
qed


text \<open>A step that keeps the invariant and every translation.\<close>

definition quiet :: "kstate \<Rightarrow> kstate \<Rightarrow> u64 \<Rightarrow> bool" where
  "quiet ks ks' r \<longleftrightarrow>
     pt_inv ks' r \<and> (\<forall>va. translate ks' r va = translate ks r va) \<and> no_new_huge (kmem ks) (kmem ks') r \<and>
     keeps_access (kmem ks) (kmem ks') r \<and> spares ks ks' r \<and> free_set (kmmap ks') \<subseteq> free_set (kmmap ks)"

lemma quiet_trans: "quiet k1 k2 r \<Longrightarrow> quiet k2 k3 r \<Longrightarrow> quiet k1 k3 r"
  using no_new_huge_trans keeps_access_trans spares_trans unfolding quiet_def by (metis order_trans)

lemma quiet_refl: "pt_inv ks r \<Longrightarrow> quiet ks ks r"
  by (simp add: quiet_def no_new_huge_refl keeps_access_refl spares_refl)

lemma upper_perms_quiet:
  assumes inv: "pt_inv ks r" and t: "4096 dvd unat t" "unat i < 512" and p: "path_ok p" "tab (kmem ks) r p = Some t"
  shows "quiet ks (upper_perms ks (entry_at t i) perms) r"
    "path_ok q \<Longrightarrow> tab (kmem (upper_perms ks (entry_at t i) perms)) r q = tab (kmem ks) r q"
    "stays_on p ks (upper_perms ks (entry_at t i) perms) r"
proof -
  let ?m = "kmem ks" and ?e = "load_entry ks (entry_at t i)"
  let ?m' = "store64 ?m (entry_at t i) (APPLY_UPPER_PERMS ?e perms)"
  have apart: "tables_apart ?m r" using inv by (simp add: pt_inv_def)
  have up: "kmem (upper_perms ks (entry_at t i) perms) = ?m'" "kmmap (upper_perms ks (entry_at t i) perms) = kmmap ks"
    by (simp_all add: upper_perms_def store_entry_def)
  have sv: "same_view (load64 ?m (entry_at t i)) (APPLY_UPPER_PERMS ?e perms)"
    using same_view_upper by (simp add: load_entry_def)
  note st = store_same_view [OF apart t sv]
  show "path_ok q \<Longrightarrow> tab (kmem (upper_perms ks (entry_at t i) perms)) r q = tab (kmem ks) r q"
    unfolding up by (rule st(1))
  have "pt_inv (upper_perms ks (entry_at t i) perms) r"
    using inv tables_same [OF st(1)] by (simp add: pt_inv_def up)
  moreover have "translate (upper_perms ks (entry_at t i) perms) r va = translate ks r va" for va
    by (rule translate_same_ents) (simp add: up st(2) del: ent.simps)
  moreover have "no_new_huge ?m ?m' r"
    unfolding no_new_huge_def
  proof (intro allI impI)
    fix q j e' assume "path_ok q" "unat j < 512" "ent ?m' r (j # q) = Some e'" "huge e'"
    with st(2) [of q j] show "\<exists>e. ent ?m r (j # q) = Some e \<and> huge e"
      by (auto simp: option_rel_Some2 same_view_def simp del: ent.simps)
  qed
  moreover have "keeps_access ?m ?m' r"
    unfolding keeps_access_def
  proof (intro allI impI)
    fix q j e assume q: "path_ok q" "unat j < 512" "ent ?m r (j # q) = Some e" "present e"
    then obtain u where u: "tab ?m r q = Some u" "load64 ?m (entry_at u j) = e" by (auto split: option.splits)
    have "load64 ?m' (entry_at u j) = (if entry_at u j = entry_at t i then APPLY_UPPER_PERMS e perms else e)"
      using u(2) by (cases "entry_at u j = entry_at t i") (simp_all add: load64_store64 [OF entry_aligned [OF t] entry_aligned [OF tables_apartD(1) [OF apart q(1) u(1)] q(2)]] load_entry_def)
    then have "ent ?m' r (j # q) = Some (if entry_at u j = entry_at t i then APPLY_UPPER_PERMS e perms else e)"
      using st(1) [OF q(1)] u(1) by simp
    then show "\<exists>e'. ent ?m' r (j # q) = Some e' \<and> present e' \<and> (bit e 1 \<longrightarrow> bit e' 1) \<and> (bit e 2 \<longrightarrow> bit e' 2)"
      using q(4) by (auto simp: present_def entry_bits)
  qed
  moreover show on: "stays_on p ks (upper_perms ks (entry_at t i) perms) r"
    unfolding upper_perms_def by (rule stays_on_store [OF inv p t(2)]) (use st(1) in \<open>simp add: store_entry_def\<close>)
  note stays_on_spares [OF on]
  ultimately show "quiet ks (upper_perms ks (entry_at t i) perms) r" by (simp add: quiet_def up)
qed

lemma added_no_new_huge:
  assumes nt: "table_added m m' r t f e' p i free" and e': "huge e' \<Longrightarrow> huge (load64 m (entry_at t i))"
  shows "no_new_huge m m' r"
  unfolding no_new_huge_def
proof (intro allI impI)
  fix q j x assume q: "path_ok q" "unat j < 512" "ent m' r (j # q) = Some x" "huge x"
  note al = added_t_aligned [OF nt] and tab = table_addedD(4) [OF nt]
  show "\<exists>e. ent m r (j # q) = Some e \<and> huge e"
  proof (cases "suffix (i # p) (j # q)")
    case False
    then show ?thesis using q only_at_ent [OF added_only [OF nt] q(1,2)] by metis
  next
    case True
    have deep: "q = i # p \<or> (\<exists>s k. q = s @ k # i # p)" if "suffix (i # p) q"
    proof -
      obtain s where s: "q = s @ i # p" using \<open>suffix (i # p) q\<close> by (auto simp: suffix_def)
      then show ?thesis by (cases s rule: rev_cases) auto
    qed
    consider "j # q = i # p" | "q = i # p" | s k where "q = s @ k # i # p"
      using True deep unfolding suffix_Cons by metis
    then show ?thesis
    proof cases
      case 1
      moreover have "tab m' r p = Some t" using only_at_table [OF added_only [OF nt] al(3)] tab by simp
      ultimately show ?thesis using q e' table_addedD(10) [OF nt al(1,2)] tab by auto
    next
      case 2
      then show ?thesis using q added_new_ents [OF nt q(2)] by (simp add: huge_def del: ent.simps)
    next
      case 3
      then have "unat k < 512" using q(1) by (auto simp: path_ok_def)
      from added_beyond [OF nt this, of s] q(3) 3 show ?thesis by simp
    qed
  qed
qed

lemma added_keeps_access:
  assumes nt: "table_added m m' r t f e' p i free" and e': "\<not> present (load64 m (entry_at t i))"
  shows "keeps_access m m' r"
  unfolding keeps_access_def
proof (intro allI impI)
  fix q j e assume q: "path_ok q" "unat j < 512" "ent m r (j # q) = Some e" "present e"
  note tab = table_addedD(4) [OF nt]
  have none: "tab m r (i # p) = None" using e' tab by (simp add: points_def)
  have "\<not> suffix (i # p) (j # q)"
  proof
    assume "suffix (i # p) (j # q)"
    then consider "j = i" "q = p" | "suffix (i # p) q" by (auto simp: suffix_Cons)
    then show False
    proof cases
      case 1
      then show False using q e' tab by simp
    next
      case 2
      then obtain w where "q = w @ i # p" by (auto simp: suffix_def)
      then show False using q(3) tab_extend_None [OF none] by simp
    qed
  qed
  from only_at_ent [OF added_only [OF nt] q(1,2) this] q(3,4)
  show "\<exists>e'. ent m' r (j # q) = Some e' \<and> present e' \<and> (bit e 1 \<longrightarrow> bit e' 1) \<and> (bit e 2 \<longrightarrow> bit e' 2)" by simp
qed

lemma need_table_step:
  assumes inv: "pt_inv ks r" and path: "path_ok (i # p)" and t: "tab (kmem ks) r p = Some t"
    and small: "p = [] \<or> \<not> huge (load_entry ks (entry_at t i))"
  obtains (failed) "need_table ks (entry_at t i) = Some (False, ks)" "free_set (kmmap ks) = {}"
  | (table) ks' u where "need_table ks (entry_at t i) = Some (True, ks')" "quiet ks ks' r"
      "tab (kmem ks') r p = Some t" "tab (kmem ks') r (i # p) = Some u" "frames_left ks \<le> Suc (frames_left ks')"
      "stays_on p ks ks' r"
proof (cases "present (load_entry ks (entry_at t i))")
  case True
  then have "need_table ks (entry_at t i) = Some (True, ks)" by (simp add: need_table_def)
  moreover have "tab (kmem ks) r (i # p) = Some (next_table (load_entry ks (entry_at t i)))"
    using True t small by (simp add: points_def load_entry_def)
  ultimately show thesis using table [of ks] quiet_refl [OF inv] t by (simp add: stays_on_def spares_at_refl)
next
  case False
  let ?e = "load_entry ks (entry_at t i)"
  have wf: "mm_wf (kmmap ks)" and apart: "tables_apart (kmem ks) r" and nf: "tables_not_free (kmem ks) r (free_set (kmmap ks))"
    and low: "low_frames (kmmap ks)" using inv by (simp_all add: pt_inv_def)
  have p: "path_ok p" "unat i < 512" using path by auto
  have ta: "4096 dvd unat t" by (rule tables_apartD(1) [OF apart p(1) t])
  show thesis
  proof (cases rule: ialloc_kframe_cases [OF wf, of "ucast DEFAULT_PAGE_SIZE"])
    case 1
    then show thesis using False by (intro failed) (simp_all add: need_table_def)
  next
    case (2 f mm)
    let ?F = "KERNEL_PHYS_TO_VIRT f" and ?a = "entry_at t i"
    let ?m1 = "Imemset (kmem ks) ?F 0 4096"
    let ?m2 = "store64 ?m1 ?a (put_ppn (drop_bit 12 f) (load64 ?m1 ?a))"
    let ?m3 = "store64 ?m2 ?a (put_bit 0 True (load64 ?m2 ?a))"
    let ?ks = "ks\<lparr>kmmap := mm, kmem := ?m3\<rparr>"
    have F: "4096 dvd unat ?F" by (rule frame_page [OF 2(6)])
    have tF: "t \<noteq> ?F" using nf p(1) t 2(3) unfolding tables_not_free_def by fastforce
    have e: "load64 ?m1 ?a = ?e"
      using load_zeroed [OF F ta p(2)] tF by (simp add: load_entry_def)
    let ?e' = "put_bit 0 True (put_ppn (drop_bit 12 f) ?e)"
    have e3: "load64 ?m2 ?a = put_ppn (drop_bit 12 f) ?e" by (simp add: e)
    have "unat f < 2147483648" using low 2(3) by (simp add: low_frames_def)
    then have "ppn_addr ?e' = f" using ppn_addr_low [of ?e' f] page_mask [OF 2(6)] by simp
    then have nt: "next_table ?e' = ?F" by (simp add: next_table_def)
    have pts: "points p ?e'" using small by (auto simp: points_def present_def huge_def entry_bits)
    have loads: "load64 ?m3 (entry_at u j) = (if u = t \<and> j = i then ?e' else if u = ?F then 0
        else load64 (kmem ks) (entry_at u j))" if u: "4096 dvd unat u" "unat j < 512" for u j
    proof (cases "entry_at u j = ?a")
      case True
      then have "u = t \<and> j = i" by (rule entry_at_inject [OF u ta p(2)])
      then show ?thesis by (simp add: e)
    next
      case False
      note al = entry_aligned [OF ta p(2)] entry_aligned [OF u]
      have "load64 ?m3 (entry_at u j) = load64 ?m1 (entry_at u j)"
        using False by (simp add: load64_store64 [OF al])
      also have "\<dots> = (if u = ?F then 0 else load64 (kmem ks) (entry_at u j))" by (rule load_zeroed [OF F u])
      finally show ?thesis using False by auto
    qed
    have added: "table_added (kmem ks) ?m3 r t f ?e' p i (free_set (kmmap ks))"
      unfolding table_added_def using apart nf path t False 2 pts nt loads by (auto simp: load_entry_def)
    have need: "need_table ks ?a = Some (True, ?ks)"
      using False 2(1,2) by (simp add: need_table_def store_entry_def load_entry_def DEFAULT_PAGE_SIZE_def)
    have "low_frames mm" using low 2(4) by (simp add: low_frames_def)
    then have "pt_inv ?ks r"
      using added_apart_after [OF added] added_not_free_after [OF added] 2(4,5) by (simp add: pt_inv_def)
    moreover have "translate ?ks r va = translate ks r va" for va
      using added_walk_after [OF added, of va] by (simp add: translate_def)
    moreover have "no_new_huge (kmem ks) ?m3 r"
      by (rule added_no_new_huge [OF added]) (simp add: huge_def entry_bits load_entry_def)
    moreover have "keeps_access (kmem ks) ?m3 r"
      by (rule added_keeps_access [OF added]) (use False in \<open>simp add: load_entry_def\<close>)
    moreover have on: "stays_on p ks ?ks r"
      unfolding stays_on_def spares_at_def
    proof (intro allI impI conjI)
      fix A P assume A: "A p" and P: "foreign_at A ks r P"
      then have ne: "?F \<noteq> P" using 2(3) by (auto simp: foreign_at_def)
      show "foreign_at A ?ks r P"
      proof -
        have "u \<noteq> P" if u: "A q" "path_ok q" "tab ?m3 r q = Some u" for q u
          using added_tab_cases [OF added u(2,3)] P u(1,2) ne unfolding foreign_at_def by metis
        then show ?thesis using P 2(4) by (simp add: foreign_at_def)
      qed
      fix x assume x: "within P 4096 x"
      have al: "4096 dvd unat P" "t \<noteq> P" using P A p(1) t by (auto simp: foreign_at_def)
      have "unat ?F div 4096 \<noteq> unat P div 4096" using F al(1) ne by (metis dvd_div_mult_self word_eq_by_unat)
      then have "\<not> within ?F 4096 x" using x by (simp add: within_page [OF F] within_page [OF al(1)])
      then show "kmem ?ks x = kmem ks x"
        using entry_far [OF al(1) ta al(2) p(2) x] by (simp add: Imemset_eq)
    qed
    moreover note stays_on_spares [OF on]
    moreover have "free_set (kmmap ?ks) \<subseteq> free_set (kmmap ks)" using 2(4) by simp
    ultimately have "quiet ks ?ks r" by (simp add: quiet_def)
    moreover have "tab ?m3 r p = Some t" using only_at_table [OF added_only [OF added] p(1)] t by simp
    moreover have "frames_left ks \<le> Suc (frames_left ?ks)" by (rule frames_left_one) (simp add: 2(4))
    ultimately show thesis using table [OF need] added_new_tab [OF added] on by simp
  qed
qed

section \<open>Writing a leaf\<close>

definition is_leaf :: "u64 list \<Rightarrow> u64 \<Rightarrow> bool" where
  "is_leaf p e \<longleftrightarrow> p \<noteq> [] \<and> present e \<and> (length p = 3 \<or> huge e)"

lemma leaf_tab:
  assumes only: "only_at m m' r p i" and path: "path_ok p" "tab m r p = Some t"
    and e': "ent m' r (i # p) = Some e'" "is_leaf p e'"
    and q: "path_ok q" "tab m' r q = Some u"
  shows "tab m r q = Some u"
proof (cases "suffix (i # p) q")
  case True
  then obtain s where s: "q = s @ i # p" by (auto simp: suffix_def)
  then have "length p < 3" using q(1) by (auto simp: path_ok_def)
  then have "tab m' r (i # p) = None" using e' by (subst tab_ent) (simp add: points_def is_leaf_def)
  then show ?thesis using q(2) s tab_extend_None by simp
next
  case False
  then show ?thesis using q only_at_tab [OF only q(1)] by simp
qed

lemma leaf_walk:
  assumes only: "only_at m m' r p i" and path: "path_ok p" "unat i < 512" "tab m r p = Some t"
    and e': "ent m' r (i # p) = Some e'" "is_leaf p e'"
  shows "walk_ents (ent m' r (path2 va)) (ent m' r (path3 va)) (ent m' r (path4 va)) =
    (if suffix (i # p) (path4 va) then Some (page_ppn e')
     else walk_ents (ent m r (path2 va)) (ent m r (path3 va)) (ent m r (path4 va)))"
proof -
  note ix = index_bound [of va]
  have same: "ent m' r (j # q) = ent m r (j # q)" if "path_ok q" "unat j < 512" "\<not> suffix (i # p) (j # q)" for j q
    by (rule only_at_ent [OF only that])
  have through: "\<exists>e. ent m r q = Some e \<and> present e \<and> (length q = 1 \<or> \<not> huge e)" if "p = q" "q \<noteq> []" for q
    using path(3) that by (cases q) (auto simp: points_def Let_def split: option.splits if_splits)
  have p: "p \<noteq> []" "present e'" using e'(2) by (auto simp: is_leaf_def)
  consider (four) "path4 va = i # p" | (three) "path3 va = i # p" | (two) "path2 va = i # p"
    | (off) "\<not> suffix (i # p) (path4 va)"
    using p(1) by (auto simp: paths_def suffix_Cons)
  then show ?thesis
  proof cases
    case off
    then have "\<not> suffix (i # p) (path2 va)" "\<not> suffix (i # p) (path3 va)"
      by (auto simp: paths_def suffix_Cons)
    then show ?thesis
      using off same [of "path1 va" "VA_PDPT_INDEX va"] same [of "path2 va" "VA_PD_INDEX va"]
        same [of "path3 va" "VA_PT_INDEX va"] ix paths_ok by (simp add: paths_def del: ent.simps)
  next
    case two
    then have "suffix (i # p) (path4 va)" by (auto simp: paths_def suffix_Cons)
    moreover have "length p \<noteq> 3" using two by (auto simp: paths_def)
    then have "huge e'" using e'(2) by (simp add: is_leaf_def)
    ultimately show ?thesis using e'(1) p two by (simp add: walk_ents_def)
  next
    case three
    then have suf: "suffix (i # p) (path4 va)" by (auto simp: paths_def suffix_Cons)
    have "length p \<noteq> 3" using three by (auto simp: paths_def)
    then have "huge e'" using e'(2) by (simp add: is_leaf_def)
    have pp: "p = path2 va" using three by (simp add: paths_def)
    then obtain e where e: "ent m r (path2 va) = Some e" "present e" "\<not> huge e"
      using through [of "path2 va"] by (auto simp: paths_def)
    have "\<not> suffix (i # p) (path2 va)" unfolding pp by (auto dest: suffix_length_le)
    then have "ent m' r (path2 va) = Some e"
      using same [of "path1 va" "VA_PDPT_INDEX va"] ix paths_ok e(1) by (simp add: paths_def)
    then show ?thesis using e suf e'(1) p(2) \<open>huge e'\<close> three by (simp add: walk_ents_def)
  next
    case four
    then have pp: "p = path3 va" by (simp add: paths_def)
    have t: "tab m r (path3 va) = Some t" using path(3) pp by simp
    then have "tab m r (path2 va) \<noteq> None" by (auto simp: paths_def split: option.splits)
    then obtain e2 where e2: "ent m r (path2 va) = Some e2" "present e2" "\<not> huge e2"
      by (auto simp: paths_def points_def Let_def split: option.splits if_splits)
    obtain e3 where e3: "ent m r (path3 va) = Some e3" "present e3" "\<not> huge e3"
      using through [of "path3 va"] pp by (auto simp: paths_def)
    have "\<not> suffix (i # p) (path2 va)" "\<not> suffix (i # p) (path3 va)"
      unfolding pp by (auto simp: paths_def dest: suffix_length_le)
    then have "ent m' r (path2 va) = Some e2" "ent m' r (path3 va) = Some e3"
      using same [of "path1 va" "VA_PDPT_INDEX va"] same [of "path2 va" "VA_PD_INDEX va"] ix paths_ok e2(1) e3(1)
      by (simp_all add: paths_def del: ent.simps)
    then show ?thesis using e2 e3 e'(1) p(2) four by (simp add: walk_ents_def)
  qed
qed

lemma leaf_step:
  assumes inv: "pt_inv ks r" and path: "path_ok p" "unat i < 512" "tab (kmem ks) r p = Some t" and leaf: "is_leaf p e'"
  defines "ks' \<equiv> store_entry ks (entry_at t i) e'"
  shows "pt_inv ks' r"
    "translate ks' r va = (if suffix (i # p) (path4 va) then Some (page_ppn e') else translate ks r va)"
    "(huge e' \<Longrightarrow> huge (load_entry ks (entry_at t i))) \<Longrightarrow> no_new_huge (kmem ks) (kmem ks') r"
    "stays_on p ks ks' r"
proof -
  let ?m = "kmem ks" and ?m' = "kmem ks'"
  have apart: "tables_apart ?m r" and nf: "tables_not_free ?m r (free_set (kmmap ks))"
    using inv by (simp_all add: pt_inv_def)
  have m': "?m' = store64 ?m (entry_at t i) e'" "kmmap ks' = kmmap ks" by (simp_all add: ks'_def store_entry_def)
  have only: "only_at ?m ?m' r p i" unfolding m' by (rule only_at_store [OF apart path(1,3,2)])
  have ent: "ent ?m' r (i # p) = Some e'"
    using only_at_table [OF only path(1)] path(3) by (simp add: m')
  note sub = leaf_tab [OF only path(1,3) ent leaf]
  have "tables_apart ?m' r" using apart sub unfolding tables_apart_def by (meson sub)
  moreover have "tables_not_free ?m' r (free_set (kmmap ks))"
    using nf sub unfolding tables_not_free_def by meson
  ultimately show "pt_inv ks' r" using inv by (simp add: pt_inv_def m'(2))
  show "translate ks' r va = (if suffix (i # p) (path4 va) then Some (page_ppn e') else translate ks r va)"
    unfolding translate_def by (rule leaf_walk [OF only path ent leaf])
  show "stays_on p ks ks' r"
    unfolding ks'_def by (rule stays_on_store [OF inv path(1,3,2)]) (use sub in \<open>simp add: ks'_def\<close>)
  assume h: "huge e' \<Longrightarrow> huge (load_entry ks (entry_at t i))"
  show "no_new_huge ?m ?m' r"
    unfolding no_new_huge_def
  proof (intro allI impI)
    fix q j x assume q: "path_ok q" "unat j < 512" "ent ?m' r (j # q) = Some x" "huge x"
    show "\<exists>e. ent ?m r (j # q) = Some e \<and> huge e"
    proof (cases "j # q = i # p")
      case True
      then show ?thesis using q ent h path(3) by (auto simp: load_entry_def)
    next
      case False
      obtain u where u: "tab ?m' r q = Some u" using q(3) by (auto split: option.splits)
      have tu: "tab ?m r q = Some u" by (rule sub [OF q(1) u])
      then have "load64 ?m' (entry_at u j) = load64 ?m (entry_at u j)"
        using only q(1,2) False unfolding only_at_def by blast
      then show ?thesis using q u tu by auto
    qed
  qed
qed

text \<open>Entries above the leaf keep their value.\<close>

lemma leaf_step_above:
  assumes inv: "pt_inv ks r" and path: "path_ok p" "unat i < 512" "tab (kmem ks) r p = Some t" and leaf: "is_leaf p e'"
    and q: "path_ok q" "unat j < 512" "length q < length p" "ent (kmem (store_entry ks (entry_at t i) e')) r (j # q) = Some x"
  shows "ent (kmem ks) r (j # q) = Some x"
proof -
  let ?m = "kmem ks" and ?m' = "kmem (store_entry ks (entry_at t i) e')"
  have apart: "tables_apart ?m r" using inv by (simp add: pt_inv_def)
  have m': "?m' = store64 ?m (entry_at t i) e'" by (simp add: store_entry_def)
  have only: "only_at ?m ?m' r p i" unfolding m' by (rule only_at_store [OF apart path(1,3,2)])
  have ent: "ent ?m' r (i # p) = Some e'"
    using only_at_table [OF only path(1)] path(3) by (simp add: m')
  obtain u where u: "tab ?m' r q = Some u" using q(4) by (auto split: option.splits)
  have tu: "tab ?m r q = Some u" by (rule leaf_tab [OF only path(1,3) ent leaf q(1) u])
  have "j # q \<noteq> i # p" using q(3) by auto
  then have "load64 ?m' (entry_at u j) = load64 ?m (entry_at u j)"
    using only q(1,2) tu unfolding only_at_def by blast
  then show ?thesis using q(4) u tu by auto
qed

lemma leaf_step_ents:
  assumes inv: "pt_inv ks r" and path: "path_ok p" "unat i < 512" "tab (kmem ks) r p = Some t"
  shows "ent (kmem (store_entry ks (entry_at t i) e')) r (i # p) = Some e'"
    "path_ok q \<Longrightarrow> unat j < 512 \<Longrightarrow> length q < length p \<Longrightarrow>
       ent (kmem (store_entry ks (entry_at t i) e')) r (j # q) = ent (kmem ks) r (j # q)"
proof -
  have apart: "tables_apart (kmem ks) r" using inv by (simp add: pt_inv_def)
  have m': "kmem (store_entry ks (entry_at t i) e') = store64 (kmem ks) (entry_at t i) e'" by (simp add: store_entry_def)
  have only: "only_at (kmem ks) (kmem (store_entry ks (entry_at t i) e')) r p i"
    unfolding m' by (rule only_at_store [OF apart path(1,3,2)])
  show "ent (kmem (store_entry ks (entry_at t i) e')) r (i # p) = Some e'"
    using only_at_table [OF only path(1)] path(3) by (simp add: m')
  assume "path_ok q" "unat j < 512" "length q < length p"
  then show "ent (kmem (store_entry ks (entry_at t i) e')) r (j # q) = ent (kmem ks) r (j # q)"
    by (intro only_at_ent [OF only]) (auto dest: suffix_length_le)
qed

section \<open>The whole operation\<close>

definition page_path :: "u64 \<Rightarrow> u64 \<Rightarrow> u64 list" where
  "page_path sz va = (if sz = SUPER_PS then path2 va else if sz = HUGE_PS then path3 va else path4 va)"

definition same_page :: "u64 \<Rightarrow> u64 \<Rightarrow> u64 \<Rightarrow> bool" where
  "same_page sz va va' \<longleftrightarrow> page_path sz va = page_path sz va'"

text \<open>No large page on the way to the entry that \<^const>\<open>page_in\<close> writes.\<close>

definition open_path :: "kstate \<Rightarrow> u64 \<Rightarrow> u64 \<Rightarrow> u64 \<Rightarrow> bool" where
  "open_path ks r sz va \<longleftrightarrow>
     (sz \<noteq> SUPER_PS \<longrightarrow> (\<forall>e. ent (kmem ks) r (path2 va) = Some e \<longrightarrow> \<not> huge e)) \<and>
     (sz \<noteq> SUPER_PS \<longrightarrow> sz \<noteq> HUGE_PS \<longrightarrow> (\<forall>e. ent (kmem ks) r (path3 va) = Some e \<longrightarrow> \<not> huge e))"

lemma open_path_keep:
  assumes "no_new_huge (kmem ks) (kmem ks') r" "open_path ks r sz va"
  shows "open_path ks' r sz va"
proof -
  have "\<exists>e. ent (kmem ks) r (path2 va) = Some e \<and> huge e" if "ent (kmem ks') r (path2 va) = Some e'" "huge e'" for e'
    using assms(1) that paths_ok(1) index_bound(2) unfolding no_new_huge_def path1_def path2_def by blast
  moreover have "\<exists>e. ent (kmem ks) r (path3 va) = Some e \<and> huge e" if "ent (kmem ks') r (path3 va) = Some e'" "huge e'" for e'
    using assms(1) that paths_ok(2) index_bound(3) unfolding no_new_huge_def path2_def path3_def by blast
  ultimately show ?thesis using assms(2) unfolding open_path_def by blast
qed

text \<open>No new 1 GiB page.\<close>

definition no_new_super :: "mem \<Rightarrow> mem \<Rightarrow> u64 \<Rightarrow> bool" where
  "no_new_super m m' r \<longleftrightarrow>
     (\<forall>va e'. ent m' r (path2 va) = Some e' \<longrightarrow> huge e' \<longrightarrow> (\<exists>e. ent m r (path2 va) = Some e \<and> huge e))"

lemma no_new_huge_super: "no_new_huge m m' r \<Longrightarrow> no_new_super m m' r"
  unfolding no_new_huge_def no_new_super_def path2_def
  using paths_ok(1) index_bound(2) unfolding path1_def by blast

lemma no_new_super_trans: "no_new_super m1 m2 r \<Longrightarrow> no_new_super m2 m3 r \<Longrightarrow> no_new_super m1 m3 r"
  unfolding no_new_super_def by blast

lemma open_path_keep_huge:
  "no_new_super (kmem ks) (kmem ks') r \<Longrightarrow> open_path ks r HUGE_PS va \<Longrightarrow> open_path ks' r HUGE_PS va"
  unfolding no_new_super_def open_path_def by blast

lemma same_page_suffix:
  "suffix (path4 va) (path4 va') \<longleftrightarrow> path4 va = path4 va'"
  "suffix (path3 va) (path4 va') \<longleftrightarrow> path3 va = path3 va'"
  "suffix (path2 va) (path4 va') \<longleftrightarrow> path2 va = path2 va'"
  by (auto simp: paths_def suffix_Cons)

text \<open>The page number of a physical address, as wide as the field of an entry.\<close>

definition ppn_of :: "u64 \<Rightarrow> u64" where
  "ppn_of phys = take_bit 28 (drop_bit 12 phys)"

lemma shifted_ppn_low: "unat phys < 2147483648 \<Longrightarrow> shifted_ppn (ppn_of phys) = phys AND NOT 0xFFF"
  using ppn_addr_low [of "put_ppn (drop_bit 12 phys) 0" phys]
  by (simp add: ppn_of_def shifted_ppn_def ppn_addr_def)

lemma big_leaf_entry:
  "present (put_bit 0 True (put_ppn (drop_bit 12 phys) (put_bit 7 True (APPLY_LEAF_PERMS e p))))"
  "huge (put_bit 0 True (put_ppn (drop_bit 12 phys) (put_bit 7 True (APPLY_LEAF_PERMS e p))))"
  "page_ppn (put_bit 0 True (put_ppn (drop_bit 12 phys) (put_bit 7 True (APPLY_LEAF_PERMS e p)))) = ppn_of phys"
  by (simp_all add: present_def huge_def entry_bits ppn_of_def)

lemma small_leaf_entry:
  "present (put_bit 0 True (put_ppn (drop_bit 12 phys) (put_bit 6 False (put_bit 5 False (APPLY_LEAF_PERMS e p)))))"
  "huge (put_bit 0 True (put_ppn (drop_bit 12 phys) (put_bit 6 False (put_bit 5 False (APPLY_LEAF_PERMS e p))))) = huge e"
  "page_ppn (put_bit 0 True (put_ppn (drop_bit 12 phys) (put_bit 6 False (put_bit 5 False (APPLY_LEAF_PERMS e p))))) = ppn_of phys"
  by (simp_all add: present_def huge_def entry_bits ppn_of_def)

lemma big_leaf_step:
  assumes "pt_inv ks r" "path_ok p" "unat i < 512" "tab (kmem ks) r p = Some t" "p \<noteq> []"
  shows "pt_inv (big_leaf ks (entry_at t i) phys perms) r"
    "translate (big_leaf ks (entry_at t i) phys perms) r va =
       (if suffix (i # p) (path4 va) then Some (ppn_of phys) else translate ks r va)"
    "stays_on p ks (big_leaf ks (entry_at t i) phys perms) r"
proof -
  have leaf: "is_leaf p (put_bit 0 True (put_ppn (drop_bit 12 phys) (put_bit 7 True (APPLY_LEAF_PERMS e perms))))" for e
    using assms(5) big_leaf_entry by (simp add: is_leaf_def)
  show "pt_inv (big_leaf ks (entry_at t i) phys perms) r"
    unfolding big_leaf_def by (rule leaf_step(1) [OF assms(1-4) leaf])
  show "translate (big_leaf ks (entry_at t i) phys perms) r va =
       (if suffix (i # p) (path4 va) then Some (ppn_of phys) else translate ks r va)"
    unfolding big_leaf_def leaf_step(2) [OF assms(1-4) leaf] big_leaf_entry(3) ..
  show "stays_on p ks (big_leaf ks (entry_at t i) phys perms) r"
    unfolding big_leaf_def by (rule leaf_step(4) [OF assms(1-4) leaf])
qed

lemma big_leaf_super:
  assumes inv: "pt_inv ks r" and path: "path_ok p" "unat i < 512" "tab (kmem ks) r p = Some t" and p: "length p = 2"
  shows "no_new_super (kmem ks) (kmem (big_leaf ks (entry_at t i) phys perms)) r"
  unfolding no_new_super_def
proof (intro allI impI)
  fix va e'
  let ?e = "load_entry ks (entry_at t i)"
  have ne: "p \<noteq> []" using p by auto
  have leaf: "is_leaf p (put_bit 0 True (put_ppn (drop_bit 12 phys) (put_bit 7 True (APPLY_LEAF_PERMS ?e perms))))"
    using ne big_leaf_entry by (simp add: is_leaf_def)
  have p2: "path2 va = VA_PDPT_INDEX va # path1 va" by (simp add: path2_def path1_def)
  assume h: "ent (kmem (big_leaf ks (entry_at t i) phys perms)) r (path2 va) = Some e'" "huge e'"
  have len: "length (path1 va) < length p" using p by (simp add: path1_def)
  have "ent (kmem ks) r (VA_PDPT_INDEX va # path1 va) = Some e'"
    by (rule leaf_step_above [OF inv path leaf paths_ok(1) index_bound(2) len])
       (use h(1) in \<open>simp only: big_leaf_def p2\<close>)
  then show "\<exists>e. ent (kmem ks) r (path2 va) = Some e \<and> huge e" using h(2) unfolding p2 by blast
qed

lemma small_leaf_step:
  assumes "pt_inv ks r" "path_ok p" "unat i < 512" "tab (kmem ks) r p = Some t" "length p = 3"
  shows "pt_inv (small_leaf ks (entry_at t i) phys perms) r"
    "translate (small_leaf ks (entry_at t i) phys perms) r va =
       (if suffix (i # p) (path4 va) then Some (ppn_of phys) else translate ks r va)"
    "no_new_huge (kmem ks) (kmem (small_leaf ks (entry_at t i) phys perms)) r"
    "stays_on p ks (small_leaf ks (entry_at t i) phys perms) r"
proof -
  have leaf: "is_leaf p (put_bit 0 True (put_ppn (drop_bit 12 phys) (put_bit 6 False (put_bit 5 False (APPLY_LEAF_PERMS e perms)))))" for e
    using assms(5) small_leaf_entry(1) by (auto simp: is_leaf_def)
  show "pt_inv (small_leaf ks (entry_at t i) phys perms) r"
    unfolding small_leaf_def by (rule leaf_step(1) [OF assms(1-4) leaf])
  show "translate (small_leaf ks (entry_at t i) phys perms) r va =
       (if suffix (i # p) (path4 va) then Some (ppn_of phys) else translate ks r va)"
    unfolding small_leaf_def leaf_step(2) [OF assms(1-4) leaf] small_leaf_entry(3) ..
  show "no_new_huge (kmem ks) (kmem (small_leaf ks (entry_at t i) phys perms)) r"
    unfolding small_leaf_def by (rule leaf_step(3) [OF assms(1-4) leaf]) (simp add: small_leaf_entry(2))
  show "stays_on p ks (small_leaf ks (entry_at t i) phys perms) r"
    unfolding small_leaf_def by (rule leaf_step(4) [OF assms(1-4) leaf])
qed

text \<open>The rights of a page: an entry above the page lets through what is asked for, the page's own entry
  holds exactly that.\<close>

definition lets_through :: "kstate \<Rightarrow> u64 \<Rightarrow> u64 \<Rightarrow> u64 list \<Rightarrow> bool" where
  "lets_through ks r perms p \<longleftrightarrow>
     (\<exists>e. ent (kmem ks) r p = Some e \<and> present e \<and> (bit perms 1 \<longrightarrow> bit e 1) \<and> (bit perms 3 \<longrightarrow> bit e 2))"

definition upper_paths :: "u64 \<Rightarrow> u64 \<Rightarrow> u64 list list" where
  "upper_paths sz va =
     (if sz = SUPER_PS then [path1 va] else if sz = HUGE_PS then [path1 va, path2 va] else [path1 va, path2 va, path3 va])"

definition rights_set :: "kstate \<Rightarrow> u64 \<Rightarrow> u64 \<Rightarrow> u64 \<Rightarrow> u64 \<Rightarrow> bool" where
  "rights_set ks r sz va perms \<longleftrightarrow> (\<forall>p \<in> set (upper_paths sz va). lets_through ks r perms p) \<and>
     (\<exists>e. ent (kmem ks) r (page_path sz va) = Some e \<and> present e \<and> bit e 1 = bit perms 1 \<and> bit e 2 = bit perms 3)"

lemma lets_through_quiet:
  assumes "quiet ks ks' r" "lets_through ks r perms (j # q)" "path_ok q" "unat j < 512"
  shows "lets_through ks' r perms (j # q)"
  using assms unfolding quiet_def keeps_access_def lets_through_def by metis

lemma leaf_bits:
  "present (put_bit 0 True (put_ppn v (put_bit 7 True (APPLY_LEAF_PERMS e p))))"
  "bit (put_bit 0 True (put_ppn v (put_bit 7 True (APPLY_LEAF_PERMS e p)))) 1 = bit p 1"
  "bit (put_bit 0 True (put_ppn v (put_bit 7 True (APPLY_LEAF_PERMS e p)))) 2 = bit p 3"
  "present (put_bit 0 True (put_ppn v (put_bit 6 False (put_bit 5 False (APPLY_LEAF_PERMS e p)))))"
  "bit (put_bit 0 True (put_ppn v (put_bit 6 False (put_bit 5 False (APPLY_LEAF_PERMS e p))))) 1 = bit p 1"
  "bit (put_bit 0 True (put_ppn v (put_bit 6 False (put_bit 5 False (APPLY_LEAF_PERMS e p))))) 2 = bit p 3"
  by (simp_all add: present_def entry_bits)

lemma leaf_rights:
  assumes inv: "pt_inv ks r" and path: "path_ok p" "unat i < 512" "tab (kmem ks) r p = Some t"
  shows "\<exists>e. ent (kmem (big_leaf ks (entry_at t i) phys perms)) r (i # p) = Some e \<and> present e \<and>
      bit e 1 = bit perms 1 \<and> bit e 2 = bit perms 3"
    "\<exists>e. ent (kmem (small_leaf ks (entry_at t i) phys perms)) r (i # p) = Some e \<and> present e \<and>
      bit e 1 = bit perms 1 \<and> bit e 2 = bit perms 3"
    "path_ok q \<Longrightarrow> unat j < 512 \<Longrightarrow> length q < length p \<Longrightarrow> lets_through ks r perms' (j # q) \<Longrightarrow>
       lets_through (big_leaf ks (entry_at t i) phys perms) r perms' (j # q)"
    "path_ok q \<Longrightarrow> unat j < 512 \<Longrightarrow> length q < length p \<Longrightarrow> lets_through ks r perms' (j # q) \<Longrightarrow>
       lets_through (small_leaf ks (entry_at t i) phys perms) r perms' (j # q)"
  unfolding lets_through_def big_leaf_def small_leaf_def leaf_step_ents(1) [OF inv path]
  by (simp_all only: leaf_step_ents(2) [OF inv path] option.inject ex_simps leaf_bits simp_thms)

lemma upper_rights:
  assumes "4096 dvd unat t" "unat i < 512"
    and "tab (kmem (upper_perms k (entry_at t i) perms)) r p = Some t"
    and "tab (kmem (upper_perms k (entry_at t i) perms)) r (i # p) = Some u"
  shows "lets_through (upper_perms k (entry_at t i) perms) r perms (i # p)"
proof -
  have "load64 (kmem (upper_perms k (entry_at t i) perms)) (entry_at t i) = APPLY_UPPER_PERMS (load_entry k (entry_at t i)) perms"
    by (simp add: upper_perms_def store_entry_def)
  then show ?thesis using assms(3,4) by (auto simp: lets_through_def points_def Let_def entry_bits split: if_splits)
qed

text \<open>One level down: a table for the entry, then the permissions.\<close>

lemma level_step:
  assumes inv: "pt_inv ks r" and path: "path_ok (i # p)" "tab (kmem ks) r p = Some t"
    and small: "p = [] \<or> \<not> huge (load_entry ks (entry_at t i))"
  obtains (failed) "need_table ks (entry_at t i) = Some (False, ks)" "free_set (kmmap ks) = {}"
  | (down) ks1 ks2 where "need_table ks (entry_at t i) = Some (True, ks1)"
      "ks2 = upper_perms ks1 (entry_at t i) perms" "quiet ks ks2 r"
      "tab (kmem ks2) r (i # p) = Some (next_table (load_entry ks2 (entry_at t i)))"
      "frames_left ks \<le> Suc (frames_left ks2)" "lets_through ks2 r perms (i # p)" "stays_on p ks ks2 r"
proof (cases rule: need_table_step [OF inv path small])
  case 1
  then show thesis by (rule failed)
next
  case (2 ks1 u)
  let ?ks2 = "upper_perms ks1 (entry_at t i) perms"
  have apart: "tables_apart (kmem ks) r" using inv by (simp add: pt_inv_def)
  have t: "4096 dvd unat t" "unat i < 512"
    using tables_apartD(1) [OF apart _ path(2)] path(1) by auto
  have inv1: "pt_inv ks1 r" using 2(2) by (simp add: quiet_def)
  have p: "path_ok p" using path(1) by simp
  note up = upper_perms_quiet [OF inv1 t p 2(3), where perms = perms]
  have tabs: "tab (kmem ?ks2) r p = Some t" "tab (kmem ?ks2) r (i # p) = Some u"
    using up(2) [of p] up(2) [of "i # p"] path(1) 2(3,4) by (simp_all del: tab.simps)
  then have "u = next_table (load_entry ?ks2 (entry_at t i))"
    by (auto simp: load_entry_def Let_def split: if_splits)
  moreover have "frames_left ?ks2 = frames_left ks1" by (simp add: frames_left_def upper_perms_def store_entry_def)
  ultimately show thesis
    using tabs(2) quiet_trans [OF 2(2) up(1)] 2(1,5) upper_rights [OF t tabs]
      stays_on_trans [OF 2(6) up(3)] by (intro down [of ks1 ?ks2]) simp_all
qed

lemma leaf_kmmap [simp]:
  "kmmap (upper_perms k ea p) = kmmap k" "kmmap (big_leaf k ea phys p) = kmmap k" "kmmap (small_leaf k ea phys p) = kmmap k"
  by (simp_all add: upper_perms_def big_leaf_def small_leaf_def store_entry_def)

lemma leaf_frames: "frames_left (big_leaf k ea phys p) = frames_left k" "frames_left (small_leaf k ea phys p) = frames_left k"
  by (simp_all add: frames_left_def)

text \<open>Mapping a page changes tables on the way to the page, new tables, and nothing else.\<close>

definition walk_only :: "u64 \<Rightarrow> kstate \<Rightarrow> kstate \<Rightarrow> u64 \<Rightarrow> bool" where
  "walk_only va ks ks' r \<longleftrightarrow> (\<forall>A. A [] \<longrightarrow> A (path1 va) \<longrightarrow> A (path2 va) \<longrightarrow> A (path3 va) \<longrightarrow> spares_at A ks ks' r) \<and>
     free_set (kmmap ks') \<subseteq> free_set (kmmap ks)"

lemma walk_only_trans: "walk_only va k1 k2 r \<Longrightarrow> walk_only va k2 k3 r \<Longrightarrow> walk_only va k1 k3 r"
  using spares_at_trans unfolding walk_only_def by (metis order_trans)

lemma walk_only_spares: "walk_only va ks ks' r \<Longrightarrow> spares ks ks' r"
  by (simp add: walk_only_def spares_at_all [symmetric])

lemma walk_only_step:
  assumes "stays_on p ks ks' r" "p \<in> {[], path1 va, path2 va, path3 va}" "free_set (kmmap ks') \<subseteq> free_set (kmmap ks)"
  shows "walk_only va ks ks' r"
  using assms unfolding walk_only_def stays_on_def by blast

lemma page_in_cases:
  assumes inv: "pt_inv ks r" and opn: "open_path ks r sz va"
  obtains (failed) ks' where "page_in ks r va phys sz perms = Some (- 1, ks')" "quiet ks ks' r" "free_set (kmmap ks') = {}" "frames_left ks < 3"
  | (mapped) ks' where "page_in ks r va phys sz perms = Some (0, ks')" "pt_inv ks' r"
      "\<And>va'. translate ks' r va' = (if same_page sz va va' then Some (ppn_of phys) else translate ks r va')"
      "sz \<noteq> SUPER_PS \<Longrightarrow> sz \<noteq> HUGE_PS \<Longrightarrow> no_new_huge (kmem ks) (kmem ks') r"
      "sz = HUGE_PS \<Longrightarrow> no_new_super (kmem ks) (kmem ks') r" "frames_left ks \<le> frames_left ks' + 3"
      "rights_set ks' r sz va perms" "spares ks ks' r" "walk_only va ks ks' r"
proof -
  note ix = index_bound [of va] and ok = paths_ok [of va]
  let ?i4 = "VA_PML4_INDEX va" and ?i3 = "VA_PDPT_INDEX va" and ?i2 = "VA_PD_INDEX va" and ?i1 = "VA_PT_INDEX va"
  have sizes: "SUPER_PS \<noteq> HUGE_PS" by (simp add: SUPER_PS_def HUGE_PS_def)
  have ok1: "path_ok (?i4 # [])" using ix by simp
  have ok2: "path_ok (?i3 # path1 va)" and ok3: "path_ok (?i2 # path2 va)" using ix by (simp_all add: paths_def)
  consider (stop1) "need_table ks (entry_at r ?i4) = Some (False, ks)" "free_set (kmmap ks) = {}"
    | (go1) ksa ks1 where "need_table ks (entry_at r ?i4) = Some (True, ksa)"
      "ks1 = upper_perms ksa (entry_at r ?i4) perms" "quiet ks ks1 r"
      "tab (kmem ks1) r (?i4 # []) = Some (next_table (load_entry ks1 (entry_at r ?i4)))" "frames_left ks \<le> Suc (frames_left ks1)"
      "lets_through ks1 r perms (?i4 # [])" "stays_on [] ks ks1 r"
    by (rule level_step [OF inv ok1, where t = r and perms = perms]) simp_all
  then show thesis
  proof cases
    case stop1
    then show thesis using quiet_refl [OF inv] by (intro failed) (simp_all add: page_in_def Let_def frames_left_def)
  next
    case (go1 ksa ks1)
    let ?t3 = "next_table (load_entry ks1 (entry_at r ?i4))"
    have inv1: "pt_inv ks1 r" and walk1: "translate ks1 r va' = translate ks r va'"
      and huge1: "no_new_huge (kmem ks) (kmem ks1) r" for va'
      using go1(3) by (simp_all add: quiet_def)
    have spares1: "walk_only va ks ks1 r" using walk_only_step [OF go1(7)] go1(3) by (simp add: quiet_def)
    have t3: "tab (kmem ks1) r (path1 va) = Some ?t3" using go1(4) by (simp add: path1_def)
    note opn1 = open_path_keep [OF huge1 opn]
    show thesis
    proof (cases "sz = SUPER_PS")
      case True
      then have "page_in ks r va phys sz perms = Some (0, big_leaf ks1 (entry_at ?t3 ?i3) phys perms)"
        using go1(1,2) by (simp add: page_in_def Let_def)
      moreover have "rights_set (big_leaf ks1 (entry_at ?t3 ?i3) phys perms) r sz va perms"
        using leaf_rights(1,3) [OF inv1 ok(1) ix(2) t3, where phys = phys and perms = perms] go1(6) ix True
        by (simp add: rights_set_def upper_paths_def page_path_def paths_def)
      moreover have on: "walk_only va ks (big_leaf ks1 (entry_at ?t3 ?i3) phys perms) r"
        using spares1 by (rule walk_only_trans) (rule walk_only_step [OF big_leaf_step(3) [OF inv1 ok(1) ix(2) t3]], simp_all add: path1_def)
      moreover note walk_only_spares [OF on]
      moreover have "path1 va \<noteq> []" "?i3 # path1 va = path2 va" by (simp_all add: paths_def)
      ultimately show thesis
        using big_leaf_step(1,2) [OF inv1 ok(1) ix(2) t3, where phys = phys and perms = perms] True sizes walk1 go1(5)
        by (intro mapped) (auto simp: same_page_def page_path_def same_page_suffix leaf_frames)
    next
      case not_super: False
      have small3: "path1 va = [] \<or> \<not> huge (load_entry ks1 (entry_at ?t3 ?i3))"
        using opn1 not_super t3 by (simp add: open_path_def load_entry_def path2_def path1_def)
      consider (stop2) "need_table ks1 (entry_at ?t3 ?i3) = Some (False, ks1)" "free_set (kmmap ks1) = {}"
        | (go2) ksb ks2 where "need_table ks1 (entry_at ?t3 ?i3) = Some (True, ksb)"
          "ks2 = upper_perms ksb (entry_at ?t3 ?i3) perms" "quiet ks1 ks2 r"
          "tab (kmem ks2) r (?i3 # path1 va) = Some (next_table (load_entry ks2 (entry_at ?t3 ?i3)))" "frames_left ks1 \<le> Suc (frames_left ks2)"
          "lets_through ks2 r perms (?i3 # path1 va)" "stays_on (path1 va) ks1 ks2 r"
        by (rule level_step [OF inv1 ok2 t3 small3, where perms = perms])
      then show thesis
      proof cases
        case stop2
        then show thesis using go1 not_super by (intro failed [of ks1]) (simp_all add: page_in_def Let_def frames_left_def)
      next
        case (go2 ksb ks2)
        let ?t2 = "next_table (load_entry ks2 (entry_at ?t3 ?i3))"
        note quiet2 = quiet_trans [OF go1(3) go2(3)]
        have inv2: "pt_inv ks2 r" and walk2: "translate ks2 r va' = translate ks r va'"
          and huge2: "no_new_huge (kmem ks) (kmem ks2) r" for va'
          using quiet2 by (simp_all add: quiet_def)
        have spares2: "walk_only va ks ks2 r"
          using walk_only_trans [OF spares1 walk_only_step [OF go2(7)]] go2(3) by (simp add: quiet_def)
        have t2: "tab (kmem ks2) r (path2 va) = Some ?t2" using go2(4) by (simp add: path1_def path2_def)
        note opn2 = open_path_keep [OF huge2 opn]
        show thesis
        proof (cases "sz = HUGE_PS")
          case True
          then have "page_in ks r va phys sz perms = Some (0, big_leaf ks2 (entry_at ?t2 ?i2) phys perms)"
            using go1(1,2) go2(1,2) not_super sizes by (simp add: page_in_def Let_def)
          moreover have "rights_set (big_leaf ks2 (entry_at ?t2 ?i2) phys perms) r sz va perms"
            using leaf_rights(1,3) [OF inv2 ok(2) ix(3) t2, where phys = phys and perms = perms] go2(6) lets_through_quiet [OF go2(3) go1(6)] ix True sizes
            by (simp add: rights_set_def upper_paths_def page_path_def paths_def)
          moreover have on: "walk_only va ks (big_leaf ks2 (entry_at ?t2 ?i2) phys perms) r"
            using spares2 by (rule walk_only_trans) (rule walk_only_step [OF big_leaf_step(3) [OF inv2 ok(2) ix(3) t2]], simp_all add: path2_def)
          moreover note walk_only_spares [OF on]
          moreover have "path2 va \<noteq> []" "length (path2 va) = 2" "?i2 # path2 va = path3 va" by (simp_all add: paths_def)
          ultimately show thesis
            using big_leaf_step(1,2) [OF inv2 ok(2) ix(3) t2, where phys = phys and perms = perms] True sizes walk2 go1(5) go2(5)
              no_new_super_trans [OF no_new_huge_super [OF huge2] big_leaf_super [OF inv2 ok(2) ix(3) t2]]
            by (intro mapped) (auto simp: same_page_def page_path_def same_page_suffix leaf_frames)
        next
          case not_huge: False
          have small2: "path2 va = [] \<or> \<not> huge (load_entry ks2 (entry_at ?t2 ?i2))"
            using opn2 not_super not_huge t2 by (simp add: open_path_def load_entry_def path3_def path2_def)
          consider (stop3) "need_table ks2 (entry_at ?t2 ?i2) = Some (False, ks2)" "free_set (kmmap ks2) = {}"
            | (go3) ksc ks3 where "need_table ks2 (entry_at ?t2 ?i2) = Some (True, ksc)"
              "ks3 = upper_perms ksc (entry_at ?t2 ?i2) perms" "quiet ks2 ks3 r"
              "tab (kmem ks3) r (?i2 # path2 va) = Some (next_table (load_entry ks3 (entry_at ?t2 ?i2)))" "frames_left ks2 \<le> Suc (frames_left ks3)"
              "lets_through ks3 r perms (?i2 # path2 va)" "stays_on (path2 va) ks2 ks3 r"
            by (rule level_step [OF inv2 ok3 t2 small2, where perms = perms])
          then show thesis
          proof cases
            case stop3
            then show thesis using go1 go2 quiet2 not_super not_huge
              by (intro failed [of ks2]) (simp_all add: page_in_def Let_def frames_left_def)
          next
            case (go3 ksc ks3)
            let ?t1 = "next_table (load_entry ks3 (entry_at ?t2 ?i2))"
            have inv3: "pt_inv ks3 r" and walk3: "translate ks3 r va' = translate ks r va'"
              and huge3: "no_new_huge (kmem ks) (kmem ks3) r" for va'
              using quiet_trans [OF quiet2 go3(3)] by (simp_all add: quiet_def)
            have spares3: "walk_only va ks ks3 r"
              using walk_only_trans [OF spares2 walk_only_step [OF go3(7)]] go3(3) by (simp add: quiet_def)
            have t1: "tab (kmem ks3) r (path3 va) = Some ?t1" using go3(4) by (simp add: path3_def path2_def)
            have "page_in ks r va phys sz perms = Some (0, small_leaf ks3 (entry_at ?t1 ?i1) phys perms)"
              using go1(1,2) go2(1,2) go3(1,2) not_super not_huge by (simp add: page_in_def Let_def)
            moreover have "rights_set (small_leaf ks3 (entry_at ?t1 ?i1) phys perms) r sz va perms"
              using leaf_rights(2,4) [OF inv3 ok(3) ix(4) t1, where phys = phys and perms = perms] go3(6) lets_through_quiet [OF go3(3) go2(6)]
                lets_through_quiet [OF quiet_trans [OF go2(3) go3(3)] go1(6)] ix not_super not_huge
              by (simp add: rights_set_def upper_paths_def page_path_def paths_def)
            moreover have on: "walk_only va ks (small_leaf ks3 (entry_at ?t1 ?i1) phys perms) r"
              using spares3 by (rule walk_only_trans) (rule walk_only_step [OF small_leaf_step(4) [OF inv3 ok(3) ix(4) t1]], simp_all add: path3_def)
            moreover note walk_only_spares [OF on]
            moreover have "length (path3 va) = 3" "?i1 # path3 va = path4 va" by (simp_all add: paths_def)
            ultimately show thesis
              using small_leaf_step(1-3) [OF inv3 ok(3) ix(4) t1, where phys = phys and perms = perms] not_super not_huge walk3 go1(5) go2(5) go3(5)
                no_new_huge_trans [OF huge3]
              by (intro mapped) (auto simp: same_page_def page_path_def same_page_suffix leaf_frames)
          qed
        qed
      qed
    qed
  qed
qed

end
