(* ===== verification/Address_Space.thy ===== *)
theory Address_Space
  imports Paging_Steps
begin

text \<open>
  What a client of the page tables relies on: after \<^const>\<open>page_in\<close> the pages asked for translate to their
  frames and no other translation has changed.  The promise is the locale \<open>address_space\<close>, interpreted on
  \<^const>\<open>page_in\<close>; \<^const>\<open>map_mmio\<close> and the other loops that map several pages rest on it.
\<close>

section \<open>Pages as address ranges\<close>

lemma u64_eq_bits: "(a :: u64) = b \<longleftrightarrow> (\<forall>n < 64. bit a n = bit b n)"
  by (auto intro: bit_word_eqI)

lemma all_below: "m \<le> (64 :: nat) \<Longrightarrow> (\<forall>n < 64. (n < m \<and> P n) = (n < m \<and> Q n)) \<longleftrightarrow> (\<forall>n < m. P n = Q n)"
  by (meson less_le_trans)

lemma all_shift: "(\<forall>n < m. P (k + n)) \<longleftrightarrow> (\<forall>j. k \<le> j \<and> j < k + m \<longrightarrow> P (j :: nat))"
  by (metis add_less_cancel_left le_add1 le_add_diff_inverse)

lemma all_split:
  assumes "a \<le> b" "b \<le> (c :: nat)"
  shows "(\<forall>j. a \<le> j \<and> j < c \<longrightarrow> P j) \<longleftrightarrow> (\<forall>j. a \<le> j \<and> j < b \<longrightarrow> P j) \<and> (\<forall>j. b \<le> j \<and> j < c \<longrightarrow> P j)"
proof (intro iffI allI impI conjI)
  fix j assume all: "(\<forall>j. a \<le> j \<and> j < b \<longrightarrow> P j) \<and> (\<forall>j. b \<le> j \<and> j < c \<longrightarrow> P j)" and j: "a \<le> j \<and> j < c"
  then show "P j" by (cases "j < b") auto
qed (use assms in auto)

lemma index_eq: "drop_bit k x AND 0x1FF = drop_bit k y AND (0x1FF :: u64) \<longleftrightarrow>
    (\<forall>j. k \<le> j \<and> j < k + 9 \<longrightarrow> bit x j = bit y j)"
proof -
  have mask: "(0x1FF :: u64) = mask 9" by (simp add: mask_eq_decr_exp)
  have "drop_bit k x AND 0x1FF = drop_bit k y AND (0x1FF :: u64) \<longleftrightarrow>
      (\<forall>n < 64. (n < 9 \<and> bit x (k + n)) = (n < 9 \<and> bit y (k + n)))"
    unfolding mask take_bit_eq_mask [symmetric] by (simp add: u64_eq_bits bit_simps)
  then show ?thesis by (simp add: all_below all_shift [where P = "\<lambda>j. bit x j = bit y j"])
qed

lemma low_48_eq: "k \<le> 48 \<Longrightarrow> drop_bit k (take_bit 48 x) = drop_bit k (take_bit 48 (y :: u64)) \<longleftrightarrow>
    (\<forall>j. k \<le> j \<and> j < 48 \<longrightarrow> bit x j = bit y j)"
proof -
  assume k: "k \<le> 48"
  have lt: "k + n < 48 \<longleftrightarrow> n < 48 - k" for n using k by linarith
  have "drop_bit k (take_bit 48 x) = drop_bit k (take_bit 48 (y :: u64)) \<longleftrightarrow>
      (\<forall>n < 64. (n < 48 - k \<and> bit x (k + n)) = (n < 48 - k \<and> bit y (k + n)))"
    by (simp add: u64_eq_bits bit_simps lt)
  also have "\<dots> \<longleftrightarrow> (\<forall>n < 48 - k. bit x (k + n) = bit y (k + n))" by (rule all_below) simp
  also have "\<dots> \<longleftrightarrow> (\<forall>j. k \<le> j \<and> j < k + (48 - k) \<longrightarrow> bit x j = bit y j)"
    by (rule all_shift [where P = "\<lambda>j. bit x j = bit y j"])
  finally show ?thesis using k by simp
qed

text \<open>The pages of the three sizes, as addresses of 48 bits.\<close>

lemma same_page_iff:
  "same_page DEFAULT_PAGE_SIZE va va' \<longleftrightarrow> drop_bit 12 (take_bit 48 va) = drop_bit 12 (take_bit 48 va')"
  "same_page HUGE_PS va va' \<longleftrightarrow> drop_bit 21 (take_bit 48 va) = drop_bit 21 (take_bit 48 va')"
  "same_page SUPER_PS va va' \<longleftrightarrow> drop_bit 30 (take_bit 48 va) = drop_bit 30 (take_bit 48 va')"
proof -
  let ?P = "\<lambda>j. bit va j = bit va' j"
  note split = all_split [of 12 21 48 ?P] all_split [of 21 30 48 ?P] all_split [of 30 39 48 ?P]
  show "same_page SUPER_PS va va' \<longleftrightarrow> drop_bit 30 (take_bit 48 va) = drop_bit 30 (take_bit 48 va')"
    using split by (auto simp: same_page_def page_path_def path2_def VA_PML4_INDEX_def VA_PDPT_INDEX_def index_eq low_48_eq)
  show "same_page HUGE_PS va va' \<longleftrightarrow> drop_bit 21 (take_bit 48 va) = drop_bit 21 (take_bit 48 va')"
    using split by (auto simp: same_page_def page_path_def SUPER_PS_def HUGE_PS_def path3_def
        VA_PML4_INDEX_def VA_PDPT_INDEX_def VA_PD_INDEX_def index_eq low_48_eq)
  show "same_page DEFAULT_PAGE_SIZE va va' \<longleftrightarrow> drop_bit 12 (take_bit 48 va) = drop_bit 12 (take_bit 48 va')"
    using split by (auto simp: same_page_def page_path_def DEFAULT_PAGE_SIZE_def SUPER_PS_def HUGE_PS_def path4_def
        VA_PML4_INDEX_def VA_PDPT_INDEX_def VA_PD_INDEX_def VA_PT_INDEX_def index_eq low_48_eq)
qed

section \<open>The contract\<close>

definition mapped :: "u64 \<Rightarrow> u64 \<Rightarrow> u64 \<Rightarrow> (u64 \<Rightarrow> u64 option) \<Rightarrow> u64 \<Rightarrow> u64 option" where
  "mapped sz va pa f = (\<lambda>va'. if same_page sz va va' then Some (ppn_of pa) else f va')"

text \<open>A run of pages of one size, mapped one after another until one fails.\<close>

fun map_pages :: "('s \<Rightarrow> u64 \<Rightarrow> u64 \<Rightarrow> (int \<times> 's) option) \<Rightarrow> 's \<Rightarrow> (u64 \<times> u64) list \<Rightarrow> (bool \<times> 's) option" where
  "map_pages f s [] = Some (True, s)"
| "map_pages f s ((va, pa) # xs) = do {
     (err, s) \<leftarrow> f s va pa;
     if err \<noteq> 0 then Some (False, s) else map_pages f s xs
   }"

fun mapped_pages :: "u64 \<Rightarrow> (u64 \<times> u64) list \<Rightarrow> (u64 \<Rightarrow> u64 option) \<Rightarrow> u64 \<Rightarrow> u64 option" where
  "mapped_pages sz [] f = f"
| "mapped_pages sz ((va, pa) # xs) f = mapped_pages sz xs (mapped sz va pa f)"

definition one_target :: "u64 \<Rightarrow> (u64 \<times> u64) list \<Rightarrow> bool" where
  "one_target sz xs \<longleftrightarrow> (\<forall>(va, pa) \<in> set xs. \<forall>(va', pa') \<in> set xs.
     same_page sz va va' \<longrightarrow> ppn_of pa = ppn_of pa')"

lemma mapped_pages_other:
  "\<forall>(va, pa) \<in> set xs. \<not> same_page sz va va' \<Longrightarrow> mapped_pages sz xs f va' = f va'"
  by (induction sz xs f rule: mapped_pages.induct) (auto simp: mapped_def)

lemma mapped_pages_hit:
  "one_target sz xs \<Longrightarrow> (va, pa) \<in> set xs \<Longrightarrow> same_page sz va va' \<Longrightarrow>
   mapped_pages sz xs f va' = Some (ppn_of pa)"
proof (induction sz xs f arbitrary: va pa rule: mapped_pages.induct)
  case (2 sz va0 pa0 xs f)
  have tl: "one_target sz xs" using "2.prems"(1) by (auto simp: one_target_def)
  show ?case
  proof (cases "\<exists>va1 pa1. (va1, pa1) \<in> set xs \<and> same_page sz va1 va'")
    case True
    then obtain va1 pa1 where one: "(va1, pa1) \<in> set xs" "same_page sz va1 va'" by blast
    have "same_page sz va va1" using one(2) "2.prems"(3) by (simp add: same_page_def)
    then have "ppn_of pa1 = ppn_of pa"
      using "2.prems"(1,2) one(1) unfolding one_target_def by fastforce
    moreover have "mapped_pages sz xs (mapped sz va0 pa0 f) va' = Some (ppn_of pa1)"
      by (rule "2.IH" [OF tl one])
    ultimately show ?thesis by simp
  next
    case False
    then have "(va, pa) = (va0, pa0)" using "2.prems"(2,3) by auto
    moreover have "mapped_pages sz xs (mapped sz va0 pa0 f) va' = mapped sz va0 pa0 f va'"
      using False by (intro mapped_pages_other) auto
    ultimately show ?thesis using "2.prems"(3) by (simp add: mapped_def)
  qed
qed simp

locale address_space =
  fixes map_page :: "'s \<Rightarrow> u64 \<Rightarrow> u64 \<Rightarrow> u64 \<Rightarrow> u64 \<Rightarrow> (int \<times> 's) option"
    and lookup :: "'s \<Rightarrow> u64 \<Rightarrow> u64 option"
    and inv :: "'s \<Rightarrow> bool"
    and room :: "'s \<Rightarrow> u64 \<Rightarrow> u64 \<Rightarrow> bool"
    and exhausted :: "'s \<Rightarrow> bool"
    and frames :: "'s \<Rightarrow> nat"
  assumes map_page_cases: "inv s \<Longrightarrow> room s sz va \<Longrightarrow>
      (\<exists>s'. map_page s va pa sz p = Some (- 1, s') \<and> inv s' \<and> exhausted s' \<and> frames s < 3 \<and>
         lookup s' = lookup s) \<or>
      (\<exists>s'. map_page s va pa sz p = Some (0, s') \<and> inv s' \<and> frames s \<le> frames s' + 3 \<and>
         lookup s' = mapped sz va pa (lookup s))"
    and room_kept: "inv s \<Longrightarrow> room s sz va \<Longrightarrow> map_page s va pa sz p = Some (0, s') \<Longrightarrow>
      room s sz va' \<Longrightarrow> room s' sz va'"
begin

lemma map_pages_cases:
  assumes "inv s" "\<forall>(va, pa) \<in> set xs. room s sz va"
  shows "(\<exists>s'. map_pages (\<lambda>s va pa. map_page s va pa sz p) s xs = Some (False, s') \<and> inv s' \<and> exhausted s' \<and>
       frames s < 3 * length xs) \<or>
    (\<exists>s'. map_pages (\<lambda>s va pa. map_page s va pa sz p) s xs = Some (True, s') \<and> inv s' \<and>
       lookup s' = mapped_pages sz xs (lookup s))"
  using assms
proof (induction xs arbitrary: s)
  case (Cons x xs)
  obtain va pa where x: "x = (va, pa)" by (cases x)
  have room: "room s sz va" using Cons.prems(2) x by simp
  from map_page_cases [OF Cons.prems(1) room, of pa p] show ?case
  proof (elim disjE exE conjE)
    fix s1 assume "map_page s va pa sz p = Some (- 1, s1)" "inv s1" "exhausted s1" "frames s < 3"
    then show ?thesis by (simp add: x)
  next
    fix s1 assume s1: "map_page s va pa sz p = Some (0, s1)" "inv s1" "frames s \<le> frames s1 + 3"
      "lookup s1 = mapped sz va pa (lookup s)"
    have "\<forall>(va, pa) \<in> set xs. room s1 sz va"
      using Cons.prems room_kept [OF Cons.prems(1) room s1(1)] by auto
    from Cons.IH [OF s1(2) this] s1(3) show ?thesis by (auto simp: x s1(1,4))
  qed
qed simp

end

interpretation vm: address_space "\<lambda>ks. page_in ks r" "\<lambda>ks. translate ks r" "\<lambda>ks. pt_inv ks r"
  "\<lambda>ks. open_path ks r" "\<lambda>ks. free_set (kmmap ks) = {}" frames_left for r
proof
  fix ks sz va pa p
  assume inv: "pt_inv ks r" and room: "open_path ks r sz va"
  show "(\<exists>ks'. page_in ks r va pa sz p = Some (- 1, ks') \<and> pt_inv ks' r \<and> free_set (kmmap ks') = {} \<and>
        frames_left ks < 3 \<and> translate ks' r = translate ks r) \<or>
      (\<exists>ks'. page_in ks r va pa sz p = Some (0, ks') \<and> pt_inv ks' r \<and> frames_left ks \<le> frames_left ks' + 3 \<and>
        translate ks' r = mapped sz va pa (translate ks r))"
  proof (rule page_in_cases [OF inv room, of pa p])
    fix ks' assume "page_in ks r va pa sz p = Some (- 1, ks')" "quiet ks ks' r" "free_set (kmmap ks') = {}" "frames_left ks < 3"
    then show ?thesis unfolding quiet_def by blast
  next
    fix ks' assume "page_in ks r va pa sz p = Some (0, ks')" "pt_inv ks' r"
      "\<And>va'. translate ks' r va' = (if same_page sz va va' then Some (ppn_of pa) else translate ks r va')"
      "frames_left ks \<le> frames_left ks' + 3"
    then show ?thesis by (auto simp: mapped_def fun_eq_iff)
  qed
next
  fix ks sz va pa p ks' va'
  assume inv: "pt_inv ks r" and room: "open_path ks r sz va"
    and res: "page_in ks r va pa sz p = Some (0, ks')" and room': "open_path ks r sz va'"
  consider "sz = SUPER_PS" | "sz = HUGE_PS" | "sz \<noteq> SUPER_PS" "sz \<noteq> HUGE_PS" by blast
  then show "open_path ks' r sz va'"
  proof cases
    case 1
    then show ?thesis by (simp add: open_path_def)
  next
    case 2
    have "no_new_super (kmem ks) (kmem ks') r"
      by (rule page_in_cases [OF inv room, of pa p]) (use res 2 in auto)
    then show ?thesis using room' unfolding 2 by (rule open_path_keep_huge)
  next
    case 3
    have "no_new_huge (kmem ks) (kmem ks') r"
      by (rule page_in_cases [OF inv room, of pa p]) (use res 3 in auto)
    then show ?thesis by (rule open_path_keep [OF _ room'])
  qed
qed

section \<open>Mapping device memory\<close>

definition mmio_pages :: "u64 \<Rightarrow> nat \<Rightarrow> nat \<Rightarrow> (u64 \<times> u64) list" where
  "mmio_pages start m n = map (\<lambda>k. (MMIO_PHYS_TO_VIRT (start + of_nat (4096 * k)), start + of_nat (4096 * k))) [m..<n]"

lemma mmio_loop_pages:
  assumes sz: "unat sz + 4096 \<le> 18446744073709551616" and m: "m \<le> (unat sz + 4095) div 4096"
  shows "mmio_loop ks r start sz flags (of_nat (4096 * m)) =
    map_pages (\<lambda>ks va pa. page_in ks r va pa DEFAULT_PAGE_SIZE flags) ks (mmio_pages start m ((unat sz + 4095) div 4096))"
  using m
proof (induction "(unat sz + 4095) div 4096 - m" arbitrary: m ks)
  case 0
  then have "(unat sz + 4095) div 4096 = m" by simp
  then have "unat sz \<le> 4096 * m" by linarith
  moreover have "4096 * m \<le> unat sz + 4095" using 0 by linarith
  ultimately have "\<not> (of_nat (4096 * m) :: u64) < sz" using sz by (simp add: less_by_unat unat_of_nat_u64 del: of_nat_mult)
  then show ?case using 0 by (subst mmio_loop.simps) (simp add: mmio_pages_def)
next
  case (Suc d)
  then have lt: "m < (unat sz + 4095) div 4096" by simp
  then have "4096 * m < unat sz" by linarith
  then have i: "(of_nat (4096 * m) :: u64) < sz" using sz by (simp add: less_by_unat unat_of_nat_u64 del: of_nat_mult)
  have next_i: "(of_nat (4096 * m) :: u64) + DEFAULT_PAGE_SIZE = of_nat (4096 * Suc m)"
    by (simp add: DEFAULT_PAGE_SIZE_def)
  have "mmio_pages start m ((unat sz + 4095) div 4096) =
      (MMIO_PHYS_TO_VIRT (start + of_nat (4096 * m)), start + of_nat (4096 * m)) # mmio_pages start (Suc m) ((unat sz + 4095) div 4096)"
    unfolding mmio_pages_def using lt by (simp add: upt_conv_Cons)
  moreover have "mmio_loop ks' r start sz flags (of_nat (4096 * Suc m)) =
      map_pages (\<lambda>ks va pa. page_in ks r va pa DEFAULT_PAGE_SIZE flags) ks' (mmio_pages start (Suc m) ((unat sz + 4095) div 4096))" for ks'
    using Suc.hyps lt by (intro Suc.hyps(1)) simp_all
  ultimately show ?case
    using i by (subst mmio_loop.simps)
      (cases "page_in ks r (MMIO_PHYS_TO_VIRT (start + of_nat (4096 * m))) (start + of_nat (4096 * m)) DEFAULT_PAGE_SIZE flags",
       auto simp: next_i simp del: of_nat_mult mult_Suc_right)
qed

section \<open>Removing a page\<close>

lemma root_entry_cleared:
  assumes apart: "tables_apart m r" and i: "unat i < 512"
    and zero: "load64 m' (entry_at r i) = 0"
    and loads: "\<forall>q u j. path_ok q \<longrightarrow> tab m r q = Some u \<longrightarrow> unat j < 512 \<longrightarrow> \<not> suffix [i] (j # q) \<longrightarrow>
      load64 m' (entry_at u j) = load64 m (entry_at u j)"
  shows "path_ok q \<Longrightarrow> tab m' r q = (if suffix [i] q then None else tab m r q)"
    "path_ok q \<Longrightarrow> unat j < 512 \<Longrightarrow> \<not> suffix [i] (j # q) \<Longrightarrow> ent m' r (j # q) = ent m r (j # q)"
proof -
  have gone: "tab m' r (s @ [i]) = None" for s
    by (rule tab_extend_None) (simp add: zero points_def present_def)
  show tabs: "tab m' r q = (if suffix [i] q then None else tab m r q)" if "path_ok q" for q
  proof (cases "suffix [i] q")
    case True
    then show ?thesis using gone by (auto simp: suffix_def)
  next
    case False
    then show ?thesis using \<open>path_ok q\<close>
    proof (induction q)
      case (Cons j q)
      have no: "\<not> suffix [i] q" using Cons.prems(1) by (auto simp: suffix_Cons)
      have q: "path_ok q" "unat j < 512" using Cons.prems(2) by auto
      show ?case
      proof (cases "tab m r q")
        case (Some u)
        then show ?thesis using loads [rule_format, OF q(1) Some q(2) Cons.prems(1)] Cons.IH [OF no q(1)] no Cons.prems(1) by simp
      qed (use Cons.IH [OF no q(1)] no Cons.prems(1) in simp)
    qed simp
  qed
  assume q: "path_ok q" "unat j < 512" "\<not> suffix [i] (j # q)"
  have no: "\<not> suffix [i] q" using q(3) by (auto simp: suffix_Cons)
  show "ent m' r (j # q) = ent m r (j # q)"
  proof (cases "tab m r q")
    case (Some u)
    then show ?thesis using loads [rule_format, OF q(1) Some q(2,3)] tabs [OF q(1)] no by simp
  qed (use tabs [OF q(1)] no in simp)
qed

lemma page_out_cases:
  assumes inv: "pt_inv ks r" and opn: "open_path ks r DEFAULT_PAGE_SIZE va"
  obtains (error) err where "page_out ks r va = (err, ks)" "err \<in> {- 1, - 2, - 3}" "translate ks r va = None"
  | (cleared) ks' where "page_out ks r va = (0, ks')" "pt_inv ks' r" "kmmap ks' = kmmap ks"
      "\<And>va'. translate ks' r va' = (if VA_PML4_INDEX va' = VA_PML4_INDEX va then None else translate ks r va')"
proof -
  note ix = index_bound [of va] and ok = paths_ok [of va]
  let ?m = "kmem ks" and ?i4 = "VA_PML4_INDEX va" and ?i3 = "VA_PDPT_INDEX va" and ?i2 = "VA_PD_INDEX va" and ?i1 = "VA_PT_INDEX va"
  let ?e4 = "load_entry ks (entry_at r ?i4)"
  let ?t3 = "next_table ?e4"
  let ?e3 = "load_entry ks (entry_at ?t3 ?i3)"
  let ?t2 = "next_table ?e3"
  let ?e2 = "load_entry ks (entry_at ?t2 ?i2)"
  let ?t1 = "next_table ?e2"
  have apart: "tables_apart ?m r" using inv by (simp add: pt_inv_def)
  show thesis
  proof (cases "present ?e4")
    case False
    then have "translate ks r va = None"
      by (simp add: translate_def walk_ents_def paths_def points_def load_entry_def)
    then show thesis using False by (intro error [of "- 1"]) (simp_all add: page_out_def Let_def)
  next
    case e4: True
    then have t3: "tab ?m r (path1 va) = Some ?t3" by (simp add: path1_def points_def load_entry_def)
    have h3: "\<not> huge ?e3"
      using opn t3 by (simp add: open_path_def path2_def path1_def load_entry_def DEFAULT_PAGE_SIZE_def SUPER_PS_def)
    have p2: "path2 va = ?i3 # path1 va" and p3: "path3 va = ?i2 # path2 va" by (simp_all add: paths_def)
    have ent2: "ent ?m r (path2 va) = Some ?e3" using t3 by (simp add: p2 load_entry_def)
    show thesis
    proof (cases "present ?e3")
      case False
      then have "translate ks r va = None" using ent2 by (simp add: translate_def walk_ents_def)
      then show thesis using e4 False h3 by (intro error [of "- 2"]) (simp_all add: page_out_def Let_def)
    next
      case e3: True
      then have t2: "tab ?m r (path2 va) = Some ?t2" using t3 h3 by (simp add: p2 points_def load_entry_def)
      have h2: "\<not> huge ?e2"
        using opn t2 by (simp add: open_path_def p3 load_entry_def DEFAULT_PAGE_SIZE_def SUPER_PS_def HUGE_PS_def)
      have ent3: "ent ?m r (path3 va) = Some ?e2" using t2 by (simp add: p3 load_entry_def)
      show thesis
      proof (cases "present ?e2")
        case False
        then have "translate ks r va = None" using ent2 ent3 e3 h3 by (simp add: translate_def walk_ents_def)
        then show thesis using e4 e3 False h3 h2 by (intro error [of "- 3"]) (simp_all add: page_out_def Let_def)
      next
        case e2: True
        then have t1: "tab ?m r (path3 va) = Some ?t1" using t2 h2 by (simp add: p3 points_def load_entry_def)
        let ?ks' = "store_entry (store_entry (store_entry (store_entry ks (entry_at r ?i4) 0) (entry_at ?t3 ?i3) 0)
            (entry_at ?t2 ?i2) 0) (entry_at ?t1 ?i1) 0"
        have out: "page_out ks r va = (0, ?ks')" using e4 e3 e2 h3 h2 by (simp add: page_out_def Let_def)
        have r: "tab ?m r [] = Some r" by simp
        have okr: "path_ok []" by simp
        note al = tables_apartD(1) [OF apart okr r] tables_apartD(1) [OF apart ok(1) t3]
          tables_apartD(1) [OF apart ok(2) t2] tables_apartD(1) [OF apart ok(3) t1]
        note ea = entry_aligned [OF al(1) ix(1)] entry_aligned [OF al(2) ix(2)]
          entry_aligned [OF al(3) ix(3)] entry_aligned [OF al(4) ix(4)]
        have st: "load64 (kmem ?ks') (entry_at u j) =
            (if entry_at u j \<in> {entry_at ?t1 ?i1, entry_at ?t2 ?i2, entry_at ?t3 ?i3, entry_at r ?i4} then 0
             else load64 ?m (entry_at u j))" if u: "4096 dvd unat u" "unat j < 512" for u j
        proof -
          have s1: "load64 (store64 m (entry_at r ?i4) 0) (entry_at u j) = (if entry_at u j = entry_at r ?i4 then 0 else load64 m (entry_at u j))"
            "load64 (store64 m (entry_at ?t3 ?i3) 0) (entry_at u j) = (if entry_at u j = entry_at ?t3 ?i3 then 0 else load64 m (entry_at u j))"
            "load64 (store64 m (entry_at ?t2 ?i2) 0) (entry_at u j) = (if entry_at u j = entry_at ?t2 ?i2 then 0 else load64 m (entry_at u j))"
            "load64 (store64 m (entry_at ?t1 ?i1) 0) (entry_at u j) = (if entry_at u j = entry_at ?t1 ?i1 then 0 else load64 m (entry_at u j))" for m
            using ea by (simp_all only: load64_store64 [OF _ entry_aligned [OF u]])
          have "kmem ?ks' = store64 (store64 (store64 (store64 ?m (entry_at r ?i4) 0) (entry_at ?t3 ?i3) 0) (entry_at ?t2 ?i2) 0) (entry_at ?t1 ?i1) 0"
            by (simp add: store_entry_def)
          then show ?thesis by (simp only: s1) simp
        qed
        have zero: "load64 (kmem ?ks') (entry_at r ?i4) = 0" using st [OF al(1) ix(1)] by simp
        have other: "load64 (kmem ?ks') (entry_at u j) = load64 ?m (entry_at u j)"
          if q: "path_ok q" "tab ?m r q = Some u" "unat j < 512" "\<not> suffix [?i4] (j # q)" for q u j
        proof -
          note ua = tables_apartD(1) [OF apart q(1,2)]
          have no: "\<not> suffix [?i4] q" "j # q \<noteq> [?i4]" using q(4) by (auto simp: suffix_Cons)
          have "entry_at u j \<noteq> entry_at t i"
            if t: "path_ok p" "tab ?m r p = Some t" "unat i < 512" "p = q \<longrightarrow> i \<noteq> j" for p t i
          proof
            assume "entry_at u j = entry_at t i"
            then have "u = t \<and> j = i"
              by (rule entry_at_inject [OF ua q(3) tables_apartD(1) [OF apart t(1,2)] t(3)])
            then show False using tables_apartD(2) [OF apart q(1,2) t(1)] t by auto
          qed
          note ne = this
          have "suffix [?i4] (path1 va)" "suffix [?i4] (path2 va)" "suffix [?i4] (path3 va)"
            by (simp_all add: paths_def suffix_Cons)
          then have q_ne: "path1 va \<noteq> q" "path2 va \<noteq> q" "path3 va \<noteq> q" using no(1) by auto
          have "[] = q \<longrightarrow> ?i4 \<noteq> j" using no(2) by auto
          then have "entry_at u j \<notin> {entry_at ?t1 ?i1, entry_at ?t2 ?i2, entry_at ?t3 ?i3, entry_at r ?i4}"
            using ne [OF ok(1) t3 ix(2)] ne [OF ok(2) t2 ix(3)] ne [OF ok(3) t1 ix(4)] ne [OF okr r ix(1)] q_ne
            by blast
          then show ?thesis unfolding st [OF ua q(3)] by (rule if_not_P)
        qed
        have others: "\<forall>q u j. path_ok q \<longrightarrow> tab ?m r q = Some u \<longrightarrow> unat j < 512 \<longrightarrow> \<not> suffix [?i4] (j # q) \<longrightarrow>
            load64 (kmem ?ks') (entry_at u j) = load64 ?m (entry_at u j)"
          using other by blast
        note cl = root_entry_cleared [OF apart ix(1) zero others]
        have sub: "tab ?m r q = Some u" if "path_ok q" "tab (kmem ?ks') r q = Some u" for q u
          using that(2) unfolding cl(1) [OF that(1)] by (simp split: if_splits)
        have "tables_apart (kmem ?ks') r"
          using apart unfolding tables_apart_def by (meson sub)
        moreover have "tables_not_free (kmem ?ks') r (free_set (kmmap ks))"
          using inv unfolding pt_inv_def tables_not_free_def by (meson sub)
        ultimately have "pt_inv ?ks' r" using inv by (simp add: pt_inv_def store_entry_def)
        moreover have "translate ?ks' r va' = (if VA_PML4_INDEX va' = ?i4 then None else translate ks r va')" for va'
        proof (cases "VA_PML4_INDEX va' = ?i4")
          case True
          then have "tab (kmem ?ks') r (path1 va') = None"
            using cl(1) [OF paths_ok(1), of va'] by (simp add: path1_def suffix_def)
          then show ?thesis using True by (simp add: translate_def walk_ents_def path1_def path2_def)
        next
          case False
          then show ?thesis
            using cl(2) [of "path1 va'" "VA_PDPT_INDEX va'"] cl(2) [of "path2 va'" "VA_PD_INDEX va'"]
              cl(2) [of "path3 va'" "VA_PT_INDEX va'"] paths_ok [of va'] index_bound [of va']
            by (simp add: translate_def paths_def suffix_Cons del: ent.simps)
        qed
        moreover have "kmmap ?ks' = kmmap ks" by (simp add: store_entry_def)
        ultimately show thesis using cleared [OF out] by blast
      qed
    qed
  qed
qed

section \<open>Properties\<close>

lemma mmio_page_number: "ppn_of x = take_bit 28 (drop_bit 12 (MMIO_PHYS_TO_VIRT x))"
proof -
  have "unat (take_bit 40 (x + KERNEL_MMIO)) = (unat x + 1099511627776 * 16777214) mod 18446744073709551616 mod 1099511627776"
    by (simp only: unsigned_take_bit_eq) (simp add: take_bit_eq_mod unat_word_ariths KERNEL_MMIO_def)
  also have "\<dots> = (unat x + 1099511627776 * 16777214) mod 1099511627776" by (rule mod_mod_cancel) simp
  also have "\<dots> = unat x mod 1099511627776" by (rule mod_mult_self2)
  also have "\<dots> = unat (take_bit 40 x)" by (simp only: unsigned_take_bit_eq) (simp add: take_bit_eq_mod)
  finally have eq: "take_bit 40 (x + KERNEL_MMIO) = take_bit 40 x" by (simp add: word_eq_by_unat)
  have "take_bit 28 (drop_bit 12 y) = drop_bit 12 (take_bit 40 y)" for y :: u64
    by (rule bit_word_eqI) (auto simp: bit_simps)
  then show ?thesis by (simp add: ppn_of_def MMIO_PHYS_TO_VIRT_def eq)
qed

lemma mmio_one_target: "one_target DEFAULT_PAGE_SIZE (mmio_pages start m n)"
proof -
  have "ppn_of pa = ppn_of pa'"
    if "va = MMIO_PHYS_TO_VIRT pa" "va' = MMIO_PHYS_TO_VIRT pa'" "same_page DEFAULT_PAGE_SIZE va va'" for va va' pa pa'
  proof -
    have "drop_bit 12 (take_bit 48 va) = drop_bit 12 (take_bit 48 va')" using that(3) same_page_iff(1) by simp
    moreover have "take_bit 28 (drop_bit 12 v) = take_bit 28 (drop_bit 12 (take_bit 48 v))" for v :: u64
      by (rule bit_word_eqI) (auto simp: bit_simps)
    ultimately show ?thesis using that(1,2) mmio_page_number by metis
  qed
  then show ?thesis unfolding one_target_def mmio_pages_def by auto
qed

text \<open>Kernel memory that is all zero, with the root table at 4 KiB and the 64 free frames of
  \<^const>\<open>example_map\<close>.\<close>

definition blank :: kstate where
  "blank = \<lparr>kmem = (\<lambda>_. 0), kmmap = example_map\<rparr>"

definition blank_root :: u64 where
  "blank_root = KERNEL_PHYS_TO_VIRT 0x1000"

lemma load_blank: "load64 (\<lambda>_. 0) a = 0"
  by (rule bit_word_eqI) (simp add: bit_load64)

lemma blank_tab: "tab (kmem blank) r p = (if p = [] then Some r else None)"
  by (cases p) (auto simp: blank_def load_blank points_def present_def split: option.split)

lemma example_free_set: "free_set example_map = {0x100000 + 4096 * k | k. k < 64}"
  by (auto simp: free_set_def free_slot_def example_maps_at example_maps_slots one_region_simps)

lemma blank_ent: "ent (kmem blank) r (j # q) = (if q = [] then Some 0 else None)"
  by (simp add: blank_tab) (simp add: blank_def load_blank)

lemma blank_inv: "pt_inv blank blank_root"
proof -
  have "4096 dvd unat blank_root" unfolding blank_root_def by (rule frame_page) simp
  then have "tables_apart (kmem blank) blank_root" by (simp add: tables_apart_def blank_tab)
  moreover have "tables_not_free (kmem blank) blank_root (free_set (kmmap blank))"
    by (simp add: tables_not_free_def blank_tab) (auto simp: blank_def example_free_set blank_root_def)
  moreover have "low_frames example_map" by (auto simp: low_frames_def example_free_set)
  ultimately show ?thesis using example_maps_wf(1) by (simp add: pt_inv_def blank_def)
qed

lemma blank_open: "open_path blank blank_root sz va"
  by (simp add: open_path_def paths_def blank_ent del: ent.simps)

lemma blank_translate: "translate blank blank_root va = None"
  by (simp add: translate_def walk_ents_def paths_def blank_ent del: ent.simps)

lemma blank_frames: "frames_left blank = 64"
proof -
  have "free_set example_map = (\<lambda>k. 0x100000 + 4096 * k) ` {..<64}" by (auto simp: example_free_set)
  then show ?thesis by (simp add: frames_left_def blank_def card_image inj_on_def)
qed

lemma blank_page_in:
  obtains ks' where "page_in blank blank_root va phys DEFAULT_PAGE_SIZE perms = Some (0, ks')" "pt_inv ks' blank_root"
    "\<And>va'. translate ks' blank_root va' =
      (if same_page DEFAULT_PAGE_SIZE va va' then Some (ppn_of phys) else translate blank blank_root va')"
    "no_new_huge (kmem blank) (kmem ks') blank_root"
proof (rule page_in_cases [OF blank_inv blank_open, where sz = DEFAULT_PAGE_SIZE and va = va and phys = phys and perms = perms])
  fix ks' assume "page_in blank blank_root va phys DEFAULT_PAGE_SIZE perms = Some (0, ks')" "pt_inv ks' blank_root"
    "\<And>va'. translate ks' blank_root va' =
      (if same_page DEFAULT_PAGE_SIZE va va' then Some (ppn_of phys) else translate blank blank_root va')"
    "DEFAULT_PAGE_SIZE \<noteq> SUPER_PS \<Longrightarrow> DEFAULT_PAGE_SIZE \<noteq> HUGE_PS \<Longrightarrow> no_new_huge (kmem blank) (kmem ks') blank_root"
  then show thesis using that by (simp add: DEFAULT_PAGE_SIZE_def SUPER_PS_def HUGE_PS_def)
qed (simp add: blank_frames)

text \<open>C3. \<^verbatim>\<open>page_in\<close> with a page of any of the three sizes always returns.  Without error, exactly
  the addresses of that page now translate to the given frame and every other translation is as before; the only error
  is that no frame was left for a table, and then no translation has changed.  The tables stay well-formed.\<close>

theorem page_in_translates:
  assumes "pt_inv ks r" "open_path ks r sz va"
  shows "\<exists>err ks'. page_in ks r va phys sz perms = Some (err, ks') \<and> pt_inv ks' r \<and>
     (if err = 0 then translate ks' r = (\<lambda>va'. if same_page sz va va' then Some (ppn_of phys) else translate ks r va')
      else err = - 1 \<and> free_set (kmmap ks') = {} \<and> frames_left ks < 3 \<and> translate ks' r = translate ks r)"
proof (rule page_in_cases [OF assms, of phys perms])
  fix ks' assume "page_in ks r va phys sz perms = Some (- 1, ks')" "quiet ks ks' r" "free_set (kmmap ks') = {}"
    "frames_left ks < 3"
  moreover from this(2) have "pt_inv ks' r" "translate ks' r = translate ks r" by (auto simp: quiet_def)
  ultimately show ?thesis by (intro exI [of _ "- 1"] exI [of _ ks']) simp
next
  fix ks' assume "page_in ks r va phys sz perms = Some (0, ks')" "pt_inv ks' r"
    "\<And>va'. translate ks' r va' = (if same_page sz va va' then Some (ppn_of phys) else translate ks r va')"
  then show ?thesis by (intro exI [of _ 0] exI [of _ ks']) (simp add: fun_eq_iff)
qed

theorem page_in_translates_witness:
  "\<exists>err ks'. page_in blank blank_root 0xFFFFFF0000001000 0x5000 DEFAULT_PAGE_SIZE WRITEABLE = Some (err, ks') \<and>
     pt_inv ks' blank_root \<and> err = 0 \<and> translate ks' blank_root 0xFFFFFF0000001ABC = Some 5"
proof -
  obtain err ks' where res: "page_in blank blank_root 0xFFFFFF0000001000 0x5000 DEFAULT_PAGE_SIZE WRITEABLE = Some (err, ks')"
    "pt_inv ks' blank_root"
    "if err = 0 then translate ks' blank_root = (\<lambda>va'. if same_page DEFAULT_PAGE_SIZE 0xFFFFFF0000001000 va'
        then Some (ppn_of 0x5000) else translate blank blank_root va')
      else err = - 1 \<and> free_set (kmmap ks') = {} \<and> frames_left blank < 3 \<and> translate ks' blank_root = translate blank blank_root"
    using page_in_translates [OF blank_inv blank_open, of "0xFFFFFF0000001000" "0x5000" DEFAULT_PAGE_SIZE WRITEABLE] by blast
  have "err = 0" using res(3) blank_frames by (auto split: if_splits)
  moreover have "same_page DEFAULT_PAGE_SIZE 0xFFFFFF0000001000 0xFFFFFF0000001ABC"
    unfolding same_page_iff(1) by (simp add: take_bit_eq_mod drop_bit_eq_div)
  moreover have "ppn_of 0x5000 = 5" by (simp add: ppn_of_def take_bit_eq_mod drop_bit_eq_div)
  ultimately show ?thesis using res by auto
qed

text \<open>C4. \<^verbatim>\<open>walk_table\<close> finds what \<^verbatim>\<open>page_in\<close> mapped: for a frame below 2 GiB
  it returns the frame's address for every address of the page, and for every other address what it returned before.\<close>

theorem walk_after_page_in:
  assumes "pt_inv ks r" "open_path ks r sz va" "3 \<le> frames_left ks" "unat phys < 2147483648"
  shows "\<exists>ks'. page_in ks r va phys sz perms = Some (0, ks') \<and>
     walk_table ks' r = (\<lambda>va'. if same_page sz va va' then phys AND NOT 0xFFF else walk_table ks r va')"
proof (rule page_in_cases [OF assms(1,2), of phys perms])
  fix ks' assume "page_in ks r va phys sz perms = Some (0, ks')"
    "\<And>va'. translate ks' r va' = (if same_page sz va va' then Some (ppn_of phys) else translate ks r va')"
  then show ?thesis using shifted_ppn_low [OF assms(4)]
    by (intro exI [of _ ks']) (simp add: fun_eq_iff walk_table_translate)
qed (use assms(3) in simp)

theorem walk_after_page_in_witness:
  "\<exists>ks'. page_in blank blank_root 0xFFFFFF0000200000 0x40200000 HUGE_PS WRITEABLE = Some (0, ks') \<and>
     walk_table ks' blank_root 0xFFFFFF00002ABCDE = 0x40200000 \<and>
     walk_table ks' blank_root 0xFFFFFF0000400000 = INVALID_PHYS_ADDR"
proof -
  obtain ks' where ks': "page_in blank blank_root 0xFFFFFF0000200000 0x40200000 HUGE_PS WRITEABLE = Some (0, ks')"
    "walk_table ks' blank_root = (\<lambda>va'. if same_page HUGE_PS 0xFFFFFF0000200000 va'
       then 0x40200000 AND NOT 0xFFF else walk_table blank blank_root va')"
    using walk_after_page_in [OF blank_inv blank_open, where phys = "0x40200000" and sz = HUGE_PS and va = "0xFFFFFF0000200000" and perms = WRITEABLE] blank_frames
    by auto
  have "same_page HUGE_PS 0xFFFFFF0000200000 0xFFFFFF00002ABCDE" "\<not> same_page HUGE_PS 0xFFFFFF0000200000 0xFFFFFF0000400000"
    unfolding same_page_iff(2) by (simp_all add: take_bit_eq_mod drop_bit_eq_div)
  moreover have "walk_table blank blank_root va = INVALID_PHYS_ADDR" for va
    by (simp add: walk_table_translate blank_translate)
  ultimately show ?thesis using ks' by simp
qed

text \<open>For a frame at 4 GiB \<^verbatim>\<open>walk_table\<close> returns address 0, although the entry holds the
  right page number: the shift by 12 is done in 32 bits.\<close>

theorem walk_above_4GiB_wrong:
  assumes "pt_inv ks r" "open_path ks r DEFAULT_PAGE_SIZE va" "3 \<le> frames_left ks"
  shows "\<exists>ks'. page_in ks r va 0x100000000 DEFAULT_PAGE_SIZE perms = Some (0, ks') \<and>
     translate ks' r va = Some 0x100000 \<and> walk_table ks' r va = 0"
proof (rule page_in_cases [OF assms(1,2), of "0x100000000" perms])
  fix ks' assume "page_in ks r va 0x100000000 DEFAULT_PAGE_SIZE perms = Some (0, ks')"
    "\<And>va'. translate ks' r va' = (if same_page DEFAULT_PAGE_SIZE va va' then Some (ppn_of 0x100000000) else translate ks r va')"
  moreover have "ppn_of 0x100000000 = 0x100000" by (simp add: ppn_of_def take_bit_eq_mod drop_bit_eq_div)
  moreover have "shifted_ppn 0x100000 = 0" by (simp add: shifted_ppn_def push_bit_eq_mult)
  ultimately show ?thesis by (intro exI [of _ ks']) (simp add: walk_table_translate same_page_def)
qed (use assms(3) in simp)

theorem walk_above_4GiB_wrong_witness:
  "\<exists>ks'. page_in blank blank_root 0xFFFFFF0000000000 0x100000000 DEFAULT_PAGE_SIZE WRITEABLE = Some (0, ks') \<and>
     translate ks' blank_root 0xFFFFFF0000000000 = Some 0x100000 \<and> walk_table ks' blank_root 0xFFFFFF0000000000 = 0"
  using walk_above_4GiB_wrong [OF blank_inv blank_open] blank_frames by simp

lemma map_mmio_cases:
  assumes inv: "pt_inv ks (KERNEL_PHYS_TO_VIRT cr3)" and sz: "unat sz + 4096 \<le> 18446744073709551616"
    and opn: "\<forall>k < (unat sz + 4095) div 4096. open_path ks (KERNEL_PHYS_TO_VIRT cr3) DEFAULT_PAGE_SIZE
      (MMIO_PHYS_TO_VIRT (ALIGN_DOWN phys DEFAULT_PAGE_SIZE + of_nat (4096 * k)))"
  obtains (failed) ks' where "map_mmio ks cr3 phys sz flags = Some (FRAME_ALLOC_FAILED, ks')"
      "pt_inv ks' (KERNEL_PHYS_TO_VIRT cr3)" "free_set (kmmap ks') = {}"
  | (mapped) ks' where "map_mmio ks cr3 phys sz flags = Some (MMIO_PHYS_TO_VIRT phys, ks')"
      "pt_inv ks' (KERNEL_PHYS_TO_VIRT cr3)"
      "translate ks' (KERNEL_PHYS_TO_VIRT cr3) =
         mapped_pages DEFAULT_PAGE_SIZE (mmio_pages (ALIGN_DOWN phys DEFAULT_PAGE_SIZE) 0 ((unat sz + 4095) div 4096))
           (translate ks (KERNEL_PHYS_TO_VIRT cr3))"
proof -
  let ?r = "KERNEL_PHYS_TO_VIRT cr3" and ?xs = "mmio_pages (ALIGN_DOWN phys DEFAULT_PAGE_SIZE) 0 ((unat sz + 4095) div 4096)"
  have loop: "mmio_loop ks ?r (ALIGN_DOWN phys DEFAULT_PAGE_SIZE) sz flags 0 =
      map_pages (\<lambda>ks va pa. page_in ks ?r va pa DEFAULT_PAGE_SIZE flags) ks ?xs"
    using mmio_loop_pages [OF sz, of 0 ks ?r "ALIGN_DOWN phys DEFAULT_PAGE_SIZE" flags] by simp
  have "\<forall>(va, pa) \<in> set ?xs. open_path ks ?r DEFAULT_PAGE_SIZE va" using opn by (auto simp: mmio_pages_def)
  from vm.map_pages_cases [OF inv this, of flags] show thesis
    by (elim disjE exE conjE) (auto simp: map_mmio_def loop intro: failed mapped)
qed

text \<open>C24. \<^verbatim>\<open>map_mmio\<close> always returns for a range of up to \<open>2 ^ 64 - 4096\<close> bytes.  On success each
  of the pages it counts, from the page of the physical address on, translates to its device frame at the returned
  offset, and no other translation has changed; on failure no frame was left.\<close>

theorem map_mmio_translates:
  assumes "pt_inv ks (KERNEL_PHYS_TO_VIRT cr3)" "unat sz + 4096 \<le> 18446744073709551616"
    and "\<forall>k < (unat sz + 4095) div 4096. open_path ks (KERNEL_PHYS_TO_VIRT cr3) DEFAULT_PAGE_SIZE
      (MMIO_PHYS_TO_VIRT (ALIGN_DOWN phys DEFAULT_PAGE_SIZE + of_nat (4096 * k)))"
  shows "\<exists>res ks'. map_mmio ks cr3 phys sz flags = Some (res, ks') \<and> pt_inv ks' (KERNEL_PHYS_TO_VIRT cr3) \<and>
    (res = FRAME_ALLOC_FAILED \<and> free_set (kmmap ks') = {} \<or>
     res = MMIO_PHYS_TO_VIRT phys \<and>
     (\<forall>va. translate ks' (KERNEL_PHYS_TO_VIRT cr3) va =
        (if \<exists>k < (unat sz + 4095) div 4096.
              same_page DEFAULT_PAGE_SIZE (MMIO_PHYS_TO_VIRT (ALIGN_DOWN phys DEFAULT_PAGE_SIZE + of_nat (4096 * k))) va
         then Some (take_bit 28 (drop_bit 12 va))
         else translate ks (KERNEL_PHYS_TO_VIRT cr3) va)))"
proof (rule map_mmio_cases [OF assms, of flags])
  fix ks' let ?r = "KERNEL_PHYS_TO_VIRT cr3" and ?s = "ALIGN_DOWN phys DEFAULT_PAGE_SIZE" and ?n = "(unat sz + 4095) div 4096"
  assume res: "map_mmio ks cr3 phys sz flags = Some (MMIO_PHYS_TO_VIRT phys, ks')" "pt_inv ks' ?r"
    "translate ks' ?r = mapped_pages DEFAULT_PAGE_SIZE (mmio_pages ?s 0 ?n) (translate ks ?r)"
  have "translate ks' ?r va = (if \<exists>k < ?n. same_page DEFAULT_PAGE_SIZE (MMIO_PHYS_TO_VIRT (?s + of_nat (4096 * k))) va
      then Some (take_bit 28 (drop_bit 12 va)) else translate ks ?r va)" for va
  proof (cases "\<exists>k < ?n. same_page DEFAULT_PAGE_SIZE (MMIO_PHYS_TO_VIRT (?s + of_nat (4096 * k))) va")
    case True
    then obtain k where k: "k < ?n" "same_page DEFAULT_PAGE_SIZE (MMIO_PHYS_TO_VIRT (?s + of_nat (4096 * k))) va" by blast
    let ?pa = "?s + of_nat (4096 * k)"
    have "(MMIO_PHYS_TO_VIRT ?pa, ?pa) \<in> set (mmio_pages ?s 0 ?n)" using k(1) unfolding mmio_pages_def by auto
    from mapped_pages_hit [OF mmio_one_target this k(2)] have "translate ks' ?r va = Some (ppn_of ?pa)"
      unfolding res(3) .
    moreover have "ppn_of ?pa = take_bit 28 (drop_bit 12 va)"
    proof -
      have "drop_bit 12 (take_bit 48 (MMIO_PHYS_TO_VIRT ?pa)) = drop_bit 12 (take_bit 48 va)"
        using k(2) same_page_iff(1) by simp
      moreover have "take_bit 28 (drop_bit 12 v) = take_bit 28 (drop_bit 12 (take_bit 48 v))" for v :: u64
        by (rule bit_word_eqI) (auto simp: bit_simps)
      ultimately show ?thesis unfolding mmio_page_number by metis
    qed
    ultimately show ?thesis using True by simp
  next
    case False
    then have "\<forall>(va', pa') \<in> set (mmio_pages ?s 0 ?n). \<not> same_page DEFAULT_PAGE_SIZE va' va"
      unfolding mmio_pages_def by auto
    then have "translate ks' ?r va = translate ks ?r va" unfolding res(3) by (rule mapped_pages_other)
    then show ?thesis using False by (simp only: if_False)
  qed
  with res(1,2) show ?thesis by blast
qed blast

theorem map_mmio_translates_witness:
  "\<exists>res ks'. map_mmio blank 0x1000 0xFEE00000 0x1000 WRITEABLE = Some (res, ks') \<and> pt_inv ks' blank_root \<and>
    (res = FRAME_ALLOC_FAILED \<and> free_set (kmmap ks') = {} \<or>
     res = 0xFFFFFE00FEE00000 \<and> translate ks' blank_root 0xFFFFFE00FEE00320 = Some 0xFEE00)"
proof -
  have one: "(unat (0x1000 :: u64) + 4095) div 4096 = 1" by simp
  have al: "ALIGN_DOWN 0xFEE00000 DEFAULT_PAGE_SIZE = 0xFEE00000" by (simp add: ALIGN_DOWN_def DEFAULT_PAGE_SIZE_def)
  have sp: "same_page DEFAULT_PAGE_SIZE (MMIO_PHYS_TO_VIRT (0xFEE00000 + of_nat (4096 * 0))) 0xFFFFFE00FEE00320"
    unfolding same_page_iff(1) by (simp add: MMIO_PHYS_TO_VIRT_def KERNEL_MMIO_def take_bit_eq_mod drop_bit_eq_div)
  obtain res ks' where res: "map_mmio blank 0x1000 0xFEE00000 0x1000 WRITEABLE = Some (res, ks')" "pt_inv ks' blank_root"
    "res = FRAME_ALLOC_FAILED \<and> free_set (kmmap ks') = {} \<or>
     res = MMIO_PHYS_TO_VIRT 0xFEE00000 \<and>
     (\<forall>va. translate ks' blank_root va =
        (if \<exists>k < 1. same_page DEFAULT_PAGE_SIZE (MMIO_PHYS_TO_VIRT (0xFEE00000 + of_nat (4096 * k))) va
         then Some (take_bit 28 (drop_bit 12 va)) else translate blank blank_root va))"
    using map_mmio_translates [of blank "0x1000" "0x1000" "0xFEE00000" WRITEABLE] blank_inv blank_open
    unfolding one al blank_root_def [symmetric] by auto
  have "take_bit 28 (drop_bit 12 (0xFFFFFE00FEE00320 :: u64)) = 0xFEE00" by (simp add: take_bit_eq_mod drop_bit_eq_div)
  moreover have "MMIO_PHYS_TO_VIRT 0xFEE00000 = 0xFFFFFE00FEE00000" by (simp add: MMIO_PHYS_TO_VIRT_def KERNEL_MMIO_def)
  ultimately show ?thesis using res sp by auto
qed

text \<open>\<^verbatim>\<open>map_mmio\<close> counts its pages from the start of the page of the address but stops after
  the given number of bytes, so a range that crosses a page boundary can lose its last page: of two bytes at
  \<open>0xFEE00FFF\<close> the second one stays unmapped although the call succeeds.\<close>

theorem map_mmio_loses_last_page:
  "\<exists>ks'. map_mmio blank 0x1000 0xFEE00FFF 2 WRITEABLE = Some (MMIO_PHYS_TO_VIRT 0xFEE00FFF, ks') \<and>
     translate ks' blank_root (MMIO_PHYS_TO_VIRT 0xFEE00FFF) = Some 0xFEE00 \<and>
     translate ks' blank_root (MMIO_PHYS_TO_VIRT (0xFEE00FFF + 1)) = None"
proof -
  have al: "ALIGN_DOWN 0xFEE00FFF DEFAULT_PAGE_SIZE = 0xFEE00000" by (simp add: ALIGN_DOWN_def DEFAULT_PAGE_SIZE_def)
  let ?va = "MMIO_PHYS_TO_VIRT 0xFEE00000"
  obtain ks' where ks': "page_in blank blank_root ?va 0xFEE00000 DEFAULT_PAGE_SIZE WRITEABLE = Some (0, ks')"
    "\<And>va'. translate ks' blank_root va' =
      (if same_page DEFAULT_PAGE_SIZE ?va va' then Some (ppn_of 0xFEE00000) else translate blank blank_root va')"
    using blank_page_in [of ?va "0xFEE00000" WRITEABLE] by blast
  have "mmio_loop blank blank_root 0xFEE00000 2 WRITEABLE 0 = Some (True, ks')"
    using ks'(1) by (subst mmio_loop.simps, simp, subst mmio_loop.simps) (simp add: DEFAULT_PAGE_SIZE_def)
  then have "map_mmio blank 0x1000 0xFEE00FFF 2 WRITEABLE = Some (MMIO_PHYS_TO_VIRT 0xFEE00FFF, ks')"
    by (simp add: map_mmio_def al blank_root_def [symmetric])
  moreover have "same_page DEFAULT_PAGE_SIZE ?va (MMIO_PHYS_TO_VIRT 0xFEE00FFF)"
    "\<not> same_page DEFAULT_PAGE_SIZE ?va (MMIO_PHYS_TO_VIRT (0xFEE00FFF + 1))"
    unfolding same_page_iff(1) by (simp_all add: MMIO_PHYS_TO_VIRT_def KERNEL_MMIO_def take_bit_eq_mod drop_bit_eq_div)
  moreover have "ppn_of 0xFEE00000 = 0xFEE00" by (simp add: ppn_of_def take_bit_eq_mod drop_bit_eq_div)
  ultimately show ?thesis using ks'(2) blank_translate by auto
qed

text \<open>C25. \<^verbatim>\<open>page_out\<close> of a 4 KiB page either reports a missing table and changes nothing, or clears the
  root entry, after which the whole 512 GiB that share it have lost their translations and not only the page; other root
  entries are not affected.\<close>

theorem page_out_clears_root_entry:
  assumes "pt_inv ks r" "open_path ks r DEFAULT_PAGE_SIZE va"
  shows "\<exists>err ks'. page_out ks r va = (err, ks') \<and> pt_inv ks' r \<and>
     (if err = 0 then translate ks' r = (\<lambda>va'. if VA_PML4_INDEX va' = VA_PML4_INDEX va then None else translate ks r va')
      else err \<in> {- 1, - 2, - 3} \<and> ks' = ks \<and> translate ks r va = None)"
proof (rule page_out_cases [OF assms])
  fix err assume "page_out ks r va = (err, ks)" "err \<in> {- 1, - 2, - 3}" "translate ks r va = None"
  with assms(1) show ?thesis by (intro exI [of _ err] exI [of _ ks]) auto
next
  fix ks' assume "page_out ks r va = (0, ks')" "pt_inv ks' r"
    "\<And>va'. translate ks' r va' = (if VA_PML4_INDEX va' = VA_PML4_INDEX va then None else translate ks r va')"
  then show ?thesis by (intro exI [of _ 0] exI [of _ ks']) (simp add: fun_eq_iff)
qed

theorem page_out_clears_root_entry_witness:
  "\<exists>ks1 ks2. page_in blank blank_root 0xFFFFFF0000000000 0x5000 DEFAULT_PAGE_SIZE WRITEABLE = Some (0, ks1) \<and>
     translate ks1 blank_root 0xFFFFFF0000000000 = Some 5 \<and>
     page_out ks1 blank_root 0xFFFFFF0000000000 = (0, ks2) \<and> translate ks2 blank_root 0xFFFFFF0000000000 = None"
proof -
  obtain ks1 where ks1: "page_in blank blank_root 0xFFFFFF0000000000 0x5000 DEFAULT_PAGE_SIZE WRITEABLE = Some (0, ks1)"
    "pt_inv ks1 blank_root" "\<And>va'. translate ks1 blank_root va' =
      (if same_page DEFAULT_PAGE_SIZE 0xFFFFFF0000000000 va' then Some (ppn_of 0x5000) else translate blank blank_root va')"
    "no_new_huge (kmem blank) (kmem ks1) blank_root"
    using blank_page_in [of "0xFFFFFF0000000000" "0x5000" WRITEABLE] by blast
  have opn: "open_path ks1 blank_root DEFAULT_PAGE_SIZE 0xFFFFFF0000000000"
    by (rule open_path_keep [OF ks1(4) blank_open])
  have t1: "translate ks1 blank_root 0xFFFFFF0000000000 = Some 5"
    using ks1(3) by (simp add: same_page_def ppn_of_def take_bit_eq_mod drop_bit_eq_div)
  obtain err ks2 where out: "page_out ks1 blank_root 0xFFFFFF0000000000 = (err, ks2)"
    "if err = 0 then translate ks2 blank_root = (\<lambda>va'. if VA_PML4_INDEX va' = VA_PML4_INDEX 0xFFFFFF0000000000 then None
       else translate ks1 blank_root va')
     else err \<in> {- 1, - 2, - 3} \<and> ks2 = ks1 \<and> translate ks1 blank_root 0xFFFFFF0000000000 = None"
    using page_out_clears_root_entry [OF ks1(2) opn] by blast
  then have "err = 0" using t1 by (auto split: if_splits)
  then show ?thesis using ks1(1) t1 out by auto
qed

text \<open>The indices of the four levels and the offset are the parts of an address: together they give back its low 48
  bits, the offsets in larger pages are made of the lower parts, an address is canonical exactly when it is the sign extension of its low 48 bits, and
  so two canonical addresses with the same parts are the same.\<close>

theorem address_parts:
  "push_bit 39 (VA_PML4_INDEX va) OR push_bit 30 (VA_PDPT_INDEX va) OR push_bit 21 (VA_PD_INDEX va) OR push_bit 12 (VA_PT_INDEX va) OR
     VA_OFFSET_4K va = take_bit 48 va \<and>
   VA_OFFSET_2M va = push_bit 12 (VA_PT_INDEX va) OR VA_OFFSET_4K va \<and>
   VA_OFFSET_1G va = push_bit 21 (VA_PD_INDEX va) OR VA_OFFSET_2M va \<and>
   (VA_IS_CANONICAL_48 va \<longleftrightarrow> signed_take_bit 47 va = va) \<and>
   inj_on (\<lambda>va. (path4 va, VA_OFFSET_4K va)) {va. VA_IS_CANONICAL_48 va}"
proof -
  have masks: "(0x1FF :: u64) = mask 9" "(0xFFF :: u64) = mask 12" "(0x1FFFFF :: u64) = mask 21" "(0x3FFFFFFF :: u64) = mask 30"
    by (simp_all add: mask_eq_decr_exp)
  note defs = VA_PML4_INDEX_def VA_PDPT_INDEX_def VA_PD_INDEX_def VA_PT_INDEX_def VA_OFFSET_4K_def VA_OFFSET_2M_def VA_OFFSET_1G_def masks
  have whole: "push_bit 39 (VA_PML4_INDEX va) OR push_bit 30 (VA_PDPT_INDEX va) OR push_bit 21 (VA_PD_INDEX va) OR push_bit 12 (VA_PT_INDEX va) OR
     VA_OFFSET_4K va = take_bit 48 va" for va
  proof (rule bit_word_eqI)
    fix n assume "n < LENGTH(64)"
    consider "n < 12" | "12 \<le> n" "n < 21" | "21 \<le> n" "n < 30" | "30 \<le> n" "n < 39" | "39 \<le> n" by linarith
    then show "bit (push_bit 39 (VA_PML4_INDEX va) OR push_bit 30 (VA_PDPT_INDEX va) OR push_bit 21 (VA_PD_INDEX va) OR
        push_bit 12 (VA_PT_INDEX va) OR VA_OFFSET_4K va) n = bit (take_bit 48 va) n"
      unfolding defs take_bit_eq_mask [symmetric] by cases (auto simp: bit_simps)
  qed
  have offsets: "VA_OFFSET_2M va = push_bit 12 (VA_PT_INDEX va) OR VA_OFFSET_4K va"
    "VA_OFFSET_1G va = push_bit 21 (VA_PD_INDEX va) OR VA_OFFSET_2M va"
    unfolding defs take_bit_eq_mask [symmetric] by (rule bit_word_eqI; auto simp: bit_simps)+
  have canonical: "VA_IS_CANONICAL_48 va \<longleftrightarrow> signed_take_bit 47 va = va" for va
  proof -
    have "signed_drop_bit 16 (push_bit 16 va) = signed_take_bit 47 va"
    proof (rule bit_word_eqI)
      fix n assume "n < LENGTH(64)"
      consider "n < 47" | "n = 47" | "48 \<le> n" by linarith
      then show "bit (signed_drop_bit 16 (push_bit 16 va)) n = bit (signed_take_bit 47 va) n"
        using \<open>n < LENGTH(64)\<close> by cases (auto simp: bit_simps min_def)
    qed
    then show ?thesis by (simp add: VA_IS_CANONICAL_48_def)
  qed
  have "va = vb" if "VA_IS_CANONICAL_48 va" "VA_IS_CANONICAL_48 vb" "path4 va = path4 vb" "VA_OFFSET_4K va = VA_OFFSET_4K vb" for va vb
  proof -
    have "take_bit 48 va = take_bit 48 vb"
      using that(3,4) unfolding whole [symmetric] by (simp add: paths_def)
    then have "signed_take_bit 47 va = signed_take_bit 47 vb" by (simp add: signed_take_bit_eq_iff_take_bit_eq)
    then show ?thesis using that(1,2) unfolding canonical by metis
  qed
  then have "inj_on (\<lambda>va. (path4 va, VA_OFFSET_4K va)) {va. VA_IS_CANONICAL_48 va}" by (auto simp: inj_on_def)
  then show ?thesis using whole [of va] offsets canonical [of va] by blast
qed

end
