(* ===== verification/Frames.thy ===== *)
theory Frames
  imports Address_Space
begin

text \<open>
  Lists of frames, \<^verbatim>\<open>ialloc_frames\<close> and \<^verbatim>\<open>idealloc_frames\<close> of
  \<^verbatim>\<open>src/kernel/Memory/PMM/mem_map.c\<close>.  The list is a \<^verbatim>\<open>struct_page_t\<close> written
  into the first of the frames it lists.
\<close>

section \<open>The list in memory\<close>

text \<open>\<^verbatim>\<open>page_count\<close>, \<^verbatim>\<open>page_size\<close> and \<^verbatim>\<open>page_addr[i]\<close> of the struct at \<open>info\<close>.\<close>

definition page_count_at :: "u64 \<Rightarrow> u64" where "page_count_at info = info"
definition page_size_at :: "u64 \<Rightarrow> u64" where "page_size_at info = info + 8"
definition page_addr_at :: "u64 \<Rightarrow> u64 \<Rightarrow> u64" where "page_addr_at info i = info + 16 + 8 * i"

definition map_frame :: "kstate \<Rightarrow> page_type \<Rightarrow> (u64 \<times> kstate) option" where
  "map_frame ks type = do { (f, mm) \<leftarrow> map_alloc_frame (kmmap ks) type; Some (f, ks\<lparr>kmmap := mm\<rparr>) }"

function frames_loop :: "kstate \<Rightarrow> u64 \<Rightarrow> page_type \<Rightarrow> u64 \<Rightarrow> u64 \<Rightarrow> (u64 \<times> kstate) option" where
  "frames_loop ks info type count i =
     (if i < count then do {
        (f, ks) \<leftarrow> map_frame ks type;
        let ks = store_entry ks (page_addr_at info i) f;
        if load_entry ks (page_addr_at info i) = FRAME_ALLOC_FAILED then Some (FRAME_ALLOC_FAILED, ks)
        else frames_loop ks info type count (i + 1)
      }
      else Some (info, ks))"
  by pat_completeness auto
termination
  by (relation "measure (\<lambda>(ks, info, t, n, i). unat n - unat i)") (auto simp: count_up_less)

declare frames_loop.simps [simp del]

definition ialloc_frames :: "kstate \<Rightarrow> u64 \<Rightarrow> page_type \<Rightarrow> (u64 \<times> kstate) option" where
  "ialloc_frames ks count type =
     (if count > 510 then Some (FRAME_ALLOC_FAILED, ks)
      else do {
        let page_size = PAGE_TYPE_TO_SIZE type;
        (f, ks) \<leftarrow> map_frame ks type;
        let info_page = KERNEL_PHYS_TO_VIRT f;
        let ks = store_entry ks (page_count_at info_page) count;
        let ks = store_entry ks (page_addr_at info_page 0) (KERNEL_VIRT_TO_PHYS info_page);
        let ks = store_entry ks (page_size_at info_page) page_size;
        frames_loop ks info_page type count 1
      })"

definition dealloc_frame :: "kstate \<Rightarrow> u64 \<Rightarrow> u64 \<Rightarrow> (int \<times> kstate) option" where
  "dealloc_frame ks phys sz = do { (r, mm) \<leftarrow> map_dealloc_frame (kmmap ks) phys sz; Some (r, ks\<lparr>kmmap := mm\<rparr>) }"

function dealloc_loop :: "kstate \<Rightarrow> u64 \<Rightarrow> u64 \<Rightarrow> (bool \<times> kstate) option" where
  "dealloc_loop ks info i =
     (if i < load_entry ks (page_count_at info) then do {
        let sz = load_entry ks (page_size_at info);
        (r, ks') \<leftarrow> dealloc_frame ks (ALIGN_DOWN (load_entry ks (page_addr_at info i)) sz) sz;
        if r \<noteq> 0 then Some (False, ks') else dealloc_loop ks' info (i + 1)
      }
      else Some (True, ks))"
  by pat_completeness auto
termination
proof (relation "measure (\<lambda>(ks, info, i). unat (load_entry ks (page_count_at info)) - unat i)", simp, clarsimp)
  fix ks info i r ks'
  assume "i < load_entry ks (page_count_at info)"
    "dealloc_frame ks (ALIGN_DOWN (load_entry ks (page_addr_at info i)) (load_entry ks (page_size_at info)))
       (load_entry ks (page_size_at info)) = Some (0, ks')"
  moreover from this(2) have "load_entry ks' a = load_entry ks a" for a
    by (auto simp: dealloc_frame_def load_entry_def bind_eq_Some)
  ultimately show "unat (load_entry ks' (page_count_at info)) - unat (i + 1) < unat (load_entry ks (page_count_at info)) - unat i"
    by (simp add: count_up_less)
qed

declare dealloc_loop.simps [simp del]

definition idealloc_frames :: "kstate \<Rightarrow> u64 \<Rightarrow> (int \<times> kstate) option" where
  "idealloc_frames ks info = do {
     (ok, ks) \<leftarrow> dealloc_loop ks info 1;
     if \<not> ok then Some (- 1, ks)
     else do {
       (_, ks) \<leftarrow> dealloc_frame ks (ALIGN_DOWN (load_entry ks (page_addr_at info 0)) DEFAULT_PAGE_SIZE)
                    (load_entry ks (page_size_at info));
       Some (0, ks)
     }
   }"

definition alloc_kframe :: "kstate \<Rightarrow> u64 \<Rightarrow> (u64 \<times> kstate) option" where
  "alloc_kframe ks sz = do {
     (f, mm) \<leftarrow> map_alloc_frame_contiguous (kmmap ks) (ALIGN_UP sz DEFAULT_PAGE_SIZE div DEFAULT_PAGE_SIZE);
     Some (f, ks\<lparr>kmmap := mm\<rparr>)
   }"

definition dealloc_kframe :: "kstate \<Rightarrow> u64 \<Rightarrow> u64 \<Rightarrow> (int \<times> kstate) option" where
  "dealloc_kframe ks start sz = dealloc_frame ks start sz"

section \<open>Allocating one frame after the other\<close>

text \<open>What the loop of \<^const>\<open>ialloc_frames\<close> needs of the frame allocator.\<close>

fun alloc_each :: "('s \<Rightarrow> u64 \<Rightarrow> (u64 \<times> 's) option) \<Rightarrow> nat \<Rightarrow> 's \<Rightarrow> (u64 list \<times> bool \<times> 's) option" where
  "alloc_each alloc 0 s = Some ([], True, s)"
| "alloc_each alloc (Suc n) s = do {
     (f, s) \<leftarrow> alloc s 1;
     if f = FRAME_ALLOC_FAILED then Some ([], False, s)
     else do { (fs, ok, s) \<leftarrow> alloc_each alloc n s; Some (f # fs, ok, s) }
   }"

fun dealloc_each :: "('s \<Rightarrow> u64 \<Rightarrow> u64 \<Rightarrow> (int \<times> 's) option) \<Rightarrow> u64 list \<Rightarrow> 's \<Rightarrow> (bool \<times> 's) option" where
  "dealloc_each dealloc [] s = Some (True, s)"
| "dealloc_each dealloc (f # fs) s = do {
     (r, s) \<leftarrow> dealloc s f DEFAULT_PAGE_SIZE;
     if r \<noteq> 0 then Some (False, s) else dealloc_each dealloc fs s
   }"

lemma block_one: "block a 1 = {a}" "block a (Suc 0) = {a}" "block a (unat (1 :: u64)) = {a}"
  by (auto simp: block_def)

context frame_allocator
begin

definition taken :: "'s \<Rightarrow> u64 list \<Rightarrow> bool" where
  "taken s fs \<longleftrightarrow> distinct fs \<and> (\<forall>f \<in> set fs. inside s (unat f) 1 \<and> unat f \<notin> free s)"

lemma alloc_one:
  assumes "inv s"
  obtains (failed) "alloc s 1 = Some (FRAME_ALLOC_FAILED, s)"
  | (frame) f s' where "alloc s 1 = Some (f, s')" "f \<noteq> FRAME_ALLOC_FAILED" "inv s'" "unat f \<in> free s"
      "free s' = free s - {unat f}" "inside s (unat f) 1" "inside s' = inside s"
  using alloc_cases [OF assms, of 1] by (auto simp: block_one)

lemma alloc_each_spec:
  assumes "inv s"
  obtains fs ok s' where "alloc_each alloc n s = Some (fs, ok, s')" "inv s'" "inside s' = inside s"
    "taken s' fs" "unat ` set fs \<subseteq> free s" "free s' = free s - unat ` set fs" "ok \<longrightarrow> length fs = n"
    "\<forall>f \<in> set fs. f \<noteq> FRAME_ALLOC_FAILED" "\<not> ok \<longrightarrow> free s' = {} \<and> length fs < n"
  using assms
proof (induction n arbitrary: s thesis)
  case 0
  show ?case by (rule "0.prems"(1) [of "[]" True s]) (use "0.prems"(2) in \<open>simp_all add: taken_def\<close>)
next
  case (Suc n)
  show ?case
  proof (cases rule: alloc_one [OF Suc.prems(2)])
    case 1
    show ?thesis by (rule Suc.prems(1) [of "[]" False s]) (use 1 Suc.prems(2) alloc_complete in \<open>auto simp: taken_def\<close>)
  next
    case (2 f s1)
    obtain fs ok s' where fs: "alloc_each alloc n s1 = Some (fs, ok, s')" "inv s'" "inside s' = inside s1"
      "taken s' fs" "unat ` set fs \<subseteq> free s1" "free s' = free s1 - unat ` set fs" "ok \<longrightarrow> length fs = n"
      "\<forall>f \<in> set fs. f \<noteq> FRAME_ALLOC_FAILED" "\<not> ok \<longrightarrow> free s' = {} \<and> length fs < n"
      using Suc.IH [OF _ 2(3)] by blast
    have "f \<notin> set fs" using fs(5) 2(5) by auto
    then have "taken s' (f # fs)" using fs(3,4,6) 2(5-7) by (auto simp: taken_def)
    moreover have "unat ` set (f # fs) \<subseteq> free s" "free s' = free s - unat ` set (f # fs)"
      using fs(5,6) 2(4,5) by auto
    ultimately show ?thesis
      using fs 2 by (intro Suc.prems(1) [of "f # fs" ok s']) simp_all
  qed
qed

lemma dealloc_each_spec:
  assumes "inv s" "taken s fs"
  obtains s' where "dealloc_each dealloc fs s = Some (True, s')" "inv s'" "free s' = free s \<union> unat ` set fs"
    "inside s' = inside s"
  using assms
proof (induction fs arbitrary: s thesis)
  case Nil
  show ?case by (rule Nil(1) [of s]) (use Nil(2) in simp_all)
next
  case (Cons f fs)
  have f: "inside s (unat f) 1" "block (unat f) 1 \<inter> free s = {}"
    using Cons.prems(3) by (auto simp: taken_def block_one)
  have "unat DEFAULT_PAGE_SIZE = 4096 * 1" by (simp add: DEFAULT_PAGE_SIZE_def)
  with dealloc_ok [OF Cons.prems(2) f(1) _ f(2)] obtain s1 where s1: "dealloc s f DEFAULT_PAGE_SIZE = Some (0, s1)"
    "inv s1" "free s1 = free s \<union> {unat f}" "inside s1 = inside s"
    by (auto simp: block_one)
  have "taken s1 fs" using Cons.prems(3) s1(3,4) by (auto simp: taken_def simp flip: word_unat_eq_iff)
  then obtain s' where "dealloc_each dealloc fs s1 = Some (True, s')" "inv s'" "free s' = free s1 \<union> unat ` set fs"
    "inside s' = inside s1"
    using Cons.IH [OF _ s1(2)] by blast
  with s1 show ?case by (intro Cons.prems(1) [of s']) auto
qed

end

section \<open>The loop over the list\<close>

lemma map_frame_default:
  "map_frame ks DEFAULT_PAGE = do { (f, mm) \<leftarrow> map_alloc_frame_contiguous (kmmap ks) 1; Some (f, ks\<lparr>kmmap := mm\<rparr>) }"
  by (simp add: map_frame_def map_alloc_frame_def PAGE_TYPE_TO_SIZE_def DEFAULT_PAGE_def HUGE_PAGE_def SUPER_PAGE_def
      PAGE_S_def DEFAULT_PAGE_SIZE_def)

lemma page_addr_entry:
  "page_count_at info = entry_at info 0" "page_size_at info = entry_at info 1" "page_addr_at info i = entry_at info (i + 2)"
  by (simp_all add: page_count_at_def page_size_at_def page_addr_at_def entry_at_def)

text \<open>\<open>m'\<close> differs from \<open>m\<close>, among aligned qwords, at most in qwords \<open>a\<close> and later of page \<open>info\<close>.\<close>

definition from_slot :: "mem \<Rightarrow> mem \<Rightarrow> u64 \<Rightarrow> nat \<Rightarrow> bool" where
  "from_slot m m' info a \<longleftrightarrow>
     (\<forall>t j. 4096 dvd unat t \<longrightarrow> unat j < 512 \<longrightarrow> t \<noteq> info \<or> unat j < a \<longrightarrow>
        load64 m' (entry_at t j) = load64 m (entry_at t j))"

lemma from_slot_trans: "from_slot m1 m2 info a \<Longrightarrow> from_slot m2 m3 info b \<Longrightarrow> a \<le> b \<Longrightarrow> from_slot m1 m3 info a"
  unfolding from_slot_def by auto

lemma from_slot_store:
  assumes "4096 dvd unat info" "unat j < 512"
  shows "from_slot m (store64 m (entry_at info j) v) info (unat j)"
  unfolding from_slot_def
proof (intro allI impI)
  fix t k :: u64 assume t: "4096 dvd unat t" "unat k < 512" "t \<noteq> info \<or> unat k < unat j"
  have "entry_at t k \<noteq> entry_at info j"
    using entry_at_inject [OF t(1,2) assms] t(3) by auto
  then show "load64 (store64 m (entry_at info j) v) (entry_at t k) = load64 m (entry_at t k)"
    using entry_aligned [OF assms] entry_aligned [OF t(1,2)] by (simp add: load64_store64)
qed

lemma frames_loop_spec:
  assumes info: "4096 dvd unat info" and i: "1 \<le> unat i" "unat i \<le> unat count" "unat count \<le> 510"
    and each: "alloc_each map_alloc_frame_contiguous (unat count - unat i) (kmmap ks) = Some (fs, ok, mm')"
    and real: "\<forall>f \<in> set fs. f \<noteq> FRAME_ALLOC_FAILED"
  obtains m' where "frames_loop ks info DEFAULT_PAGE count i =
      Some (if ok then info else FRAME_ALLOC_FAILED, ks\<lparr>kmem := m', kmmap := mm'\<rparr>)"
    "\<forall>k < length fs. load64 m' (page_addr_at info (i + of_nat k)) = fs ! k"
    "from_slot (kmem ks) m' info (unat i + 2)"
  using i each real
proof (induction "unat count - unat i" arbitrary: ks i fs thesis)
  case 0
  then have "\<not> i < count" "fs = []" "ok" "mm' = kmmap ks" by (auto simp: less_by_unat)
  moreover have "from_slot (kmem ks) (kmem ks) info (unat i + 2)" by (simp add: from_slot_def)
  ultimately show ?case by (intro "0.prems"(1)) (subst frames_loop.simps, simp_all)
next
  case (Suc d)
  have lt: "i < count" using Suc.hyps(2) by (simp add: less_by_unat)
  have i1: "unat (i + 1) = Suc (unat i)" by (rule unat_Suc_less [OF lt])
  have slot: "unat (i + 2) = unat i + 2" using Suc.prems(3,4) by (simp add: unat_add_u64)
  have slot_ok: "unat (i + 2) < 512" using slot Suc.prems(3,4) lt by (simp add: less_by_unat)
  have d: "d = unat count - unat (i + 1)" using Suc.hyps(2) i1 by simp
  obtain f mm1 where f: "map_alloc_frame_contiguous (kmmap ks) 1 = Some (f, mm1)"
    using Suc.prems(5) by (auto simp: Suc.hyps(2) [symmetric] bind_eq_Some)
  let ?a = "page_addr_at info i"
  let ?ks1 = "ks\<lparr>kmmap := mm1, kmem := store64 (kmem ks) ?a f\<rparr>"
  have stored: "from_slot (kmem ks) (kmem ?ks1) info (unat i + 2)"
    using from_slot_store [OF info slot_ok] by (simp add: page_addr_entry slot)
  show ?case
  proof (cases "f = FRAME_ALLOC_FAILED")
    case True
    then have "fs = []" "\<not> ok" "mm' = mm1" using Suc.prems(5) f by (auto simp: Suc.hyps(2) [symmetric])
    moreover have "frames_loop ks info DEFAULT_PAGE count i = Some (FRAME_ALLOC_FAILED, ?ks1)"
      using True f lt by (subst frames_loop.simps) (simp add: map_frame_default store_entry_def load_entry_def)
    ultimately show ?thesis using stored by (intro Suc.prems(1) [of "kmem ?ks1"]) simp_all
  next
    case False
    then obtain fs1 where fs1: "alloc_each map_alloc_frame_contiguous d mm1 = Some (fs1, ok, mm')" "fs = f # fs1"
      using Suc.prems(5) f by (auto simp: Suc.hyps(2) [symmetric] bind_eq_Some)
    have step: "frames_loop ks info DEFAULT_PAGE count i = frames_loop ?ks1 info DEFAULT_PAGE count (i + 1)"
      using False f lt by (subst frames_loop.simps) (simp add: map_frame_default store_entry_def load_entry_def)
    obtain m' where m': "frames_loop ?ks1 info DEFAULT_PAGE count (i + 1) =
        Some (if ok then info else FRAME_ALLOC_FAILED, ?ks1\<lparr>kmem := m', kmmap := mm'\<rparr>)"
      "\<forall>k < length fs1. load64 m' (page_addr_at info (i + 1 + of_nat k)) = fs1 ! k"
      "from_slot (kmem ?ks1) m' info (unat (i + 1) + 2)"
      by (rule Suc.hyps(1) [OF d, of ?ks1 fs1])
         (use Suc.prems fs1 i1 lt d in \<open>auto simp: less_by_unat\<close>)
    have "load64 m' ?a = load64 (kmem ?ks1) ?a"
      using m'(3) info slot_ok slot i1 unfolding from_slot_def page_addr_entry by simp
    then have a: "load64 m' ?a = f" by simp
    have "load64 m' (page_addr_at info (i + of_nat k)) = fs ! k" if "k < length fs" for k
    proof (cases k)
      case (Suc k')
      then have "i + of_nat k = i + 1 + of_nat k'" by simp
      moreover have "k' < length fs1" using that Suc fs1(2) by simp
      ultimately show ?thesis using m'(2) Suc fs1(2) by (metis nth_Cons_Suc)
    qed (use a fs1(2) in simp)
    moreover have "from_slot (kmem ks) m' info (unat i + 2)"
      using from_slot_trans [OF stored m'(3)] i1 by simp
    ultimately show ?thesis using step m'(1) by (intro Suc.prems(1) [of m']) simp_all
  qed
qed

section \<open>Giving the list back\<close>

lemma dealloc_each_append:
  "dealloc_each d (xs @ ys) s = do { (ok, s) \<leftarrow> dealloc_each d xs s; if ok then dealloc_each d ys s else Some (False, s) }"
proof (induction xs arbitrary: s)
  case (Cons x xs)
  show ?case by (cases "d s x DEFAULT_PAGE_SIZE") (simp_all add: Cons.IH split_beta)
qed simp

lemma alloc_each_SomeE:
  assumes "alloc_each alloc (Suc d) s = Some (f # fs, ok, s')"
  obtains s1 where "alloc s 1 = Some (f, s1)" "f \<noteq> FRAME_ALLOC_FAILED" "alloc_each alloc d s1 = Some (fs, ok, s')"
proof (cases "alloc s 1")
  case (Some r)
  obtain g s1 where r: "r = (g, s1)" by (cases r)
  show thesis
  proof (cases "g = FRAME_ALLOC_FAILED")
    case False
    then show thesis using assms that [of s1] Some r
      by (cases "alloc_each alloc d s1") (auto simp: split_beta)
  qed (use assms Some r in simp)
qed (use assms in simp)

text \<open>The list of \<open>fs\<close> with pages of 4 KiB at \<open>info\<close>.\<close>

definition frame_list :: "mem \<Rightarrow> u64 \<Rightarrow> u64 list \<Rightarrow> bool" where
  "frame_list m info fs \<longleftrightarrow>
     load64 m (page_count_at info) = of_nat (length fs) \<and> load64 m (page_size_at info) = DEFAULT_PAGE_SIZE \<and>
     length fs \<le> 510 \<and> (\<forall>k < length fs. load64 m (page_addr_at info (of_nat k)) = fs ! k \<and> 4096 dvd unat (fs ! k))"

lemma align_frame: "4096 dvd unat f \<Longrightarrow> ALIGN_DOWN f DEFAULT_PAGE_SIZE = f"
  by (simp add: DEFAULT_PAGE_SIZE_def ALIGN_DOWN_4096 word_eq_by_unat)

lemma dealloc_loop_spec:
  assumes list: "frame_list (kmem ks) info fs" and i: "i \<le> length fs"
    and each: "dealloc_each map_dealloc_frame (drop i fs) (kmmap ks) = Some (True, mm')"
  shows "dealloc_loop ks info (of_nat i) = Some (True, ks\<lparr>kmmap := mm'\<rparr>)"
  using assms
proof (induction "length fs - i" arbitrary: i ks)
  case 0
  then have "\<not> (of_nat i :: u64) < load_entry ks (page_count_at info)" "mm' = kmmap ks"
    by (auto simp: frame_list_def load_entry_def)
  then show ?case by (subst dealloc_loop.simps) simp
next
  case (Suc d)
  have i: "i < length fs" "length fs \<le> 510" using Suc.hyps(2) Suc.prems(1) by (auto simp: frame_list_def)
  then have guard: "(of_nat i :: u64) < load_entry ks (page_count_at info)"
    using Suc.prems(1) by (simp add: frame_list_def load_entry_def less_by_unat unat_of_nat_u64)
  have dr: "drop i fs = fs ! i # drop (Suc i) fs" using i(1) by (simp add: Cons_nth_drop_Suc)
  obtain mm1 where mm1: "map_dealloc_frame (kmmap ks) (fs ! i) DEFAULT_PAGE_SIZE = Some (0, mm1)"
    "dealloc_each map_dealloc_frame (drop (Suc i) fs) mm1 = Some (True, mm')"
    using Suc.prems(3) by (auto simp: dr bind_eq_Some split: if_splits)
  have "load_entry ks (page_size_at info) = DEFAULT_PAGE_SIZE" "load_entry ks (page_addr_at info (of_nat i)) = fs ! i"
    "4096 dvd unat (fs ! i)"
    using Suc.prems(1) i(1) by (auto simp: frame_list_def load_entry_def)
  then have "dealloc_loop ks info (of_nat i) = dealloc_loop (ks\<lparr>kmmap := mm1\<rparr>) info (of_nat i + 1)"
    using guard mm1(1) by (subst dealloc_loop.simps) (simp add: dealloc_frame_def align_frame)
  also have "(of_nat i + 1 :: u64) = of_nat (Suc i)" by simp
  also have "dealloc_loop (ks\<lparr>kmmap := mm1\<rparr>) info (of_nat (Suc i)) = Some (True, ks\<lparr>kmmap := mm1\<rparr>\<lparr>kmmap := mm'\<rparr>)"
    using Suc.prems(1) Suc.hyps(2) mm1(2) i by (intro Suc.hyps(1)) simp_all
  finally show ?case by simp
qed

lemma idealloc_frames_spec:
  assumes list: "frame_list (kmem ks) info fs" and fs: "fs \<noteq> []"
    and wf: "mm_wf (kmmap ks)" and taken: "pmm.taken (kmmap ks) fs"
  obtains mm' where "idealloc_frames ks info = Some (0, ks\<lparr>kmmap := mm'\<rparr>)" "mm_wf mm'"
    "free_set mm' = free_set (kmmap ks) \<union> unat ` set fs"
proof -
  have split: "fs = hd fs # tl fs" "drop 1 fs = tl fs" using fs by (simp_all add: drop_Suc)
  have "pmm.taken (kmmap ks) (tl fs @ [hd fs])"
    using taken split(1) unfolding pmm.taken_def by (metis distinct.simps(2) distinct1_rotate rotate1.simps(2) set_rotate1)
  then obtain mm' where mm': "dealloc_each map_dealloc_frame (tl fs @ [hd fs]) (kmmap ks) = Some (True, mm')" "mm_wf mm'"
    "free_set mm' = free_set (kmmap ks) \<union> unat ` set (tl fs @ [hd fs])"
    using pmm.dealloc_each_spec [OF wf] by blast
  then obtain mm1 where mm1: "dealloc_each map_dealloc_frame (tl fs) (kmmap ks) = Some (True, mm1)"
    "map_dealloc_frame mm1 (hd fs) DEFAULT_PAGE_SIZE = Some (0, mm')"
    by (auto simp: dealloc_each_append bind_eq_Some split: if_splits)
  have len: "1 \<le> length fs" using fs by (simp add: Suc_le_eq)
  have loop: "dealloc_loop ks info 1 = Some (True, ks\<lparr>kmmap := mm1\<rparr>)"
    using dealloc_loop_spec [OF list len, unfolded split(2), OF mm1(1)] by simp
  have "load64 (kmem ks) (page_addr_at info 0) = hd fs" "4096 dvd unat (hd fs)" "load64 (kmem ks) (page_size_at info) = DEFAULT_PAGE_SIZE"
    using list fs by (auto simp: frame_list_def hd_conv_nth)
  then have "idealloc_frames ks info = Some (0, ks\<lparr>kmmap := mm'\<rparr>)"
    using loop mm1(2) by (simp add: idealloc_frames_def dealloc_frame_def load_entry_def align_frame)
  moreover have "set (tl fs @ [hd fs]) = set fs" using split(1) by (metis set_rotate1 rotate1.simps(2))
  ultimately show thesis using that mm'(2,3) by simp
qed

section \<open>Properties\<close>

lemma ialloc_frames_run:
  assumes wf: "mm_wf (kmmap ks)" and count: "1 \<le> unat count" "unat count \<le> 510"
    and enough: "unat count \<le> card (free_set (kmmap ks))"
  obtains fs m' mm' where "ialloc_frames ks count DEFAULT_PAGE = Some (KERNEL_PHYS_TO_VIRT (hd fs), ks\<lparr>kmem := m', kmmap := mm'\<rparr>)"
    "length fs = unat count" "pmm.taken mm' fs" "unat ` set fs \<subseteq> free_set (kmmap ks)"
    "free_set mm' = free_set (kmmap ks) - unat ` set fs" "mm_wf mm'"
    "frame_list m' (KERNEL_PHYS_TO_VIRT (hd fs)) fs" "from_slot (kmem ks) m' (KERNEL_PHYS_TO_VIRT (hd fs)) 0"
proof -
  obtain fs ok mm' where fs: "alloc_each map_alloc_frame_contiguous (unat count) (kmmap ks) = Some (fs, ok, mm')"
    "mm_wf mm'" "inside_region mm' = inside_region (kmmap ks)" "pmm.taken mm' fs" "unat ` set fs \<subseteq> free_set (kmmap ks)"
    "free_set mm' = free_set (kmmap ks) - unat ` set fs" "ok \<longrightarrow> length fs = unat count"
    "\<forall>f \<in> set fs. f \<noteq> FRAME_ALLOC_FAILED" "\<not> ok \<longrightarrow> free_set mm' = {} \<and> length fs < unat count"
    by (rule pmm.alloc_each_spec [OF wf, of "unat count"])
  have ok
  proof (rule ccontr)
    assume no: "\<not> ok"
    then have "free_set (kmmap ks) = unat ` set fs" using fs(5,6,9) no by auto
    then have "card (free_set (kmmap ks)) \<le> length fs" using le_trans [OF card_image_le [OF finite_set] card_length] by simp
    then show False using enough fs(9) no by simp
  qed
  then have len: "length fs = unat count" using fs(7) by simp
  then obtain f gs where fg: "fs = f # gs" using count(1) by (cases fs) auto
  obtain d where d: "unat count = Suc d" using count(1) by (cases "unat count") auto
  obtain mm1 where mm1: "map_alloc_frame_contiguous (kmmap ks) 1 = Some (f, mm1)" "f \<noteq> FRAME_ALLOC_FAILED"
    "alloc_each map_alloc_frame_contiguous d mm1 = Some (gs, ok, mm')"
    using fs(1) [unfolded d fg] by (rule alloc_each_SomeE)
  have aligned: "4096 dvd unat x" if "x \<in> set fs" for x
    using fs(5) that free_set_aligned [OF wf] by auto
  let ?info = "KERNEL_PHYS_TO_VIRT f"
  have info: "4096 dvd unat ?info" using aligned fg by (intro frame_page) simp
  let ?m0 = "store64 (store64 (store64 (kmem ks) (page_count_at ?info) count) (page_addr_at ?info 0) f) (page_size_at ?info) DEFAULT_PAGE_SIZE"
  let ?ks0 = "ks\<lparr>kmmap := mm1, kmem := ?m0\<rparr>"
  have each: "alloc_each map_alloc_frame_contiguous (unat count - unat (1 :: u64)) (kmmap ?ks0) = Some (gs, ok, mm')"
    using mm1(3) d by simp
  obtain m' where m': "frames_loop ?ks0 ?info DEFAULT_PAGE count 1 =
      Some (if ok then ?info else FRAME_ALLOC_FAILED, ?ks0\<lparr>kmem := m', kmmap := mm'\<rparr>)"
    "\<forall>k < length gs. load64 m' (page_addr_at ?info (1 + of_nat k)) = gs ! k" "from_slot ?m0 m' ?info (unat (1 :: u64) + 2)"
    by (rule frames_loop_spec [OF info _ _ count(2) each]) (use count(1) fs(8) fg in simp_all)
  have psz: "PAGE_TYPE_TO_SIZE DEFAULT_PAGE = DEFAULT_PAGE_SIZE"
    by (simp add: PAGE_TYPE_TO_SIZE_def DEFAULT_PAGE_def HUGE_PAGE_def SUPER_PAGE_def PAGE_S_def DEFAULT_PAGE_SIZE_def)
  have "ialloc_frames ks count DEFAULT_PAGE = frames_loop ?ks0 ?info DEFAULT_PAGE count 1"
    using count(2) mm1(1) psz by (simp add: ialloc_frames_def map_frame_default store_entry_def less_by_unat not_less Let_def)
  then have res: "ialloc_frames ks count DEFAULT_PAGE = Some (KERNEL_PHYS_TO_VIRT (hd fs), ks\<lparr>kmem := m', kmmap := mm'\<rparr>)"
    using m'(1) \<open>ok\<close> fg by simp
  have keep: "load64 m' (entry_at ?info j) = load64 ?m0 (entry_at ?info j)" if "unat j < 3" for j
    using m'(3) info that unfolding from_slot_def by simp
  have apart: "entry_at ?info j = entry_at ?info k \<longleftrightarrow> j = k" if "unat j < 512" "unat k < 512" for j k
    using entry_at_inject [OF info that(1) info that(2)] by auto
  note al = entry_aligned [OF info]
  have "load64 ?m0 (entry_at ?info 0) = count" "load64 ?m0 (entry_at ?info 1) = DEFAULT_PAGE_SIZE" "load64 ?m0 (entry_at ?info 2) = f"
    by (simp_all add: page_addr_entry load64_store64 al apart)
  then have "load64 m' (page_count_at ?info) = count" "load64 m' (page_size_at ?info) = DEFAULT_PAGE_SIZE"
    "load64 m' (page_addr_at ?info 0) = f"
    using keep [of 0] keep [of 1] keep [of 2] by (simp_all add: page_addr_entry)
  moreover have "load64 m' (page_addr_at ?info (of_nat k)) = fs ! k" if "k < length fs" for k
  proof (cases k)
    case (Suc k')
    then have "k' < length gs" "(of_nat k :: u64) = 1 + of_nat k'" using that fg by simp_all
    then show ?thesis using m'(2) Suc fg by simp
  qed (use \<open>load64 m' (page_addr_at ?info 0) = f\<close> fg in simp)
  ultimately have "frame_list m' (KERNEL_PHYS_TO_VIRT (hd fs)) fs"
    using len count(2) aligned [OF nth_mem] fg by (simp add: frame_list_def del: One_nat_def)
  moreover have "from_slot (kmem ks) m' (KERNEL_PHYS_TO_VIRT (hd fs)) 0"
  proof -
    have "from_slot m (store64 m (entry_at ?info j) v) ?info 0" if "unat j < 512" for m v j
      using from_slot_store [OF info that] by (simp add: from_slot_def)
    then have st: "from_slot m (store64 m' (entry_at ?info j) v) ?info 0" if "from_slot m m' ?info 0" "unat j < 512" for m m' v j
      using that by (meson from_slot_trans le_refl)
    have "from_slot (kmem ks) (kmem ks) ?info 0" by (simp add: from_slot_def)
    then have "from_slot (kmem ks) ?m0 ?info 0" unfolding page_addr_entry by (intro st) simp_all
    then show ?thesis using from_slot_trans [OF _ m'(3)] fg by simp
  qed
  ultimately show thesis using res len fs by (intro that)
qed

lemma ialloc_frames_cases:
  assumes "mm_wf (kmmap ks)" "1 \<le> unat count" "unat count \<le> 510" "unat count \<le> card (free_set (kmmap ks))"
  obtains fs m' mm' where "ialloc_frames ks count DEFAULT_PAGE = Some (KERNEL_PHYS_TO_VIRT (hd fs), ks\<lparr>kmem := m', kmmap := mm'\<rparr>)"
    "length fs = unat count" "pmm.taken mm' fs" "unat ` set fs \<subseteq> free_set (kmmap ks)"
    "free_set mm' = free_set (kmmap ks) - unat ` set fs" "mm_wf mm'"
    "frame_list m' (KERNEL_PHYS_TO_VIRT (hd fs)) fs"
  using ialloc_frames_run [OF assms] by metis

text \<open>Every number that is not that of one of the larger page types stands for pages of 4 KiB.\<close>

lemma map_frame_small:
  assumes "type \<noteq> HUGE_PAGE" "type \<noteq> SUPER_PAGE"
  shows "map_frame ks type = map_frame ks DEFAULT_PAGE"
  using assms by (simp add: map_frame_def map_alloc_frame_def PAGE_TYPE_TO_SIZE_def DEFAULT_PAGE_def HUGE_PAGE_def SUPER_PAGE_def)

lemma frames_loop_small:
  assumes type: "type \<noteq> HUGE_PAGE" "type \<noteq> SUPER_PAGE"
  shows "frames_loop ks info type count i = frames_loop ks info DEFAULT_PAGE count i"
proof (induction "unat count - unat i" arbitrary: ks i)
  case 0
  then have "\<not> i < count" by (simp add: less_by_unat)
  then show ?case by (subst (1 2) frames_loop.simps) simp
next
  case (Suc d)
  have lt: "i < count" using Suc.hyps(2) by (simp add: less_by_unat)
  have "frames_loop k info type count (i + 1) = frames_loop k info DEFAULT_PAGE count (i + 1)" for k
    using Suc.hyps unat_Suc_less [OF lt] by (intro Suc.hyps(1)) simp
  then show ?case by (subst (1 2) frames_loop.simps) (simp add: map_frame_small [OF type] split_beta Let_def cong: if_cong)
qed

lemma ialloc_frames_small:
  assumes "type \<noteq> HUGE_PAGE" "type \<noteq> SUPER_PAGE"
  shows "ialloc_frames ks count type = ialloc_frames ks count DEFAULT_PAGE"
proof -
  have "PAGE_TYPE_TO_SIZE type = PAGE_TYPE_TO_SIZE DEFAULT_PAGE"
    using assms by (simp add: PAGE_TYPE_TO_SIZE_def DEFAULT_PAGE_def HUGE_PAGE_def SUPER_PAGE_def)
  then show ?thesis by (simp add: ialloc_frames_def map_frame_small [OF assms] frames_loop_small [OF assms])
qed

text \<open>C21. For 4 KiB pages and at most 510 of them, which is what one list holds: with enough free frames
  \<open>ialloc_frames\<close> writes a list of \<open>count\<close> different frames, all of them free before, into the first frame
  of the list, and takes exactly these frames out of the free set.\<close>

theorem ialloc_frames_correct:
  assumes "mm_wf (kmmap ks)" "1 \<le> unat count" "unat count \<le> 510" "unat count \<le> card (free_set (kmmap ks))"
  shows "\<exists>fs ks'. ialloc_frames ks count DEFAULT_PAGE = Some (KERNEL_PHYS_TO_VIRT (hd fs), ks') \<and>
     mm_wf (kmmap ks') \<and> frame_list (kmem ks') (KERNEL_PHYS_TO_VIRT (hd fs)) fs \<and> distinct fs \<and>
     length fs = unat count \<and> unat ` set fs \<subseteq> free_set (kmmap ks) \<and>
     free_set (kmmap ks') = free_set (kmmap ks) - unat ` set fs"
proof -
  obtain fs m' mm' where *: "ialloc_frames ks count DEFAULT_PAGE =
      Some (KERNEL_PHYS_TO_VIRT (hd fs), ks\<lparr>kmem := m', kmmap := mm'\<rparr>)"
    "length fs = unat count" "pmm.taken mm' fs" "unat ` set fs \<subseteq> free_set (kmmap ks)"
    "free_set mm' = free_set (kmmap ks) - unat ` set fs" "mm_wf mm'" "frame_list m' (KERNEL_PHYS_TO_VIRT (hd fs)) fs"
    by (rule ialloc_frames_cases [OF assms])
  then show ?thesis
    by (intro exI [of _ fs] exI [of _ "ks\<lparr>kmem := m', kmmap := mm'\<rparr>"]) (simp add: pmm.taken_def)
qed

lemma card_example: "card (free_set example_map) = 64"
proof -
  have "free_set example_map = (\<lambda>k. 0x100000 + 4096 * k) ` {..<64}" by (auto simp: example_free_set)
  moreover have "inj_on (\<lambda>k. 0x100000 + 4096 * k :: nat) {..<64}" by (auto intro: inj_onI)
  ultimately show ?thesis by (simp add: card_image)
qed

theorem ialloc_frames_correct_witness:
  "\<exists>fs ks'. ialloc_frames blank 5 DEFAULT_PAGE = Some (KERNEL_PHYS_TO_VIRT (hd fs), ks') \<and>
     mm_wf (kmmap ks') \<and> frame_list (kmem ks') (KERNEL_PHYS_TO_VIRT (hd fs)) fs \<and> distinct fs \<and>
     length fs = 5 \<and> unat ` set fs \<subseteq> free_set example_map \<and>
     free_set (kmmap ks') = free_set example_map - unat ` set fs"
  using ialloc_frames_correct [of blank 5] example_maps_wf(1) card_example by (simp add: blank_def)

text \<open>C22. For 4 KiB pages and at most 510 of them, giving the list back with \<open>idealloc_frames\<close> restores the set of free frames.\<close>

theorem ialloc_idealloc_roundtrip:
  assumes "mm_wf (kmmap ks)" "1 \<le> unat count" "unat count \<le> 510" "unat count \<le> card (free_set (kmmap ks))"
  shows "\<exists>info ks1 ks2. ialloc_frames ks count DEFAULT_PAGE = Some (info, ks1) \<and>
     idealloc_frames ks1 info = Some (0, ks2) \<and> mm_wf (kmmap ks2) \<and>
     free_set (kmmap ks2) = free_set (kmmap ks)"
proof -
  obtain fs m' mm' where *: "ialloc_frames ks count DEFAULT_PAGE =
      Some (KERNEL_PHYS_TO_VIRT (hd fs), ks\<lparr>kmem := m', kmmap := mm'\<rparr>)"
    "length fs = unat count" "pmm.taken mm' fs" "unat ` set fs \<subseteq> free_set (kmmap ks)"
    "free_set mm' = free_set (kmmap ks) - unat ` set fs" "mm_wf mm'" "frame_list m' (KERNEL_PHYS_TO_VIRT (hd fs)) fs"
    by (rule ialloc_frames_cases [OF assms])
  have "fs \<noteq> []" using assms(2) *(2) by auto
  moreover let ?ks1 = "ks\<lparr>kmem := m', kmmap := mm'\<rparr>"
  have "frame_list (kmem ?ks1) (KERNEL_PHYS_TO_VIRT (hd fs)) fs" "mm_wf (kmmap ?ks1)" "pmm.taken (kmmap ?ks1) fs"
    using * by simp_all
  ultimately obtain mm2 where "idealloc_frames ?ks1 (KERNEL_PHYS_TO_VIRT (hd fs)) = Some (0, ?ks1\<lparr>kmmap := mm2\<rparr>)"
    "mm_wf mm2" "free_set mm2 = free_set (kmmap ?ks1) \<union> unat ` set fs"
    by (rule_tac idealloc_frames_spec [of ?ks1 _ fs])
  moreover have "free_set (kmmap ?ks1) \<union> unat ` set fs = free_set (kmmap ks)" using *(4,5) by auto
  ultimately show ?thesis using *(1)
    by (intro exI [of _ "KERNEL_PHYS_TO_VIRT (hd fs)"] exI [of _ "ks\<lparr>kmem := m', kmmap := mm'\<rparr>"]
          exI [of _ "ks\<lparr>kmem := m', kmmap := mm'\<rparr>\<lparr>kmmap := mm2\<rparr>"]) simp
qed

theorem ialloc_idealloc_roundtrip_witness:
  "\<exists>info ks1 ks2. ialloc_frames blank 5 DEFAULT_PAGE = Some (info, ks1) \<and>
     idealloc_frames ks1 info = Some (0, ks2) \<and> free_set (kmmap ks2) = free_set (kmmap blank)"
  using ialloc_idealloc_roundtrip [of blank 5] example_maps_wf(1) card_example by (auto simp: blank_def)

text \<open>When no frame is free, \<open>ialloc_frames\<close> of one frame does not report it: it returns the
  \<open>FRAME_ALLOC_FAILED\<close> of the frame allocator translated to a virtual address.\<close>

theorem ialloc_frames_no_memory:
  assumes "mm_wf (kmmap ks)" "free_set (kmmap ks) = {}"
  shows "\<exists>ks'. ialloc_frames ks 1 DEFAULT_PAGE = Some (KERNEL_PHYS_TO_VIRT FRAME_ALLOC_FAILED, ks') \<and>
     KERNEL_PHYS_TO_VIRT FRAME_ALLOC_FAILED \<noteq> FRAME_ALLOC_FAILED"
proof -
  have a: "map_alloc_frame_contiguous (kmmap ks) 1 = Some (FRAME_ALLOC_FAILED, kmmap ks)"
    using assms(2) by (cases rule: pmm.alloc_one [OF assms(1)]) auto
  have psz: "PAGE_TYPE_TO_SIZE DEFAULT_PAGE = DEFAULT_PAGE_SIZE"
    by (simp add: PAGE_TYPE_TO_SIZE_def DEFAULT_PAGE_def HUGE_PAGE_def SUPER_PAGE_def PAGE_S_def DEFAULT_PAGE_SIZE_def)
  show ?thesis
    using a psz
    by (simp add: ialloc_frames_def map_frame_default Let_def frames_loop.simps store_entry_def KERNEL_PHYS_TO_VIRT_def
        FRAME_ALLOC_FAILED_def KERNEL_VMA_def)
qed

theorem ialloc_frames_no_memory_witness:
  "\<exists>ks'. ialloc_frames (blank\<lparr>kmmap := full_map\<rparr>) 1 DEFAULT_PAGE = Some (KERNEL_PHYS_TO_VIRT FRAME_ALLOC_FAILED, ks')"
proof -
  have "free_set full_map = {}" by (simp add: free_set_def free_slot_def example_maps_slots)
  then show ?thesis using ialloc_frames_no_memory [of "blank\<lparr>kmmap := full_map\<rparr>"] example_maps_wf by auto
qed

end
