(* ===== verification/Thread.thy ===== *)
theory Thread
  imports Frames
begin

text \<open>
  Threads: the register frames of \<^verbatim>\<open>src/include/kernel/util/cpu_regs.h\<close> and
  \<^verbatim>\<open>interrupts/ISR.h\<close>, the thread control block of \<^verbatim>\<open>Processes/thread.h\<close>, and what the
  assembly in \<^verbatim>\<open>interrupts/isr.asm\<close> and \<^verbatim>\<open>Scheduling/set_context.asm\<close> moves between
  the processor and these structs.
\<close>

section \<open>Registers\<close>

record cpu_reg_frame =
  r15 :: u64  r14 :: u64  r13 :: u64  r12 :: u64  r11 :: u64  r10 :: u64  r9 :: u64  r8 :: u64
  rbp :: u64  rdi :: u64  rsi :: u64  rdx :: u64  rcx :: u64  rbx :: u64  rax :: u64

record cpu_push_frame =
  rip :: u64  cs :: u64  rflags :: u64  rsp :: u64  ss :: u64

record cpu_regs =
  gpo :: cpu_reg_frame
  psp :: cpu_push_frame

record interrupt_frame =
  cr4 :: u64
  cr3 :: u64
  cr2 :: u64
  gpo_regs :: cpu_reg_frame
  vector :: u64
  error_code :: u64
  cpu_regs_of :: cpu_push_frame

text \<open>The struct as the qwords it is in memory, lowest address first.\<close>

fun gpo_qwords :: "cpu_reg_frame \<Rightarrow> u64 list" where
  "gpo_qwords r = [r15 r, r14 r, r13 r, r12 r, r11 r, r10 r, r9 r, r8 r, rbp r, rdi r, rsi r, rdx r, rcx r, rbx r, rax r]"

fun psp_qwords :: "cpu_push_frame \<Rightarrow> u64 list" where
  "psp_qwords f = [rip f, cs f, rflags f, rsp f, ss f]"

fun gpo_of_qwords :: "u64 list \<Rightarrow> cpu_reg_frame" where
  "gpo_of_qwords q = \<lparr>r15 = q ! 0, r14 = q ! 1, r13 = q ! 2, r12 = q ! 3, r11 = q ! 4, r10 = q ! 5, r9 = q ! 6, r8 = q ! 7,
     rbp = q ! 8, rdi = q ! 9, rsi = q ! 10, rdx = q ! 11, rcx = q ! 12, rbx = q ! 13, rax = q ! 14\<rparr>"

text \<open>
  \<^verbatim>\<open>common_isr\<close> pushes \<^verbatim>\<open>rax, rcx, rdx, rbx, rbp, rsi, rdi, r8 .. r15\<close>, so the last one is at
  the lowest address.  The handler reads these qwords as a \<^typ>\<open>cpu_reg_frame\<close>.
\<close>

fun isr_pushes :: "cpu_reg_frame \<Rightarrow> u64 list" where
  "isr_pushes r = [rax r, rcx r, rdx r, rbx r, rbp r, rsi r, rdi r, r8 r, r9 r, r10 r, r11 r, r12 r, r13 r, r14 r, r15 r]"

definition isr_frame :: "cpu_regs \<Rightarrow> u64 \<Rightarrow> u64 \<Rightarrow> u64 \<Rightarrow> u64 \<Rightarrow> u64 \<Rightarrow> interrupt_frame" where
  "isr_frame c c2 c3 c4 vec err =
     \<lparr>cr4 = c4, cr3 = c3, cr2 = c2, gpo_regs = gpo_of_qwords (rev (isr_pushes (gpo c))),
      vector = vec, error_code = err, cpu_regs_of = psp c\<rparr>"

text \<open>\<^verbatim>\<open>_switch_threads\<close> loads the registers from their byte offsets and returns through \<^verbatim>\<open>iretq\<close>.\<close>

fun switch_threads :: "cpu_regs \<Rightarrow> cpu_regs" where
  "switch_threads c = (let q = gpo_qwords (gpo c) @ psp_qwords (psp c) in
     \<lparr>gpo = \<lparr>r15 = q ! (0 div 8), r14 = q ! (8 div 8), r13 = q ! (16 div 8), r12 = q ! (24 div 8), r11 = q ! (32 div 8),
        r10 = q ! (40 div 8), r9 = q ! (48 div 8), r8 = q ! (56 div 8), rbp = q ! (64 div 8), rdi = q ! (72 div 8),
        rsi = q ! (80 div 8), rdx = q ! (88 div 8), rcx = q ! (96 div 8), rbx = q ! (104 div 8), rax = q ! (112 div 8)\<rparr>,
      psp = \<lparr>rip = q ! (120 div 8), cs = q ! (128 div 8), rflags = q ! (136 div 8), rsp = q ! (144 div 8),
        ss = q ! (152 div 8)\<rparr>\<rparr>)"

lemma switch_threads_id [simp]: "switch_threads c = c"
  by (cases c) (simp add: Let_def)

section \<open>Thread control block\<close>

datatype thread_state = THREAD_NEW | THREAD_READY | THREAD_RUNNING | THREAD_WAITING | THREAD_TERMINATED | THREAD_DENIED

datatype addr_sub_space = SUBSPACE_CODE | SUBSPACE_MAPPING | SUBSPACE_STACK

definition THREAD_CODE_VIRT_ADDR :: u64 where "THREAD_CODE_VIRT_ADDR = 0x0000048000000000"
definition THREAD_MAPPINGS_VIRT_ADDR :: u64 where "THREAD_MAPPINGS_VIRT_ADDR = 0x0000090000000000"
definition THREAD_STACK_VIRT_ADDR :: u64 where "THREAD_STACK_VIRT_ADDR = 0x00007C8000000000"

definition SUB_SPACE_TO_ADDR :: "addr_sub_space \<Rightarrow> u64" where
  "SUB_SPACE_TO_ADDR s =
     (if s = SUBSPACE_CODE then THREAD_CODE_VIRT_ADDR
      else if s = SUBSPACE_MAPPING then THREAD_MAPPINGS_VIRT_ADDR
      else THREAD_STACK_VIRT_ADDR)"

record thread_memory =
  code_size :: u64
  mapping_size :: u64
  stack_size :: u64
  memory_limit :: u64

text \<open>The union's \<^verbatim>\<open>fields[sub_space]\<close>.\<close>

fun subspace_field :: "thread_memory \<Rightarrow> addr_sub_space \<Rightarrow> u64" where
  "subspace_field m SUBSPACE_CODE = code_size m"
| "subspace_field m SUBSPACE_MAPPING = mapping_size m"
| "subspace_field m SUBSPACE_STACK = stack_size m"

fun put_field :: "thread_memory \<Rightarrow> addr_sub_space \<Rightarrow> u64 \<Rightarrow> thread_memory" where
  "put_field m SUBSPACE_CODE v = m\<lparr>code_size := v\<rparr>"
| "put_field m SUBSPACE_MAPPING v = m\<lparr>mapping_size := v\<rparr>"
| "put_field m SUBSPACE_STACK v = m\<lparr>stack_size := v\<rparr>"

record tcb =
  pid :: u64
  tid :: u64
  registers :: cpu_regs
  tstate :: thread_state
  priority :: u16
  active_priority :: u16
  privileged :: bool
  page_table :: u64
  tmemory :: thread_memory
  fs_base :: u64
  cpu_time_used :: u64
  arrival_time :: u64
  tnext :: u64
  tprev :: u64

text \<open>A \<^verbatim>\<open>tcb_t\<close> filled with zeroes, the value of the static \<^verbatim>\<open>dummy_tcb\<close> and of fresh memory after \<^verbatim>\<open>Imemset\<close>.\<close>

definition zero_regs :: cpu_regs where
  "zero_regs = \<lparr>gpo = gpo_of_qwords (replicate 15 0), psp = \<lparr>rip = 0, cs = 0, rflags = 0, rsp = 0, ss = 0\<rparr>\<rparr>"

definition zero_tcb :: tcb where
  "zero_tcb = \<lparr>pid = 0, tid = 0, registers = zero_regs, tstate = THREAD_NEW, priority = 0, active_priority = 0,
     privileged = False, page_table = 0,
     tmemory = \<lparr>code_size = 0, mapping_size = 0, stack_size = 0, memory_limit = 0\<rparr>,
     fs_base = 0, cpu_time_used = 0, arrival_time = 0, tnext = 0, tprev = 0\<rparr>"

end
