(* ===== verification/Scheduler.thy ===== *)
theory Scheduler
  imports Thread
begin

text \<open>
  The scheduler, \<^verbatim>\<open>src/kernel/Processes/Scheduling/scheduler.c\<close>: the doubly linked run queue,
  selection by ageing priorities, the context switch.  Thread control blocks live in a store that
  maps addresses to them; a dereference outside it (a null pointer in particular) has no result.
\<close>

datatype interrupt_src = INT_TMR | INT_KBD | INT_GEN

text \<open>
  The file's static variables, the store of control blocks, and what the switch does to the
  processor: \<open>CR3\<close> and the number of end-of-interrupt writes to the local APIC.  \<open>dummy_tcb\<close> is the
  address of the static of that name.
\<close>

record sched =
  tcbs :: "u64 \<Rightarrow> tcb option"
  top_tcb :: u64
  last_tcb :: u64
  running_tcb :: u64
  dummy_tcb :: u64
  thread_count :: u64
  cpu_cr3 :: u64
  eoi_writes :: nat

definition upd_tcb :: "sched \<Rightarrow> u64 \<Rightarrow> (tcb \<Rightarrow> tcb) \<Rightarrow> sched option" where
  "upd_tcb s p f = do { t \<leftarrow> tcbs s p; Some (s\<lparr>tcbs := (tcbs s)(p \<mapsto> f t)\<rparr>) }"

definition saturating_sub16 :: "u16 \<Rightarrow> u16 \<Rightarrow> u16" where
  "saturating_sub16 a b = (if b \<le> a then a - b else 0)"

definition saturating_dec16 :: "u16 \<Rightarrow> u16" where
  "saturating_dec16 a = (if 1 \<le> a then a - 1 else 0)"

definition UINT16_MAX :: u16 where "UINT16_MAX = 0xFFFF"

section \<open>Selection\<close>

text \<open>
  The loop over the queue.  It follows the links as they are in memory, so on a cyclic list it does
  not end.
\<close>

partial_function (option) pick_loop :: "(u64 \<Rightarrow> tcb option) \<Rightarrow> u64 \<Rightarrow> u64 \<Rightarrow> u16 \<Rightarrow> ((u64 \<Rightarrow> tcb option) \<times> u64 \<times> u16) option" where
  "pick_loop m active best mx =
     (if active = 0 then Some (m, best, mx)
      else do {
        t \<leftarrow> m active;
        if tstate t \<noteq> THREAD_READY then pick_loop m (tnext t) best mx
        else if mx \<le> active_priority t then
          pick_loop (m(active \<mapsto> t\<lparr>active_priority := saturating_dec16 (active_priority t)\<rparr>)) (tnext t) best mx
        else
          pick_loop (m(active \<mapsto> t\<lparr>active_priority := saturating_dec16 (active_priority t)\<rparr>)) (tnext t) active
            (saturating_dec16 (active_priority t))
      })"

definition unlink_top :: "sched \<Rightarrow> tcb \<Rightarrow> sched option" where
  "unlink_top s t = upd_tcb (s\<lparr>top_tcb := tnext t\<rparr>) (tnext t) (\<lambda>u. u\<lparr>tprev := 0\<rparr>)"

definition unlink_middle :: "sched \<Rightarrow> u64 \<Rightarrow> sched option" where
  "unlink_middle s p = do {
     t \<leftarrow> tcbs s p;
     s \<leftarrow> upd_tcb s (tprev t) (\<lambda>u. u\<lparr>tnext := tnext t\<rparr>);
     t \<leftarrow> tcbs s p;
     upd_tcb s (tnext t) (\<lambda>u. u\<lparr>tprev := tprev t\<rparr>)
   }"

definition append_last :: "sched \<Rightarrow> u64 \<Rightarrow> sched option" where
  "append_last s p = do {
     s \<leftarrow> upd_tcb s (last_tcb s) (\<lambda>u. u\<lparr>tnext := p\<rparr>);
     s \<leftarrow> upd_tcb s p (\<lambda>u. u\<lparr>tprev := last_tcb s\<rparr>);
     s \<leftarrow> upd_tcb s p (\<lambda>u. u\<lparr>tnext := 0\<rparr>);
     Some (s\<lparr>last_tcb := p\<rparr>)
   }"

definition scheduler_pick_next_thread :: "sched \<Rightarrow> interrupt_src \<Rightarrow> (u64 \<times> sched) option" where
  "scheduler_pick_next_thread s src = do {
     (m, best, mx) \<leftarrow> pick_loop (tcbs s) (top_tcb s) (top_tcb s) UINT16_MAX;
     let s = s\<lparr>tcbs := m\<rparr>;
     if mx = UINT16_MAX then
       (case src of
          INT_TMR \<Rightarrow> do {
            s' \<leftarrow> upd_tcb s (last_tcb s) (\<lambda>t. t\<lparr>active_priority := priority t + 1\<rparr>);
            Some (last_tcb s, s')
          }
        | _ \<Rightarrow> None)
     else do {
       s \<leftarrow> upd_tcb s best (\<lambda>t. t\<lparr>active_priority := priority t + 1\<rparr>);
       s \<leftarrow> upd_tcb s best (\<lambda>t. t\<lparr>tstate := THREAD_RUNNING\<rparr>);
       t \<leftarrow> tcbs s best;
       if tprev t = 0 then do { s \<leftarrow> unlink_top s t; s \<leftarrow> append_last s best; Some (best, s) }
       else if tnext t = 0 then Some (best, s)
       else do { s \<leftarrow> unlink_middle s best; s \<leftarrow> append_last s best; Some (best, s) }
     }
   }"

section \<open>Switching\<close>

text \<open>The second component is what \<^verbatim>\<open>_switch_threads\<close> leaves in the processor's registers.\<close>

definition context_switch :: "sched \<Rightarrow> u64 \<Rightarrow> interrupt_frame \<Rightarrow> interrupt_src \<Rightarrow> (sched \<times> cpu_regs) option" where
  "context_switch s next_tcb frame src = do {
     s \<leftarrow> upd_tcb s (running_tcb s) (\<lambda>t. t\<lparr>registers := (registers t)\<lparr>gpo := gpo_regs frame\<rparr>\<rparr>);
     s \<leftarrow> upd_tcb s (running_tcb s) (\<lambda>t. t\<lparr>registers := (registers t)\<lparr>psp := cpu_regs_of frame\<rparr>\<rparr>);
     s \<leftarrow> (if running_tcb s \<noteq> dummy_tcb s
           then (case src of
                   INT_TMR \<Rightarrow> do { s \<leftarrow> upd_tcb s (running_tcb s) (\<lambda>t. t\<lparr>tstate := THREAD_READY\<rparr>);
                                  upd_tcb s (running_tcb s) (\<lambda>t. t\<lparr>tstate := THREAD_READY\<rparr>) }
                 | _ \<Rightarrow> upd_tcb s (running_tcb s) (\<lambda>t. t\<lparr>tstate := THREAD_READY\<rparr>))
           else Some s);
     s \<leftarrow> upd_tcb s next_tcb (\<lambda>t. t\<lparr>tstate := THREAD_RUNNING\<rparr>);
     t \<leftarrow> tcbs s next_tcb;
     let s = s\<lparr>cpu_cr3 := page_table t, running_tcb := next_tcb, eoi_writes := Suc (eoi_writes s)\<rparr>;
     Some (s, switch_threads (registers t))
   }"

definition schedule :: "sched \<Rightarrow> interrupt_frame \<Rightarrow> interrupt_src \<Rightarrow> (sched \<times> cpu_regs) option" where
  "schedule s frame src = do {
     (next, s) \<leftarrow> scheduler_pick_next_thread s src;
     context_switch s next frame src
   }"

section \<open>The queue's other operations\<close>

definition scheduler_init :: "sched \<Rightarrow> u64 \<Rightarrow> sched option" where
  "scheduler_init s p = do {
     s \<leftarrow> upd_tcb s (dummy_tcb s) (\<lambda>t. t\<lparr>tstate := THREAD_DENIED\<rparr>);
     s \<leftarrow> upd_tcb s (dummy_tcb s) (\<lambda>t. t\<lparr>priority := 0\<rparr>);
     let s = s\<lparr>running_tcb := dummy_tcb s, last_tcb := dummy_tcb s\<rparr>;
     s \<leftarrow> upd_tcb s (last_tcb s) (\<lambda>t. t\<lparr>tnext := 0\<rparr>);
     s \<leftarrow> upd_tcb s (last_tcb s) (\<lambda>t. t\<lparr>tprev := p\<rparr>);
     let s = s\<lparr>top_tcb := p\<rparr>;
     s \<leftarrow> upd_tcb s (top_tcb s) (\<lambda>t. t\<lparr>tnext := last_tcb s\<rparr>);
     s \<leftarrow> upd_tcb s (top_tcb s) (\<lambda>t. t\<lparr>tprev := 0\<rparr>);
     s \<leftarrow> upd_tcb s p (\<lambda>t. t\<lparr>tstate := THREAD_READY\<rparr>);
     Some (s\<lparr>thread_count := thread_count s + 1\<rparr>)
   }"

definition scheduler_add_thread :: "sched \<Rightarrow> u64 \<Rightarrow> sched option" where
  "scheduler_add_thread s p = do {
     s \<leftarrow> upd_tcb s (last_tcb s) (\<lambda>t. t\<lparr>tnext := p\<rparr>);
     s \<leftarrow> upd_tcb s p (\<lambda>t. t\<lparr>tprev := last_tcb s\<rparr>);
     s \<leftarrow> upd_tcb s p (\<lambda>t. t\<lparr>tnext := 0\<rparr>);
     Some (s\<lparr>last_tcb := p, thread_count := thread_count s + 1\<rparr>)
   }"

text \<open>\<^verbatim>\<open>stop_thread\<close> only disables interrupts, which the model does not record.\<close>

definition stop_thread :: "sched \<Rightarrow> u64 \<Rightarrow> sched" where
  "stop_thread s p = s"

text \<open>\<^verbatim>\<open>thread_exit\<close> of \<^verbatim>\<open>thread.c\<close>; \<open>free\<close> takes the control block out of the store.\<close>

definition thread_exit :: "sched \<Rightarrow> u64 \<Rightarrow> (int \<times> sched) option" where
  "thread_exit s p = do {
     s \<leftarrow> upd_tcb s p (\<lambda>t. t\<lparr>tstate := THREAD_TERMINATED\<rparr>);
     t \<leftarrow> tcbs s p;
     s \<leftarrow> upd_tcb s (tnext t) (\<lambda>u. u\<lparr>tprev := tprev t\<rparr>);
     t \<leftarrow> tcbs s p;
     s \<leftarrow> upd_tcb s (tprev t) (\<lambda>u. u\<lparr>tnext := tnext t\<rparr>);
     Some (0, s\<lparr>tcbs := (tcbs s)(p := None)\<rparr>)
   }"

end
