(* ===== verification/Scheduler_Queue.thy ===== *)
theory Scheduler_Queue
  imports Scheduler
begin

text \<open>
  The run queue as the list of the control blocks' addresses, and what each operation of the
  scheduler does to that list.
\<close>

section \<open>The list\<close>

definition head_or_null :: "u64 list \<Rightarrow> u64" where
  "head_or_null xs = (case xs of [] \<Rightarrow> 0 | x # _ \<Rightarrow> x)"

lemma head_or_null_simps [simp]: "head_or_null [] = 0" "head_or_null (x # xs) = x"
  by (simp_all add: head_or_null_def)

lemma head_or_null_append [simp]: "xs \<noteq> [] \<Longrightarrow> head_or_null (xs @ ys) = head_or_null xs"
  by (cases xs) auto

text \<open>\<open>linked m p xs n\<close>: from back pointer \<open>p\<close> the blocks \<open>xs\<close> are linked in order, the last one to \<open>n\<close>.\<close>

fun linked :: "(u64 \<Rightarrow> tcb option) \<Rightarrow> u64 \<Rightarrow> u64 list \<Rightarrow> u64 \<Rightarrow> bool" where
  "linked m p [] n = True"
| "linked m p (x # xs) n =
     (case m x of None \<Rightarrow> False
      | Some t \<Rightarrow> tprev t = p \<and> tnext t = (if xs = [] then n else hd xs) \<and> linked m x xs n)"

lemma linked_append:
  "linked m p (xs @ ys) n \<longleftrightarrow> linked m p xs (if ys = [] then n else hd ys) \<and> linked m (if xs = [] then p else last xs) ys n"
  by (induction xs arbitrary: p) (auto split: option.splits)

text \<open>Only the links matter.\<close>

definition same_links :: "(u64 \<Rightarrow> tcb option) \<Rightarrow> (u64 \<Rightarrow> tcb option) \<Rightarrow> u64 \<Rightarrow> bool" where
  "same_links m m' x \<longleftrightarrow> map_option (\<lambda>t. (tprev t, tnext t)) (m' x) = map_option (\<lambda>t. (tprev t, tnext t)) (m x)"

lemma linked_cong: "(\<And>x. x \<in> set xs \<Longrightarrow> same_links m m' x) \<Longrightarrow> linked m' p xs n \<longleftrightarrow> linked m p xs n"
proof (induction xs arbitrary: p)
  case (Cons x xs)
  have "same_links m m' x" "linked m' x xs n \<longleftrightarrow> linked m x xs n" using Cons by simp_all
  then show ?case by (auto simp: same_links_def split: option.splits)
qed simp

lemma linked_exists: "linked m p xs n \<Longrightarrow> x \<in> set xs \<Longrightarrow> \<exists>t. m x = Some t"
  by (induction xs arbitrary: p) (auto split: option.splits)

text \<open>The queue of a scheduler state.\<close>

definition queue :: "sched \<Rightarrow> u64 list \<Rightarrow> bool" where
  "queue s xs \<longleftrightarrow> xs \<noteq> [] \<and> distinct xs \<and> 0 \<notin> set xs \<and> linked (tcbs s) 0 xs 0 \<and>
     top_tcb s = hd xs \<and> last_tcb s = last xs"

section \<open>What the selection loop computes\<close>

definition ready :: "(u64 \<Rightarrow> tcb option) \<Rightarrow> u64 \<Rightarrow> bool" where
  "ready m x \<longleftrightarrow> (\<exists>t. m x = Some t \<and> tstate t = THREAD_READY)"

definition prio_of :: "(u64 \<Rightarrow> tcb option) \<Rightarrow> u64 \<Rightarrow> u16" where
  "prio_of m x = (case m x of Some t \<Rightarrow> active_priority t | None \<Rightarrow> 0)"

fun pick_from :: "(u64 \<Rightarrow> tcb option) \<Rightarrow> u64 list \<Rightarrow> u64 \<Rightarrow> u16 \<Rightarrow> u64 \<times> u16" where
  "pick_from m [] best mx = (best, mx)"
| "pick_from m (x # xs) best mx =
     (if ready m x \<and> prio_of m x < mx then pick_from m xs x (saturating_dec16 (prio_of m x)) else pick_from m xs best mx)"

definition age1 :: "tcb \<Rightarrow> tcb" where
  "age1 t = (if tstate t = THREAD_READY then t\<lparr>active_priority := saturating_dec16 (active_priority t)\<rparr> else t)"

definition aged :: "(u64 \<Rightarrow> tcb option) \<Rightarrow> u64 set \<Rightarrow> (u64 \<Rightarrow> tcb option)" where
  "aged m X x = (if x \<in> X then map_option age1 (m x) else m x)"

lemma age1_simps [simp]:
  "tstate (age1 t) = tstate t" "tnext (age1 t) = tnext t" "tprev (age1 t) = tprev t" "priority (age1 t) = priority t"
  "registers (age1 t) = registers t" "page_table (age1 t) = page_table t"
  by (simp_all add: age1_def)

lemma aged_empty [simp]: "aged m {} = m"
  by (simp add: aged_def fun_eq_iff)

lemma aged_links: "same_links m (aged m X) x"
  by (cases "m x") (simp_all add: aged_def same_links_def)

lemma choose_cong: "(\<And>x. x \<in> set xs \<Longrightarrow> m' x = m x) \<Longrightarrow> pick_from m' xs b mx = pick_from m xs b mx"
proof (induction xs arbitrary: b mx)
  case (Cons x xs)
  have "ready m' x = ready m x" "prio_of m' x = prio_of m x" using Cons.prems by (simp_all add: ready_def prio_of_def)
  then show ?case using Cons by simp
qed simp

lemma aged_insert: "m x = Some t \<Longrightarrow> x \<notin> X \<Longrightarrow> aged (m(x \<mapsto> age1 t)) X = aged m (insert x X)"
  by (auto simp: aged_def fun_eq_iff)

lemma pick_loop_spec:
  assumes "linked m p xs 0" "distinct xs" "0 \<notin> set xs"
  shows "pick_loop m (head_or_null xs) best mx =
     (case pick_from m xs best mx of (b, x) \<Rightarrow> Some (aged m (set xs), b, x))"
  using assms
proof (induction xs arbitrary: m p best mx)
  case Nil
  then show ?case by (subst pick_loop.simps) simp
next
  case (Cons x xs)
  obtain t where t: "m x = Some t" "tnext t = head_or_null xs" "linked m x xs 0"
    using Cons.prems(1) by (auto split: option.splits simp: head_or_null_def hd_def) (metis list.case_eq_if list.sel(1))
  let ?m = "m(x \<mapsto> age1 t)"
  have "linked ?m x xs 0"
    using t(3) Cons.prems(2) by (subst linked_cong [of _ m]) (auto simp: same_links_def)
  then have IH: "pick_loop ?m (head_or_null xs) b y = (case pick_from ?m xs b y of (b, z) \<Rightarrow> Some (aged ?m (set xs), b, z))" for b y
    by (rule Cons.IH) (use Cons.prems(2,3) in auto)
  have ch: "pick_from ?m xs b y = pick_from m xs b y" for b y
    by (rule choose_cong) (use Cons.prems(2) in auto)
  have ag: "aged ?m (set xs) = aged m (set (x # xs))"
    using aged_insert [where m = m and x = x and t = t] t(1) Cons.prems(2) by simp
  have step: "pick_loop m x best mx =
      (if tstate t = THREAD_READY \<and> active_priority t < mx
       then pick_loop ?m (head_or_null xs) x (saturating_dec16 (active_priority t))
       else pick_loop ?m (head_or_null xs) best mx)"
  proof (cases "tstate t = THREAD_READY")
    case True
    then show ?thesis using Cons.prems(3) t by (subst pick_loop.simps) (auto simp: age1_def not_le)
  next
    case False
    then have "?m = m" using t(1) by (auto simp: age1_def fun_eq_iff)
    then show ?thesis using Cons.prems(3) t False by (subst pick_loop.simps) simp
  qed
  have "ready m x \<longleftrightarrow> tstate t = THREAD_READY" "prio_of m x = active_priority t" using t(1) by (simp_all add: ready_def prio_of_def)
  then show ?case using step by (simp add: IH ch ag)
qed

section \<open>Which thread is selected\<close>

lemma dec16_le: "saturating_dec16 p \<le> p"
proof (cases "1 \<le> p")
  case True
  then show ?thesis by (simp add: saturating_dec16_def le_by_unat unat_sub)
qed (simp add: saturating_dec16_def)

lemma unat_dec16: "unat (saturating_dec16 p) = unat p - 1"
proof (cases "1 \<le> p")
  case True
  then show ?thesis by (simp add: saturating_dec16_def unat_sub)
next
  case False
  then have "unat p = 0" by (simp add: le_by_unat)
  then show ?thesis using False by (simp add: saturating_dec16_def)
qed

lemma dec16_less: "p < mx \<Longrightarrow> saturating_dec16 p < mx"
  by (rule le_less_trans [OF dec16_le])

lemma pick_from_none: "\<forall>x \<in> set xs. ready m x \<longrightarrow> mx \<le> prio_of m x \<Longrightarrow> pick_from m xs best mx = (best, mx)"
  by (induction xs) (auto simp: not_less)

lemma pick_from_some:
  assumes "\<exists>x \<in> set xs. ready m x \<and> prio_of m x < mx"
  obtains b where "pick_from m xs best mx = (b, saturating_dec16 (prio_of m b))" "b \<in> set xs" "ready m b" "prio_of m b < mx"
  using assms
proof (induction xs arbitrary: best mx thesis)
  case (Cons x xs)
  show ?case
  proof (cases "ready m x \<and> prio_of m x < mx")
    case True
    let ?y = "saturating_dec16 (prio_of m x)"
    show ?thesis
    proof (cases "\<exists>z \<in> set xs. ready m z \<and> prio_of m z < ?y")
      case more: True
      obtain b where b: "pick_from m xs x ?y = (b, saturating_dec16 (prio_of m b))" "b \<in> set xs" "ready m b" "prio_of m b < ?y"
        by (rule Cons.IH [OF _ more])
      moreover have "prio_of m b < mx" using b(4) True dec16_less by (meson less_trans)
      ultimately show ?thesis using True by (intro Cons.prems(1) [of b]) simp_all
    next
      case False
      then have "pick_from m xs x ?y = (x, ?y)" by (intro pick_from_none) (auto simp: not_less)
      then show ?thesis using True by (intro Cons.prems(1) [of x]) simp_all
    qed
  next
    case False
    then have "\<exists>z \<in> set xs. ready m z \<and> prio_of m z < mx" using Cons.prems(2) by auto
    then obtain b where "pick_from m xs best mx = (b, saturating_dec16 (prio_of m b))" "b \<in> set xs" "ready m b" "prio_of m b < mx"
      using Cons.IH by blast
    then show ?thesis using False by (intro Cons.prems(1) [of b]) auto
  qed
qed simp

lemma pick_from_bound: "snd (pick_from m xs best mx) \<le> mx"
proof (induction xs arbitrary: best mx)
  case (Cons x xs)
  have "snd (pick_from m xs x (saturating_dec16 (prio_of m x))) \<le> mx" if "prio_of m x < mx"
    using Cons.IH less_imp_le [OF dec16_less [OF that]] by (rule order_trans)
  then show ?case using Cons.IH by simp
qed simp

text \<open>The selected priority is at most one above every ready one.\<close>

lemma pick_from_near_min:
  "x \<in> set xs \<Longrightarrow> ready m x \<Longrightarrow> snd (pick_from m xs best mx) \<le> prio_of m x"
proof (induction xs arbitrary: best mx)
  case (Cons y ys)
  show ?case
  proof (cases "x = y")
    case True
    show ?thesis
    proof (cases "prio_of m x < mx")
      case lt: True
      have "snd (pick_from m ys x (saturating_dec16 (prio_of m x))) \<le> prio_of m x"
        by (rule order_trans [OF pick_from_bound dec16_le])
      then show ?thesis using True lt Cons.prems(2) by simp
    next
      case False
      then have "mx \<le> prio_of m x" by simp
      with pick_from_bound [of m ys best mx] have "snd (pick_from m ys best mx) \<le> prio_of m x" by (rule order_trans)
      then show ?thesis using True False by simp
    qed
  next
    case False
    then show ?thesis using Cons by simp
  qed
qed simp

text \<open>A ready thread of priority 0 can only be passed over for one that is ahead of it.\<close>

lemma pick_from_zero: "snd (pick_from m xs best 0) = 0 \<and> fst (pick_from m xs best 0) = best"
  by (induction xs) simp_all

lemma pick_from_ahead:
  assumes "ready m t" "prio_of m t = 0" "0 < mx"
  shows "fst (pick_from m (us @ t # vs) best mx) \<in> insert t (set us)"
  using assms(3)
proof (induction us arbitrary: best mx)
  case Nil
  then show ?case using assms(1,2) pick_from_zero [of m vs t] by (simp add: saturating_dec16_def)
next
  case (Cons u us)
  show ?case
  proof (cases "ready m u \<and> prio_of m u < mx")
    case True
    show ?thesis
    proof (cases "saturating_dec16 (prio_of m u) = 0")
      case zero: True
      then show ?thesis using True pick_from_zero [of m "us @ t # vs" u] by simp
    next
      case False
      then have "0 < saturating_dec16 (prio_of m u)" by (simp add: word_neq_0_conv)
      from Cons.IH [OF this, of u] show ?thesis using True by auto
    qed
  next
    case False
    then show ?thesis using Cons.IH [OF Cons.prems, of best] by auto
  qed
qed

section \<open>Unlinking and appending\<close>

definition strip :: "tcb \<Rightarrow> tcb" where
  "strip t = t\<lparr>tnext := 0, tprev := 0\<rparr>"

definition relinked :: "sched \<Rightarrow> sched \<Rightarrow> bool" where
  "relinked s s' \<longleftrightarrow> s' = s\<lparr>tcbs := tcbs s', top_tcb := top_tcb s', last_tcb := last_tcb s'\<rparr> \<and>
     (\<forall>x. map_option strip (tcbs s' x) = map_option strip (tcbs s x))"

lemma relinked_trans: "relinked s s' \<Longrightarrow> relinked s' s'' \<Longrightarrow> relinked s s''"
  unfolding relinked_def by (cases s; cases s'; cases s'') simp

lemma append_last_queue:
  assumes q: "queue s ys" and p: "p \<noteq> 0" "p \<notin> set ys" "tcbs s p = Some t"
  obtains s' where "append_last s p = Some s'" "queue s' (ys @ [p])" "relinked s s'"
proof -
  define l where "l = last ys"
  have ys: "ys \<noteq> []" "l \<in> set ys" "last_tcb s = l" "l \<noteq> p" using q p(2) by (auto simp: queue_def l_def)
  have ysl: "ys = butlast ys @ [l]" using ys(1) by (simp add: l_def)
  moreover have "distinct ys" using q by (simp add: queue_def)
  ultimately have ysl: "ys = butlast ys @ [l]" "l \<notin> set (butlast ys)"
    by (simp, metis disjoint_insert(1) distinct_append list.simps(15))
  obtain u where u: "tcbs s l = Some u" using q ys(2) by (auto simp: queue_def dest: linked_exists)
  let ?m = "(tcbs s)(l \<mapsto> u\<lparr>tnext := p\<rparr>, p \<mapsto> t\<lparr>tprev := l, tnext := 0\<rparr>)"
  let ?s = "s\<lparr>tcbs := ?m, last_tcb := p\<rparr>"
  have app: "append_last s p = Some ?s"
    using ys(3,4) u p(3) by (simp add: append_last_def upd_tcb_def fun_upd_twist)
  have "linked (tcbs s) 0 (butlast ys @ [l]) 0" using q ysl(1) by (simp add: queue_def)
  then have "linked (tcbs s) 0 (butlast ys) l" "tprev u = (if butlast ys = [] then 0 else last (butlast ys))"
    using u by (simp_all add: linked_append)
  moreover have "linked ?m 0 (butlast ys) l \<longleftrightarrow> linked (tcbs s) 0 (butlast ys) l"
    using ysl(2) p(2) by (intro linked_cong) (auto simp: same_links_def dest: in_set_butlastD)
  ultimately have "linked ?m 0 (butlast ys @ [l] @ [p]) 0"
    using ys(4) by (simp add: linked_append)
  then have "linked ?m 0 (ys @ [p]) 0" using ysl(1) by (metis append.assoc)
  then have "queue ?s (ys @ [p])" using q p(1,2) ys(1) by (simp add: queue_def)
  moreover have "relinked s ?s" using u p(3) by (simp add: relinked_def strip_def)
  ultimately show thesis by (rule that [OF app])
qed

lemma unlink_top_queue:
  assumes q: "queue s (b # y # zs)" and t: "tcbs s b = Some t"
  obtains s' where "unlink_top s t = Some s'" "queue s' (y # zs)" "relinked s s'"
proof -
  have tn: "tnext t = y" "linked (tcbs s) b (y # zs) 0" "b \<noteq> y" "y \<notin> set zs" using q t by (auto simp: queue_def)
  then obtain u where u: "tcbs s y = Some u" by (auto split: option.splits)
  let ?s = "s\<lparr>top_tcb := y, tcbs := (tcbs s)(y \<mapsto> u\<lparr>tprev := 0\<rparr>)\<rparr>"
  have "unlink_top s t = Some ?s" using tn(1) u by (simp add: unlink_top_def upd_tcb_def)
  moreover have "linked ((tcbs s)(y \<mapsto> u\<lparr>tprev := 0\<rparr>)) y zs 0 \<longleftrightarrow> linked (tcbs s) y zs 0"
    using tn(4) by (intro linked_cong) (auto simp: same_links_def)
  then have "queue ?s (y # zs)" using q tn(2) u by (simp add: queue_def)
  moreover have "relinked s ?s" using u by (simp add: relinked_def strip_def)
  ultimately show thesis by (rule that)
qed

lemma unlink_middle_queue:
  assumes q: "queue s (us @ b # vs)" "us \<noteq> []" "vs \<noteq> []"
  obtains s' where "unlink_middle s b = Some s'" "queue s' (us @ vs)" "relinked s s'"
proof -
  obtain us' p where us: "us = us' @ [p]" using q(2) by (cases us rule: rev_cases) auto
  obtain n vs' where vs: "vs = n # vs'" using q(3) by (cases vs) auto
  let ?m = "tcbs s"
  have l: "linked ?m 0 (us' @ [p] @ [b] @ [n] @ vs') 0" and d: "distinct (us' @ [p] @ [b] @ [n] @ vs')"
    using q(1) us vs by (simp_all add: queue_def)
  obtain tp tb tn where m: "?m p = Some tp" "?m b = Some tb" "?m n = Some tn"
    using linked_exists [OF l, of p] linked_exists [OF l, of b] linked_exists [OF l, of n] by auto
  have ln: "linked ?m 0 us' p" "tprev tp = (if us' = [] then 0 else last us')" "tnext tp = b" "tprev tb = p" "tnext tb = n"
    "tprev tn = b" "tnext tn = head_or_null vs'" "linked ?m n vs' 0"
    using l m by (simp_all add: linked_append head_or_null_def list.case_eq_if)
  have ne: "p \<noteq> b" "p \<noteq> n" "b \<noteq> n" using d by auto
  let ?m' = "?m(p \<mapsto> tp\<lparr>tnext := n\<rparr>, n \<mapsto> tn\<lparr>tprev := p\<rparr>)"
  let ?s = "s\<lparr>tcbs := ?m'\<rparr>"
  have "unlink_middle s b = Some ?s" using m ln ne by (simp add: unlink_middle_def upd_tcb_def)
  moreover have "linked ?m' 0 us' p" "linked ?m' n vs' 0"
    using ln(1,8) d by (subst linked_cong [of _ ?m]; auto simp: same_links_def)+
  then have "linked ?m' 0 (us' @ [p] @ [n] @ vs') 0"
    using ln ne by (simp add: linked_append head_or_null_def list.case_eq_if hd_conv_nth)
  then have "queue ?s (us @ vs)" using q(1) d us vs by (auto simp: queue_def hd_append)
  moreover have "relinked s ?s" using m by (simp add: relinked_def strip_def)
  ultimately show thesis by (rule that)
qed

end
