(* ===== verification/Scheduler_Steps.thy ===== *)
theory Scheduler_Steps
  imports Scheduler_Queue
begin

text \<open>
  What selection, switch and the other queue operations do to the run queue and to each control
  block; the invariant of the scheduler.
\<close>

section \<open>Selection\<close>

text \<open>The queue after a selection, and the control blocks up to their links.\<close>

definition some_ready :: "(u64 \<Rightarrow> tcb option) \<Rightarrow> u64 list \<Rightarrow> bool" where
  "some_ready m xs \<longleftrightarrow> (\<exists>x \<in> set xs. ready m x \<and> prio_of m x < UINT16_MAX)"

definition selected :: "(u64 \<Rightarrow> tcb option) \<Rightarrow> u64 list \<Rightarrow> u64" where
  "selected m xs = (let (b, mx) = pick_from m xs (hd xs) UINT16_MAX in if mx = UINT16_MAX then last xs else b)"

definition queue_after :: "(u64 \<Rightarrow> tcb option) \<Rightarrow> u64 list \<Rightarrow> u64 list" where
  "queue_after m xs = remove1 (selected m xs) xs @ [selected m xs]"

definition run_tcb :: "tcb \<Rightarrow> tcb" where
  "run_tcb t = t\<lparr>active_priority := priority t + 1, tstate := THREAD_RUNNING\<rparr>"

definition blocks_after :: "(u64 \<Rightarrow> tcb option) \<Rightarrow> u64 list \<Rightarrow> u64 \<Rightarrow> tcb option" where
  "blocks_after m xs x =
     (if x = selected m xs
      then map_option (\<lambda>t. if some_ready m xs then run_tcb t else t\<lparr>active_priority := priority t + 1\<rparr>) (m x)
      else aged m (set xs) x)"

lemma dec_not_max: "p < UINT16_MAX \<Longrightarrow> saturating_dec16 p \<noteq> UINT16_MAX"
  using dec16_less [of p UINT16_MAX] by auto

lemma selected_some:
  assumes "some_ready m xs"
  shows "selected m xs \<in> set xs" "ready m (selected m xs)" "prio_of m (selected m xs) < UINT16_MAX"
    "pick_from m xs (hd xs) UINT16_MAX = (selected m xs, saturating_dec16 (prio_of m (selected m xs)))"
proof -
  obtain b where b: "pick_from m xs (hd xs) UINT16_MAX = (b, saturating_dec16 (prio_of m b))" "b \<in> set xs" "ready m b"
    "prio_of m b < UINT16_MAX"
    by (rule pick_from_some [where best = "hd xs", OF assms [unfolded some_ready_def]])
  moreover from this(1) dec_not_max [OF b(4)] have "selected m xs = b" by (simp add: selected_def)
  ultimately show "selected m xs \<in> set xs" "ready m (selected m xs)" "prio_of m (selected m xs) < UINT16_MAX"
    "pick_from m xs (hd xs) UINT16_MAX = (selected m xs, saturating_dec16 (prio_of m (selected m xs)))" by simp_all
qed

lemma selected_none:
  assumes "\<not> some_ready m xs"
  shows "selected m xs = last xs" "pick_from m xs (hd xs) UINT16_MAX = (hd xs, UINT16_MAX)"
proof -
  show *: "pick_from m xs (hd xs) UINT16_MAX = (hd xs, UINT16_MAX)"
    using assms by (intro pick_from_none) (auto simp: some_ready_def not_less)
  show "selected m xs = last xs" by (simp add: selected_def *)
qed

lemma selected_in: "xs \<noteq> [] \<Longrightarrow> selected m xs \<in> set xs"
  by (cases "some_ready m xs") (simp_all add: selected_some selected_none)

lemma queue_after_last: "distinct xs \<Longrightarrow> xs \<noteq> [] \<Longrightarrow> selected m xs = last xs \<Longrightarrow> queue_after m xs = xs"
  by (simp add: queue_after_def)
     (metis append_butlast_last_id distinct_append distinct_remove1_removeAll not_distinct_conv_prefix remove1_append remove1_idem
        remove1.simps(2) append_Nil2 in_set_conv_decomp disjoint_insert(1) list.simps(15) remove1.simps(1))

lemma queue_cong_links:
  assumes "queue s xs" "\<And>x. same_links (tcbs s) m x" "top_tcb s' = top_tcb s" "last_tcb s' = last_tcb s" "tcbs s' = m"
  shows "queue s' xs"
  using assms linked_cong [of xs "tcbs s" m] by (simp add: queue_def)

lemma same_links_upd:
  "same_links m m' p \<Longrightarrow> m' p = Some t \<Longrightarrow> tnext (f t) = tnext t \<Longrightarrow> tprev (f t) = tprev t \<Longrightarrow>
     (\<And>x. same_links m m' x) \<Longrightarrow> same_links m (m'(p \<mapsto> f t)) x"
  by (auto simp: same_links_def)

lemma pick_spec:
  assumes q: "queue s xs" and len: "2 \<le> length xs"
  obtains s' where "scheduler_pick_next_thread s INT_TMR = Some (selected (tcbs s) xs, s')"
    "queue s' (queue_after (tcbs s) xs)" "relinked (s\<lparr>tcbs := blocks_after (tcbs s) xs\<rparr>) s'"
proof -
  let ?m = "tcbs s" let ?b = "selected ?m xs" let ?a = "aged ?m (set xs)"
  have xs: "xs \<noteq> []" "distinct xs" "0 \<notin> set xs" "linked ?m 0 xs 0" "top_tcb s = head_or_null xs" "last_tcb s = last xs"
    using q by (auto simp: queue_def head_or_null_def list.case_eq_if hd_conv_nth)
  have bin: "?b \<in> set xs" by (rule selected_in [OF xs(1)])
  obtain t where t: "?m ?b = Some t" using linked_exists [OF xs(4) bin] by blast
  have loop: "pick_loop ?m (top_tcb s) (top_tcb s) UINT16_MAX =
      (case pick_from ?m xs (hd xs) UINT16_MAX of (b, x) \<Rightarrow> Some (?a, b, x))"
    using pick_loop_spec [OF xs(4,2,3)] xs(1,5) by (simp add: head_or_null_def list.case_eq_if hd_conv_nth)
  have at: "?a ?b = Some (age1 t)" using bin t by (simp add: aged_def)
  show thesis
  proof (cases "some_ready ?m xs")
    case False
    note sel = selected_none [OF False]
    let ?s = "s\<lparr>tcbs := ?a(?b \<mapsto> (age1 t)\<lparr>active_priority := priority t + 1\<rparr>)\<rparr>"
    have "scheduler_pick_next_thread s INT_TMR = Some (?b, ?s)"
      using loop sel at xs(6) by (simp add: scheduler_pick_next_thread_def upd_tcb_def)
    moreover have "queue ?s (queue_after ?m xs)"
      unfolding queue_after_last [OF xs(2,1) sel(1)]
      using q t at aged_links [of ?m "set xs"]
      by (intro queue_cong_links [OF q, of "tcbs ?s"]) (auto simp: same_links_def)
    moreover have "(age1 t)\<lparr>active_priority := priority t + 1\<rparr> = t\<lparr>active_priority := priority t + 1\<rparr>"
      by (simp add: age1_def)
    then have "relinked (s\<lparr>tcbs := blocks_after ?m xs\<rparr>) ?s"
      using False t by (auto simp: relinked_def blocks_after_def)
    ultimately show thesis by (rule that)
  next
    case True
    define b where bd: "b = selected ?m xs"
    note sel = selected_some [OF True, folded bd] and bin = bin [folded bd] and t = t [folded bd] and at = at [folded bd]
    note goal = that [folded bd]
    have r: "tstate t = THREAD_READY" using sel(2) t by (simp add: ready_def)
    let ?t = "run_tcb (age1 t)"
    let ?s = "s\<lparr>tcbs := ?a(b \<mapsto> ?t)\<rparr>"
    have rt: "tnext ?t = tnext t" "tprev ?t = tprev t" by (simp_all add: run_tcb_def)
    have q1: "queue ?s xs"
      using q t at aged_links [of ?m "set xs"]
      by (intro queue_cong_links [OF q, of "tcbs ?s"]) (auto simp: same_links_def run_tcb_def)
    have pick: "scheduler_pick_next_thread s INT_TMR =
        (if tprev t = 0 then do { s \<leftarrow> unlink_top ?s ?t; s \<leftarrow> append_last s b; Some (b, s) }
         else if tnext t = 0 then Some (b, ?s)
         else do { s \<leftarrow> unlink_middle ?s b; s \<leftarrow> append_last s b; Some (b, s) })"
      using loop sel(4) at dec_not_max [OF sel(3)]
      by (simp add: scheduler_pick_next_thread_def upd_tcb_def run_tcb_def)
    have same: "run_tcb (age1 t) = run_tcb t" by (simp add: run_tcb_def age1_def)
    have rel: "relinked (s\<lparr>tcbs := blocks_after ?m xs\<rparr>) s'" if "relinked ?s s'" for s'
      using that True t same bd by (auto simp: relinked_def blocks_after_def)
    obtain us vs where uv: "xs = us @ b # vs" "b \<notin> set us" using split_list_first [OF bin] by blast
    have nv: "b \<notin> set vs" using xs(2) uv(1) by (metis distinct.simps(2) distinct_append)
    have rem: "remove1 b xs = us @ vs" using uv by (simp add: remove1_append)
    have links: "tprev t = (if us = [] then 0 else last us)" "tnext t = head_or_null vs"
      using xs(4) t by (simp_all add: uv(1) linked_append head_or_null_def list.case_eq_if)
    have nz: "last us \<noteq> 0" if "us \<noteq> []" using xs(3) uv(1) that by (metis Un_iff last_in_set set_append)
    have nz': "head_or_null vs \<noteq> 0" if "vs \<noteq> []" using xs(3) uv(1) that by (cases vs) auto
    have append: thesis if go: "scheduler_pick_next_thread s INT_TMR = do { s \<leftarrow> Some s1; s \<leftarrow> append_last s b; Some (b, s) }"
      and unl: "queue s1 (us @ vs)" "relinked ?s s1" for s1
    proof -
      have "map_option strip (tcbs s1 b) = map_option strip (tcbs ?s b)" using unl(2) by (simp add: relinked_def)
      then obtain u where "tcbs s1 b = Some u" by (auto simp: map_option_case split: option.splits)
      moreover have "b \<noteq> 0" "b \<notin> set (us @ vs)" using xs(3) bin uv(2) nv by auto
      ultimately obtain s' where s': "append_last s1 b = Some s'" "queue s' ((us @ vs) @ [b])" "relinked s1 s'"
        using append_last_queue [OF unl(1)] by blast
      show thesis
        by (rule goal [of s']) (use go s' rem rel [OF relinked_trans [OF unl(2) s'(3)]] bd in \<open>simp_all add: queue_after_def\<close>)
    qed
    show thesis
    proof (cases us)
      case Nil
      with len uv(1) obtain y zs where vs: "vs = y # zs" by (cases vs) auto
      have "queue ?s (b # y # zs)" using q1 uv(1) Nil vs by simp
      then obtain s1 where "unlink_top ?s ?t = Some s1" "queue s1 (y # zs)" "relinked ?s s1"
        by (rule unlink_top_queue [of ?s _ y zs ?t]) simp_all
      then show thesis using append [of s1] pick links Nil vs by simp
    next
      case (Cons u us')
      then have us: "us \<noteq> []" by simp
      show thesis
      proof (cases "vs = []")
        case True
        then have "last xs = b" using uv(1) by (metis last_snoc)
        then have "selected ?m xs = last xs" using bd by simp
        then have "queue_after ?m xs = xs" by (rule queue_after_last [OF xs(2,1)])
        moreover have "scheduler_pick_next_thread s INT_TMR = Some (b, ?s)" using pick links us nz True by simp
        ultimately show thesis using q1 rel [of ?s] by (intro goal [of ?s]) (simp_all add: relinked_def)
      next
        case False
        obtain s1 where "unlink_middle ?s b = Some s1" "queue s1 (us @ vs)" "relinked ?s s1"
          by (rule unlink_middle_queue [of ?s us b vs]) (use q1 uv(1) us False in simp_all)
        then show thesis using append [of s1] pick links us nz nz' False by simp
      qed
    qed
  qed
qed

end
