(* ===== verification/Scheduler_Inv.thy ===== *)
theory Scheduler_Inv
  imports Scheduler_Steps
begin

text \<open>
  The invariant of the scheduler, kept by every timer tick and by every thread that is added, and
  the states that the kernel can reach.
\<close>

section \<open>The switch\<close>

definition saved :: "interrupt_frame \<Rightarrow> tcb \<Rightarrow> tcb" where
  "saved frame t = t\<lparr>registers := \<lparr>gpo = gpo_regs frame, psp = cpu_regs_of frame\<rparr>\<rparr>"

definition switched :: "sched \<Rightarrow> u64 \<Rightarrow> interrupt_frame \<Rightarrow> u64 \<Rightarrow> tcb option" where
  "switched s next frame x =
     map_option (\<lambda>t. let t = (if x = running_tcb s then saved frame t else t);
                         t = (if x = running_tcb s \<and> x \<noteq> dummy_tcb s then t\<lparr>tstate := THREAD_READY\<rparr> else t)
                     in if x = next then t\<lparr>tstate := THREAD_RUNNING\<rparr> else t) (tcbs s x)"

lemma context_switch_spec:
  assumes "tcbs s (running_tcb s) = Some r" "tcbs s next = Some t"
  shows "context_switch s next frame src =
     Some (s\<lparr>tcbs := switched s next frame, running_tcb := next, cpu_cr3 := page_table t, eoi_writes := Suc (eoi_writes s)\<rparr>,
           if next = running_tcb s then \<lparr>gpo = gpo_regs frame, psp = cpu_regs_of frame\<rparr> else registers t)"
proof -
  have regs: "(registers x)\<lparr>gpo := g, psp := p\<rparr> = \<lparr>gpo = g, psp = p\<rparr>" for x g p by (cases "registers x") simp
  have upd: "upd_tcb s p f = Some (s\<lparr>tcbs := (tcbs s)(p \<mapsto> f u)\<rparr>)" if "tcbs s p = Some u" for s p f u
    using that by (simp add: upd_tcb_def)
  have "switched s next frame = (tcbs s)(running_tcb s \<mapsto>
      (if running_tcb s \<noteq> dummy_tcb s then (saved frame r)\<lparr>tstate := THREAD_READY\<rparr> else saved frame r),
      next \<mapsto> (if next = running_tcb s then saved frame r else t)\<lparr>tstate := THREAD_RUNNING\<rparr>)"
    using assms by (auto simp: switched_def fun_eq_iff option.map_ident)
  then show ?thesis using assms
    by (cases src; cases "next = running_tcb s"; cases "running_tcb s = dummy_tcb s")
       (simp_all add: context_switch_def upd saved_def regs switch_threads_id del: switch_threads.simps)
qed

section \<open>Invariant\<close>

definition thread_ok :: "sched \<Rightarrow> u64 \<Rightarrow> tcb \<Rightarrow> bool" where
  "thread_ok s x t \<longleftrightarrow>
     (if x = dummy_tcb s then tstate t = THREAD_DENIED
      else priority t \<noteq> UINT16_MAX \<and> tstate t = (if x = running_tcb s then THREAD_RUNNING else THREAD_READY))"

lemma u16_bound: "unat (x :: u16) < 65536"
  using unsigned_less [of x] by simp

definition sched_inv :: "sched \<Rightarrow> u64 list \<Rightarrow> bool" where
  "sched_inv s xs \<longleftrightarrow> queue s xs \<and> 2 \<le> length xs \<and> dummy_tcb s \<in> set xs \<and> running_tcb s \<in> set xs \<and>
     (\<forall>x \<in> set xs. \<forall>t. tcbs s x = Some t \<longrightarrow> thread_ok s x t) \<and>
     (last xs = dummy_tcb s \<longrightarrow> some_ready (tcbs s) xs)"

text \<open>The body of a control block, up to its links, decides its state and priorities.\<close>

lemma same_body:
  assumes "map_option strip (m' x) = map_option strip (m x)" "m' x = Some t'"
  obtains t where "m x = Some t" "tstate t' = tstate t" "priority t' = priority t"
    "active_priority t' = active_priority t" "registers t' = registers t" "page_table t' = page_table t"
proof -
  obtain t where t: "m x = Some t" "strip t' = strip t" using assms by (cases "m x") auto
  have "tstate (strip u) = tstate u" "priority (strip u) = priority u" "active_priority (strip u) = active_priority u"
    "registers (strip u) = registers u" "page_table (strip u) = page_table u" for u by (simp_all add: strip_def)
  with t show thesis by (metis that)
qed

lemma relinked_fields:
  "relinked s s' \<Longrightarrow> running_tcb s' = running_tcb s \<and> dummy_tcb s' = dummy_tcb s \<and> eoi_writes s' = eoi_writes s \<and>
     thread_count s' = thread_count s"
  unfolding relinked_def by (cases s; cases s') simp

lemma blocks_after_body:
  assumes "blocks_after m xs x = Some t'" "x \<in> set xs"
  obtains t where "m x = Some t" "priority t' = priority t"
    "tstate t' = (if x = selected m xs \<and> some_ready m xs then THREAD_RUNNING else tstate t)"
    "x \<noteq> selected m xs \<Longrightarrow> active_priority t' = (if tstate t = THREAD_READY then saturating_dec16 (active_priority t) else active_priority t)"
    "x = selected m xs \<Longrightarrow> active_priority t' = priority t + 1" "registers t' = registers t" "page_table t' = page_table t"
proof -
  obtain t where t: "m x = Some t" using assms by (cases "m x") (auto simp: blocks_after_def aged_def split: if_splits)
  show thesis
    by (rule that [OF t]) (use assms t in \<open>auto simp: blocks_after_def aged_def run_tcb_def age1_def split: if_splits\<close>)
qed

lemma in_queue_after [simp]: "xs \<noteq> [] \<Longrightarrow> set (queue_after m xs) = set xs"
proof -
  assume "xs \<noteq> []"
  then have "selected m xs \<in> set xs" by (rule selected_in)
  then show ?thesis using set_remove1_subset [of "selected m xs" xs] by (auto simp: queue_after_def) (metis in_set_remove1)
qed

lemma length_queue_after [simp]: "xs \<noteq> [] \<Longrightarrow> length (queue_after m xs) = length xs"
  using selected_in [of xs m] length_pos_if_in_set [of "selected m xs" xs] by (auto simp: queue_after_def length_remove1)

lemma last_queue_after [simp]: "last (queue_after m xs) = selected m xs"
  by (simp add: queue_after_def)

text \<open>What a tick does to the queue and to every control block in it.\<close>

lemma schedule_cases:
  assumes inv: "sched_inv s xs"
  obtains s' regs where "schedule s frame INT_TMR = Some (s', regs)" "queue s' (queue_after (tcbs s) xs)"
    "running_tcb s' = selected (tcbs s) xs" "dummy_tcb s' = dummy_tcb s" "selected (tcbs s) xs \<noteq> dummy_tcb s"
    "\<And>x t. x \<in> set xs \<Longrightarrow> tcbs s x = Some t \<Longrightarrow> \<exists>t'. tcbs s' x = Some t' \<and> priority t' = priority t \<and>
       tstate t' = (if x = selected (tcbs s) xs then THREAD_RUNNING else if x = dummy_tcb s then THREAD_DENIED else THREAD_READY) \<and>
       active_priority t' = (if x = selected (tcbs s) xs then priority t + 1
          else if tstate t = THREAD_READY then saturating_dec16 (active_priority t) else active_priority t) \<and>
       registers t' = (if x = running_tcb s then \<lparr>gpo = gpo_regs frame, psp = cpu_regs_of frame\<rparr> else registers t) \<and>
       page_table t' = page_table t"
    "map_option registers (tcbs s' (selected (tcbs s) xs)) = Some regs"
    "map_option page_table (tcbs s (selected (tcbs s) xs)) = Some (cpu_cr3 s')" "eoi_writes s' = Suc (eoi_writes s)"
proof -
  let ?b = "selected (tcbs s) xs"
  have q: "queue s xs" "2 \<le> length xs" "xs \<noteq> []" using inv by (auto simp: sched_inv_def thread_ok_def queue_def)
  obtain s1 where s1: "scheduler_pick_next_thread s INT_TMR = Some (?b, s1)" "queue s1 (queue_after (tcbs s) xs)"
    "relinked (s\<lparr>tcbs := blocks_after (tcbs s) xs\<rparr>) s1" by (rule pick_spec [OF q(1,2)])
  have same: "running_tcb s1 = running_tcb s" "dummy_tcb s1 = dummy_tcb s" "eoi_writes s1 = eoi_writes s"
    using relinked_fields [OF s1(3)] by simp_all
  have bin: "?b \<in> set xs" by (rule selected_in [OF q(3)])
  have ex: "\<exists>t. tcbs s x = Some t" if "x \<in> set xs" for x using q(1) that by (auto simp: queue_def dest: linked_exists)
  have ex1: "\<exists>t. tcbs s1 x = Some t" if "x \<in> set xs" for x
    using s1(2) that q(3) by (auto simp: queue_def dest: linked_exists)
  have bd: "?b \<noteq> dummy_tcb s"
  proof (cases "some_ready (tcbs s) xs")
    case True
    then have "ready (tcbs s) ?b" by (rule selected_some)
    then show ?thesis using inv bin by (auto simp: sched_inv_def thread_ok_def ready_def)
  next
    case False
    then show ?thesis using inv selected_none [OF False] by (auto simp: sched_inv_def thread_ok_def)
  qed
  have block: "\<exists>t1. tcbs s1 x = Some t1 \<and> priority t1 = priority t \<and> registers t1 = registers t \<and> page_table t1 = page_table t \<and>
       tstate t1 = (if x = ?b \<and> some_ready (tcbs s) xs then THREAD_RUNNING else tstate t) \<and>
       active_priority t1 = (if x = ?b then priority t + 1
          else if tstate t = THREAD_READY then saturating_dec16 (active_priority t) else active_priority t)"
    if x: "x \<in> set xs" and t: "tcbs s x = Some t" for x t
  proof -
    obtain t1 where t1: "tcbs s1 x = Some t1" using ex1 [OF x] by blast
    have "map_option strip (tcbs s1 x) = map_option strip (blocks_after (tcbs s) xs x)" using s1(3) by (simp add: relinked_def)
    then obtain t2 where t2: "blocks_after (tcbs s) xs x = Some t2" "tstate t1 = tstate t2" "priority t1 = priority t2"
      "active_priority t1 = active_priority t2" "registers t1 = registers t2" "page_table t1 = page_table t2"
      using same_body [of "tcbs s1" x _ t1] t1 by blast
    show ?thesis
      by (rule blocks_after_body [OF t2(1) x]) (use t t1 t2 in \<open>auto split: if_splits\<close>)
  qed
  have "running_tcb s \<in> set xs" using inv by (simp add: sched_inv_def)
  then obtain r1 where r1: "tcbs s1 (running_tcb s1) = Some r1" using ex1 same by auto
  obtain b where b: "tcbs s ?b = Some b" using ex bin by blast
  obtain b1 where b1: "tcbs s1 ?b = Some b1" "registers b1 = registers b" "page_table b1 = page_table b"
    using block [OF bin b] by blast
  define s' where "s' = s1\<lparr>tcbs := switched s1 ?b frame, running_tcb := ?b, cpu_cr3 := page_table b1, eoi_writes := Suc (eoi_writes s1)\<rparr>"
  define regs where "regs = (if ?b = running_tcb s1 then \<lparr>gpo = gpo_regs frame, psp = cpu_regs_of frame\<rparr> else registers b1)"
  have run: "schedule s frame INT_TMR = Some (s', regs)"
    by (simp add: schedule_def s1(1) context_switch_spec [OF r1 b1(1)] s'_def regs_def)
  have links: "same_links (tcbs s1) (switched s1 ?b frame) x" for x
    by (cases "tcbs s1 x") (simp_all add: same_links_def switched_def saved_def Let_def)
  have after: "\<exists>t'. tcbs s' x = Some t' \<and> priority t' = priority t \<and>
       tstate t' = (if x = ?b then THREAD_RUNNING else if x = dummy_tcb s then THREAD_DENIED else THREAD_READY) \<and>
       active_priority t' = (if x = ?b then priority t + 1
          else if tstate t = THREAD_READY then saturating_dec16 (active_priority t) else active_priority t) \<and>
       registers t' = (if x = running_tcb s then \<lparr>gpo = gpo_regs frame, psp = cpu_regs_of frame\<rparr> else registers t) \<and>
       page_table t' = page_table t" if x: "x \<in> set xs" and t: "tcbs s x = Some t" for x t
  proof -
    obtain t1 where t1: "tcbs s1 x = Some t1" "priority t1 = priority t" "registers t1 = registers t" "page_table t1 = page_table t"
       "tstate t1 = (if x = ?b \<and> some_ready (tcbs s) xs then THREAD_RUNNING else tstate t)"
       "active_priority t1 = (if x = ?b then priority t + 1
          else if tstate t = THREAD_READY then saturating_dec16 (active_priority t) else active_priority t)"
      using block [OF x t] by blast
    have st: "if x = dummy_tcb s then tstate t = THREAD_DENIED
       else tstate t = (if x = running_tcb s then THREAD_RUNNING else THREAD_READY)"
      using inv x t by (auto simp: sched_inv_def thread_ok_def)
    show ?thesis using t1 st bd same
      by (cases "x = ?b"; cases "x = running_tcb s"; cases "x = dummy_tcb s")
         (simp_all add: s'_def switched_def saved_def Let_def)
  qed
  have "queue s' (queue_after (tcbs s) xs)"
    by (rule queue_cong_links [OF s1(2), of "tcbs s'"]) (simp_all add: s'_def links)
  moreover have "map_option registers (tcbs s' ?b) = Some regs"
    using b1(1) by (simp add: s'_def regs_def switched_def saved_def Let_def)
  ultimately show thesis
    using bd after b b1(3) same by (intro that [OF run]) (simp_all add: s'_def)
qed

section \<open>Preservation\<close>

lemma schedule_inv:
  assumes inv: "sched_inv s xs" and go: "schedule s frame INT_TMR = Some (s', regs)"
  shows "sched_inv s' (queue_after (tcbs s) xs)" "running_tcb s' = selected (tcbs s) xs" "running_tcb s' \<noteq> dummy_tcb s'"
proof -
  have xs: "xs \<noteq> []" "2 \<le> length xs" "dummy_tcb s \<in> set xs" using inv by (auto simp: sched_inv_def thread_ok_def)
  have b: "selected (tcbs s) xs \<in> set xs" by (rule selected_in [OF xs(1)])
  obtain s2 regs2 where s2: "schedule s frame INT_TMR = Some (s2, regs2)" "queue s2 (queue_after (tcbs s) xs)"
    "running_tcb s2 = selected (tcbs s) xs" "dummy_tcb s2 = dummy_tcb s" "selected (tcbs s) xs \<noteq> dummy_tcb s"
    and block: "\<And>x t. x \<in> set xs \<Longrightarrow> tcbs s x = Some t \<Longrightarrow> \<exists>t'. tcbs s2 x = Some t' \<and> priority t' = priority t \<and>
       tstate t' = (if x = selected (tcbs s) xs then THREAD_RUNNING else if x = dummy_tcb s then THREAD_DENIED else THREAD_READY)"
    by (rule schedule_cases [OF inv, of frame]) blast
  have s': "s' = s2" using go s2(1) by simp
  have blocks: "thread_ok s2 x t'"
    if x: "x \<in> set xs" and t': "tcbs s2 x = Some t'" for x t'
  proof -
    obtain t where t: "tcbs s x = Some t" using inv x by (auto simp: sched_inv_def thread_ok_def queue_def dest: linked_exists)
    have "if x = dummy_tcb s then tstate t = THREAD_DENIED
      else priority t \<noteq> UINT16_MAX" using inv x t by (auto simp: sched_inv_def thread_ok_def)
    with block [OF x t] t' s2(3-5) show ?thesis by (auto simp: thread_ok_def)
  qed
  show "sched_inv s' (queue_after (tcbs s) xs)"
    unfolding s' sched_inv_def using s2 xs b blocks by simp
  show "running_tcb s' = selected (tcbs s) xs" "running_tcb s' \<noteq> dummy_tcb s'" using s2 s' by simp_all
qed

text \<open>A thread that is not in the queue yet, ready and with a priority that can be raised by one.\<close>

lemma scheduler_add_thread_append:
  "scheduler_add_thread s p = map_option (\<lambda>s'. s'\<lparr>thread_count := thread_count s' + 1\<rparr>) (append_last s p)"
  by (simp add: scheduler_add_thread_def append_last_def map_conv_bind_option)

lemma add_thread_inv:
  assumes inv: "sched_inv s xs" and p: "p \<noteq> 0" "p \<notin> set xs" "tcbs s p = Some t" "tstate t = THREAD_READY"
    "priority t \<noteq> UINT16_MAX"
  obtains s' where "scheduler_add_thread s p = Some s'" "sched_inv s' (xs @ [p])" "running_tcb s' = running_tcb s"
    "dummy_tcb s' = dummy_tcb s" "thread_count s' = thread_count s + 1"
proof -
  have q: "queue s xs" using inv by (simp add: sched_inv_def)
  obtain s1 where s1: "append_last s p = Some s1" "queue s1 (xs @ [p])" "relinked s s1"
    by (rule append_last_queue [OF q p(1-3)])
  let ?s = "s1\<lparr>thread_count := thread_count s1 + 1\<rparr>"
  have same: "running_tcb s1 = running_tcb s" "dummy_tcb s1 = dummy_tcb s" "thread_count s1 = thread_count s"
    using relinked_fields [OF s1(3)] by simp_all
  have blocks: "thread_ok ?s x t'"
    if x: "x \<in> insert p (set xs)" and t': "tcbs s1 x = Some t'" for x t'
  proof -
    have "map_option strip (tcbs s1 x) = map_option strip (tcbs s x)" using s1(3) by (simp add: relinked_def)
    then obtain t0 where "tcbs s x = Some t0" "tstate t' = tstate t0" "priority t' = priority t0"
      using same_body [of "tcbs s1" x "tcbs s" t'] t' by blast
    then have "thread_ok s x t'" using inv p x by (auto simp: sched_inv_def thread_ok_def)
    then show ?thesis using same by (simp add: thread_ok_def)
  qed
  have "queue ?s (xs @ [p])" using s1(2) by (simp add: queue_def)
  moreover have "2 \<le> length xs" "dummy_tcb s \<in> set xs" "running_tcb s \<in> set xs" "p \<noteq> dummy_tcb s"
    using inv p(2) by (auto simp: sched_inv_def thread_ok_def)
  ultimately have "sched_inv ?s (xs @ [p])"
    unfolding sched_inv_def using same blocks by simp
  then show thesis using same by (intro that [of ?s]) (simp_all add: scheduler_add_thread_append s1(1))
qed

lemma scheduler_init_inv:
  assumes d: "dummy_tcb s \<noteq> 0" "tcbs s (dummy_tcb s) = Some d" and p: "p \<noteq> 0" "p \<noteq> dummy_tcb s" "tcbs s p = Some t"
    "priority t \<noteq> UINT16_MAX" "active_priority t \<noteq> UINT16_MAX"
  obtains s' where "scheduler_init s p = Some s'" "sched_inv s' [p, dummy_tcb s']" "running_tcb s' = dummy_tcb s'"
    "dummy_tcb s' = dummy_tcb s" "thread_count s' = thread_count s + 1"
proof -
  let ?d = "dummy_tcb s"
  let ?m = "(tcbs s)(?d \<mapsto> d\<lparr>tstate := THREAD_DENIED, priority := 0, tnext := 0, tprev := p\<rparr>,
      p \<mapsto> t\<lparr>tnext := ?d, tprev := 0, tstate := THREAD_READY\<rparr>)"
  let ?s = "s\<lparr>tcbs := ?m, running_tcb := ?d, last_tcb := ?d, top_tcb := p, thread_count := thread_count s + 1\<rparr>"
  have "scheduler_init s p = Some ?s"
    using d p by (simp add: scheduler_init_def upd_tcb_def fun_upd_twist)
  moreover have "active_priority t < UINT16_MAX"
    using p(5) u16_bound [of "active_priority t"] by (simp add: UINT16_MAX_def less_by_unat word_eq_by_unat)
  then have "sched_inv ?s [p, ?d]"
    using d p by (auto simp: sched_inv_def thread_ok_def queue_def some_ready_def ready_def prio_of_def)
  ultimately show thesis by (intro that [of ?s]) simp_all
qed

end
