(* ===== verification/Scheduler_Props.thy ===== *)
theory Scheduler_Props
  imports Scheduler_Inv
begin

text \<open>
  The properties of the scheduler: which thread a timer tick selects, that every tick returns with
  exactly one running thread, that no thread waits forever, and what preemption does to registers.
\<close>

section \<open>Ageing bounds the waiting time\<close>

fun run_ticks :: "('f \<Rightarrow> 's \<Rightarrow> 's option) \<Rightarrow> 'f list \<Rightarrow> 's \<Rightarrow> 's option" where
  "run_ticks tick [] s = Some s"
| "run_ticks tick (f # fs) s = do { s \<leftarrow> tick f s; run_ticks tick fs s }"

text \<open>
  A scheduler whose waiting threads have a level, which falls by one each tick, and a place, which
  improves at level 0.
\<close>

locale aging_scheduler =
  fixes tick :: "'f \<Rightarrow> 's \<Rightarrow> 's option"
    and inv :: "'s \<Rightarrow> bool"
    and running :: "'s \<Rightarrow> 'a"
    and waiting :: "'s \<Rightarrow> 'a \<Rightarrow> bool"
    and level :: "'s \<Rightarrow> 'a \<Rightarrow> nat"
    and ahead :: "'s \<Rightarrow> 'a \<Rightarrow> nat"
  assumes tick_ok: "inv s \<Longrightarrow> \<exists>s'. tick f s = Some s' \<and> inv s'"
    and tick_wait: "inv s \<Longrightarrow> waiting s t \<Longrightarrow> tick f s = Some s' \<Longrightarrow> running s' \<noteq> t \<Longrightarrow>
      waiting s' t \<and> level s' t = level s t - 1 \<and> ahead s' t \<le> ahead s t \<and> (level s t = 0 \<longrightarrow> ahead s' t < ahead s t)"
begin

lemma ticks_ok: "inv s \<Longrightarrow> \<exists>s'. run_ticks tick fs s = Some s' \<and> inv s'"
proof (induction fs arbitrary: s)
  case (Cons f fs)
  obtain s1 where "tick f s = Some s1" "inv s1" using tick_ok [OF Cons.prems] by blast
  with Cons.IH [of s1] show ?case by simp
qed simp

lemma waiting_bound:
  assumes "inv s" "waiting s t" "level s t + ahead s t < length fs"
  shows "\<exists>k s'. k \<le> level s t + ahead s t \<and> run_ticks tick (take (Suc k) fs) s = Some s' \<and> running s' = t"
  using assms
proof (induction fs arbitrary: s)
  case (Cons f fs)
  obtain s1 where s1: "tick f s = Some s1" "inv s1" using tick_ok [OF Cons.prems(1)] by blast
  show ?case
  proof (cases "running s1 = t")
    case True
    then show ?thesis using s1(1) by (intro exI [of _ 0]) simp
  next
    case False
    note w = tick_wait [OF Cons.prems(1,2) s1(1) False]
    have less: "level s1 t + ahead s1 t < level s t + ahead s t"
      using w by (cases "level s t") auto
    then obtain k s' where "k \<le> level s1 t + ahead s1 t" "run_ticks tick (take (Suc k) fs) s1 = Some s'" "running s' = t"
      using Cons.IH [OF s1(2)] w Cons.prems(3) by auto
    then show ?thesis using s1(1) less by (intro exI [of _ "Suc k"] exI [of _ s']) simp
  qed
qed simp

end

section \<open>The kernel's scheduler ages\<close>

text \<open>A tick, with the list of the queue carried along.\<close>

definition timer_tick :: "interrupt_frame \<Rightarrow> sched \<Rightarrow> sched option" where
  "timer_tick frame s = map_option fst (schedule s frame INT_TMR)"

definition ghost_tick :: "interrupt_frame \<Rightarrow> sched \<times> u64 list \<Rightarrow> (sched \<times> u64 list) option" where
  "ghost_tick frame sx = map_option (\<lambda>s'. (s', queue_after (tcbs (fst sx)) (snd sx))) (timer_tick frame (fst sx))"

definition place :: "u64 list \<Rightarrow> u64 \<Rightarrow> nat" where
  "place xs t = length (takeWhile (\<lambda>x. x \<noteq> t) xs)"

lemma place_append: "t \<in> set xs \<Longrightarrow> place (xs @ ys) t = place xs t"
  by (induction xs) (auto simp: place_def)

lemma place_split: "t \<notin> set us \<Longrightarrow> place (us @ t # vs) t = length us"
  by (induction us) (auto simp: place_def)

lemma place_after:
  assumes "t \<in> set xs" "selected m xs \<noteq> t"
  shows "place (queue_after m xs) t \<le> place xs t"
    "ready m t \<Longrightarrow> prio_of m t = 0 \<Longrightarrow> distinct xs \<Longrightarrow> place (queue_after m xs) t < place xs t"
proof -
  let ?b = "selected m xs"
  obtain us vs where uv: "xs = us @ t # vs" "t \<notin> set us" using split_list_first [OF assms(1)] by blast
  have pl: "place xs t = length us" using place_split [OF uv(2)] uv(1) by simp
  have in_us: "place (queue_after m xs) t < place xs t" if "?b \<in> set us"
  proof -
    have "queue_after m xs = remove1 ?b us @ t # vs @ [?b]"
      using that by (simp add: queue_after_def) (simp add: uv(1) remove1_append)
    moreover have "t \<notin> set (remove1 ?b us)" using uv(2) by (meson notin_set_remove1)
    ultimately have "place (queue_after m xs) t = length (remove1 ?b us)" by (simp add: place_split)
    then show ?thesis using that pl length_pos_if_in_set [OF that] by (simp add: length_remove1)
  qed
  show "place (queue_after m xs) t \<le> place xs t"
  proof (cases "?b \<in> set us")
    case False
    have "remove1 ?b xs = us @ t # remove1 ?b vs"
      using False assms(2) by (subst (2) uv(1)) (simp add: remove1_append)
    then have "queue_after m xs = us @ t # remove1 ?b vs @ [?b]" by (simp add: queue_after_def)
    then show ?thesis using uv(2) pl by (simp add: place_split)
  qed (use in_us in simp)
  show "place (queue_after m xs) t < place xs t" if r: "ready m t" and z: "prio_of m t = 0" and d: "distinct xs"
  proof (rule in_us)
    have "some_ready m xs" using assms(1) r z by (auto simp: some_ready_def UINT16_MAX_def)
    then have "?b = fst (pick_from m xs (hd xs) UINT16_MAX)" by (simp add: selected_some(4))
    then have "?b \<in> insert t (set us)"
      using pick_from_ahead [OF r z, of UINT16_MAX us vs "hd xs"] uv(1) by (simp add: UINT16_MAX_def)
    then show "?b \<in> set us" using assms(2) by simp
  qed
qed

lemma ghost_tick_cases:
  assumes "sched_inv s xs"
  obtains s' where "ghost_tick frame (s, xs) = Some (s', queue_after (tcbs s) xs)" "timer_tick frame s = Some s'"
    "sched_inv s' (queue_after (tcbs s) xs)" "running_tcb s' = selected (tcbs s) xs"
proof -
  obtain s' regs where "schedule s frame INT_TMR = Some (s', regs)" by (rule schedule_cases [OF assms, of frame])
  then show thesis
    using schedule_inv [OF assms, of frame s' regs] by (intro that [of s']) (simp_all add: ghost_tick_def timer_tick_def)
qed

definition waits :: "sched \<times> u64 list \<Rightarrow> u64 \<Rightarrow> bool" where
  "waits sx t \<longleftrightarrow> t \<in> set (snd sx) \<and> ready (tcbs (fst sx)) t"

lemma waits_tick:
  assumes inv: "sched_inv s xs" and w: "waits (s, xs) t" and go: "ghost_tick frame (s, xs) = Some (s', xs')" and ne: "running_tcb s' \<noteq> t"
  shows "waits (s', xs') t" "unat (prio_of (tcbs s') t) = unat (prio_of (tcbs s) t) - 1"
    "place xs' t \<le> place xs t" "unat (prio_of (tcbs s) t) = 0 \<Longrightarrow> place xs' t < place xs t"
proof -
  have xs': "xs' = queue_after (tcbs s) xs" and t: "t \<in> set xs" "ready (tcbs s) t"
    and xs: "xs \<noteq> []" "distinct xs"
    using go w inv by (auto simp: ghost_tick_def waits_def sched_inv_def queue_def)
  obtain b where b: "tcbs s t = Some b" "tstate b = THREAD_READY" using t(2) by (auto simp: ready_def)
  have nd: "t \<noteq> dummy_tcb s" using inv t(1) b by (auto simp: sched_inv_def thread_ok_def)
  obtain s2 regs where s2: "schedule s frame INT_TMR = Some (s2, regs)" "running_tcb s2 = selected (tcbs s) xs"
    and blk: "\<And>x t. x \<in> set xs \<Longrightarrow> tcbs s x = Some t \<Longrightarrow> \<exists>t'. tcbs s2 x = Some t' \<and> priority t' = priority t \<and>
       tstate t' = (if x = selected (tcbs s) xs then THREAD_RUNNING else if x = dummy_tcb s then THREAD_DENIED else THREAD_READY) \<and>
       active_priority t' = (if x = selected (tcbs s) xs then priority t + 1
          else if tstate t = THREAD_READY then saturating_dec16 (active_priority t) else active_priority t) \<and>
       registers t' = (if x = running_tcb s then \<lparr>gpo = gpo_regs frame, psp = cpu_regs_of frame\<rparr> else registers t) \<and>
       page_table t' = page_table t"
    by (rule schedule_cases [OF inv, of frame]) blast
  have s': "s' = s2" using go s2(1) by (simp add: ghost_tick_def timer_tick_def)
  have sel: "selected (tcbs s) xs \<noteq> t" using ne s' s2(2) by simp
  obtain b' where b': "tcbs s2 t = Some b'" "tstate b' = THREAD_READY" "active_priority b' = saturating_dec16 (active_priority b)"
    using blk [OF t(1) b(1)] sel nd b(2) by auto
  show "waits (s', xs') t" using b' t(1) xs(1) s' xs' by (simp add: waits_def ready_def)
  show "unat (prio_of (tcbs s') t) = unat (prio_of (tcbs s) t) - 1" using b' b s' by (simp add: prio_of_def unat_dec16)
  show "place xs' t \<le> place xs t" using place_after(1) [OF t(1) sel] xs' by simp
  show "place xs' t < place xs t" if "unat (prio_of (tcbs s) t) = 0"
    using place_after(2) [OF t(1) sel t(2) _ xs(2)] that xs' by (simp add: unat_eq_zero)
qed

interpretation run_queue: aging_scheduler ghost_tick "\<lambda>sx. sched_inv (fst sx) (snd sx)" "\<lambda>sx. running_tcb (fst sx)" waits
  "\<lambda>sx t. unat (prio_of (tcbs (fst sx)) t)" "\<lambda>sx t. place (snd sx) t"
proof unfold_locales
  fix f and sx :: "sched \<times> u64 list" assume "sched_inv (fst sx) (snd sx)"
  then obtain s' where "ghost_tick f (fst sx, snd sx) = Some (s', queue_after (tcbs (fst sx)) (snd sx))"
    "sched_inv s' (queue_after (tcbs (fst sx)) (snd sx))" by (rule ghost_tick_cases [of _ _ f])
  then show "\<exists>s'. ghost_tick f sx = Some s' \<and> sched_inv (fst s') (snd s')" by simp
next
  fix f t and sx sx' :: "sched \<times> u64 list"
  assume "sched_inv (fst sx) (snd sx)" "waits sx t" "ghost_tick f sx = Some sx'" "running_tcb (fst sx') \<noteq> t"
  then show "waits sx' t \<and> unat (prio_of (tcbs (fst sx')) t) = unat (prio_of (tcbs (fst sx)) t) - 1 \<and>
      place (snd sx') t \<le> place (snd sx) t \<and> (unat (prio_of (tcbs (fst sx)) t) = 0 \<longrightarrow> place (snd sx') t < place (snd sx) t)"
    using waits_tick [of "fst sx" "snd sx" t f "fst sx'" "snd sx'"] by simp
qed

lemma ghost_ticks:
  "run_ticks ghost_tick fs (s, xs) = Some (s', xs') \<Longrightarrow> run_ticks timer_tick fs s = Some s'"
proof (induction fs arbitrary: s xs)
  case (Cons f fs)
  then show ?case by (cases "timer_tick f s") (auto simp: ghost_tick_def)
qed simp

section \<open>Reachable states\<close>

text \<open>
  The kernel initialises the scheduler with its first thread; afterwards the timer ticks and new
  threads are added.  The conditions on a thread are those that \<^verbatim>\<open>create_thread\<close> establishes.
\<close>

definition fresh_thread :: "tcb \<Rightarrow> bool" where
  "fresh_thread t \<longleftrightarrow> priority t \<noteq> UINT16_MAX \<and> active_priority t = priority t"

inductive sched_reach :: "sched \<Rightarrow> bool" where
  init: "tcbs s 0 = None \<Longrightarrow> dummy_tcb s \<noteq> 0 \<Longrightarrow> tcbs s (dummy_tcb s) = Some zero_tcb \<Longrightarrow> p \<noteq> 0 \<Longrightarrow> p \<noteq> dummy_tcb s \<Longrightarrow>
    tcbs s p = Some t \<Longrightarrow> fresh_thread t \<Longrightarrow> scheduler_init s p = Some s' \<Longrightarrow> sched_reach s'"
| tick: "sched_reach s \<Longrightarrow> schedule s frame INT_TMR = Some (s', regs) \<Longrightarrow> sched_reach s'"
| spawn: "sched_reach s \<Longrightarrow> p \<noteq> 0 \<Longrightarrow> tcbs s p = None \<Longrightarrow> fresh_thread t \<Longrightarrow> tstate t = THREAD_READY \<Longrightarrow>
    scheduler_add_thread (s\<lparr>tcbs := (tcbs s)(p \<mapsto> t)\<rparr>) p = Some s' \<Longrightarrow> sched_reach s'"

lemma store_new_inv:
  assumes inv: "sched_inv s xs" and p: "tcbs s p = None"
  shows "sched_inv (s\<lparr>tcbs := (tcbs s)(p \<mapsto> t)\<rparr>) xs" "p \<notin> set xs"
proof -
  show new: "p \<notin> set xs" using inv p by (auto simp: sched_inv_def queue_def dest: linked_exists)
  let ?m = "(tcbs s)(p \<mapsto> t)"
  have "linked ?m 0 xs 0 \<longleftrightarrow> linked (tcbs s) 0 xs 0"
    using new by (intro linked_cong) (auto simp: same_links_def)
  moreover have "some_ready ?m xs \<longleftrightarrow> some_ready (tcbs s) xs"
    using new by (auto simp: some_ready_def ready_def prio_of_def)
  ultimately show "sched_inv (s\<lparr>tcbs := ?m\<rparr>) xs"
    using inv new by (auto simp: sched_inv_def queue_def thread_ok_def)
qed

lemma sched_reach_inv: "sched_reach s \<Longrightarrow> \<exists>xs. sched_inv s xs"
proof (induction rule: sched_reach.induct)
  case (init s p t s')
  then have "priority t \<noteq> UINT16_MAX" "active_priority t \<noteq> UINT16_MAX" by (simp_all add: fresh_thread_def)
  from scheduler_init_inv [OF init(2,3,4,5,6) this] init(8) show ?case by (metis option.inject)
next
  case (tick s frame s' regs)
  then show ?case using schedule_inv(1) by blast
next
  case (spawn s p t s')
  then obtain xs where xs: "sched_inv s xs" by blast
  let ?s = "s\<lparr>tcbs := (tcbs s)(p \<mapsto> t)\<rparr>"
  have "sched_inv ?s xs" "p \<notin> set xs" by (rule store_new_inv [OF xs spawn(3)])+
  moreover have "tcbs ?s p = Some t" "priority t \<noteq> UINT16_MAX" using spawn(4) by (simp_all add: fresh_thread_def)
  ultimately obtain s2 where "scheduler_add_thread ?s p = Some s2" "sched_inv s2 (xs @ [p])"
    using add_thread_inv spawn(2,5) by metis
  with spawn(6) show ?case by auto
qed

text \<open>No operation puts a control block at the null address.\<close>

lemma upd_tcb_dom: "upd_tcb s p f = Some s' \<Longrightarrow> dom (tcbs s') = dom (tcbs s)"
  by (auto simp: upd_tcb_def bind_eq_Some split: if_splits)

lemma scheduler_init_dom: "scheduler_init s p = Some s' \<Longrightarrow> dom (tcbs s') = dom (tcbs s)"
  unfolding scheduler_init_def Let_def bind_eq_Some by (elim exE conjE, (drule upd_tcb_dom)+, clarify, simp)

lemma scheduler_add_dom: "scheduler_add_thread s p = Some s' \<Longrightarrow> dom (tcbs s') = dom (tcbs s)"
  unfolding scheduler_add_thread_def bind_eq_Some by (elim exE conjE, (drule upd_tcb_dom)+, clarify, simp)

lemma schedule_dom:
  assumes inv: "sched_inv s xs" and go: "schedule s frame INT_TMR = Some (s', regs)"
  shows "tcbs s' x = None \<longleftrightarrow> tcbs s x = None"
proof -
  have q: "queue s xs" "2 \<le> length xs" "running_tcb s \<in> set xs" "xs \<noteq> []" using inv by (auto simp: sched_inv_def)
  obtain s1 where s1: "scheduler_pick_next_thread s INT_TMR = Some (selected (tcbs s) xs, s1)"
    "relinked (s\<lparr>tcbs := blocks_after (tcbs s) xs\<rparr>) s1" "queue s1 (queue_after (tcbs s) xs)"
    by (rule pick_spec [OF q(1,2)])
  have "map_option strip (tcbs s1 x) = map_option strip (blocks_after (tcbs s) xs x)" using s1(2) by (simp add: relinked_def)
  then have 1: "tcbs s1 x = None \<longleftrightarrow> tcbs s x = None"
    by (cases "tcbs s x") (auto simp: blocks_after_def aged_def split: if_splits)
  have "context_switch s1 (selected (tcbs s) xs) frame INT_TMR = Some (s', regs)"
    using go s1(1) by (simp add: schedule_def)
  moreover obtain r1 b1 where "tcbs s1 (running_tcb s1) = Some r1" "tcbs s1 (selected (tcbs s) xs) = Some b1"
    using s1(3) relinked_fields [OF s1(2)] q(3,4) selected_in [OF q(4), of "tcbs s"] by (fastforce simp: queue_def dest: linked_exists)
  ultimately have "tcbs s' = switched s1 (selected (tcbs s) xs) frame"
    using context_switch_spec [of s1 r1 "selected (tcbs s) xs" b1 frame INT_TMR] by auto
  then show ?thesis using 1 by (simp add: switched_def)
qed

lemma sched_reach_null: "sched_reach s \<Longrightarrow> tcbs s 0 = None"
proof (induction rule: sched_reach.induct)
  case (tick s frame s' regs)
  then show ?case using sched_reach_inv [OF tick(1)] schedule_dom by blast
qed (use scheduler_init_dom scheduler_add_dom in \<open>force simp: domIff dest: fun_cong\<close>)+

section \<open>Properties\<close>

text \<open>C12. In every reachable state a timer tick returns: it switches to a thread that is not the
  placeholder and now the only running one of the queue, moves it to the end of the queue, loads its
  registers and its page table and acknowledges the interrupt once.\<close>

theorem tick_switches:
  assumes "sched_reach s"
  shows "\<exists>s' regs t. schedule s frame INT_TMR = Some (s', regs) \<and> sched_reach s' \<and>
     running_tcb s' \<noteq> dummy_tcb s' \<and> last_tcb s' = running_tcb s' \<and> tcbs s' (running_tcb s') = Some t \<and>
     tstate t = THREAD_RUNNING \<and> (\<exists>xs. queue s' xs \<and> (\<forall>x \<in> set xs - {running_tcb s'}. \<forall>u. tcbs s' x = Some u \<longrightarrow> tstate u \<noteq> THREAD_RUNNING)) \<and>
     regs = registers t \<and> cpu_cr3 s' = page_table t \<and> eoi_writes s' = Suc (eoi_writes s)"
proof -
  obtain xs where inv: "sched_inv s xs" using sched_reach_inv [OF assms] by blast
  let ?b = "selected (tcbs s) xs"
  obtain s' regs where s': "schedule s frame INT_TMR = Some (s', regs)" "queue s' (queue_after (tcbs s) xs)"
    "map_option registers (tcbs s' ?b) = Some regs" "map_option page_table (tcbs s ?b) = Some (cpu_cr3 s')"
    "eoi_writes s' = Suc (eoi_writes s)"
    and blk: "\<And>x t. x \<in> set xs \<Longrightarrow> tcbs s x = Some t \<Longrightarrow> \<exists>t'. tcbs s' x = Some t' \<and> page_table t' = page_table t"
    by (rule schedule_cases [OF inv, of frame]) blast
  have inv': "sched_inv s' (queue_after (tcbs s) xs)" "running_tcb s' = ?b" "running_tcb s' \<noteq> dummy_tcb s'"
    by (rule schedule_inv [OF inv s'(1)])+
  have b: "?b \<in> set xs" using inv by (intro selected_in) (auto simp: sched_inv_def)
  obtain t0 where t0: "tcbs s ?b = Some t0" using s'(4) by auto
  obtain t where t: "tcbs s' ?b = Some t" "page_table t = page_table t0" using blk [OF b t0] by blast
  have "tstate t = THREAD_RUNNING" "last_tcb s' = running_tcb s'"
    using inv' b t(1) by (auto simp: sched_inv_def thread_ok_def queue_def)
  moreover have "\<forall>x \<in> set (queue_after (tcbs s) xs) - {running_tcb s'}. \<forall>u. tcbs s' x = Some u \<longrightarrow> tstate u \<noteq> THREAD_RUNNING"
  proof (intro ballI allI impI)
    fix x u assume "x \<in> set (queue_after (tcbs s) xs) - {running_tcb s'}" "tcbs s' x = Some u"
    then have "thread_ok s' x u" "x \<noteq> running_tcb s'" using inv'(1) by (auto simp: sched_inv_def)
    then show "tstate u \<noteq> THREAD_RUNNING" by (simp add: thread_ok_def split: if_splits)
  qed
  ultimately show ?thesis
    using s' inv' t t0 sched_reach.tick [OF assms s'(1)]
    by (intro exI [of _ s'] exI [of _ regs] exI [of _ t]) auto
qed

text \<open>A machine with one thread, at address 64; the placeholder is at 32.\<close>

definition small_sched :: sched where
  "small_sched = \<lparr>tcbs = [32 \<mapsto> zero_tcb, 64 \<mapsto> zero_tcb\<lparr>priority := 5, active_priority := 5\<rparr>], top_tcb = 0, last_tcb = 0,
     running_tcb = 0, dummy_tcb = 32, thread_count = 0, cpu_cr3 = 0, eoi_writes = 0\<rparr>"

lemma small_init:
  obtains s where "scheduler_init small_sched 64 = Some s" "sched_inv s [64, 32]" "running_tcb s = 32" "dummy_tcb s = 32" "sched_reach s"
proof -
  have fresh: "fresh_thread (zero_tcb\<lparr>priority := 5, active_priority := 5\<rparr>)"
    by (simp add: fresh_thread_def zero_tcb_def UINT16_MAX_def)
  obtain s where s: "scheduler_init small_sched 64 = Some s" "sched_inv s [64, dummy_tcb s]" "running_tcb s = dummy_tcb s"
    "dummy_tcb s = dummy_tcb small_sched"
    by (rule scheduler_init_inv [of small_sched zero_tcb 64 "zero_tcb\<lparr>priority := 5, active_priority := 5\<rparr>"])
       (simp_all add: small_sched_def zero_tcb_def UINT16_MAX_def)
  moreover have "sched_reach s"
    by (rule sched_reach.init [OF _ _ _ _ _ _ fresh s(1)]) (simp_all add: small_sched_def)
  ultimately show thesis by (intro that [of s]) (simp_all add: small_sched_def)
qed

theorem tick_switches_witness:
  "\<exists>s s' regs. scheduler_init small_sched 64 = Some s \<and>
     schedule s (isr_frame zero_regs 0 0 0 32 0) INT_TMR = Some (s', regs) \<and> running_tcb s' \<noteq> dummy_tcb s'"
proof -
  obtain s where "scheduler_init small_sched 64 = Some s" "sched_reach s" by (rule small_init)
  with tick_switches [of s "isr_frame zero_regs 0 0 0 32 0"] show ?thesis by blast
qed

text \<open>C13. No thread waits forever: a thread of the queue that is not running runs after at most as
  many further ticks as its active priority and the number of threads ahead of it add up to.\<close>

theorem bounded_waiting:
  assumes "sched_inv s xs" "t \<in> set xs" "t \<noteq> dummy_tcb s" "t \<noteq> running_tcb s" "tcbs s t = Some b"
    and "unat (active_priority b) + place xs t < length frames"
  shows "\<exists>k s'. k \<le> unat (active_priority b) + place xs t \<and>
     run_ticks timer_tick (take (Suc k) frames) s = Some s' \<and> running_tcb s' = t"
proof -
  have w: "waits (s, xs) t" using assms(1-5) by (auto simp: waits_def ready_def sched_inv_def thread_ok_def)
  have "prio_of (tcbs s) t = active_priority b" using assms(5) by (simp add: prio_of_def)
  then obtain k sx where "k \<le> unat (active_priority b) + place xs t" "run_ticks ghost_tick (take (Suc k) frames) (s, xs) = Some sx"
    "running_tcb (fst sx) = t"
    using run_queue.waiting_bound [of "(s, xs)" t frames] assms(1,6) w by auto
  moreover from this(2) have "run_ticks timer_tick (take (Suc k) frames) s = Some (fst sx)"
    by (cases sx) (auto intro: ghost_ticks)
  ultimately show ?thesis by blast
qed

theorem bounded_waiting_witness:
  "\<exists>s k s'. scheduler_init small_sched 64 = Some s \<and> k \<le> 5 \<and>
     run_ticks timer_tick (take (Suc k) (replicate 6 (isr_frame zero_regs 0 0 0 32 0))) s = Some s' \<and> running_tcb s' = 64"
proof -
  obtain s where s: "scheduler_init small_sched 64 = Some s" "sched_inv s [64, 32]" "running_tcb s = 32" "dummy_tcb s = 32"
    by (rule small_init)
  have "map_option active_priority (tcbs s 64) = Some 5"
    using s(1) by (auto simp: scheduler_init_def upd_tcb_def small_sched_def zero_tcb_def bind_eq_Some)
  then obtain b where "tcbs s 64 = Some b" "active_priority b = 5" by auto
  then show ?thesis
    using bounded_waiting [of s "[64, 32]" 64 b "replicate 6 (isr_frame zero_regs 0 0 0 32 0)"] s by (auto simp: place_def)
qed

text \<open>If some thread of the queue is ready with an active priority below 65535, the tick selects a
  ready thread, not the one that was running, whose active priority exceeds that of no ready thread
  by more than one.  Its active priority becomes its priority plus one.\<close>

theorem tick_selects_low_priority:
  assumes "sched_inv s xs" "some_ready (tcbs s) xs"
  shows "\<exists>s' regs b t. schedule s frame INT_TMR = Some (s', regs) \<and> running_tcb s' = b \<and> b \<in> set xs \<and> b \<noteq> running_tcb s \<and>
     tcbs s b = Some t \<and> tstate t = THREAD_READY \<and>
     (\<forall>x \<in> set xs. ready (tcbs s) x \<longrightarrow> unat (active_priority t) \<le> unat (prio_of (tcbs s) x) + 1) \<and>
     map_option active_priority (tcbs s' b) = Some (priority t + 1)"
proof -
  let ?b = "selected (tcbs s) xs"
  note sel = selected_some [OF assms(2)]
  obtain t where t: "tcbs s ?b = Some t" "tstate t = THREAD_READY" using sel(2) by (auto simp: ready_def)
  obtain s' regs where s': "schedule s frame INT_TMR = Some (s', regs)" "running_tcb s' = ?b"
    and blk: "\<And>x t. x \<in> set xs \<Longrightarrow> tcbs s x = Some t \<Longrightarrow> \<exists>t'. tcbs s' x = Some t' \<and> priority t' = priority t \<and>
       active_priority t' = (if x = ?b then priority t + 1
          else if tstate t = THREAD_READY then saturating_dec16 (active_priority t) else active_priority t)"
    by (rule schedule_cases [OF assms(1), of frame]) blast
  have "unat (active_priority t) \<le> unat (prio_of (tcbs s) x) + 1" if "x \<in> set xs" "ready (tcbs s) x" for x
    using pick_from_near_min [OF that, of "hd xs" UINT16_MAX] sel(4) t(1) by (simp add: le_by_unat unat_dec16 prio_of_def)
  moreover have "?b \<noteq> running_tcb s"
  proof
    assume "?b = running_tcb s"
    then have "thread_ok s (running_tcb s) t" using assms(1) sel(1) t(1) by (auto simp: sched_inv_def)
    then show False using t(2) by (auto simp: thread_ok_def split: if_splits)
  qed
  ultimately show ?thesis using s' t sel(1) blk [OF sel(1) t(1)]
    by (intro exI [of _ s'] exI [of _ regs] exI [of _ ?b] exI [of _ t]) auto
qed

theorem tick_selects_low_priority_witness:
  "\<exists>s s' regs. scheduler_init small_sched 64 = Some s \<and>
     schedule s (isr_frame zero_regs 0 0 0 32 0) INT_TMR = Some (s', regs) \<and> running_tcb s' \<in> {64, 32} \<and> running_tcb s' \<noteq> 32"
proof -
  obtain s where s: "scheduler_init small_sched 64 = Some s" "sched_inv s [64, 32]" "running_tcb s = 32" "dummy_tcb s = 32"
    by (rule small_init)
  then have "some_ready (tcbs s) [64, 32]" by (simp add: sched_inv_def)
  with tick_selects_low_priority [OF s(2) this, of "isr_frame zero_regs 0 0 0 32 0"] s show ?thesis by auto
qed

definition rotated :: "cpu_reg_frame \<Rightarrow> cpu_reg_frame" where
  "rotated r = r\<lparr>rbp := rdi r, rdi := rsi r, rsi := rbp r, rdx := rbx r, rcx := rdx r, rbx := rcx r\<rparr>"

text \<open>What one preemption leaves in the control block of the thread that ran, and a frame that a resumed thread gets at once.\<close>

lemma preemption_saves:
  assumes "sched_inv s xs"
  shows "\<exists>s' regs t. schedule s (isr_frame c c2 c3 c4 vec err) INT_TMR = Some (s', regs) \<and>
     tcbs s' (running_tcb s) = Some t \<and> registers t = \<lparr>gpo = rotated (gpo c), psp = psp c\<rparr> \<and>
     (running_tcb s' = running_tcb s \<longrightarrow> regs = \<lparr>gpo = rotated (gpo c), psp = psp c\<rparr>)"
proof -
  let ?f = "isr_frame c c2 c3 c4 vec err"
  obtain s' regs where s': "schedule s ?f INT_TMR = Some (s', regs)" "running_tcb s' = selected (tcbs s) xs"
    "map_option registers (tcbs s' (selected (tcbs s) xs)) = Some regs"
    and blk: "\<And>x t. x \<in> set xs \<Longrightarrow> tcbs s x = Some t \<Longrightarrow> \<exists>t'. tcbs s' x = Some t' \<and>
       registers t' = (if x = running_tcb s then \<lparr>gpo = gpo_regs ?f, psp = cpu_regs_of ?f\<rparr> else registers t)"
    by (rule schedule_cases [OF assms, of ?f]) blast
  have frame: "gpo_regs ?f = rotated (gpo c)" "cpu_regs_of ?f = psp c"
    by (cases "gpo c", simp_all add: isr_frame_def rotated_def)
  have run: "running_tcb s \<in> set xs" using assms by (simp add: sched_inv_def)
  then obtain t where t: "tcbs s (running_tcb s) = Some t" using assms by (auto simp: sched_inv_def queue_def dest: linked_exists)
  obtain t' where "tcbs s' (running_tcb s) = Some t'" "registers t' = \<lparr>gpo = rotated (gpo c), psp = psp c\<rparr>"
    using blk [OF run t] frame by auto
  then show ?thesis using s' by (intro exI [of _ s'] exI [of _ regs] exI [of _ t']) auto
qed

text \<open>The registers that a thread has after the preemptions in these states, if it changes none in between: what each saves
  is what the next finds.\<close>

definition preempt :: "sched \<Rightarrow> cpu_regs \<Rightarrow> cpu_regs option" where
  "preempt s c = do {
     (s', _) \<leftarrow> schedule s (isr_frame c 0 0 0 32 0) INT_TMR;
     t \<leftarrow> tcbs s' (running_tcb s);
     Some (registers t)
   }"

fun preemptions :: "sched list \<Rightarrow> cpu_regs \<Rightarrow> cpu_regs option" where
  "preemptions [] c = Some c"
| "preemptions (s # sts) c = do { c \<leftarrow> preempt s c; preemptions sts c }"

text \<open>The registers that the stub permutes cannot be told apart.\<close>

definition rotation_hidden :: "cpu_reg_frame \<Rightarrow> bool" where
  "rotation_hidden r \<longleftrightarrow> rbp r = rdi r \<and> rdi r = rsi r \<and> rbx r = rcx r \<and> rcx r = rdx r"

lemma rotated_fixes: "rotated r = r \<longleftrightarrow> rotation_hidden r" "rotated (rotated r) = r \<longleftrightarrow> rotation_hidden r"
  unfolding rotated_def rotation_hidden_def by (cases r; simp; blast)+

lemma rotated_cycle: "(rotated ^^ n) r = r \<longleftrightarrow> 3 dvd n \<or> rotation_hidden r"
proof -
  have "rotated (rotated (rotated x)) = x" for x by (cases x) (simp add: rotated_def)
  then have three: "rotated ^^ 3 = id" by (simp add: fun_eq_iff numeral_3_eq_3)
  have "(rotated ^^ n) r = (rotated ^^ (n mod 3)) ((rotated ^^ (3 * (n div 3))) r)"
    by (metis comp_apply funpow_add mod_mult_div_eq)
  also have "\<dots> = (rotated ^^ (n mod 3)) r" by (simp add: funpow_mult [symmetric] three)
  finally have "(rotated ^^ n) r = (rotated ^^ (n mod 3)) r" .
  moreover have "(rotated ^^ 2) r = rotated (rotated r)" by (simp add: numeral_2_eq_2)
  moreover consider "n mod 3 = 0" | "n mod 3 = 1" | "n mod 3 = 2" by linarith
  then have "(rotated ^^ (n mod 3)) r = r \<longleftrightarrow> n mod 3 = 0 \<or> rotation_hidden r"
    by cases (simp_all add: rotated_fixes calculation(2))
  ultimately show ?thesis by (simp only: dvd_eq_mod_eq_0)
qed


definition six_regs :: cpu_regs where
  "six_regs = zero_regs\<lparr>gpo := (gpo zero_regs)\<lparr>rbp := 1, rdi := 2, rsi := 3, rdx := 4, rcx := 5, rbx := 6\<rparr>\<rparr>"


text \<open>\<open>thread_exit\<close> cannot remove the thread that is running: after every tick it is the last of the
  queue, its \<open>next\<close> is null, and the function writes through that pointer.\<close>

theorem thread_exit_of_running_faults:
  assumes "sched_reach s" "schedule s frame INT_TMR = Some (s', regs)"
  shows "thread_exit s' (running_tcb s') = None"
proof -
  obtain xs where inv: "sched_inv s xs" using sched_reach_inv [OF assms(1)] by blast
  let ?ys = "queue_after (tcbs s) xs"
  have r: "running_tcb s' = selected (tcbs s) xs" "queue s' ?ys"
    using schedule_inv [OF inv assms(2)] by (simp_all add: sched_inv_def)
  have "linked (tcbs s') 0 (remove1 (running_tcb s') xs @ [running_tcb s']) 0"
    using r by (simp add: queue_def queue_after_def)
  then obtain t where "tcbs s' (running_tcb s') = Some t" "tnext t = 0" by (auto simp: linked_append split: option.splits)
  then show ?thesis using sched_reach_null [OF sched_reach.tick [OF assms]] r(2) by (auto simp: thread_exit_def upd_tcb_def bind_eq_None_conv)
qed

theorem thread_exit_of_running_faults_witness:
  "\<exists>s s' regs. scheduler_init small_sched 64 = Some s \<and>
     schedule s (isr_frame zero_regs 0 0 0 32 0) INT_TMR = Some (s', regs) \<and> thread_exit s' (running_tcb s') = None"
proof -
  obtain s where s: "scheduler_init small_sched 64 = Some s" "sched_inv s [64, 32]" "sched_reach s" by (rule small_init)
  obtain s' regs where "schedule s (isr_frame zero_regs 0 0 0 32 0) INT_TMR = Some (s', regs)"
    by (rule schedule_cases [OF s(2), of "isr_frame zero_regs 0 0 0 32 0"])
  with thread_exit_of_running_faults [OF s(3) this] s(1) show ?thesis by blast
qed

end
