(* ===== verification/Heap.thy ===== *)
theory Heap
  imports Frames
begin

text \<open>
  The kernel heap, \<^verbatim>\<open>src/kernel/Memory/alloc.c\<close>: blocks with a 16-byte header one behind the
  other, in the memory at the virtual address of the allocator.  Mapping a page of the heap makes
  the frame's bytes visible at the page's virtual address; the model copies them there at that
  moment, because its memory is indexed by virtual addresses.
\<close>

definition META_DATA_SIZE :: u64 where "META_DATA_SIZE = 16"
definition HEAP_ALIGNMENT :: u64 where "HEAP_ALIGNMENT = 16"

section \<open>The structs\<close>

text \<open>\<^verbatim>\<open>alloc_t\<close> and \<^verbatim>\<open>alloc_meta_data_t\<close>: a size of 63 bits, the bit \<^verbatim>\<open>allocated\<close>, and the
  offset to the previous block.\<close>

definition heapStart :: "kstate \<Rightarrow> u64 \<Rightarrow> u64" where "heapStart ks a = load_entry ks a"
definition heapSize :: "kstate \<Rightarrow> u64 \<Rightarrow> u64" where "heapSize ks a = load_entry ks (a + 8)"

definition block_size :: "kstate \<Rightarrow> u64 \<Rightarrow> u64" where "block_size ks h = take_bit 63 (load_entry ks h)"
definition allocated :: "kstate \<Rightarrow> u64 \<Rightarrow> bool" where "allocated ks h = bit (load_entry ks h) 63"
definition prev_block_data :: "kstate \<Rightarrow> u64 \<Rightarrow> u64" where "prev_block_data ks h = load_entry ks (h + 8)"

definition put_block_size :: "kstate \<Rightarrow> u64 \<Rightarrow> u64 \<Rightarrow> kstate" where
  "put_block_size ks h v = store_entry ks h (put_bit 63 (allocated ks h) (take_bit 63 v))"

definition put_allocated :: "kstate \<Rightarrow> u64 \<Rightarrow> bool \<Rightarrow> kstate" where
  "put_allocated ks h b = store_entry ks h (put_bit 63 b (load_entry ks h))"

definition put_prev :: "kstate \<Rightarrow> u64 \<Rightarrow> u64 \<Rightarrow> kstate" where
  "put_prev ks h v = store_entry ks (h + 8) v"

section \<open>Set-up\<close>

text \<open>\<^verbatim>\<open>page_in\<close> of one page of the heap, with what the processor then reads there.\<close>

definition view_page :: "kstate \<Rightarrow> u64 \<Rightarrow> u64 \<Rightarrow> kstate" where
  "view_page ks va phys = ks\<lparr>kmem := (\<lambda>a. if a - va < DEFAULT_PAGE_SIZE then kmem ks (KERNEL_PHYS_TO_VIRT phys + (a - va)) else kmem ks a)\<rparr>"

definition heap_page_in :: "kstate \<Rightarrow> u64 \<Rightarrow> u64 \<Rightarrow> u64 \<Rightarrow> (int \<times> kstate) option" where
  "heap_page_in ks pml4 va phys = do {
     (err, ks) \<leftarrow> page_in ks pml4 va phys DEFAULT_PAGE_SIZE WRITEABLE;
     Some (err, if err \<noteq> 0 then ks else view_page ks va phys)
   }"

partial_function (option) heap_pages_loop :: "kstate \<Rightarrow> u64 \<Rightarrow> u64 \<Rightarrow> u64 \<Rightarrow> u64 \<Rightarrow> u64 \<Rightarrow> (bool \<times> kstate) option" where
  "heap_pages_loop ks pml4 heap_start info pages i =
     (if i < pages then
        Option.bind (heap_page_in ks pml4 (heap_start + i * DEFAULT_PAGE_SIZE) (load_entry ks (page_addr_at info (i - 1))))
          (\<lambda>(err, ks). if err \<noteq> 0 then Some (False, ks) else heap_pages_loop ks pml4 heap_start info pages (i + 1))
      else Some (True, ks))"

definition init_root_header :: "kstate \<Rightarrow> u64 \<Rightarrow> u64 \<Rightarrow> kstate" where
  "init_root_header ks allocator initial_size =
     (let ks = store_entry ks allocator (allocator + 16);
          ks = store_entry ks (allocator + 8) initial_size;
          header = heapStart ks allocator;
          ks = put_allocated ks header False;
          ks = put_block_size ks header (initial_size - 16)
      in put_prev ks header 0)"

definition init_custom_alloc :: "kstate \<Rightarrow> u64 \<Rightarrow> u64 \<Rightarrow> u64 \<Rightarrow> u64 \<Rightarrow> (u64 \<times> kstate) option" where
  "init_custom_alloc ks cr3 initial_size heap_start info_page = do {
     let pml4 = KERNEL_PHYS_TO_VIRT cr3;
     let heap_start = ALIGN_DOWN heap_start DEFAULT_PAGE_SIZE;
     let st = heap_start + 0x1000;
     (err, ks) \<leftarrow> heap_page_in ks pml4 st (load_entry ks (page_addr_at info_page 0));
     if err \<noteq> 0 then Some (0, ks)
     else do {
       let info_page = st;
       let pages = ALIGN_UP initial_size DEFAULT_PAGE_SIZE div DEFAULT_PAGE_SIZE;
       let initial_size = pages * DEFAULT_PAGE_SIZE;
       (fi, ks) \<leftarrow> ialloc_frames ks 1 DEFAULT_PAGE;
       (err, ks) \<leftarrow> heap_page_in ks pml4 heap_start (load_entry ks (page_addr_at fi 0));
       if err \<noteq> 0 then Some (0, ks)
       else do {
         (ok, ks) \<leftarrow> heap_pages_loop ks pml4 heap_start info_page pages 2;
         if \<not> ok then Some (0, ks)
         else do {
           let allocator = heap_start;
           Some (allocator, init_root_header ks allocator initial_size)
         }
       }
     }
   }"

definition alloc_init :: "kstate \<Rightarrow> u64 \<Rightarrow> u64 \<Rightarrow> u64 \<Rightarrow> (u64 \<times> kstate) option" where
  "alloc_init ks cr3 initial_size heap_start = do {
     let pages = ALIGN_UP initial_size DEFAULT_PAGE_SIZE div DEFAULT_PAGE_SIZE;
     (info, ks) \<leftarrow> ialloc_frames ks pages DEFAULT_PAGE;
     init_custom_alloc ks cr3 initial_size heap_start info
   }"

section \<open>Growing\<close>

partial_function (option) map_frame_into_heap :: "kstate \<Rightarrow> u64 \<Rightarrow> u64 \<Rightarrow> u64 \<Rightarrow> u64 \<Rightarrow> (int \<times> kstate) option" where
  "map_frame_into_heap ks a pml4 info i =
     (if i < load_entry ks (page_count_at info) then
        Option.bind (heap_page_in ks pml4 (heapStart ks a + heapSize ks a + i * DEFAULT_PAGE_SIZE)
            (load_entry ks (page_addr_at info i)))
          (\<lambda>(err, ks). if err \<noteq> 0 then Some (- 1, ks) else map_frame_into_heap ks a pml4 info (i + 1))
      else Some (0, ks))"

text \<open>The end of \<^verbatim>\<open>Imalloc_alocator\<close>: ask for more frames; the request itself then fails in any case.\<close>

definition grow_heap :: "kstate \<Rightarrow> u64 \<Rightarrow> u64 \<Rightarrow> (u64 \<times> kstate) option" where
  "grow_heap ks cr3 a = do {
     (info, ks) \<leftarrow> ialloc_frames ks (ALIGN_UP (heapSize ks a * 30 div 10) DEFAULT_PAGE_SIZE) DEFAULT_PAGE;
     let info = KERNEL_VIRT_TO_PHYS info;
     (err, ks) \<leftarrow> map_frame_into_heap ks a cr3 info 0;
     if err \<noteq> 0 then Some (0, ks)
     else do {
       let ks = store_entry ks (a + 8) (heapSize ks a + load_entry ks (page_count_at info) * DEFAULT_PAGE_SIZE);
       Some (FRAME_ALLOC_FAILED, ks)
     }
   }"

section \<open>Allocation\<close>

definition split_block :: "kstate \<Rightarrow> u64 \<Rightarrow> u64 \<Rightarrow> kstate" where
  "split_block ks header sz =
     (let next_block = header + sz;
          remaining_s = block_size ks header - sz;
          ks = put_allocated ks next_block False;
          ks = put_block_size ks next_block remaining_s;
          ks = put_prev ks next_block sz;
          ks = put_allocated ks header True
      in put_block_size ks header sz)"

text \<open>The inner loop; \<open>None\<close> in the first component when it ends without a block.\<close>

partial_function (option) malloc_scan :: "kstate \<Rightarrow> u64 \<Rightarrow> u64 \<Rightarrow> u64 \<Rightarrow> (u64 option \<times> kstate) option" where
  "malloc_scan ks a sz header =
     (if header + block_size ks header < heapStart ks a + heapSize ks a then
        (if \<not> allocated ks header \<and> block_size ks header = sz
         then Some (Some (header + META_DATA_SIZE), put_allocated ks header True)
         else if \<not> allocated ks header \<and> block_size ks header > sz
         then Some (Some (header + META_DATA_SIZE), split_block ks header sz)
         else if \<not> allocated ks header then Some (None, ks)
         else malloc_scan ks a sz (header + block_size ks header))
      else Some (None, ks))"

definition Imalloc_alocator :: "kstate \<Rightarrow> u64 \<Rightarrow> u64 \<Rightarrow> u64 \<Rightarrow> (u64 \<times> kstate) option" where
  "Imalloc_alocator ks cr3 a sz = do {
     let sz = sz + META_DATA_SIZE;
     let sz = ALIGN_UP sz HEAP_ALIGNMENT;
     (r, ks) \<leftarrow> malloc_scan ks a sz (heapStart ks a);
     case r of Some p \<Rightarrow> Some (p, ks) | None \<Rightarrow> grow_heap ks cr3 a
   }"

definition Imalloc :: "kstate \<Rightarrow> u64 \<Rightarrow> u64 \<Rightarrow> (u64 \<times> kstate) option" where
  "Imalloc ks cr3 sz = Imalloc_alocator ks cr3 KERNEL_HEAP_ADDR sz"

definition Icalloc :: "kstate \<Rightarrow> u64 \<Rightarrow> u64 \<Rightarrow> u64 \<Rightarrow> (u64 \<times> kstate) option" where
  "Icalloc ks cr3 units unit_size = do {
     let sz = units * unit_size;
     (ptr, ks) \<leftarrow> Imalloc_alocator ks cr3 KERNEL_HEAP_ADDR sz;
     Some (ptr, ks\<lparr>kmem := Imemset (kmem ks) ptr 0 sz\<rparr>)
   }"

section \<open>Release\<close>

definition free :: "kstate \<Rightarrow> u64 \<Rightarrow> kstate" where
  "free ks addr =
     (let header = addr - 16;
          next_block = header + block_size ks header;
          prev_block = header - prev_block_data ks header;
          (working, ks) =
            (if \<not> allocated ks prev_block
             then (prev_block, put_block_size ks prev_block (block_size ks prev_block + (block_size ks header + 16)))
             else (header, ks));
          ks = (if \<not> allocated ks next_block
                then put_block_size ks working (block_size ks working + (block_size ks next_block + 16))
                else ks)
      in put_allocated ks working False)"

definition Irealloc :: "kstate \<Rightarrow> u64 \<Rightarrow> u64 \<Rightarrow> u64 \<Rightarrow> (u64 \<times> kstate) option" where
  "Irealloc ks cr3 ptr new_size = do {
     (ptr2, ks) \<leftarrow> Imalloc ks cr3 new_size;
     let ks = ks\<lparr>kmem := Imemcpy (kmem ks) ptr ptr2 new_size\<rparr>;
     let ks = free ks ptr;
     Some (ptr2, ks)
   }"

end
