(* ===== verification/Heap_Blocks.thy ===== *)
theory Heap_Blocks
  imports Heap
begin

text \<open>
  The heap as the list of its blocks, each with its size and whether it is in use, and what
  allocation and release do to that list.
\<close>

section \<open>Places in the heap\<close>

definition place_of :: "u64 \<Rightarrow> nat \<Rightarrow> u64" where
  "place_of a q = a + of_nat q"

lemma unat_place: "unat a + q < 18446744073709551616 \<Longrightarrow> unat (place_of a q) = unat a + q"
  by (simp add: place_of_def unat_add_u64 unat_of_nat_u64)

lemma place_inject:
  "unat a + q < 18446744073709551616 \<Longrightarrow> unat a + r < 18446744073709551616 \<Longrightarrow> place_of a q = place_of a r \<longleftrightarrow> q = r"
  by (simp add: word_eq_by_unat unat_place)

lemma place_add [simp]: "place_of a q + of_nat n = place_of a (q + n)"
  by (simp add: place_of_def)

lemma place_add_8 [simp]: "place_of a q + 8 = place_of a (q + 8)"
  by (simp add: place_of_def)

lemma place_zero: "a = place_of a 0" "a + 8 = place_of a 8" "a + 16 = place_of a 16"
  by (simp_all add: place_of_def)

lemma place_aligned: "8 dvd unat a \<Longrightarrow> 8 dvd q \<Longrightarrow> unat a + q < 18446744073709551616 \<Longrightarrow> place_of a q mod 8 = 0"
  by (simp add: word_eq_by_unat unat_mod unat_place)

lemma store_entry_at:
  assumes "8 dvd unat a" "8 dvd q" "8 dvd r" "unat a + q < 18446744073709551616" "unat a + r < 18446744073709551616"
  shows "load_entry (store_entry ks (place_of a q) v) (place_of a r) = (if r = q then v else load_entry ks (place_of a r))"
  using assms by (simp add: load_entry_def store_entry_def load64_store64 place_aligned place_inject)

lemma store_entry_same [simp]: "load_entry (store_entry ks x v) x = v"
  by (simp add: load_entry_def store_entry_def)

lemma store64_byte: "8 \<le> unat (x - a) \<Longrightarrow> store64 m a v x = m x"
proof -
  assume x: "8 \<le> unat (x - a)"
  have "x \<noteq> a + of_nat i" if "i < 8" for i
    using x that by (auto simp: unat_of_nat_u64)
  then show ?thesis unfolding store64_def by (rule store_le_other)
qed

lemma store_entry_byte: "8 \<le> unat (x - y) \<Longrightarrow> kmem (store_entry ks y v) x = kmem ks x"
  by (simp add: store_entry_def store64_byte)

text \<open>A byte outside \<open>n\<close> bytes at \<open>q\<close> is not one of a qword inside them.\<close>

lemma far_in_block:
  assumes "n \<le> unat (x - place_of a q)" "j + 8 \<le> n" "n < 2 ^ 62"
  shows "8 \<le> unat (x - place_of a (q + j))"
proof -
  have d: "x - place_of a (q + j) = (x - place_of a q) - of_nat j" by (simp add: place_of_def algebra_simps)
  have uj: "unat (of_nat j :: u64) = j" using assms(2,3) by (simp add: unat_of_nat_u64)
  have "(of_nat j :: u64) \<le> x - place_of a q" using assms(1,2) uj by (simp add: le_by_unat)
  then have "unat (x - place_of a (q + j)) = unat (x - place_of a q) - j" unfolding d by (simp only: unat_sub_word uj)
  then show ?thesis using assms(1,2) by simp
qed

lemma kmmap_store_entry [simp]: "kmmap (store_entry ks x v) = kmmap ks"
  by (simp add: store_entry_def)

section \<open>Blocks\<close>

type_synonym block = "nat \<times> bool"

abbreviation total :: "block list \<Rightarrow> nat" where
  "total bs \<equiv> sum_list (map fst bs)"

fun blocks_at :: "kstate \<Rightarrow> u64 \<Rightarrow> nat \<Rightarrow> block list \<Rightarrow> bool" where
  "blocks_at ks a q [] = True"
| "blocks_at ks a q ((n, b) # bs) =
     (load_entry ks (place_of a q) = put_bit 63 b (of_nat n) \<and> blocks_at ks a (q + n) bs)"

definition sizes_ok :: "block list \<Rightarrow> bool" where
  "sizes_ok bs \<longleftrightarrow> (\<forall>x \<in> set bs. 16 dvd fst x \<and> 0 < fst x)"

lemma sizes_ok_simps [simp]:
  "sizes_ok []" "sizes_ok (x # bs) \<longleftrightarrow> 16 dvd fst x \<and> 0 < fst x \<and> sizes_ok bs"
  "sizes_ok (bs @ cs) \<longleftrightarrow> sizes_ok bs \<and> sizes_ok cs"
  by (auto simp: sizes_ok_def)

lemma total_dvd: "sizes_ok bs \<Longrightarrow> 16 dvd total bs"
  by (induction bs) auto

definition heap_inv :: "kstate \<Rightarrow> u64 \<Rightarrow> block list \<Rightarrow> bool" where
  "heap_inv ks a bs \<longleftrightarrow> 16 dvd unat a \<and> unat a + 64 + total bs < 18446744073709551616 \<and> total bs + 16 < 2 ^ 62 \<and>
     heapStart ks a = place_of a 16 \<and> heapSize ks a = of_nat (16 + total bs) \<and> sizes_ok bs \<and> blocks_at ks a 16 bs"

lemma blocks_at_append: "blocks_at ks a q (bs @ cs) \<longleftrightarrow> blocks_at ks a q bs \<and> blocks_at ks a (q + total bs) cs"
  by (induction bs arbitrary: q) (auto simp: add.assoc)

lemma blocks_at_cong:
  "sizes_ok bs \<Longrightarrow> 16 dvd q \<Longrightarrow>
    (\<And>r. q \<le> r \<Longrightarrow> r < q + total bs \<Longrightarrow> 16 dvd r \<Longrightarrow> load_entry ks' (place_of a r) = load_entry ks (place_of a r)) \<Longrightarrow>
    blocks_at ks' a q bs \<longleftrightarrow> blocks_at ks a q bs"
proof (induction bs arbitrary: q)
  case (Cons x bs)
  obtain n b where x: "x = (n, b)" by (cases x)
  have "load_entry ks' (place_of a q) = load_entry ks (place_of a q)" using Cons.prems x by simp
  moreover have "blocks_at ks' a (q + n) bs \<longleftrightarrow> blocks_at ks a (q + n) bs"
    using Cons.prems x by (intro Cons.IH) (auto intro: dvd_add)
  ultimately show ?case using x by simp
qed simp

text \<open>The header's fields.\<close>

lemma bit_of_nat_63: "n < 2 ^ 62 \<Longrightarrow> \<not> bit (of_nat n :: u64) 63"
proof -
  assume "n < 2 ^ 62"
  then have "n div 2 ^ 63 = 0" by (intro div_less) (simp add: power_def)
  then have "\<not> bit n 63" by (simp add: bit_iff_odd)
  moreover have "bit (of_nat n :: u64) 63 \<longleftrightarrow> bit n 63"
    by transfer (simp add: bit_take_bit_iff bit_of_nat_iff)
  ultimately show ?thesis by simp
qed

lemma header_fields:
  assumes "n < 2 ^ 62" "load_entry ks h = put_bit 63 b (of_nat n)"
  shows "block_size ks h = of_nat n" "allocated ks h = b"
proof -
  have n: "\<not> bit (of_nat n :: u64) 63" by (rule bit_of_nat_63 [OF assms(1)])
  show "block_size ks h = of_nat n"
    unfolding block_size_def assms(2)
    by (rule bit_eqI) (use n in \<open>auto simp: bit_simps bit_put_bit dest: bit_imp_le_length intro: le_neq_implies_less\<close>)
  show "allocated ks h = b" by (simp add: allocated_def assms(2) bit_put_bit)
qed

lemma put_bit_twice [simp]: "put_bit n b (put_bit n c e) = put_bit n b e"
  by (rule bit_eqI) (simp add: bit_put_bit)

lemma put_fields:
  assumes "n < 2 ^ 62"
  shows "put_block_size ks h (of_nat n) = store_entry ks h (put_bit 63 (allocated ks h) (of_nat n))"
    "load_entry ks h = put_bit 63 c (of_nat n) \<Longrightarrow> put_allocated ks h b = store_entry ks h (put_bit 63 b (of_nat n))"
proof -
  have "take_bit 63 (of_nat n :: u64) = of_nat n"
    using bit_of_nat_63 [OF assms] by (intro bit_eqI) (auto simp: bit_simps dest: bit_imp_le_length intro: le_neq_implies_less)
  then show "put_block_size ks h (of_nat n) = store_entry ks h (put_bit 63 (allocated ks h) (of_nat n))"
    by (simp add: put_block_size_def)
qed (simp add: put_allocated_def)

section \<open>The search\<close>

definition all_used :: "block list \<Rightarrow> bool" where
  "all_used bs \<longleftrightarrow> (\<forall>x \<in> set bs. snd x)"

lemma all_used_simps [simp]:
  "all_used []" "all_used (x # bs) \<longleftrightarrow> snd x \<and> all_used bs" "all_used (bs @ cs) \<longleftrightarrow> all_used bs \<and> all_used cs"
  by (auto simp: all_used_def)

lemma heap_end:
  assumes "heap_inv ks a bs"
  shows "heapStart ks a + heapSize ks a = place_of a (32 + total bs)"
  using assms by (simp add: heap_inv_def place_of_def)

text \<open>A header that lies in the heap with its block is visited.\<close>

lemma scan_step:
  assumes inv: "heap_inv ks a bs" and q: "q + n \<le> 16 + total bs" and h: "load_entry ks (place_of a q) = put_bit 63 b (of_nat n)"
  shows "malloc_scan ks a sz (place_of a q) =
     (if \<not> b \<and> of_nat n = sz then Some (Some (place_of a (q + 16)), put_allocated ks (place_of a q) True)
      else if \<not> b \<and> sz < of_nat n then Some (Some (place_of a (q + 16)), split_block ks (place_of a q) sz)
      else if \<not> b then Some (None, ks)
      else malloc_scan ks a sz (place_of a (q + n)))"
proof -
  have bounds: "n < 2 ^ 62" "unat a + 64 + total bs < 18446744073709551616" using inv q by (auto simp: heap_inv_def)
  note f = header_fields [OF bounds(1) h]
  have "place_of a (q + n) < place_of a (32 + total bs)"
    using q bounds(2) by (simp add: less_by_unat unat_place)
  moreover have "place_of a q + META_DATA_SIZE = place_of a (q + 16)" by (simp add: META_DATA_SIZE_def place_of_def)
  ultimately show ?thesis
    by (subst malloc_scan.simps) (simp add: f heap_end [OF inv])
qed

lemma scan_used:
  assumes inv: "heap_inv ks a bs" and bl: "blocks_at ks a q us" "all_used us" "q + total us \<le> 16 + total bs"
  shows "malloc_scan ks a sz (place_of a q) = malloc_scan ks a sz (place_of a (q + total us))"
  using bl
proof (induction us arbitrary: q)
  case (Cons x us)
  obtain n where x: "x = (n, True)" using Cons.prems(2) by (cases x) auto
  have "malloc_scan ks a sz (place_of a q) = malloc_scan ks a sz (place_of a (q + n))"
    using scan_step [OF inv, of q n True sz] Cons.prems x by simp
  also have "\<dots> = malloc_scan ks a sz (place_of a (q + n + total us))"
    using Cons.prems x by (intro Cons.IH) simp_all
  finally show ?case using x by (simp add: add.assoc)
qed simp

section \<open>Taking a block\<close>

definition taken_from :: "block list \<Rightarrow> nat \<Rightarrow> nat \<Rightarrow> block list \<Rightarrow> block list" where
  "taken_from us n k vs = us @ (k, True) # (if k = n then vs else (n - k, False) # vs)"

lemma total_taken: "k \<le> n \<Longrightarrow> total (taken_from us n k vs) = total (us @ (n, b) # vs)"
  by (simp add: taken_from_def)

lemma heap_inv_blocks:
  assumes "heap_inv ks a (us @ (n, b) # vs)"
  shows "16 dvd unat a" "16 dvd n" "0 < n" "n < 2 ^ 62" "16 dvd total us" "sizes_ok us" "sizes_ok vs"
    "unat a + 64 + (total us + n + total vs) < 18446744073709551616"
    "blocks_at ks a 16 us" "load_entry ks (place_of a (16 + total us)) = put_bit 63 b (of_nat n)"
    "blocks_at ks a (16 + total us + n) vs" "heapStart ks a = place_of a 16"
    "heapSize ks a = of_nat (16 + (total us + n + total vs))" "total us + n + total vs + 16 < 2 ^ 62"
  using assms total_dvd [of us] by (simp_all add: heap_inv_def blocks_at_append)

text \<open>The memory after a change at some headers in one block: the other blocks' headers are the same.\<close>

lemma heap_inv_update:
  assumes inv: "heap_inv ks a (us @ (n, b) # vs)" and sz: "sizes_ok cs" "total cs = n"
    and cs: "blocks_at ks' a (16 + total us) cs"
    and same: "\<And>q. 8 dvd q \<Longrightarrow> q < 16 + total us \<or> 16 + total us + n \<le> q \<Longrightarrow> q < 32 + total us + n + total vs \<Longrightarrow>
      q \<noteq> 16 + total us + n + 8 \<Longrightarrow> load_entry ks' (place_of a q) = load_entry ks (place_of a q)"
  shows "heap_inv ks' a (us @ cs @ vs)"
proof -
  note h = heap_inv_blocks [OF inv]
  have "blocks_at ks' a 16 us \<longleftrightarrow> blocks_at ks a 16 us"
    by (rule blocks_at_cong) (use h in \<open>auto intro!: same intro: dvd_trans [of 8 16]\<close>)
  moreover have "blocks_at ks' a (16 + total us + n) vs \<longleftrightarrow> blocks_at ks a (16 + total us + n) vs"
  proof (rule blocks_at_cong)
    show "load_entry ks' (place_of a r) = load_entry ks (place_of a r)"
      if "16 + total us + n \<le> r" "r < 16 + total us + n + total vs" "16 dvd r" for r
    proof (rule same)
      show "r \<noteq> 16 + total us + n + 8"
      proof
        assume "r = 16 + total us + n + 8"
        then have "16 dvd 8 + (16 + total us + n)" using that(3) by (simp add: add.commute)
        moreover have "16 dvd 16 + total us + n" using h(2,5) by simp
        ultimately have "16 dvd (8 :: nat)" using dvd_add_left_iff by blast
        then show False by simp
      qed
    qed (use that in \<open>auto intro: dvd_trans [of 8 16]\<close>)
  qed (use h in auto)
  moreover have "load_entry ks' (place_of a 0) = load_entry ks (place_of a 0)" "load_entry ks' (place_of a 8) = load_entry ks (place_of a 8)"
    by (rule same; simp)+
  then have "heapStart ks' a = heapStart ks a" "heapSize ks' a = heapSize ks a"
    by (simp_all add: heapStart_def heapSize_def place_of_def)
  ultimately show ?thesis using h sz cs by (simp add: heap_inv_def blocks_at_append algebra_simps)
qed

lemma dvd_16_8: "16 dvd n \<Longrightarrow> 8 dvd (n :: nat)"
  by (rule dvd_trans [of 8 16]) simp_all

lemma take_exact:
  assumes inv: "heap_inv ks a (us @ (n, False) # vs)"
  defines "h \<equiv> place_of a (16 + total us)"
  shows "heap_inv (put_allocated ks h True) a (us @ [(n, True)] @ vs)"
    "n \<le> unat (x - h) \<Longrightarrow> kmem (put_allocated ks h True) x = kmem ks x"
    "kmmap (put_allocated ks h True) = kmmap ks" "prev_block_data (put_allocated ks h True) h = prev_block_data ks h"
proof -
  note i = heap_inv_blocks [OF inv]
  have st: "put_allocated ks h True = store_entry ks h (put_bit 63 True (of_nat n))"
    using put_fields(2) [OF i(4), of ks h False True] i(10) by (simp add: h_def)
  have ld: "load_entry (put_allocated ks h True) (place_of a r) =
      (if r = 16 + total us then put_bit 63 True (of_nat n) else load_entry ks (place_of a r))"
    if "8 dvd r" "r < 32 + total us + n + total vs" for r
    unfolding st unfolding h_def by (rule store_entry_at) (use i that in \<open>auto intro: dvd_trans [of 8 16]\<close>)
  show "heap_inv (put_allocated ks h True) a (us @ [(n, True)] @ vs)"
  proof (rule heap_inv_update [OF inv])
    show "blocks_at (put_allocated ks h True) a (16 + total us) [(n, True)]"
      using ld [of "16 + total us"] dvd_16_8 [OF i(5)] i(3) by simp
    show "load_entry (put_allocated ks h True) (place_of a r) = load_entry ks (place_of a r)"
      if "8 dvd r" "r < 16 + total us \<or> 16 + total us + n \<le> r" "r < 32 + total us + n + total vs" for r
      using ld [OF that(1,3)] that(2) i(3) by auto
  qed (use i(2,3) in simp_all)
  show "kmem (put_allocated ks h True) x = kmem ks x" if "n \<le> unat (x - h)"
  proof -
    have "16 \<le> n" using i(2,3) by (simp add: dvd_imp_le)
    then show ?thesis unfolding st using that by (intro store_entry_byte) simp
  qed
  show "kmmap (put_allocated ks h True) = kmmap ks" by (simp add: st)
  show "prev_block_data (put_allocated ks h True) h = prev_block_data ks h"
    using ld [of "24 + total us"] dvd_16_8 [OF i(5)] i(3) by (simp add: prev_block_data_def h_def)
qed

lemma take_split:
  assumes inv: "heap_inv ks a (us @ (n, False) # vs)" and k: "16 dvd k" "0 < k" "k < n"
  defines "h \<equiv> place_of a (16 + total us)"
  shows "heap_inv (split_block ks h (of_nat k)) a (us @ [(k, True), (n - k, False)] @ vs)"
    "n \<le> unat (x - h) \<Longrightarrow> kmem (split_block ks h (of_nat k)) x = kmem ks x"
    "kmmap (split_block ks h (of_nat k)) = kmmap ks" "prev_block_data (split_block ks h (of_nat k)) h = prev_block_data ks h"
proof -
  note i = heap_inv_blocks [OF inv]
  define q where "q = 16 + total us"
  have q: "h = place_of a q" "h + of_nat k = place_of a (q + k)" by (simp_all add: h_def q_def)
  have rem: "16 dvd n - k" "16 \<le> n - k" "16 \<le> k" using i(2) k by (auto simp: dvd_diff_nat dvd_imp_le)
  have sub: "(of_nat n :: u64) - of_nat k = of_nat (n - k)" using k(3) by simp
  have small: "n - k < 2 ^ 62" "k < 2 ^ 62" using i(4) k(3) by simp_all
  note ent = store_entry_at [of a, OF _ _ _ _ _]
  have dv: "8 dvd unat a" "8 dvd q" "8 dvd q + k" "8 dvd q + k + 8"
    using dvd_16_8 [OF i(1)] dvd_16_8 [OF i(5)] dvd_16_8 [OF k(1)] by (auto simp: q_def intro!: dvd_add)
  have fit: "unat a + (q + n + total vs) + 48 \<le> 18446744073709551616" using i(8) by (simp add: q_def)
  let ?next = "place_of a (q + k)"
  let ?e = "store_entry (store_entry (store_entry (store_entry (store_entry ks ?next (put_bit 63 False (load_entry ks ?next)))
      ?next (put_bit 63 False (of_nat (n - k)))) (place_of a (q + k + 8)) (of_nat k)) h (put_bit 63 True (of_nat n)))
      h (put_bit 63 True (of_nat k))"
  have lh: "load_entry ks h = put_bit 63 False (of_nat n)" using i(10) by (simp add: h_def)
  have eq: "split_block ks h (of_nat k) = ?e"
  proof -
    let ?ks1 = "store_entry ks ?next (put_bit 63 False (load_entry ks ?next))"
    let ?ks2 = "store_entry ?ks1 ?next (put_bit 63 False (of_nat (n - k)))"
    let ?ks3 = "store_entry ?ks2 (place_of a (q + k + 8)) (of_nat k)"
    let ?ks4 = "store_entry ?ks3 h (put_bit 63 True (of_nat n))"
    have "allocated ?ks1 ?next = False" by (simp add: allocated_def bit_put_bit)
    then have 2: "put_block_size ?ks1 ?next (of_nat (n - k)) = ?ks2" using put_fields(1) [OF small(1), of ?ks1 ?next] by simp
    have "load_entry ?ks3 h = put_bit 63 False (of_nat n)"
      using lh k(2) dv fit rem by (simp add: q(1) store_entry_at)
    then have 4: "put_allocated ?ks3 h True = ?ks4" using put_fields(2) [OF i(4)] by simp
    have "allocated ?ks4 h = True" by (simp add: allocated_def bit_put_bit)
    then have 5: "put_block_size ?ks4 h (of_nat k) = ?e" using put_fields(1) [OF small(2), of ?ks4 h] by simp
    have "block_size ks h = of_nat n" by (rule header_fields [OF i(4) lh])
    then show ?thesis
      by (simp only: split_block_def Let_def q(2) sub put_allocated_def [of ks] 2 put_prev_def place_add_8 4 5)
  qed
  have ld: "load_entry (split_block ks h (of_nat k)) (place_of a r) =
      (if r = q then put_bit 63 True (of_nat k) else if r = q + k then put_bit 63 False (of_nat (n - k))
       else if r = q + k + 8 then of_nat k else load_entry ks (place_of a r))"
    if "8 dvd r" "r < q + n + total vs + 16" for r
    unfolding eq unfolding q(1) using that dv fit rem k by (simp add: store_entry_at)
  have "blocks_at (split_block ks h (of_nat k)) a q [(k, True), (n - k, False)]"
    using ld [of q] ld [of "q + k"] dv k by simp
  moreover have "sizes_ok [(k, True), (n - k, False)]" using k rem by simp
  moreover have "load_entry (split_block ks h (of_nat k)) (place_of a r) = load_entry ks (place_of a r)"
    if "8 dvd r" "r < 16 + total us \<or> 16 + total us + n \<le> r" "r < 32 + total us + n + total vs" for r
  proof -
    have "r \<noteq> q" "r \<noteq> q + k" "r \<noteq> q + k + 8" using that(2) k rem by (auto simp: q_def)
    then show ?thesis using ld [OF that(1)] that(3) by (simp add: q_def)
  qed
  ultimately show "heap_inv (split_block ks h (of_nat k)) a (us @ [(k, True), (n - k, False)] @ vs)"
    using k by (intro heap_inv_update [OF inv]) (simp_all add: q_def)
  show "kmem (split_block ks h (of_nat k)) x = kmem ks x" if x: "n \<le> unat (x - h)"
  proof -
    have far: "8 \<le> unat (x - place_of a (q + j))" if "j + 8 \<le> n" for j
      using far_in_block [OF x [unfolded q(1)] that i(4)] .
    have "8 \<le> unat (x - h)" using far [of 0] rem k by (simp add: q(1))
    moreover have "8 \<le> unat (x - ?next)" using far [of k] rem by simp
    moreover have "8 \<le> unat (x - place_of a (q + k + 8))" using far [of "k + 8"] rem by (simp add: add.assoc)
    ultimately show ?thesis unfolding eq by (simp add: store_entry_byte)
  qed
  show "kmmap (split_block ks h (of_nat k)) = kmmap ks" by (simp add: eq)
  show "prev_block_data (split_block ks h (of_nat k)) h = prev_block_data ks h"
    using ld [of "q + 8"] dv(2) rem k by (simp add: prev_block_data_def q(1))
qed

end
