(* ===== verification/Heap_Props.thy ===== *)
theory Heap_Props
  imports Heap_Blocks
begin

text \<open>The properties of the kernel heap.\<close>

text \<open>The size of the block for a request: header included, rounded up to a multiple of 16.\<close>

definition block_for :: "u64 \<Rightarrow> nat" where
  "block_for sz = (unat sz + 31) div 16 * 16"

lemma block_for_ok: "16 dvd block_for sz" "0 < block_for sz"
proof -
  have "1 \<le> (unat sz + 31) div 16" by simp
  then show "0 < block_for sz" unfolding block_for_def by linarith
qed (simp add: block_for_def)

lemma request_size:
  assumes "unat sz + 31 < 18446744073709551616"
  shows "ALIGN_UP (sz + META_DATA_SIZE) HEAP_ALIGNMENT = of_nat (block_for sz)"
proof -
  have s: "unat (sz + 16) = unat sz + 16" using assms by (simp add: unat_add_u64)
  have "unat (ALIGN_UP (sz + 16) (2 ^ 4)) = (unat (sz + 16) + (2 ^ 4 - 1)) div 2 ^ 4 * 2 ^ 4"
    by (rule unat_ALIGN_UP) (use s assms in simp_all)
  then have "unat (ALIGN_UP (sz + 16) 16) = block_for sz" by (simp add: s block_for_def)
  then have "(of_nat (unat (ALIGN_UP (sz + 16) 16)) :: u64) = of_nat (block_for sz)" by (rule arg_cong)
  then show ?thesis by (simp add: META_DATA_SIZE_def HEAP_ALIGNMENT_def)
qed

section \<open>Set-up\<close>

lemma root_header:
  assumes "16 dvd unat a" "unat a + 64 + unat sz < 18446744073709551616" "16 dvd unat sz" "16 < unat sz" "unat sz < 2 ^ 62"
  shows "heap_inv (init_root_header ks a sz) a [(unat sz - 16, False)] \<and>
     prev_block_data (init_root_header ks a sz) (place_of a 16) = 0"
    and "32 \<le> unat (x - a) \<Longrightarrow> kmem (init_root_header ks a sz) x = kmem ks x"
proof -
  let ?k1 = "store_entry (store_entry ks a (a + 16)) (a + 8) sz"
  have dv: "8 dvd unat a" by (rule dvd_16_8 [OF assms(1)])
  have at: "load_entry (store_entry x (place_of a q) v) (place_of a r) = (if r = q then v else load_entry x (place_of a r))"
    if "8 dvd q" "8 dvd r" "q < 64" "r < 64" for x q r v
    using dv that assms(2) by (intro store_entry_at) simp_all
  have st: "store_entry ks a (a + 16) = store_entry ks (place_of a 0) (place_of a 16)" by (simp add: place_of_def)
  have k1: "?k1 = store_entry (store_entry ks (place_of a 0) (place_of a 16)) (place_of a 8) sz"
    by (simp only: st) (simp add: place_of_def)
  have hs: "heapStart ?k1 a = place_of a 16"
    unfolding k1 heapStart_def by (subst place_zero(1)) (simp add: at)
  have z: "sz - 16 = of_nat (unat sz - 16)" using assms(4) by (simp add: word_eq_by_unat unat_of_nat_u64 unat_sub_word le_by_unat order_less_imp_le [OF order_less_trans [OF _ assms(5)]] less_imp_diff_less)
  have small: "unat sz - 16 < 2 ^ 62" using assms(5) by simp
  let ?h = "place_of a 16"
  let ?k2 = "put_allocated ?k1 ?h False"
  have a2: "\<not> allocated ?k2 ?h" by (simp add: allocated_def put_allocated_def bit_put_bit)
  let ?k = "store_entry (store_entry (store_entry ?k1 ?h (put_bit 63 False (load_entry ?k1 ?h))) ?h (put_bit 63 False (of_nat (unat sz - 16)))) (place_of a 24) 0"
  have k: "init_root_header ks a sz = ?k"
    unfolding init_root_header_def Let_def hs z put_fields(1) [OF small, of ?k2 ?h] using a2
    by (simp add: put_prev_def put_allocated_def)
  have "load_entry ?k (place_of a 16) = put_bit 63 False (of_nat (unat sz - 16))" "load_entry ?k (place_of a 24) = 0"
    by (simp_all add: at)
  moreover have "load_entry ?k (place_of a 0) = place_of a 16" "load_entry ?k (place_of a 8) = sz"
    unfolding k1 by (simp_all add: at)
  then have "heapStart ?k a = place_of a 16" "heapSize ?k a = sz" by (simp_all add: heapStart_def heapSize_def place_of_def)
  moreover have "16 dvd unat sz - 16" using assms(3,4) by (simp add: dvd_diff_nat)
  moreover have "(of_nat (16 + (unat sz - 16)) :: u64) = sz" using assms(4) by simp
  ultimately show "heap_inv (init_root_header ks a sz) a [(unat sz - 16, False)] \<and>
     prev_block_data (init_root_header ks a sz) (place_of a 16) = 0"
    unfolding k using assms by (simp add: heap_inv_def prev_block_data_def)
  show "kmem (init_root_header ks a sz) x = kmem ks x" if "32 \<le> unat (x - a)"
  proof -
    have "32 \<le> unat (x - place_of a 0)" using that by (simp add: place_of_def)
    from far_in_block [OF this, of 0] far_in_block [OF this, of 8] far_in_block [OF this, of 16] far_in_block [OF this, of 24]
    show ?thesis unfolding k unfolding k1 by (simp add: store_entry_byte)
  qed
qed

text \<open>C20. The header that the set-up writes is a heap of one free block: all of it but the allocator's struct.\<close>

theorem init_root_header_one_block:
  assumes "16 dvd unat a" "unat a + 64 + unat sz < 18446744073709551616" "16 dvd unat sz" "16 < unat sz" "unat sz < 2 ^ 62"
  shows "heap_inv (init_root_header ks a sz) a [(unat sz - 16, False)] \<and>
     prev_block_data (init_root_header ks a sz) (place_of a 16) = 0"
  by (rule root_header(1) [OF assms])

theorem init_root_header_one_block_witness:
  "heap_inv (init_root_header \<lparr>kmem = (\<lambda>_. 0), kmmap = example_map\<rparr> KERNEL_HEAP_ADDR 0x2000) KERNEL_HEAP_ADDR [(0x1FF0, False)]"
  using init_root_header_one_block [of KERNEL_HEAP_ADDR "0x2000" "\<lparr>kmem = (\<lambda>_. 0), kmmap = example_map\<rparr>"]
  by (simp add: KERNEL_HEAP_ADDR_def)

text \<open>A heap of two pages for the examples.\<close>

definition demo_heap :: kstate where
  "demo_heap = init_root_header \<lparr>kmem = (\<lambda>_. 0), kmmap = example_map\<rparr> KERNEL_HEAP_ADDR 0x2000"

lemma demo_heap_inv: "heap_inv demo_heap KERNEL_HEAP_ADDR [(0x1FF0, False)]"
  "prev_block_data demo_heap (place_of KERNEL_HEAP_ADDR 16) = 0"
proof -
  have "unat KERNEL_HEAP_ADDR = 0xFFFFFF0000000000" by (simp add: KERNEL_HEAP_ADDR_def)
  then show "heap_inv demo_heap KERNEL_HEAP_ADDR [(0x1FF0, False)]"
    "prev_block_data demo_heap (place_of KERNEL_HEAP_ADDR 16) = 0"
    unfolding demo_heap_def using root_header [of KERNEL_HEAP_ADDR "0x2000"] by simp_all
qed

section \<open>Allocation\<close>

lemma malloc_taken:
  assumes inv: "heap_inv ks a (us @ (n, False) # vs)" and us: "all_used us"
    and sz: "unat sz + 31 < 18446744073709551616" "block_for sz \<le> n"
  obtains ks' where "Imalloc_alocator ks cr3 a sz = Some (place_of a (32 + total us), ks')"
    "heap_inv ks' a (taken_from us n (block_for sz) vs)"
    "\<And>x. n \<le> unat (x - place_of a (16 + total us)) \<Longrightarrow> kmem ks' x = kmem ks x" "kmmap ks' = kmmap ks"
    "prev_block_data ks' (place_of a (16 + total us)) = prev_block_data ks (place_of a (16 + total us))"
proof -
  note i = heap_inv_blocks [OF inv]
  let ?k = "block_for sz" let ?q = "16 + total us"
  have k: "(of_nat ?k :: u64) = of_nat n \<longleftrightarrow> ?k = n" "(of_nat ?k :: u64) < of_nat n \<longleftrightarrow> ?k < n"
    using sz(2) i(4) by (auto simp: word_eq_by_unat less_by_unat unat_of_nat_u64)
  have "malloc_scan ks a (of_nat ?k) (place_of a 16) = malloc_scan ks a (of_nat ?k) (place_of a ?q)"
    by (rule scan_used [OF inv i(9) us]) simp
  also have "\<dots> = (if n = ?k then Some (Some (place_of a (?q + 16)), put_allocated ks (place_of a ?q) True)
      else Some (Some (place_of a (?q + 16)), split_block ks (place_of a ?q) (of_nat ?k)))"
    using scan_step [OF inv _ i(10), of "of_nat ?k"] k sz(2) by auto
  finally have go: "Imalloc_alocator ks cr3 a sz = Some (place_of a (32 + total us),
      if n = ?k then put_allocated ks (place_of a ?q) True else split_block ks (place_of a ?q) (of_nat ?k))"
    by (simp add: Imalloc_alocator_def request_size [OF sz(1)] i(12))
  show thesis
  proof (cases "n = ?k")
    case True
    then show thesis using take_exact [OF inv] go
      by (intro that [of "put_allocated ks (place_of a ?q) True"]) (simp_all add: taken_from_def)
  next
    case False
    then have "?k < n" using sz(2) by simp
    then show thesis using take_split [OF inv block_for_ok] go False
      by (intro that [of "split_block ks (place_of a ?q) (of_nat ?k)"]) (simp_all add: taken_from_def)
  qed
qed

text \<open>C18. If the first free block is big enough, allocation returns the address behind its header, takes
  the requested size with its header, rounded up to 16, from its beginning and leaves the rest as a
  free block; all other bytes, in particular those of other blocks, are as before.\<close>

theorem malloc_takes_first_free_block:
  assumes "heap_inv ks a (us @ (n, False) # vs)" "all_used us" "unat sz + 31 < 18446744073709551616" "block_for sz \<le> n"
  shows "\<exists>ks'. Imalloc_alocator ks cr3 a sz = Some (place_of a (32 + total us), ks') \<and>
     heap_inv ks' a (taken_from us n (block_for sz) vs) \<and> kmmap ks' = kmmap ks \<and>
     (\<forall>x. n \<le> unat (x - place_of a (16 + total us)) \<longrightarrow> kmem ks' x = kmem ks x)"
  by (rule malloc_taken [OF assms]) blast

theorem malloc_takes_first_free_block_witness:
  "\<exists>ks'. Imalloc_alocator demo_heap 0 KERNEL_HEAP_ADDR 100 = Some (place_of KERNEL_HEAP_ADDR 32, ks') \<and>
     heap_inv ks' KERNEL_HEAP_ADDR [(128, True), (0x1FF0 - 128, False)]"
proof -
  have "block_for 100 = 128" by (simp add: block_for_def)
  then show ?thesis
    using malloc_takes_first_free_block [of demo_heap KERNEL_HEAP_ADDR "[]" "0x1FF0" "[]" 100 0] demo_heap_inv(1)
    by (auto simp: taken_from_def)
qed

section \<open>Release\<close>

lemma free_between_used:
  assumes inv: "heap_inv ks a (us @ (n, True) # (m, True) # vs)"
    and prev: "allocated ks (place_of a (16 + total us) - prev_block_data ks (place_of a (16 + total us)))"
  shows "heap_inv (free ks (place_of a (32 + total us))) a (us @ (n, False) # (m, True) # vs)"
    "8 \<le> unat (x - place_of a (16 + total us)) \<Longrightarrow> kmem (free ks (place_of a (32 + total us))) x = kmem ks x"
    "kmmap (free ks (place_of a (32 + total us))) = kmmap ks"
proof -
  note i = heap_inv_blocks [OF inv]
  let ?q = "16 + total us" let ?h = "place_of a ?q"
  have hd: "place_of a (32 + total us) - 16 = ?h" by (simp add: place_of_def)
  have sz: "block_size ks ?h = of_nat n" by (rule header_fields [OF i(4,10)])
  have m: "m < 2 ^ 62" using i(14) by simp
  have "load_entry ks (place_of a (?q + n)) = put_bit 63 True (of_nat m)" using i(11) by simp
  from header_fields(2) [OF m this] have nx: "allocated ks (place_of a (?q + n))" by simp
  let ?e = "store_entry ks ?h (put_bit 63 False (of_nat n))"
  have fr: "free ks (place_of a (32 + total us)) = ?e"
    using put_fields(2) [OF i(4,10), of False] prev nx by (simp add: free_def Let_def hd sz)
  have ld: "load_entry ?e (place_of a r) = (if r = ?q then put_bit 63 False (of_nat n) else load_entry ks (place_of a r))"
    if "8 dvd r" "r < 32 + total us + n + total ((m, True) # vs)" for r
    by (rule store_entry_at) (use i that dvd_16_8 [OF i(1)] dvd_16_8 [OF i(5)] in \<open>auto intro: dvd_add\<close>)
  have "heap_inv ?e a (us @ [(n, False)] @ (m, True) # vs)"
  proof (rule heap_inv_update [OF inv])
    show "blocks_at ?e a ?q [(n, False)]" by simp
    show "load_entry ?e (place_of a r) = load_entry ks (place_of a r)"
      if "8 dvd r" "r < ?q \<or> ?q + n \<le> r" "r < 32 + total us + n + total ((m, True) # vs)" for r
      using ld [OF that(1,3)] that(2) i(3) by auto
  qed (use i(2,3) in simp_all)
  then show "heap_inv (free ks (place_of a (32 + total us))) a (us @ (n, False) # (m, True) # vs)" by (simp add: fr)
  show "8 \<le> unat (x - ?h) \<Longrightarrow> kmem (free ks (place_of a (32 + total us))) x = kmem ks x"
    by (simp add: fr store_entry_byte)
  show "kmmap (free ks (place_of a (32 + total us))) = kmmap ks" by (simp add: fr)
qed

text \<open>C19. Releasing a block whose neighbours are in use makes exactly this block free and changes no
  byte but its header's first eight.\<close>

theorem free_releases_block:
  assumes "heap_inv ks a (us @ (n, True) # (m, True) # vs)"
    and "allocated ks (place_of a (16 + total us) - prev_block_data ks (place_of a (16 + total us)))"
  shows "heap_inv (free ks (place_of a (32 + total us))) a (us @ (n, False) # (m, True) # vs) \<and>
     (\<forall>x. 8 \<le> unat (x - place_of a (16 + total us)) \<longrightarrow> kmem (free ks (place_of a (32 + total us))) x = kmem ks x)"
  using free_between_used [OF assms] by blast

text \<open>Two blocks of the example heap.\<close>

lemma load_entry_cong: "(\<And>i. i < 8 \<Longrightarrow> kmem ks' (x + of_nat i) = kmem ks (x + of_nat i)) \<Longrightarrow> load_entry ks' x = load_entry ks x"
  unfolding load_entry_def load64_def by (rule load_le_cong)

lemma demo_two_blocks:
  obtains ks where "heap_inv ks KERNEL_HEAP_ADDR [(32, True), (128, True), (8016, False)]"
    "prev_block_data ks (place_of KERNEL_HEAP_ADDR 16) = 0" "allocated ks (place_of KERNEL_HEAP_ADDR 16)"
proof -
  let ?a = KERNEL_HEAP_ADDR
  have bf: "block_for 16 = 32" "block_for 100 = 128" by (simp_all add: block_for_def)
  obtain k1 where k1: "heap_inv k1 ?a (taken_from [] 0x1FF0 (block_for 16) [])" "prev_block_data k1 (place_of ?a (16 + total [])) = 0"
    by (rule malloc_taken [of demo_heap ?a "[]" "0x1FF0" "[]" 16 0]) (use demo_heap_inv in \<open>simp_all add: bf\<close>)
  then have inv1: "heap_inv k1 ?a ([(32, True)] @ (8144, False) # [])" by (simp add: taken_from_def bf)
  obtain k2 where k2: "heap_inv k2 ?a (taken_from [(32, True)] 8144 (block_for 100) [])"
    "\<And>x. 8144 \<le> unat (x - place_of ?a (16 + total [(32, True)])) \<Longrightarrow> kmem k2 x = kmem k1 x"
    by (rule malloc_taken [OF inv1, of 100 0]) (simp_all add: bf)
  have "load_entry k2 (place_of ?a 24) = load_entry k1 (place_of ?a 24)"
  proof (rule load_entry_cong)
    fix i :: nat assume i: "i < 8"
    have "unat (place_of ?a 24 + of_nat i - place_of ?a 48) = unat (of_nat i - 24 :: u64)" by (simp add: place_of_def)
    also have "(of_nat i - 24 :: u64) = of_nat (18446744073709551616 + i - 24)" using i by simp
    also have "unat \<dots> = 18446744073709551616 + i - 24" by (rule unat_of_nat_u64) (use i in simp)
    finally show "kmem k2 (place_of ?a 24 + of_nat i) = kmem k1 (place_of ?a 24 + of_nat i)"
      by (intro k2(2)) (use i in simp)
  qed
  then have "prev_block_data k2 (place_of ?a 16) = 0" using k1(2) by (simp add: prev_block_data_def)
  moreover have inv2: "heap_inv k2 ?a [(32, True), (128, True), (8016, False)]" using k2(1) by (simp add: taken_from_def bf)
  moreover have "allocated k2 (place_of ?a 16)"
    using inv2 header_fields(2) [of 32 k2 "place_of ?a 16" True] by (simp add: heap_inv_def)
  ultimately show thesis using that by blast
qed

theorem free_releases_block_witness:
  "\<exists>ks. heap_inv ks KERNEL_HEAP_ADDR [(32, True), (128, True), (8016, False)] \<and>
     heap_inv (free ks (place_of KERNEL_HEAP_ADDR 32)) KERNEL_HEAP_ADDR [(32, False), (128, True), (8016, False)]"
proof -
  obtain ks where ks: "heap_inv ks KERNEL_HEAP_ADDR [(32, True), (128, True), (8016, False)]"
    "prev_block_data ks (place_of KERNEL_HEAP_ADDR 16) = 0" "allocated ks (place_of KERNEL_HEAP_ADDR 16)"
    by (rule demo_two_blocks)
  then show ?thesis using free_releases_block [of ks KERNEL_HEAP_ADDR "[]" 32 128 "[(8016, False)]"] by auto
qed

section \<open>Failures\<close>

text \<open>The search stops at the first free block: if it is too small the heap tries to grow, whatever
  follows.\<close>

theorem malloc_stops_at_small_block:
  assumes "heap_inv ks a (us @ (n, False) # vs)" "all_used us" "unat sz + 31 < 18446744073709551616" "n < block_for sz" "block_for sz < 2 ^ 62"
  shows "Imalloc_alocator ks cr3 a sz = grow_heap ks cr3 a"
proof -
  note i = heap_inv_blocks [OF assms(1)]
  let ?k = "block_for sz" let ?q = "16 + total us"
  have k: "(of_nat ?k :: u64) \<noteq> of_nat n" "\<not> (of_nat ?k :: u64) < of_nat n"
    using assms(4,5) i(4) by (auto simp: word_eq_by_unat less_by_unat unat_of_nat_u64)
  have "malloc_scan ks a (of_nat ?k) (place_of a 16) = malloc_scan ks a (of_nat ?k) (place_of a ?q)"
    by (rule scan_used [OF assms(1) i(9) assms(2)]) simp
  also have "\<dots> = Some (None, ks)"
    using scan_step [OF assms(1) _ i(10), of "of_nat ?k"] k by auto
  finally show ?thesis by (simp add: Imalloc_alocator_def request_size [OF assms(3)] i(12))
qed

theorem malloc_stops_at_small_block_witness:
  "\<exists>ks. heap_inv ks KERNEL_HEAP_ADDR [(32, False), (128, True), (8016, False)] \<and>
     Imalloc_alocator ks 0 KERNEL_HEAP_ADDR 100 = grow_heap ks 0 KERNEL_HEAP_ADDR"
proof -
  obtain ks where ks: "heap_inv ks KERNEL_HEAP_ADDR ([] @ (32, True) # (128, True) # [(8016, False)])"
    "prev_block_data ks (place_of KERNEL_HEAP_ADDR 16) = 0" "allocated ks (place_of KERNEL_HEAP_ADDR 16)"
    using demo_two_blocks by auto
  then have "heap_inv (free ks (place_of KERNEL_HEAP_ADDR (32 + total []))) KERNEL_HEAP_ADDR ([] @ (32, False) # (128, True) # [(8016, False)])"
    by (intro free_between_used(1)) simp_all
  then show ?thesis
    using malloc_stops_at_small_block [of "free ks (place_of KERNEL_HEAP_ADDR 32)" KERNEL_HEAP_ADDR "[]" 32 "[(128, True), (8016, False)]" 100 0]
    by (auto simp: block_for_def)
qed

text \<open>The heap never grows: it asks for as many frames as it should ask for bytes, more than a
  list of frames can hold, and takes the error for a list.  With an empty list at the address this
  gives, the request fails and the heap keeps its size.\<close>

theorem heap_never_grows:
  assumes "heap_inv ks a bs" "unat (heapSize ks a) < 2 ^ 59" "load_entry ks 0x7FFFFFFF = 0" "bs \<noteq> []"
  shows "\<exists>ks'. grow_heap ks cr3 a = Some (FRAME_ALLOC_FAILED, ks') \<and> heapSize ks' a = heapSize ks a \<and> kmmap ks' = kmmap ks"
proof -
  let ?n = "ALIGN_UP (heapSize ks a * 30 div 10) DEFAULT_PAGE_SIZE"
  have "heapSize ks a = of_nat (16 + total bs)" "16 + total bs < 18446744073709551616"
    using assms(1) by (simp_all add: heap_inv_def)
  then have hs: "unat (heapSize ks a) = 16 + total bs" by (simp only: unat_of_nat_u64)
  have "unat (heapSize ks a * 30) = unat (heapSize ks a) * 30" using assms(2) by (simp add: unat_mult_u64)
  then have m: "unat (heapSize ks a * 30 div 10) = unat (heapSize ks a) * 3" by (simp add: unat_div_word)
  have "unat ?n = (unat (heapSize ks a) * 3 + 4095) div 4096 * 4096"
    using assms(2) by (simp add: DEFAULT_PAGE_SIZE_def ALIGN_UP_4096 m)
  moreover have "1 \<le> (unat (heapSize ks a) * 3 + 4095) div 4096" using hs by linarith
  ultimately have "510 < ?n" unfolding less_by_unat by simp
  then have "ialloc_frames ks ?n DEFAULT_PAGE = Some (FRAME_ALLOC_FAILED, ks)" by (simp add: ialloc_frames_def)
  moreover have "KERNEL_VIRT_TO_PHYS FRAME_ALLOC_FAILED = 0x7FFFFFFF"
    by (simp add: KERNEL_VIRT_TO_PHYS_def FRAME_ALLOC_FAILED_def KERNEL_VMA_def)
  moreover have "map_frame_into_heap ks a cr3 0x7FFFFFFF 0 = Some (0, ks)"
    using assms(3) by (subst map_frame_into_heap.simps) (simp add: page_count_at_def)
  ultimately have "grow_heap ks cr3 a = Some (FRAME_ALLOC_FAILED, store_entry ks (a + 8) (heapSize ks a))"
    using assms(3) by (simp add: grow_heap_def page_count_at_def)
  then show ?thesis by (simp add: heapSize_def)
qed

theorem heap_never_grows_witness:
  "\<exists>ks'. grow_heap demo_heap 0 KERNEL_HEAP_ADDR = Some (FRAME_ALLOC_FAILED, ks') \<and>
     heapSize ks' KERNEL_HEAP_ADDR = heapSize demo_heap KERNEL_HEAP_ADDR"
proof -
  have "load_entry demo_heap 0x7FFFFFFF = load_entry \<lparr>kmem = (\<lambda>_. 0), kmmap = example_map\<rparr> 0x7FFFFFFF"
  proof (rule load_entry_cong)
    fix i :: nat assume i: "i < 8"
    have "0x7FFFFFFF + of_nat i - KERNEL_HEAP_ADDR = of_nat (0xFFFFFFFFFF + 0x80000000 + i)"
      by (simp add: KERNEL_HEAP_ADDR_def)
    then have "unat (0x7FFFFFFF + of_nat i - KERNEL_HEAP_ADDR) = 0xFFFFFFFFFF + 0x80000000 + i"
      by (simp only:) (rule unat_of_nat_u64, use i in simp)
    moreover have "unat KERNEL_HEAP_ADDR = 0xFFFFFF0000000000" by (simp add: KERNEL_HEAP_ADDR_def)
    ultimately show "kmem demo_heap (0x7FFFFFFF + of_nat i) = kmem \<lparr>kmem = (\<lambda>_. 0), kmmap = example_map\<rparr> (0x7FFFFFFF + of_nat i)"
      unfolding demo_heap_def by (intro root_header(2)) simp_all
  qed
  then show ?thesis
    using heap_never_grows [OF demo_heap_inv(1), of 0] demo_heap_inv(1)
    by (auto simp: heap_inv_def unat_of_nat_u64 load_entry_def load_blank)
qed

text \<open>One release undoes the heap: after a first allocation and its release the only block is 16
  bytes bigger than the heap, so that no later request finds it.\<close>

theorem malloc_free_breaks_heap:
  assumes "heap_inv ks a [(n, False)]" "prev_block_data ks (place_of a 16) = 0"
    and "unat sz + 31 < 18446744073709551616" "block_for sz < n" "unat sz' + 31 < 18446744073709551616"
  shows "\<exists>p ks1. Imalloc_alocator ks cr3 a sz = Some (p, ks1) \<and>
     block_size (free ks1 p) (place_of a 16) = of_nat (n + 16) \<and>
     Imalloc_alocator (free ks1 p) cr3 a sz' = grow_heap (free ks1 p) cr3 a"
proof -
  let ?k = "block_for sz" let ?h = "place_of a 16"
  obtain ks1 where ks1: "Imalloc_alocator ks cr3 a sz = Some (place_of a 32, ks1)"
    "heap_inv ks1 a (taken_from [] n ?k [])" "prev_block_data ks1 ?h = 0"
    by (rule malloc_taken [of ks a "[]" n "[]" sz cr3]) (use assms in simp_all)
  then have inv: "heap_inv ks1 a ([] @ (?k, True) # [(n - ?k, False)])" using assms(4) by (simp add: taken_from_def)
  note i = heap_inv_blocks [OF inv]
  have n: "n + 16 < 2 ^ 62" using i(14) assms(4) by simp
  have hd: "place_of a 32 - 16 = ?h" by (simp add: place_of_def)
  have h: "block_size ks1 ?h = of_nat ?k" "allocated ks1 ?h" using header_fields [OF i(4), of ks1 ?h True] i(10) by simp_all
  have "load_entry ks1 (place_of a (16 + ?k)) = put_bit 63 False (of_nat (n - ?k))" "n - ?k < 2 ^ 62" using i(11) n by simp_all
  from header_fields [OF this(2,1)] have nx: "block_size ks1 (place_of a (16 + ?k)) = of_nat (n - ?k)" "\<not> allocated ks1 (place_of a (16 + ?k))"
    by simp_all
  have sum: "(of_nat ?k :: u64) + (of_nat (n - ?k) + 16) = of_nat (n + 16)" using assms(4) by simp
  let ?e1 = "store_entry ks1 ?h (put_bit 63 True (of_nat (n + 16)))"
  let ?e = "store_entry ?e1 ?h (put_bit 63 False (of_nat (n + 16)))"
  have fr: "free ks1 (place_of a 32) = ?e"
    using h nx put_fields(1) [OF n, of ks1 ?h] put_fields(2) [OF n, of ?e1 ?h True False]
    by (simp add: free_def Let_def hd ks1(3) sum del: of_nat_add)
  have ld: "load_entry ?e ?h = put_bit 63 False (of_nat (n + 16))" by simp
  note f = header_fields [OF n ld]
  have dv: "8 dvd unat a" by (rule dvd_16_8 [OF i(1)])
  have "load_entry ?e (place_of a r) = load_entry ks1 (place_of a r)" if "r = 0 \<or> r = 8" for r
    using that dv i(8) by (auto simp: store_entry_at)
  from this [of 0] this [of 8] have hs: "heapStart ?e a = ?h" "heapStart ?e a + heapSize ?e a = place_of a (32 + n)"
    using i(12,13) assms(4) by (simp_all add: heapStart_def heapSize_def place_of_def)
  have "\<not> ?h + block_size ?e ?h < heapStart ?e a + heapSize ?e a" unfolding f(1) hs(2) by (simp add: place_of_def algebra_simps)
  then have "malloc_scan ?e a s ?h = Some (None, ?e)" for s by (subst malloc_scan.simps) (simp only: if_False)
  then have "Imalloc_alocator ?e cr3 a sz' = grow_heap ?e cr3 a" unfolding Imalloc_alocator_def Let_def hs(1) by simp
  then show ?thesis using ks1(1) fr f(1) by auto
qed

theorem malloc_free_breaks_heap_witness:
  "\<exists>p ks1. Imalloc_alocator demo_heap 0 KERNEL_HEAP_ADDR 100 = Some (p, ks1) \<and>
     block_size (free ks1 p) (place_of KERNEL_HEAP_ADDR 16) = 0x2000 \<and>
     Imalloc_alocator (free ks1 p) 0 KERNEL_HEAP_ADDR 8 = grow_heap (free ks1 p) 0 KERNEL_HEAP_ADDR"
  using malloc_free_breaks_heap [OF demo_heap_inv, of 100 8 0] by (simp add: block_for_def)

end
