(* ===== verification/Process.thy ===== *)
theory Process
  imports Scheduler_Props Heap_Props
begin

text \<open>
  Creation of threads and processes, \<^verbatim>\<open>src/kernel/Processes/thread.c\<close> and
  \<^verbatim>\<open>Process.c\<close>, with the two spawning functions of \<^verbatim>\<open>scheduler.c\<close>: these
  use the heap, the frame lists, the page tables and the run queue.
\<close>

section \<open>State\<close>

record thread_memory_supply_block =
  code_memory :: u64
  mapping_memory :: u64
  stack_memory :: u64

record thread_memory_allocation_info =
  code_pages :: u64
  code_page_size :: u64
  mapping_pages :: u64
  mapping_page_size :: u64
  stack_pages :: u64
  stack_page_size :: u64

record thread_memory_permission_info =
  code_perms :: u64
  mapping_perms :: u64
  stack_perms :: u64

record thread_descriptor =
  td_tcb :: u64
  td_next_tcb :: u64

record pcb =
  parent_pid :: u64
  pcb_pid :: u64
  init_priority :: u16
  process_threads :: thread_descriptor

text \<open>
  Memory, the scheduler with the store of control blocks, the two counters, and the process
  control blocks by address.  Small structs that only one function owns are values.
\<close>

record sys =
  ks :: kstate
  sch :: sched
  TID_GEN :: u64
  PID_GEN :: u64
  pcbs :: "u64 \<Rightarrow> pcb option"

text \<open>The sizes of the structs that are allocated.\<close>

definition SIZEOF_TCB :: u64 where "SIZEOF_TCB = 272"
definition SIZEOF_PCB :: u64 where "SIZEOF_PCB = 32"
definition SIZEOF_SUPPLY_BLOCK :: u64 where "SIZEOF_SUPPLY_BLOCK = 24"
definition SIZEOF_THREAD_DESCRIPTOR :: u64 where "SIZEOF_THREAD_DESCRIPTOR = 16"

definition cr3_of :: "sys \<Rightarrow> u64" where "cr3_of s = cpu_cr3 (sch s)"

definition sys_malloc :: "sys \<Rightarrow> u64 \<Rightarrow> (u64 \<times> sys) option" where
  "sys_malloc s n = do { (p, k) \<leftarrow> Imalloc (ks s) (cr3_of s) n; Some (p, s\<lparr>ks := k\<rparr>) }"

definition sys_free :: "sys \<Rightarrow> u64 \<Rightarrow> sys" where
  "sys_free s p = s\<lparr>ks := free (ks s) p\<rparr>"

text \<open>Neither the null pointer nor the allocator's error is the address of an object.\<close>

definition is_object :: "u64 \<Rightarrow> bool" where
  "is_object p \<longleftrightarrow> p \<noteq> 0 \<and> p \<noteq> FRAME_ALLOC_FAILED"

section \<open>Threads\<close>

definition initial_regs :: "bool \<Rightarrow> cpu_push_frame" where
  "initial_regs is_priviledged =
     \<lparr>rip = THREAD_CODE_VIRT_ADDR, cs = (if is_priviledged then 0x08 else 0x23), rflags = 0x202,
      rsp = THREAD_STACK_VIRT_ADDR, ss = (if is_priviledged then 0x10 else 0x1b)\<rparr>"

definition create_thread :: "sys \<Rightarrow> bool \<Rightarrow> u16 \<Rightarrow> (u64 \<times> sys) option" where
  "create_thread s is_priviledged prio =
     (if prio = UINT16_MAX then Some (0, s)
      else do {
        (t, s) \<leftarrow> sys_malloc s SIZEOF_TCB;
        if \<not> is_object t then None
        else do {
          let s = s\<lparr>ks := (ks s)\<lparr>kmem := Imemset (kmem (ks s)) t 0 SIZEOF_TCB\<rparr>\<rparr>;
          let id = TID_GEN s;
          let s = s\<lparr>TID_GEN := TID_GEN s + 1\<rparr>;
          (info, k) \<leftarrow> ialloc_frames (ks s) 1 DEFAULT_PAGE;
          let s = s\<lparr>ks := k\<rparr>;
          let proc_pml4 = KERNEL_VIRT_TO_PHYS info;
          let cur_pml4 = cr3_of s;
          let s = s\<lparr>ks := (ks s)\<lparr>kmem := Imemcpy (kmem (ks s)) (KERNEL_PHYS_TO_VIRT proc_pml4) (KERNEL_PHYS_TO_VIRT cur_pml4) 4096\<rparr>\<rparr>;
          let block = zero_tcb\<lparr>tid := id, registers := zero_regs\<lparr>psp := initial_regs is_priviledged\<rparr>, page_table := proc_pml4,
            tstate := THREAD_NEW, privileged := is_priviledged, priority := prio, active_priority := prio\<rparr>;
          Some (t, s\<lparr>sch := (sch s)\<lparr>tcbs := (tcbs (sch s))(t \<mapsto> block)\<rparr>\<rparr>)
        }
      })"

text \<open>The loop over the pages of a list; the list can be changed by \<open>page_in\<close>, so it may not end.\<close>

partial_function (option) supply_loop :: "sys \<Rightarrow> u64 \<Rightarrow> addr_sub_space \<Rightarrow> u64 \<Rightarrow> u64 \<Rightarrow> u64 \<Rightarrow> (int \<times> sys) option" where
  "supply_loop s t sub_space info permissions i =
     (if i < load_entry (ks s) (page_count_at info) then
        Option.bind (tcbs (sch s) t) (\<lambda>b.
        Option.bind (page_in (ks s) (KERNEL_PHYS_TO_VIRT (page_table b)) (SUB_SPACE_TO_ADDR sub_space + subspace_field (tmemory b) sub_space)
            (load_entry (ks s) (page_addr_at info i)) (load_entry (ks s) (page_size_at info))
            (permissions OR push_bit USER_ACCESS_SHIFT (of_bool (\<not> privileged b))))
          (\<lambda>(err, k). if err \<noteq> 0 then Some (- 1, s\<lparr>ks := k\<rparr>)
             else
               (let sz = load_entry k (page_size_at info);
                    m = put_field (tmemory b) sub_space (subspace_field (tmemory b) sub_space + sz);
                    m = m\<lparr>memory_limit := memory_limit m + sz\<rparr>;
                    c = (sch s)\<lparr>tcbs := (tcbs (sch s))(t \<mapsto> b\<lparr>tmemory := m\<rparr>)\<rparr>
                in supply_loop (s\<lparr>ks := k, sch := c\<rparr>) t sub_space info permissions (i + 1))))
      else Some (0, s))"

definition thread_supply_mem_region :: "sys \<Rightarrow> u64 \<Rightarrow> addr_sub_space \<Rightarrow> u64 \<Rightarrow> u64 \<Rightarrow> (int \<times> sys) option" where
  "thread_supply_mem_region s t sub_space info permissions = supply_loop s t sub_space info permissions 0"

text \<open>The size is passed on where \<^verbatim>\<open>ialloc_frames\<close> takes a page type.\<close>

definition thread_supply_new_mem_region :: "sys \<Rightarrow> u64 \<Rightarrow> addr_sub_space \<Rightarrow> u64 \<Rightarrow> page_type \<Rightarrow> u64 \<Rightarrow> (u64 \<times> sys) option" where
  "thread_supply_new_mem_region s t sub_space pages p_size permissions = do {
     let sz = PAGE_TYPE_TO_SIZE p_size;
     (info, k) \<leftarrow> ialloc_frames (ks s) pages (ucast sz);
     let s = s\<lparr>ks := k\<rparr>;
     if info = FRAME_ALLOC_FAILED then Some (FRAME_ALLOC_FAILED, s)
     else do {
       (err, s) \<leftarrow> thread_supply_mem_region s t sub_space info permissions;
       Some (if err \<noteq> 0 then FRAME_ALLOC_FAILED else info, s)
     }
   }"

definition thread_supply_new_mem ::
  "sys \<Rightarrow> u64 \<Rightarrow> thread_memory_allocation_info \<Rightarrow> thread_memory_permission_info \<Rightarrow> (int \<times> thread_memory_supply_block \<times> sys) option" where
  "thread_supply_new_mem s t a p = do {
     (c, s) \<leftarrow> thread_supply_new_mem_region s t SUBSPACE_CODE (code_pages a) (ucast (code_perms p)) (code_pages a);
     (m, s) \<leftarrow> thread_supply_new_mem_region s t SUBSPACE_MAPPING (mapping_pages a) (ucast (mapping_perms p)) (mapping_page_size a);
     (k, s) \<leftarrow> thread_supply_new_mem_region s t SUBSPACE_STACK (stack_pages a) (ucast (stack_perms p)) (stack_page_size a);
     Some (if c = FRAME_ALLOC_FAILED then - 1 else if m = FRAME_ALLOC_FAILED then - 1 else if k = FRAME_ALLOC_FAILED then - 1 else 0,
           \<lparr>code_memory = c, mapping_memory = m, stack_memory = k\<rparr>, s)
   }"

text \<open>The array of the three results, in memory from \<^verbatim>\<open>Imalloc\<close>.\<close>

definition thread_supply_mem ::
  "sys \<Rightarrow> u64 \<Rightarrow> thread_memory_supply_block \<Rightarrow> thread_memory_permission_info \<Rightarrow> (int list \<times> sys) option" where
  "thread_supply_mem s t supply_block perms = do {
     (r, s) \<leftarrow> sys_malloc s 12;
     if \<not> is_object r then None
     else do {
       (r0, s) \<leftarrow> thread_supply_mem_region s t SUBSPACE_CODE (code_memory supply_block) (code_perms perms);
       (r1, s) \<leftarrow> thread_supply_mem_region s t SUBSPACE_MAPPING (mapping_memory supply_block) (mapping_perms perms);
       (r2, s) \<leftarrow> thread_supply_mem_region s t SUBSPACE_STACK (stack_memory supply_block) (stack_perms perms);
       Some ([r0, r1, r2], s)
     }
   }"

definition spawn_thread ::
  "sys \<Rightarrow> bool \<Rightarrow> u16 \<Rightarrow> thread_memory_supply_block \<Rightarrow> thread_memory_permission_info \<Rightarrow> (u64 \<times> sys) option" where
  "spawn_thread s is_priviledged prio mem_supply_block perms = do {
     (t, s) \<leftarrow> create_thread s is_priviledged prio;
     (_, s) \<leftarrow> thread_supply_mem s t mem_supply_block perms;
     Some (t, s)
   }"

definition spawn_alloc_thread ::
  "sys \<Rightarrow> bool \<Rightarrow> u16 \<Rightarrow> thread_memory_allocation_info \<Rightarrow> thread_memory_permission_info \<Rightarrow>
     (u64 \<times> thread_memory_supply_block \<times> sys) option" where
  "spawn_alloc_thread s is_priviledged prio alloc_info perms = do {
     (t, s) \<leftarrow> create_thread s is_priviledged prio;
     (_, supply, s) \<leftarrow> thread_supply_new_mem s t alloc_info perms;
     Some (t, supply, s)
   }"

section \<open>Processes\<close>

definition default_permissions :: thread_memory_permission_info where
  "default_permissions = \<lparr>code_perms = WRITEABLE, mapping_perms = WRITEABLE OR CACHE_DISABLED, stack_perms = WRITEABLE\<rparr>"

definition release_list :: "sys \<Rightarrow> u64 \<Rightarrow> sys option" where
  "release_list s info =
     (if info \<noteq> FRAME_ALLOC_FAILED then do { (_, k) \<leftarrow> idealloc_frames (ks s) info; Some (s\<lparr>ks := k\<rparr>) } else Some s)"

definition drop_thread :: "sys \<Rightarrow> u64 \<Rightarrow> sys" where
  "drop_thread s t = sys_free (s\<lparr>sch := (sch s)\<lparr>tcbs := (tcbs (sch s))(t := None)\<rparr>\<rparr>) t"

definition init_process ::
  "sys \<Rightarrow> u64 \<Rightarrow> bool \<Rightarrow> u16 \<Rightarrow> u64 \<Rightarrow> u64 \<Rightarrow> thread_memory_allocation_info \<Rightarrow> (u64 \<times> sys) option" where
  "init_process s ppid is_priviledged prio code_location sz allocation_info = do {
     let new_pid = PID_GEN s;
     let s = s\<lparr>PID_GEN := PID_GEN s + 1\<rparr>;
     (sp, s) \<leftarrow> sys_malloc s SIZEOF_SUPPLY_BLOCK;
     if sp = 0 then Some (0, s)
     else do {
       (t, supply, s) \<leftarrow> spawn_alloc_thread s is_priviledged prio allocation_info default_permissions;
       if t = 0 then Some (0, sys_free s sp)
       else do {
         (p, s) \<leftarrow> sys_malloc s SIZEOF_PCB;
         if p = 0 then Some (0, drop_thread (sys_free s sp) t)
         else do {
           (d, s) \<leftarrow> sys_malloc s SIZEOF_THREAD_DESCRIPTOR;
           if d = 0 then Some (0, sys_free (drop_thread (sys_free s sp) t) p)
           else if \<not> is_object sp \<or> \<not> is_object p \<or> \<not> is_object d then None
           else do {
             let s = s\<lparr>pcbs := (pcbs s)(p \<mapsto> \<lparr>parent_pid = ppid, pcb_pid = new_pid, init_priority = prio,
               process_threads = \<lparr>td_tcb = t, td_next_tcb = 0\<rparr>\<rparr>)\<rparr>;
             if code_memory supply = FRAME_ALLOC_FAILED \<or> mapping_memory supply = FRAME_ALLOC_FAILED \<or>
                stack_memory supply = FRAME_ALLOC_FAILED
             then do {
               s \<leftarrow> release_list s (code_memory supply);
               s \<leftarrow> release_list s (mapping_memory supply);
               s \<leftarrow> release_list s (stack_memory supply);
               Some (0, sys_free s sp)
             }
             else Some (p, s\<lparr>ks := (ks s)\<lparr>kmem := Imemcpy (kmem (ks s)) (code_memory supply) code_location sz\<rparr>\<rparr>)
           }
         }
       }
     }
   }"

definition set_ready :: "sys \<Rightarrow> u64 \<Rightarrow> sys option" where
  "set_ready s t = do { c \<leftarrow> upd_tcb (sch s) t (\<lambda>b. b\<lparr>tstate := THREAD_READY\<rparr>); Some (s\<lparr>sch := c\<rparr>) }"

definition create_process ::
  "sys \<Rightarrow> u64 \<Rightarrow> bool \<Rightarrow> u16 \<Rightarrow> u64 \<Rightarrow> u64 \<Rightarrow> thread_memory_allocation_info \<Rightarrow> (u64 \<times> sys) option" where
  "create_process s ppid is_priviledged prio code_location sz allocation_info = do {
     (p, s) \<leftarrow> init_process s ppid is_priviledged prio code_location sz allocation_info;
     if p = 0 then Some (0, s)
     else do {
       b \<leftarrow> pcbs s p;
       let t = td_tcb (process_threads b);
       if t = 0 then Some (0, s)
       else do {
         s \<leftarrow> set_ready s t;
         c \<leftarrow> scheduler_add_thread (sch s) t;
         Some (p, s\<lparr>sch := c\<rparr>)
       }
     }
   }"

definition create_initial_process ::
  "sys \<Rightarrow> u64 \<Rightarrow> bool \<Rightarrow> u16 \<Rightarrow> u64 \<Rightarrow> u64 \<Rightarrow> thread_memory_allocation_info \<Rightarrow> (u64 \<times> sys) option" where
  "create_initial_process s ppid is_priviledged prio code_location sz allocation_info = do {
     (p, s) \<leftarrow> init_process s ppid is_priviledged prio code_location sz allocation_info;
     if p = 0 then Some (0, s)
     else do {
       b \<leftarrow> pcbs s p;
       let t = td_tcb (process_threads b);
       if t = 0 then Some (0, s)
       else do {
         c \<leftarrow> scheduler_init (sch s) t;
         s \<leftarrow> set_ready (s\<lparr>sch := c\<rparr>) t;
         Some (p, s)
       }
     }
   }"

end
