(* ===== verification/Descriptors.thy ===== *)
theory Descriptors
  imports Process
begin

text \<open>
  The descriptor tables: \<^verbatim>\<open>src/kernel/GDT/gdt.c\<close>, \<^verbatim>\<open>TSS.c\<close> and
  \<^verbatim>\<open>interrupts/IDT.c\<close>.  The tables are built as the code builds them and read back as the
  processor reads them.  The addresses of the statics are parameters; loading the tables
  (\<^verbatim>\<open>lgdt\<close>, \<^verbatim>\<open>ltr\<close>, \<^verbatim>\<open>lidt\<close>) is not modelled.
\<close>

section \<open>Segment descriptors\<close>

record gdt_entry =
  limit_low :: u16
  base_low :: u16
  base_mid :: u8
  access :: u8
  granularity :: u8
  base_high :: u8

definition gdt_set_entry :: "u32 \<Rightarrow> u32 \<Rightarrow> u8 \<Rightarrow> u8 \<Rightarrow> gdt_entry" where
  "gdt_set_entry base limit acc flags =
     \<lparr>limit_low = ucast (limit AND 0xFFFF), base_low = ucast (base AND 0xFFFF),
      base_mid = ucast (drop_bit 16 base AND 0xFF), access = acc,
      granularity = (flags AND 0xF0) OR ucast (drop_bit 16 limit AND 0x0F),
      base_high = ucast (drop_bit 24 base AND 0xFF)\<rparr>"

text \<open>The upper half of a 16-byte descriptor, stored over the entry that follows: \<^verbatim>\<open>gdt_entry_hi_t\<close>
  seen as a \<^typ>\<open>gdt_entry\<close>.\<close>

definition gdt_entry_hi :: "u32 \<Rightarrow> gdt_entry" where
  "gdt_entry_hi upper =
     \<lparr>limit_low = ucast upper, base_low = ucast (drop_bit 16 upper), base_mid = 0, access = 0, granularity = 0, base_high = 0\<rparr>"

text \<open>What the processor reads: the base, the 20-bit limit, and privilege, kind and width.\<close>

definition desc_base :: "gdt_entry \<Rightarrow> u32" where
  "desc_base d = ucast (base_low d) OR push_bit 16 (ucast (base_mid d)) OR push_bit 24 (ucast (base_high d))"

definition desc_limit :: "gdt_entry \<Rightarrow> u32" where
  "desc_limit d = ucast (limit_low d) OR push_bit 16 (ucast (granularity d AND 0x0F))"

definition desc_base64 :: "gdt_entry \<Rightarrow> gdt_entry \<Rightarrow> u64" where
  "desc_base64 lo hi = ucast (desc_base lo) OR push_bit 32 (ucast (limit_low hi)) OR push_bit 48 (ucast (base_low hi))"

definition desc_present :: "gdt_entry \<Rightarrow> bool" where "desc_present d = bit (access d) 7"
definition desc_dpl :: "gdt_entry \<Rightarrow> u8" where "desc_dpl d = drop_bit 5 (access d) AND 3"
definition desc_is_code :: "gdt_entry \<Rightarrow> bool" where "desc_is_code d \<longleftrightarrow> bit (access d) 4 \<and> bit (access d) 3"
definition desc_is_data :: "gdt_entry \<Rightarrow> bool" where "desc_is_data d \<longleftrightarrow> bit (access d) 4 \<and> \<not> bit (access d) 3"
definition desc_writeable :: "gdt_entry \<Rightarrow> bool" where "desc_writeable d = bit (access d) 1"
definition desc_long :: "gdt_entry \<Rightarrow> bool" where "desc_long d = bit (granularity d) 5"

section \<open>Task state segment\<close>

record tss =
  rsp0 :: u64
  ist :: "u64 list"
  iomap_base :: u16

definition SIZEOF_TSS :: u64 where "SIZEOF_TSS = 104"
definition TSS_STACK_PAGES :: u64 where "TSS_STACK_PAGES = 4"

definition tss_alloc_stack :: "kstate \<Rightarrow> (u64 \<times> kstate) option" where
  "tss_alloc_stack k = do {
     (phys, k) \<leftarrow> ialloc_kframe k TSS_STACK_PAGES (ucast DEFAULT_PAGE_SIZE);
     if phys = FRAME_ALLOC_FAILED then Some (FRAME_ALLOC_FAILED, k)
     else do {
       let base = KERNEL_PHYS_TO_VIRT phys;
       let top = base + TSS_STACK_PAGES * DEFAULT_PAGE_SIZE;
       Some (top AND NOT 0xF, k)
     }
   }"

text \<open>\<^verbatim>\<open>sizeof(tss)\<close> is the size of the pointer.\<close>

definition SIZEOF_POINTER :: u64 where "SIZEOF_POINTER = 8"

definition init_tss :: "kstate \<Rightarrow> (tss \<times> kstate) option" where
  "init_tss k = do {
     (rsp0, k) \<leftarrow> tss_alloc_stack k;
     (ist1, k) \<leftarrow> tss_alloc_stack k;
     (ist2, k) \<leftarrow> tss_alloc_stack k;
     (ist3, k) \<leftarrow> tss_alloc_stack k;
     (ist4, k) \<leftarrow> tss_alloc_stack k;
     (ist5, k) \<leftarrow> tss_alloc_stack k;
     (ist6, k) \<leftarrow> tss_alloc_stack k;
     (ist7, k) \<leftarrow> tss_alloc_stack k;
     Some (\<lparr>rsp0 = rsp0, ist = [ist1, ist2, ist3, ist4, ist5, ist6, ist7], iomap_base = ucast SIZEOF_POINTER\<rparr>, k)
   }"

definition gdt_init :: "kstate \<Rightarrow> u64 \<Rightarrow> (gdt_entry list \<times> tss \<times> kstate) option" where
  "gdt_init k tss_addr = do {
     let gdt = [gdt_set_entry 0 0 0 0,
                gdt_set_entry 0 0xFFFFFFFF 0x9A 0xA0,
                gdt_set_entry 0 0xFFFFFFFF 0x92 0xC0,
                gdt_set_entry 0 0xFFFFFFFF 0xF2 0xC0,
                gdt_set_entry 0 0xFFFFFFFF 0xFA 0xA0];
     (t, k) \<leftarrow> init_tss k;
     let tss_limit = ucast (SIZEOF_TSS - 1);
     Some (gdt @ [gdt_set_entry (ucast (tss_addr AND 0xFFFFFFFF)) tss_limit 0x89 0x00,
                  gdt_entry_hi (ucast (drop_bit 32 tss_addr))], t, k)
   }"

text \<open>The end of \<^verbatim>\<open>gdt_init\<close>: the registers that \<^verbatim>\<open>lgdt\<close>, the moves to the segment registers, the far
  return and \<^verbatim>\<open>ltr\<close> load.\<close>

record gdt_ptr_t =
  gdt_limit :: u16
  gdt_base :: u64

record segment_regs =
  gdtr :: gdt_ptr_t
  seg_cs :: u16
  seg_ds :: u16
  seg_es :: u16
  seg_fs :: u16
  seg_gs :: u16
  seg_ss :: u16
  task_reg :: u16

definition GDT_ENTRIES :: nat where "GDT_ENTRIES = 7"

definition gdt_flush :: "gdt_ptr_t \<Rightarrow> segment_regs \<Rightarrow> segment_regs" where
  "gdt_flush gdt_ptr r =
     r\<lparr>gdtr := gdt_ptr, seg_ds := 0x10, seg_es := 0x10, seg_fs := 0x10, seg_gs := 0x10, seg_ss := 0x10, seg_cs := 0x08\<rparr>"

definition tss_flush :: "segment_regs \<Rightarrow> segment_regs" where
  "tss_flush r = r\<lparr>task_reg := 0x28\<rparr>"

definition gdt_load :: "u64 \<Rightarrow> segment_regs \<Rightarrow> segment_regs" where
  "gdt_load gdt_addr r = tss_flush (gdt_flush \<lparr>gdt_limit = of_nat (8 * GDT_ENTRIES - 1), gdt_base = gdt_addr\<rparr> r)"

text \<open>A selector's table index and requested privilege level.\<close>

definition sel_index :: "u64 \<Rightarrow> nat" where "sel_index s = unat (drop_bit 3 s)"
definition sel_rpl :: "u64 \<Rightarrow> u64" where "sel_rpl s = s AND 3"

section \<open>Interrupt descriptors\<close>

record idt_entry =
  isr_low :: u16
  kernel_cs :: u16
  ist_index :: u8
  attributes :: u8
  isr_mid :: u16
  isr_high :: u32

definition GDT_OFFSET_KERNEL_CODE :: u16 where "GDT_OFFSET_KERNEL_CODE = 0x8"

definition idt_set_descriptor :: "u64 \<Rightarrow> u8 \<Rightarrow> u8 \<Rightarrow> idt_entry" where
  "idt_set_descriptor isr flags i =
     \<lparr>isr_low = ucast (isr AND 0xFFFF), kernel_cs = GDT_OFFSET_KERNEL_CODE, ist_index = i, attributes = flags,
      isr_mid = ucast (drop_bit 16 isr AND 0xFFFF), isr_high = ucast (drop_bit 32 isr AND 0xFFFFFFFF)\<rparr>"

definition idt_init :: "(nat \<Rightarrow> u64) \<Rightarrow> idt_entry list" where
  "idt_init isr_table =
     (let idt = map (\<lambda>v. idt_set_descriptor (isr_table v) 0x8E 0) [0..<256]
      in idt[8 := (idt ! 8)\<lparr>ist_index := 1\<rparr>])"

definition gate_offset :: "idt_entry \<Rightarrow> u64" where
  "gate_offset d = ucast (isr_low d) OR push_bit 16 (ucast (isr_mid d)) OR push_bit 32 (ucast (isr_high d))"

end
