(* ===== verification/Descriptor_Props.thy ===== *)
theory Descriptor_Props
  imports Descriptors
begin

text \<open>What the processor reads from the descriptor tables, and the stacks of the task state segment.\<close>

section \<open>Fields\<close>

lemma masks:
  "(0xFFFF :: 'a::len word) = mask 16" "(0xFF :: 'a::len word) = mask 8" "(0x0F :: 'a::len word) = mask 4"
  "(0xFFFFFFFF :: 'a::len word) = mask 32"
  by (simp_all add: mask_eq_exp_minus_1)

lemmas field_bits = bit_simps bit_and_iff bit_or_iff bit_mask_iff bit_drop_bit_eq bit_push_bit_iff

lemma segment_base: "desc_base (gdt_set_entry b l a f) = b"
proof (rule bit_eqI)
  fix n assume "possible_bit TYPE(32 word) n"
  then have n: "n < 32" by simp
  consider "n < 16" | "16 \<le> n" "n < 24" | "24 \<le> n" using n by linarith
  then show "bit (desc_base (gdt_set_entry b l a f)) n = bit b n"
    by cases (use n in \<open>auto simp: desc_base_def gdt_set_entry_def masks field_bits\<close>)
qed

lemma segment_limit: "desc_limit (gdt_set_entry b l a f) = take_bit 20 l"
proof (rule bit_eqI)
  fix n assume "possible_bit TYPE(32 word) n"
  then have n: "n < 32" by simp
  have f0: "\<not> bit (0xF0 :: u8) k" if "k < 4" for k
  proof -
    have "(0xF0 :: u8) = push_bit 4 0xF" by simp
    then show ?thesis using that by (simp only: bit_push_bit_iff) simp
  qed
  show "bit (desc_limit (gdt_set_entry b l a f)) n = bit (take_bit 20 l) n"
    using n f0 [of "n - 16"] by (auto simp: desc_limit_def gdt_set_entry_def masks field_bits)
qed

lemma gate_offset_set: "gate_offset (idt_set_descriptor isr fl i) = isr"
proof (rule bit_eqI)
  fix n assume "possible_bit TYPE(64 word) n"
  then have n: "n < 64" by simp
  consider "n < 16" | "16 \<le> n" "n < 32" | "32 \<le> n" using n by linarith
  then show "bit (gate_offset (idt_set_descriptor isr fl i)) n = bit isr n"
    by cases (use n in \<open>auto simp: gate_offset_def idt_set_descriptor_def masks field_bits\<close>)
qed

lemma system_base: "desc_base64 (gdt_set_entry (ucast (x AND 0xFFFFFFFF)) l a f) (gdt_entry_hi (ucast (drop_bit 32 x))) = x"
proof (rule bit_eqI)
  fix n assume "possible_bit TYPE(64 word) n"
  then have n: "n < 64" by simp
  consider "n < 32" | "32 \<le> n" "n < 48" | "48 \<le> n" using n by linarith
  then show "bit (desc_base64 (gdt_set_entry (ucast (x AND 0xFFFFFFFF)) l a f) (gdt_entry_hi (ucast (drop_bit 32 x)))) n = bit x n"
    by cases (use n in \<open>auto simp: desc_base64_def segment_base gdt_entry_hi_def masks field_bits\<close>)
qed


section \<open>The stacks of the task state segment\<close>

fun alloc_stacks :: "nat \<Rightarrow> kstate \<Rightarrow> (u64 list \<times> kstate) option" where
  "alloc_stacks 0 k = Some ([], k)"
| "alloc_stacks (Suc n) k = do {
     (t, k) \<leftarrow> tss_alloc_stack k;
     (ts, k) \<leftarrow> alloc_stacks n k;
     Some (t # ts, k)
   }"

lemma init_tss_stacks: "init_tss k = do {
    (ts, k) \<leftarrow> alloc_stacks 8 k;
    Some (\<lparr>rsp0 = ts ! 0, ist = tl ts, iomap_base = 8\<rparr>, k) }"
proof -
  have eight: "8 = Suc (Suc (Suc (Suc (Suc (Suc (Suc (Suc 0)))))))" by simp
  show ?thesis unfolding eight
    by (simp only: alloc_stacks.simps init_tss_def)
       (simp add: SIZEOF_POINTER_def split_def)
qed

text \<open>The four frames below the end of a stack.\<close>

definition stack_frames :: "u64 \<Rightarrow> nat set" where
  "stack_frames t = block (unat (KERNEL_VIRT_TO_PHYS (t - TSS_STACK_PAGES * DEFAULT_PAGE_SIZE))) 4"

lemma stack_mask: "4096 dvd unat (x :: u64) \<Longrightarrow> x AND NOT 0xF = x \<and> 16 dvd unat x"
proof -
  assume "4096 dvd unat x"
  then have d: "16 dvd unat x" by (rule dvd_trans [rotated]) simp
  then have "unat (ALIGN_DOWN x (2 ^ 4)) = unat x" by (subst unat_ALIGN_DOWN) simp_all
  then have "ALIGN_DOWN x 16 = x" by (simp add: word_eq_by_unat)
  with d show ?thesis by (simp add: ALIGN_DOWN_def)
qed

lemma page_plus_pages: "4096 dvd unat (x :: u64) \<Longrightarrow> 4096 dvd unat (x + 16384)"
  by (simp add: unat_word_ariths dvd_mod_iff)

lemma tss_alloc_stack_cases:
  assumes "mm_wf (kmmap k)"
  obtains "tss_alloc_stack k = Some (FRAME_ALLOC_FAILED, k)"
  | (got) t mm where "tss_alloc_stack k = Some (t, k\<lparr>kmmap := mm\<rparr>)" "mm_wf mm" "16 dvd unat t"
      "stack_frames t \<subseteq> free_set (kmmap k)" "free_set mm = free_set (kmmap k) - stack_frames t"
proof -
  have n: "unat (4 :: u64) = 4" by simp
  have "0 < (4 :: u64)" by simp
  from pmm.alloc_cases [OF assms this, unfolded n] show thesis
  proof (elim disjE exE conjE)
    assume "map_alloc_frame_contiguous (kmmap k) 4 = Some (FRAME_ALLOC_FAILED, kmmap k)"
    then show thesis
      by (intro that(1)) (simp add: tss_alloc_stack_def ialloc_kframe_def TSS_STACK_PAGES_def)
  next
    fix a mm
    assume a: "map_alloc_frame_contiguous (kmmap k) 4 = Some (a, mm)" "a \<noteq> FRAME_ALLOC_FAILED" "mm_wf mm"
      "block (unat a) 4 \<subseteq> free_set (kmmap k)" "free_set mm = free_set (kmmap k) - block (unat a) 4"
    have "unat a \<in> block (unat a) 4" by (auto simp: block_def intro: exI [of _ 0])
    then have al: "4096 dvd unat a" using a(4) free_set_aligned [OF assms] by blast
    let ?t = "KERNEL_PHYS_TO_VIRT a + 16384"
    have d: "4096 dvd unat ?t" by (rule page_plus_pages [OF frame_page [OF al]])
    have f: "stack_frames ?t = block (unat a) 4"
      by (simp add: stack_frames_def TSS_STACK_PAGES_def DEFAULT_PAGE_SIZE_def)
    have "tss_alloc_stack k = Some (?t, k\<lparr>kmmap := mm\<rparr>)"
      using a(1,2) stack_mask [OF d]
      by (simp add: tss_alloc_stack_def ialloc_kframe_def TSS_STACK_PAGES_def DEFAULT_PAGE_SIZE_def Let_def)
    then show thesis using a(3-5) conjunct2 [OF stack_mask [OF d]] unfolding f [symmetric] by - (rule that(2), assumption+)
  qed
qed

text \<open>What is left of a list when the failed allocations are dropped.\<close>

definition allocated_stacks :: "u64 list \<Rightarrow> u64 list" where
  "allocated_stacks ts = filter (\<lambda>t. t \<noteq> FRAME_ALLOC_FAILED) ts"

fun stacks_apart :: "u64 list \<Rightarrow> bool" where
  "stacks_apart [] = True"
| "stacks_apart (t # ts) \<longleftrightarrow> (\<forall>u \<in> set ts. stack_frames t \<inter> stack_frames u = {}) \<and> stacks_apart ts"

lemma alloc_stacks_spec:
  assumes "mm_wf (kmmap k)"
  obtains ts mm where "alloc_stacks n k = Some (ts, k\<lparr>kmmap := mm\<rparr>)" "length ts = n" "mm_wf mm"
    "stacks_apart (allocated_stacks ts)" "\<forall>t \<in> set (allocated_stacks ts). 16 dvd unat t"
    "(\<Union>t \<in> set (allocated_stacks ts). stack_frames t) \<subseteq> free_set (kmmap k)"
    "free_set mm = free_set (kmmap k) - (\<Union>t \<in> set (allocated_stacks ts). stack_frames t)"
  using assms
proof (induction n arbitrary: k thesis)
  case 0
  show ?case by (rule "0.prems"(1) [of "[]" "kmmap k"]) (use "0.prems"(2) in \<open>simp_all add: allocated_stacks_def\<close>)
next
  case (Suc n)
  show ?case
  proof (cases rule: tss_alloc_stack_cases [OF Suc.prems(2)])
    case 1
    obtain ts mm where ts: "alloc_stacks n k = Some (ts, k\<lparr>kmmap := mm\<rparr>)" "length ts = n" "mm_wf mm"
      "stacks_apart (allocated_stacks ts)" "\<forall>t \<in> set (allocated_stacks ts). 16 dvd unat t"
      "(\<Union>t \<in> set (allocated_stacks ts). stack_frames t) \<subseteq> free_set (kmmap k)"
      "free_set mm = free_set (kmmap k) - (\<Union>t \<in> set (allocated_stacks ts). stack_frames t)"
      by (rule Suc.IH [OF _ Suc.prems(2)])
    show ?thesis
      by (rule Suc.prems(1) [of "FRAME_ALLOC_FAILED # ts" mm]) (use 1 ts in \<open>simp_all add: allocated_stacks_def\<close>)
  next
    case (2 t mm1)
    have wf1: "mm_wf (kmmap (k\<lparr>kmmap := mm1\<rparr>))" using 2(2) by simp
    obtain ts mm where ts: "alloc_stacks n (k\<lparr>kmmap := mm1\<rparr>) = Some (ts, k\<lparr>kmmap := mm1\<rparr>\<lparr>kmmap := mm\<rparr>)" "length ts = n" "mm_wf mm"
      "stacks_apart (allocated_stacks ts)" "\<forall>t \<in> set (allocated_stacks ts). 16 dvd unat t"
      "(\<Union>t \<in> set (allocated_stacks ts). stack_frames t) \<subseteq> free_set (kmmap (k\<lparr>kmmap := mm1\<rparr>))"
      "free_set mm = free_set (kmmap (k\<lparr>kmmap := mm1\<rparr>)) - (\<Union>t \<in> set (allocated_stacks ts). stack_frames t)"
      by (rule Suc.IH [OF _ wf1])
    have nf: "t \<noteq> FRAME_ALLOC_FAILED" using 2(3) by (auto simp: FRAME_ALLOC_FAILED_def)
    have un: "(\<Union>u \<in> set (t # allocated_stacks ts). stack_frames u) =
        stack_frames t \<union> (\<Union>u \<in> set (allocated_stacks ts). stack_frames u)" by simp
    have al: "allocated_stacks (t # ts) = t # allocated_stacks ts" using nf by (simp add: allocated_stacks_def)
    have apart: "stack_frames t \<inter> stack_frames u = {}" if "u \<in> set (allocated_stacks ts)" for u
      using ts(6) 2(5) that by auto
    show ?thesis
    proof (rule Suc.prems(1) [of "t # ts" mm])
      show "(\<Union>u \<in> set (allocated_stacks (t # ts)). stack_frames u) \<subseteq> free_set (kmmap k)"
        unfolding al un using ts(6) 2(4,5) by auto
      show "free_set mm = free_set (kmmap k) - (\<Union>u \<in> set (allocated_stacks (t # ts)). stack_frames u)"
        unfolding al un using ts(7) 2(5) by auto
    qed (use 2 ts apart in \<open>simp_all add: al\<close>)
  qed
qed

section \<open>Properties\<close>

text \<open>C26. The descriptors that \<open>gdt_init\<close> builds: the processor reads back the address of the task state
  segment and its limit, and the selectors with which every thread starts name a present 64-bit code segment and
  a present writeable data segment, both at the thread's privilege level.\<close>

theorem gdt_init_descriptors:
  assumes "gdt_init k tss_addr = Some (gdt, t, k')"
  shows "desc_base64 (gdt ! 5) (gdt ! 6) = tss_addr \<and> desc_limit (gdt ! 5) = 103 \<and> desc_present (gdt ! 5) \<and>
    (let c = sel_index (cs (initial_regs p)); d = sel_index (ss (initial_regs p)); level = (if p then 0 else 3) in
       c < length gdt \<and> desc_present (gdt ! c) \<and> desc_is_code (gdt ! c) \<and> desc_long (gdt ! c) \<and>
       desc_dpl (gdt ! c) = level \<and> sel_rpl (cs (initial_regs p)) = ucast level \<and>
       d < length gdt \<and> desc_present (gdt ! d) \<and> desc_is_data (gdt ! d) \<and> desc_writeable (gdt ! d) \<and>
       desc_dpl (gdt ! d) = level \<and> sel_rpl (ss (initial_regs p)) = ucast level)"
proof -
  have gdt: "gdt = [gdt_set_entry 0 0 0 0, gdt_set_entry 0 0xFFFFFFFF 0x9A 0xA0, gdt_set_entry 0 0xFFFFFFFF 0x92 0xC0,
      gdt_set_entry 0 0xFFFFFFFF 0xF2 0xC0, gdt_set_entry 0 0xFFFFFFFF 0xFA 0xA0,
      gdt_set_entry (ucast (tss_addr AND 0xFFFFFFFF)) 103 0x89 0, gdt_entry_hi (ucast (drop_bit 32 tss_addr))]"
    using assms by (auto simp: gdt_init_def Let_def SIZEOF_TSS_def split: bind_splits)
  have idx: "sel_index 8 = 1" "sel_index 0x10 = 2" "sel_index 0x1b = 3" "sel_index 0x23 = 4"
    and rpl: "sel_rpl 8 = 0" "sel_rpl 0x10 = 0" "sel_rpl 0x1b = 3" "sel_rpl 0x23 = 3"
    by (simp_all add: sel_index_def sel_rpl_def)
  have tss: "desc_base64 (gdt ! 5) (gdt ! 6) = tss_addr" "desc_limit (gdt ! 5) = 103" "desc_present (gdt ! 5)"
    by (simp_all add: gdt system_base segment_limit) (simp add: desc_present_def gdt_set_entry_def)
  have seg: "desc_present (gdt ! 1)" "desc_is_code (gdt ! 1)" "desc_long (gdt ! 1)" "desc_dpl (gdt ! 1) = 0"
    "desc_present (gdt ! 2)" "desc_is_data (gdt ! 2)" "desc_writeable (gdt ! 2)" "desc_dpl (gdt ! 2) = 0"
    "desc_present (gdt ! 3)" "desc_is_data (gdt ! 3)" "desc_writeable (gdt ! 3)" "desc_dpl (gdt ! 3) = 3"
    "desc_present (gdt ! 4)" "desc_is_code (gdt ! 4)" "desc_long (gdt ! 4)" "desc_dpl (gdt ! 4) = 3"
    by (simp_all add: gdt desc_present_def desc_is_code_def desc_is_data_def desc_writeable_def desc_long_def
        desc_dpl_def gdt_set_entry_def)
  have len: "length gdt = 7" by (simp add: gdt)
  show ?thesis using tss seg by (cases p) (simp_all add: initial_regs_def idx rpl len Let_def)
qed

text \<open>The selectors that are then loaded lie inside the table and name the kernel's long-mode code segment, its data segment and the
  task state segment.\<close>

lemma loaded_segments:
  assumes "gdt_init k tss_addr = Some (gdt, t, k')" and "r' = gdt_load a r"
  shows "length gdt = GDT_ENTRIES" "gdt_base (gdtr r') = a" "unat (task_reg r') + 15 \<le> unat (gdt_limit (gdtr r'))"
    "s \<in> {seg_cs r', seg_ds r', seg_es r', seg_fs r', seg_gs r', seg_ss r'} \<Longrightarrow>
       unat s + 7 \<le> unat (gdt_limit (gdtr r')) \<and> sel_rpl (ucast s) = 0 \<and>
       (let d = gdt ! sel_index (ucast s) in desc_present d \<and> desc_dpl d = 0 \<and>
          (if s = seg_cs r' then desc_is_code d \<and> desc_long d else desc_is_data d \<and> desc_writeable d))"
    "access (gdt ! sel_index (ucast (task_reg r'))) = 0x89"
proof -
  have gdt: "gdt = [gdt_set_entry 0 0 0 0, gdt_set_entry 0 0xFFFFFFFF 0x9A 0xA0, gdt_set_entry 0 0xFFFFFFFF 0x92 0xC0,
      gdt_set_entry 0 0xFFFFFFFF 0xF2 0xC0, gdt_set_entry 0 0xFFFFFFFF 0xFA 0xA0,
      gdt_set_entry (ucast (tss_addr AND 0xFFFFFFFF)) 103 0x89 0, gdt_entry_hi (ucast (drop_bit 32 tss_addr))]"
    using assms(1) by (auto simp: gdt_init_def Let_def SIZEOF_TSS_def split: bind_splits)
  note r = assms(2) gdt_load_def gdt_flush_def tss_flush_def GDT_ENTRIES_def
  show "length gdt = GDT_ENTRIES" "gdt_base (gdtr r') = a" by (simp_all add: gdt r)
  show "unat (task_reg r') + 15 \<le> unat (gdt_limit (gdtr r'))" by (simp add: r)
  show "access (gdt ! sel_index (ucast (task_reg r'))) = 0x89" by (simp add: gdt r sel_index_def gdt_set_entry_def)
  show "s \<in> {seg_cs r', seg_ds r', seg_es r', seg_fs r', seg_gs r', seg_ss r'} \<Longrightarrow>
       unat s + 7 \<le> unat (gdt_limit (gdtr r')) \<and> sel_rpl (ucast s) = 0 \<and>
       (let d = gdt ! sel_index (ucast s) in desc_present d \<and> desc_dpl d = 0 \<and>
          (if s = seg_cs r' then desc_is_code d \<and> desc_long d else desc_is_data d \<and> desc_writeable d))"
    by (auto simp: gdt r sel_index_def sel_rpl_def gdt_set_entry_def desc_present_def desc_is_code_def desc_is_data_def
        desc_writeable_def desc_long_def desc_dpl_def)
qed

lemma gdt_init_result:
  assumes "mm_wf (kmmap k)"
  shows "\<exists>gdt t k'. gdt_init k a = Some (gdt, t, k')"
proof (rule alloc_stacks_spec [OF assms, of 8])
  fix ts mm
  assume "alloc_stacks 8 k = Some (ts, k\<lparr>kmmap := mm\<rparr>)"
  then show ?thesis by (simp add: gdt_init_def init_tss_stacks)
qed

theorem gdt_init_descriptors_witness:
  "\<exists>gdt t k'. gdt_init blank 0xFFFFFFFF80123456 = Some (gdt, t, k') \<and>
     desc_base64 (gdt ! 5) (gdt ! 6) = 0xFFFFFFFF80123456"
proof -
  have "mm_wf (kmmap blank)" using example_maps_wf by (simp add: blank_def)
  from gdt_init_result [OF this, of "0xFFFFFFFF80123456"] obtain gdt t k' where
    *: "gdt_init blank 0xFFFFFFFF80123456 = Some (gdt, t, k')" by blast
  then show ?thesis using gdt_init_descriptors [OF *, of True] by blast
qed

text \<open>C27. \<open>init_tss\<close> never gives two of the eight stacks the same frame: every stack that could be allocated
  is aligned to 16 bytes and lies on four frames that were free, different from those of the other stacks,
  and exactly these frames are taken.  A stack without memory holds the error value.  The I/O map base
  is 8, which is inside the segment.\<close>

theorem tss_stacks_disjoint:
  assumes "mm_wf (kmmap k)"
  shows "\<exists>t mm. init_tss k = Some (t, k\<lparr>kmmap := mm\<rparr>) \<and> mm_wf mm \<and> length (ist t) = 7 \<and>
     (let tops = allocated_stacks (rsp0 t # ist t) in
        stacks_apart tops \<and> (\<forall>u \<in> set tops. 16 dvd unat u \<and> stack_frames u \<subseteq> free_set (kmmap k)) \<and>
        free_set mm = free_set (kmmap k) - (\<Union>u \<in> set tops. stack_frames u)) \<and>
     ucast (iomap_base t) < SIZEOF_TSS"
proof -
  obtain ts mm where ts: "alloc_stacks 8 k = Some (ts, k\<lparr>kmmap := mm\<rparr>)" "length ts = 8" "mm_wf mm"
    "stacks_apart (allocated_stacks ts)" "\<forall>t \<in> set (allocated_stacks ts). 16 dvd unat t"
    "(\<Union>t \<in> set (allocated_stacks ts). stack_frames t) \<subseteq> free_set (kmmap k)"
    "free_set mm = free_set (kmmap k) - (\<Union>t \<in> set (allocated_stacks ts). stack_frames t)"
    by (rule alloc_stacks_spec [OF assms])
  let ?t = "\<lparr>rsp0 = ts ! 0, ist = tl ts, iomap_base = 8\<rparr>"
  have "rsp0 ?t # ist ?t = ts" using ts(2) by (cases ts) auto
  then show ?thesis using ts
    by (intro exI [of _ ?t] exI [of _ mm]) (auto simp: init_tss_stacks SIZEOF_TSS_def Let_def)
qed

theorem tss_stacks_disjoint_witness:
  "\<exists>t mm. init_tss blank = Some (t, blank\<lparr>kmmap := mm\<rparr>) \<and> stacks_apart (allocated_stacks (rsp0 t # ist t))"
proof -
  have "mm_wf (kmmap blank)" using example_maps_wf by (simp add: blank_def)
  from tss_stacks_disjoint [OF this] show ?thesis by (auto simp: Let_def)
qed

text \<open>C28. \<open>idt_init\<close> fills all 256 gates: each leads to its own entry of the table of stubs in the kernel code
  segment, present and at privilege level 0, and only the double fault gate changes the stack.\<close>

theorem idt_init_gates:
  assumes "v < 256"
  shows "length (idt_init tbl) = 256 \<and> gate_offset (idt_init tbl ! v) = tbl v \<and>
    kernel_cs (idt_init tbl ! v) = 8 \<and> attributes (idt_init tbl ! v) = 0x8E \<and>
    ist_index (idt_init tbl ! v) = (if v = 8 then 1 else 0)"
proof -
  let ?d = "\<lambda>v. idt_set_descriptor (tbl v) 0x8E 0"
  have e: "idt_init tbl ! v = (if v = 8 then (?d v)\<lparr>ist_index := 1\<rparr> else ?d v)"
    using assms by (simp add: idt_init_def Let_def nth_list_update del: upt_Suc)
  have "gate_offset (d\<lparr>ist_index := i\<rparr>) = gate_offset d" for d i by (simp add: gate_offset_def)
  then have "gate_offset (idt_init tbl ! v) = tbl v" by (simp add: e gate_offset_set)
  moreover have "length (idt_init tbl) = 256" by (simp add: idt_init_def Let_def del: upt_Suc)
  ultimately show ?thesis by (simp add: e idt_set_descriptor_def GDT_OFFSET_KERNEL_CODE_def)
qed

theorem idt_init_gates_witness:
  "gate_offset (idt_init (\<lambda>v. 0xFFFFFFFF80100000 + of_nat v * 16) ! 14) = 0xFFFFFFFF801000E0"
  using idt_init_gates [of 14 "\<lambda>v. 0xFFFFFFFF80100000 + of_nat v * 16"] by simp

end
