(* ===== verification/Keyboard.thy ===== *)
theory Keyboard
  imports Descriptor_Props
begin

text \<open>
  The keyboard: \<^verbatim>\<open>src/kernel/Drivers/PS2/PS2_Keyboard.c\<close> with the tables of
  \<^verbatim>\<open>PS2_Scancode.h\<close>.  Its specification is in terms of keys pressed and released.
\<close>

section \<open>Scan code tables\<close>

text \<open>A table of 128 bytes from its designated initialisers; the other entries are zero.\<close>

definition char_table :: "(nat \<times> char) list \<Rightarrow> u8 list" where
  "char_table t = map (\<lambda>i. case map_of t i of Some c \<Rightarrow> of_char c | None \<Rightarrow> 0) [0..<128]"

definition sc2_normal :: "u8 list" where
  "sc2_normal = char_table [
    (0x0D, CHR 0x09), (0x0E, CHR 0x60), (0x15, CHR ''q''), (0x16, CHR ''1''), (0x1A, CHR ''z''), (0x1B, CHR ''s''),
    (0x1C, CHR ''a''), (0x1D, CHR ''w''), (0x1E, CHR ''2''), (0x21, CHR ''c''), (0x22, CHR ''x''), (0x23, CHR ''d''),
    (0x24, CHR ''e''), (0x25, CHR ''4''), (0x26, CHR ''3''), (0x29, CHR 0x20), (0x2A, CHR ''v''), (0x2B, CHR ''f''),
    (0x2C, CHR ''t''), (0x2D, CHR ''r''), (0x2E, CHR ''5''), (0x31, CHR ''n''), (0x32, CHR ''b''), (0x33, CHR ''h''),
    (0x34, CHR ''g''), (0x35, CHR ''y''), (0x36, CHR ''6''), (0x3A, CHR ''m''), (0x3B, CHR ''j''), (0x3C, CHR ''u''),
    (0x3D, CHR ''7''), (0x3E, CHR ''8''), (0x41, CHR '',''), (0x42, CHR ''k''), (0x43, CHR ''i''), (0x44, CHR ''o''),
    (0x45, CHR ''0''), (0x46, CHR ''9''), (0x49, CHR ''.''), (0x4A, CHR ''/''), (0x4B, CHR ''l''), (0x4C, CHR '';''),
    (0x4D, CHR ''p''), (0x4E, CHR ''-''), (0x52, CHR 0x27), (0x54, CHR ''[''), (0x55, CHR ''=''), (0x5A, CHR 0x0A),
    (0x5B, CHR '']''), (0x5D, CHR 0x5C), (0x66, CHR 0x08), (0x76, CHR 0x1B), (0x69, CHR ''1''), (0x6B, CHR ''4''),
    (0x6C, CHR ''7''), (0x70, CHR ''0''), (0x71, CHR ''.''), (0x72, CHR ''2''), (0x73, CHR ''5''), (0x74, CHR ''6''),
    (0x75, CHR ''8''), (0x79, CHR ''+''), (0x7A, CHR ''3''), (0x7B, CHR ''-''), (0x7C, CHR ''*''), (0x7D, CHR ''9'')]"

definition sc2_shift :: "u8 list" where
  "sc2_shift = char_table [
    (0x0D, CHR 0x09), (0x0E, CHR ''~''), (0x15, CHR ''Q''), (0x16, CHR ''!''), (0x1A, CHR ''Z''), (0x1B, CHR ''S''),
    (0x1C, CHR ''A''), (0x1D, CHR ''W''), (0x1E, CHR ''@''), (0x21, CHR ''C''), (0x22, CHR ''X''), (0x23, CHR ''D''),
    (0x24, CHR ''E''), (0x25, CHR ''$''), (0x26, CHR ''#''), (0x29, CHR 0x20), (0x2A, CHR ''V''), (0x2B, CHR ''F''),
    (0x2C, CHR ''T''), (0x2D, CHR ''R''), (0x2E, CHR ''%''), (0x31, CHR ''N''), (0x32, CHR ''B''), (0x33, CHR ''H''),
    (0x34, CHR ''G''), (0x35, CHR ''Y''), (0x36, CHR ''^''), (0x3A, CHR ''M''), (0x3B, CHR ''J''), (0x3C, CHR ''U''),
    (0x3D, CHR ''&''), (0x3E, CHR ''*''), (0x41, CHR 0x3C), (0x42, CHR ''K''), (0x43, CHR ''I''), (0x44, CHR ''O''),
    (0x45, CHR '')''), (0x46, CHR ''(''), (0x49, CHR 0x3E), (0x4A, CHR ''?''), (0x4B, CHR ''L''), (0x4C, CHR '':''),
    (0x4D, CHR ''P''), (0x4E, CHR ''_''), (0x52, CHR 0x22), (0x54, CHR ''{''), (0x55, CHR ''+''), (0x5A, CHR 0x0A),
    (0x5B, CHR ''}''), (0x5D, CHR ''|''), (0x66, CHR 0x08), (0x76, CHR 0x1B), (0x69, CHR ''1''), (0x6B, CHR ''4''),
    (0x6C, CHR ''7''), (0x70, CHR ''0''), (0x71, CHR ''.''), (0x72, CHR ''2''), (0x73, CHR ''5''), (0x74, CHR ''6''),
    (0x75, CHR ''8''), (0x79, CHR ''+''), (0x7A, CHR ''3''), (0x7B, CHR ''-''), (0x7C, CHR ''*''), (0x7D, CHR ''9'')]"

section \<open>Translation\<close>

record ps2_kb_state =
  kb_shift :: bool
  kb_caps :: bool
  kb_release :: bool
  kb_extended :: bool

definition ps2_state_init :: ps2_kb_state where
  "ps2_state_init = \<lparr>kb_shift = False, kb_caps = False, kb_release = False, kb_extended = False\<rparr>"

definition lower :: "u8 \<Rightarrow> bool" where "lower c \<longleftrightarrow> 0x61 \<le> c \<and> c \<le> 0x7A"
definition upper :: "u8 \<Rightarrow> bool" where "upper c \<longleftrightarrow> 0x41 \<le> c \<and> c \<le> 0x5A"

definition kbd_translate :: "ps2_kb_state \<Rightarrow> u8 \<Rightarrow> u8 \<times> ps2_kb_state" where
  "kbd_translate s sc =
     (if sc = 0xE0 then (0, s\<lparr>kb_extended := True\<rparr>)
      else if kb_extended s then (0, s\<lparr>kb_extended := False\<rparr>)
      else if sc = 0xF0 then (0, s\<lparr>kb_release := True\<rparr>)
      else
        (let release = kb_release s; s = s\<lparr>kb_release := False\<rparr>
         in if sc = 0x12 \<or> sc = 0x59 then (0, s\<lparr>kb_shift := \<not> release\<rparr>)
            else if sc = 0x58 \<and> release then (0, s\<lparr>kb_caps := \<not> kb_caps s\<rparr>)
            else if release \<or> 128 \<le> sc then (0, s)
            else
              (let c = (if kb_shift s then sc2_shift else sc2_normal) ! unat sc
               in (if kb_caps s \<and> lower c then c - 32
                   else if kb_caps s \<and> upper c \<and> kb_shift s then c + 32
                   else c, s))))"

text \<open>The bytes of a sequence of interrupts, one character each; zero is no character.\<close>

fun kbd_feed :: "ps2_kb_state \<Rightarrow> u8 list \<Rightarrow> u8 list \<times> ps2_kb_state" where
  "kbd_feed s [] = ([], s)"
| "kbd_feed s (b # bs) = (let (c, s) = kbd_translate s b; (cs, s) = kbd_feed s bs in (if c \<noteq> 0 then c # cs else cs, s))"

end
