(* ===== verification/Keyboard_Props.thy ===== *)
theory Keyboard_Props
  imports Keyboard
begin

text \<open>The keyboard against a specification in terms of key events.\<close>

section \<open>Key events\<close>

datatype key_event = Press u8 | Release u8 | Ext_Press u8 | Ext_Release u8

fun scan_codes :: "key_event \<Rightarrow> u8 list" where
  "scan_codes (Press k) = [k]"
| "scan_codes (Release k) = [0xF0, k]"
| "scan_codes (Ext_Press k) = [0xE0, k]"
| "scan_codes (Ext_Release k) = [0xE0, 0xF0, k]"

fun event_key :: "key_event \<Rightarrow> u8" where
  "event_key (Press k) = k" | "event_key (Release k) = k" | "event_key (Ext_Press k) = k" | "event_key (Ext_Release k) = k"

text \<open>A key has a code of its own: it is not one of the two prefixes.\<close>

definition is_key :: "u8 \<Rightarrow> bool" where "is_key k \<longleftrightarrow> k \<noteq> 0xE0 \<and> k \<noteq> 0xF0"
definition shift_key :: "u8 \<Rightarrow> bool" where "shift_key k \<longleftrightarrow> k = 0x12 \<or> k = 0x59"

text \<open>Shift selects the upper symbol of a key; for a letter, caps lock inverts shift.\<close>

definition key_char :: "bool \<Rightarrow> bool \<Rightarrow> u8 \<Rightarrow> u8" where
  "key_char shift caps k =
     (if 128 \<le> k then 0
      else let c = sc2_normal ! unat k
           in if lower c then (if shift \<noteq> caps then c - 32 else c)
              else if shift then sc2_shift ! unat k else c)"

definition typed :: "u8 \<Rightarrow> u8 list" where "typed c = (if c = 0 then [] else [c])"

fun key_step :: "bool \<times> bool \<Rightarrow> key_event \<Rightarrow> u8 list \<times> bool \<times> bool" where
  "key_step (shift, caps) (Press k) = (if shift_key k then ([], True, caps) else (typed (key_char shift caps k), shift, caps))"
| "key_step (shift, caps) (Release k) =
     (if shift_key k then ([], False, caps) else if k = 0x58 then ([], shift, \<not> caps) else ([], shift, caps))"
| "key_step (shift, caps) (Ext_Press k) = ([], shift, caps)"
| "key_step (shift, caps) (Ext_Release k) = ([], shift, caps)"

fun key_run :: "bool \<times> bool \<Rightarrow> key_event list \<Rightarrow> u8 list \<times> bool \<times> bool" where
  "key_run m [] = ([], m)"
| "key_run m (e # es) = (let (c, m) = key_step m e; (cs, m) = key_run m es in (c @ cs, m))"

definition idle :: "ps2_kb_state \<Rightarrow> bool" where "idle s \<longleftrightarrow> \<not> kb_release s \<and> \<not> kb_extended s"
definition mods :: "ps2_kb_state \<Rightarrow> bool \<times> bool" where "mods s = (kb_shift s, kb_caps s)"

section \<open>The tables\<close>

lemma length_tables: "length sc2_normal = 128" "length sc2_shift = 128"
  by (simp_all only: sc2_normal_def sc2_shift_def char_table_def length_map length_upt diff_zero)

lemma char_table_nth: "k < 128 \<Longrightarrow> char_table t ! k = (case map_of t k of Some c \<Rightarrow> of_char c | None \<Rightarrow> 0)"
  by (simp add: char_table_def del: upt_Suc)

lemmas table_lookup = sc2_normal_def sc2_shift_def char_table_nth of_char_def lower_def upper_def

text \<open>The two tables agree on which keys are letters, and differ by case on these.\<close>

definition entries_agree :: "u8 \<Rightarrow> u8 \<Rightarrow> bool" where
  "entries_agree n s \<longleftrightarrow> \<not> upper n \<and> \<not> lower s \<and> (lower n \<longrightarrow> s = n - 32 \<and> upper s) \<and> (\<not> lower n \<longrightarrow> \<not> upper s)"

text \<open>Both tables name the same keys in the same order, so their entries can be compared pairwise.\<close>

definition pairs_agree :: "nat \<times> char \<Rightarrow> nat \<times> char \<Rightarrow> bool" where
  "pairs_agree p q \<longleftrightarrow> fst p = fst q \<and> entries_agree (of_char (snd p)) (of_char (snd q))"

lemma char_table_agree:
  assumes "list_all2 pairs_agree s t"
  shows "list_all2 entries_agree (char_table s) (char_table t)"
proof -
  have "entries_agree (case map_of s i of Some c \<Rightarrow> of_char c | None \<Rightarrow> 0) (case map_of t i of Some c \<Rightarrow> of_char c | None \<Rightarrow> 0)" for i
    using assms
  proof (induction rule: list_all2_induct)
    case Nil
    then show ?case by (simp add: entries_agree_def upper_def lower_def)
  next
    case (Cons p s q t)
    then show ?case by (cases p; cases q) (auto simp: pairs_agree_def)
  qed
  then show ?thesis by (simp add: char_table_def list_all2_conv_all_nth del: upt_Suc)
qed

lemma tables_agree_all: "list_all2 entries_agree sc2_normal sc2_shift"
  unfolding sc2_normal_def sc2_shift_def
  by (rule char_table_agree)
     (simp only: list_all2_Cons list.rel_inject pairs_agree_def fst_conv snd_conv entries_agree_def upper_def lower_def,
      simp add: of_char_def)

lemma tables_agree: "k < 128 \<Longrightarrow> entries_agree (sc2_normal ! unat (k :: u8)) (sc2_shift ! unat k)"
  using list_all2_nthD [OF tables_agree_all, of "unat k"] by (simp add: length_tables word_less_nat_alt)

lemma translate_key:
  assumes "idle s" "is_key k" "\<not> shift_key k"
  shows "kbd_translate s k = (key_char (kb_shift s) (kb_caps s) k, s)"
proof -
  have s: "s\<lparr>kb_release := False\<rparr> = s" using assms(1) by (simp add: idle_def)
  show ?thesis
  proof (cases "128 \<le> k")
    case False
    then have "k < 128" by simp
    from tables_agree [OF this] have e: "entries_agree (sc2_normal ! unat k) (sc2_shift ! unat k)" .
    have case_back: "(c :: u8) - 32 + 32 = c" for c by simp
    show ?thesis
      using assms s False e
      by (auto simp: kbd_translate_def key_char_def Let_def idle_def is_key_def shift_key_def entries_agree_def case_back)
  qed (use assms s in \<open>auto simp: kbd_translate_def key_char_def Let_def idle_def is_key_def shift_key_def\<close>)
qed

section \<open>Properties\<close>

lemma feed_event:
  assumes "idle s" "is_key (event_key e)" "\<forall>k. e \<noteq> Ext_Release k"
  shows "\<exists>s'. kbd_feed s (scan_codes e) = (fst (key_step (mods s) e), s') \<and> idle s' \<and> mods s' = snd (key_step (mods s) e)"
proof (cases e)
  case (Press k)
  show ?thesis
  proof (cases "shift_key k")
    case True
    with assms Press show ?thesis
      by (auto simp: kbd_translate_def Let_def idle_def mods_def shift_key_def is_key_def)
  next
    case False
    with assms Press translate_key [of s k] show ?thesis by (auto simp: mods_def typed_def)
  qed
qed (use assms in \<open>auto simp: kbd_translate_def Let_def idle_def mods_def shift_key_def is_key_def\<close>)

lemma feed_append: "kbd_feed s (a @ b) = (let (x, s1) = kbd_feed s a; (y, s2) = kbd_feed s1 b in (x @ y, s2))"
  by (induction a arbitrary: s) (auto simp: Let_def split: prod.splits)

text \<open>C17. The bytes of any sequence of key presses and releases, extended releases apart, produce exactly the
  characters that the keys stand for: shift selects the upper symbol while it is held, caps lock toggles when
  its key is released and inverts shift on the letters only, releases and extended keys type nothing.  This is the
  machine of \<open>kbd_translate\<close>; the one sketched in the comment at the end of \<^verbatim>\<open>PS2_Scancode.h\<close> toggles caps lock on the press
  and takes extended keys for plain ones (\<open>sketch_differs\<close> below).\<close>

theorem keyboard_refines_keys:
  assumes "idle s" "\<forall>e \<in> set es. is_key (event_key e) \<and> (\<forall>k. e \<noteq> Ext_Release k)"
  shows "\<exists>s'. kbd_feed s (concat (map scan_codes es)) = (fst (key_run (mods s) es), s') \<and>
     idle s' \<and> mods s' = snd (key_run (mods s) es)"
  using assms
proof (induction es arbitrary: s)
  case (Cons e es)
  from feed_event [of s e] Cons.prems obtain s1 where s1: "kbd_feed s (scan_codes e) = (fst (key_step (mods s) e), s1)"
    "idle s1" "mods s1 = snd (key_step (mods s) e)" by auto
  from Cons.IH [OF s1(2)] Cons.prems(2) obtain s2 where
    "kbd_feed s1 (concat (map scan_codes es)) = (fst (key_run (mods s1) es), s2)" "idle s2" "mods s2 = snd (key_run (mods s1) es)"
    by auto
  with s1 show ?case by (auto simp: feed_append Let_def split: prod.splits)
qed auto

theorem keyboard_refines_keys_witness:
  "\<exists>s'. kbd_feed ps2_state_init [0x12, 0x33, 0xF0, 0x33, 0xF0, 0x12, 0x43] = ([0x48, 0x69], s')"
proof -
  let ?es = "[Press 0x12, Press 0x33, Release 0x33, Release 0x12, Press 0x43]"
  have i: "idle ps2_state_init" by (simp add: idle_def ps2_state_init_def)
  have "\<exists>s'. kbd_feed ps2_state_init (concat (map scan_codes ?es)) = (fst (key_run (mods ps2_state_init) ?es), s')"
    using keyboard_refines_keys [OF i, of ?es] by (auto simp: is_key_def)
  moreover have "fst (key_run (mods ps2_state_init) ?es) = [0x48, 0x69]"
    by (simp add: mods_def ps2_state_init_def shift_key_def typed_def key_char_def table_lookup)
  ultimately show ?thesis by simp
qed

text \<open>The release of an extended key is taken for the press of the key that has the same code without
  prefix: it types that key's character, or leaves shift held.\<close>

theorem extended_release_presses:
  assumes "idle s"
  shows "kbd_feed s (scan_codes (Ext_Release k)) = kbd_feed s (scan_codes (Press k))"
proof -
  have "s\<lparr>kb_extended := False\<rparr> = s" using assms by (simp add: idle_def)
  then show ?thesis by (simp add: kbd_translate_def)
qed

theorem extended_release_presses_witness:
  "kbd_feed ps2_state_init [0xE0, 0xF0, 0x69] = ([0x31], ps2_state_init)"
proof -
  have "idle ps2_state_init" by (simp add: idle_def ps2_state_init_def)
  from extended_release_presses [OF this, of "0x69"] have
    "kbd_feed ps2_state_init [0xE0, 0xF0, 0x69] = kbd_feed ps2_state_init [0x69]" by simp
  moreover have "kbd_feed ps2_state_init [0x69] = ([0x31], ps2_state_init)"
    by (simp add: ps2_state_init_def kbd_translate_def Let_def table_lookup)
  ultimately show ?thesis by simp
qed

section \<open>The sketch in the header\<close>

text \<open>The state machine of the comment in \<^verbatim>\<open>PS2_Scancode.h\<close>, on its flags \<open>release\<close>, \<open>shift\<close> and \<open>caps\<close>.\<close>

definition sc2_feed :: "bool \<times> bool \<times> bool \<Rightarrow> u8 \<Rightarrow> u8 \<times> bool \<times> bool \<times> bool" where
  "sc2_feed = (\<lambda>(release, shift, caps) b.
     if b = 0xE0 then (0, release, shift, caps)
     else if b = 0xF0 then (0, True, shift, caps)
     else if b = 0x12 \<or> b = 0x59 then (0, False, \<not> release, caps)
     else
       (let caps = (if b = 0x58 \<and> \<not> release then \<not> caps else caps)
        in if release \<or> 127 < b then (0, False, shift, caps)
           else
             (let c = (if shift then sc2_shift else sc2_normal) ! unat b
              in (if caps \<and> lower c then c - 32 else if caps \<and> upper c \<and> shift then c + 32 else c, release, shift, caps))))"

fun sketch_feed :: "bool \<times> bool \<times> bool \<Rightarrow> u8 list \<Rightarrow> u8 list" where
  "sketch_feed m [] = []"
| "sketch_feed m (b # bs) = (let (c, m) = sc2_feed m b in typed c @ sketch_feed m bs)"

text \<open>Caps lock pressed, then the key of \<open>A\<close>: the sketch types the capital, the driver the small letter, for it waits for the
  release; the extended key \<open>E0 69\<close> types a digit in the sketch only.\<close>

theorem sketch_differs:
  "sketch_feed (False, False, False) [0x58, 0x1C] = [0x41]" "fst (kbd_feed ps2_state_init [0x58, 0x1C]) = [0x61]"
  "sketch_feed (False, False, False) [0xE0, 0x69] = [0x31]" "fst (kbd_feed ps2_state_init [0xE0, 0x69]) = []"
  by (simp_all add: sc2_feed_def ps2_state_init_def kbd_translate_def Let_def typed_def table_lookup)

end
