(* ===== verification/Hardware.thy ===== *)
theory Hardware
  imports Keyboard_Props
begin

text \<open>
  The processor's access to devices, \<^verbatim>\<open>src/include/kernel_helper.h\<close>: port input and output,
  model-specific registers, and memory-mapped registers.  The devices are a parameter: a state
  \<open>'w\<close> and what each access returns and changes.
\<close>

record 'w hardware =
  port_read8 :: "'w \<Rightarrow> u16 \<Rightarrow> u8 \<times> 'w"
  port_write8 :: "'w \<Rightarrow> u16 \<Rightarrow> u8 \<Rightarrow> 'w"
  port_read32 :: "'w \<Rightarrow> u16 \<Rightarrow> u32 \<times> 'w"
  port_write32 :: "'w \<Rightarrow> u16 \<Rightarrow> u32 \<Rightarrow> 'w"
  msr_read :: "'w \<Rightarrow> u32 \<Rightarrow> u32 \<times> u32 \<times> 'w"
  msr_write :: "'w \<Rightarrow> u32 \<Rightarrow> u32 \<Rightarrow> u32 \<Rightarrow> 'w"
  reg_read8 :: "'w \<Rightarrow> u64 \<Rightarrow> u8 \<times> 'w"
  reg_read16 :: "'w \<Rightarrow> u64 \<Rightarrow> u16 \<times> 'w"
  reg_read32 :: "'w \<Rightarrow> u64 \<Rightarrow> u32 \<times> 'w"
  reg_write32 :: "'w \<Rightarrow> u64 \<Rightarrow> u32 \<Rightarrow> 'w"

text \<open>The instructions take the port from \<^verbatim>\<open>dx\<close>.\<close>

definition inportb :: "'w hardware \<Rightarrow> 'w \<Rightarrow> u32 \<Rightarrow> u8 \<times> 'w" where
  "inportb h w port = port_read8 h w (ucast port)"

definition outportb :: "'w hardware \<Rightarrow> 'w \<Rightarrow> u32 \<Rightarrow> u8 \<Rightarrow> 'w" where
  "outportb h w port value = port_write8 h w (ucast port) value"

definition inportl :: "'w hardware \<Rightarrow> 'w \<Rightarrow> u32 \<Rightarrow> u32 \<times> 'w" where
  "inportl h w port = port_read32 h w (ucast port)"

definition outportl :: "'w hardware \<Rightarrow> 'w \<Rightarrow> u32 \<Rightarrow> u32 \<Rightarrow> 'w" where
  "outportl h w port value = port_write32 h w (ucast port) value"

definition PCI_INDEX_PORT :: u16 where "PCI_INDEX_PORT = 0xCF8"
definition PCI_DATA_PORT :: u16 where "PCI_DATA_PORT = 0xCFC"

definition pci_set_index :: "'w hardware \<Rightarrow> 'w \<Rightarrow> u32 \<Rightarrow> 'w" where
  "pci_set_index h w index = port_write32 h w PCI_INDEX_PORT index"

definition pci_write_val :: "'w hardware \<Rightarrow> 'w \<Rightarrow> u32 \<Rightarrow> 'w" where
  "pci_write_val h w value = port_write32 h w PCI_DATA_PORT value"

definition cpuSetMSR :: "'w hardware \<Rightarrow> 'w \<Rightarrow> u32 \<Rightarrow> u32 \<Rightarrow> u32 \<Rightarrow> 'w" where
  "cpuSetMSR h w msr lo hi = msr_write h w msr lo hi"

definition cpuGetMSR :: "'w hardware \<Rightarrow> 'w \<Rightarrow> u32 \<Rightarrow> u32 \<times> u32 \<times> 'w" where
  "cpuGetMSR h w msr = msr_read h w msr"

definition wrmsr :: "'w hardware \<Rightarrow> 'w \<Rightarrow> u32 \<Rightarrow> u64 \<Rightarrow> 'w" where
  "wrmsr h w msr val = cpuSetMSR h w msr (ucast val) (ucast (drop_bit 0x20 val))"

text \<open>A machine on which every register reads as zero and ignores writes.\<close>

definition no_devices :: "unit hardware" where
  "no_devices = \<lparr>port_read8 = (\<lambda>w _. (0, w)), port_write8 = (\<lambda>w _ _. w), port_read32 = (\<lambda>w _. (0, w)),
     port_write32 = (\<lambda>w _ _. w), msr_read = (\<lambda>w _. (0, 0, w)), msr_write = (\<lambda>w _ _ _. w),
     reg_read8 = (\<lambda>w _. (0, w)), reg_read16 = (\<lambda>w _. (0, w)), reg_read32 = (\<lambda>w _. (0, w)), reg_write32 = (\<lambda>w _ _. w)\<rparr>"

end
