(* ===== verification/PS2_Controller.thy ===== *)
theory PS2_Controller
  imports Hardware
begin

text \<open>
  The PS/2 controller, \<^verbatim>\<open>src/kernel/Drivers/PS2/PS2_Controller.c\<close>.  A loop that polls the status
  register is a recursion on the number of polls left.
\<close>

section \<open>Ports and polling\<close>

definition PS2_DATA_PORT :: u32 where "PS2_DATA_PORT = 0x60"
definition PS2_STATUS_REG :: u32 where "PS2_STATUS_REG = 0x64"
definition PS2_COMMAND_REGISTER :: u32 where "PS2_COMMAND_REGISTER = 0x64"
definition PS2_TIMEOUT :: nat where "PS2_TIMEOUT = 100000"

record ps2_info_t =
  ps2_exists :: bool
  ps2_enabled :: bool
  ps2_is_dual_channel :: bool
  ps2_config :: u8

definition write_ps2_bcommand :: "'w hardware \<Rightarrow> 'w \<Rightarrow> u8 \<Rightarrow> 'w" where
  "write_ps2_bcommand h w command = outportb h w PS2_COMMAND_REGISTER command"

fun read_poll :: "'w hardware \<Rightarrow> nat \<Rightarrow> 'w \<Rightarrow> int \<times> 'w" where
  "read_poll h 0 w = (- 1, w)"
| "read_poll h (Suc n) w =
     (let (st, w) = inportb h w PS2_STATUS_REG
      in if bit st 0 then (let (d, w) = inportb h w PS2_DATA_PORT in (uint d, w)) else read_poll h n w)"

fun write_poll :: "'w hardware \<Rightarrow> nat \<Rightarrow> 'w \<Rightarrow> u8 \<Rightarrow> int \<times> 'w" where
  "write_poll h 0 w b = (- 1, w)"
| "write_poll h (Suc n) w b =
     (let (st, w) = inportb h w PS2_STATUS_REG
      in if \<not> bit st 1 then (0, outportb h w PS2_DATA_PORT b) else write_poll h n w b)"

definition write_ps2_bcommand_ret :: "'w hardware \<Rightarrow> 'w \<Rightarrow> u8 \<Rightarrow> int \<times> 'w" where
  "write_ps2_bcommand_ret h w command = read_poll h PS2_TIMEOUT (outportb h w PS2_COMMAND_REGISTER command)"

definition write_ps2_2bcommand :: "'w hardware \<Rightarrow> 'w \<Rightarrow> u16 \<Rightarrow> int \<times> 'w" where
  "write_ps2_2bcommand h w command =
     write_poll h PS2_TIMEOUT (outportb h w PS2_COMMAND_REGISTER (ucast command)) (ucast (drop_bit 8 command))"

definition write_ps2_2bcommand_ret :: "'w hardware \<Rightarrow> 'w \<Rightarrow> u16 \<Rightarrow> int \<times> 'w" where
  "write_ps2_2bcommand_ret h w command =
     (let (r, w) = write_ps2_2bcommand h w command in if r \<noteq> - 1 then read_poll h PS2_TIMEOUT w else (- 1, w))"

definition flush_out_buff :: "'w hardware \<Rightarrow> 'w \<Rightarrow> 'w" where
  "flush_out_buff h w = snd (inportb h w PS2_DATA_PORT)"

definition ps2_read_timeout :: "'w hardware \<Rightarrow> 'w \<Rightarrow> int \<times> 'w" where
  "ps2_read_timeout h w = read_poll h PS2_TIMEOUT w"

definition ps2_write_timeout :: "'w hardware \<Rightarrow> 'w \<Rightarrow> u8 \<Rightarrow> int \<times> 'w" where
  "ps2_write_timeout h w b = write_poll h PS2_TIMEOUT w b"

section \<open>Devices\<close>

definition ps2_send_dev :: "'w hardware \<Rightarrow> 'w \<Rightarrow> nat \<Rightarrow> u8 \<Rightarrow> int \<times> 'w" where
  "ps2_send_dev h w port b = ps2_write_timeout h (if port = 2 then write_ps2_bcommand h w 0xD4 else w) b"

definition ps2_reset_dev :: "'w hardware \<Rightarrow> 'w \<Rightarrow> nat \<Rightarrow> int \<times> 'w" where
  "ps2_reset_dev h w port =
     (let (r, w) = ps2_send_dev h w port 0xFF
      in if r < 0 then (- 2, w)
         else let (r1, w) = ps2_read_timeout h w
      in if r1 < 0 then (- 2, w)
         else if r1 = 0xFC then (- 1, w)
         else let (r2, w) = ps2_read_timeout h w
      in if r2 < 0 then (- 2, w)
         else if \<not> (r1 = 0xFA \<and> r2 = 0xAA \<or> r1 = 0xAA \<and> r2 = 0xFA) then (- 1, w)
         else let (_, w) = ps2_read_timeout h w
      in (0, w))"

section \<open>Set-up\<close>

definition config_command :: "u8 \<Rightarrow> u16" where
  "config_command conf = 0x60 OR push_bit 8 (ucast conf)"

text \<open>The second channel: the configuration byte read back, and whether there are two channels.\<close>

definition ps2_check_dual :: "'w hardware \<Rightarrow> 'w \<Rightarrow> bool \<times> u8 \<times> 'w" where
  "ps2_check_dual h w =
     (let w = write_ps2_bcommand h w 0xA8;
          (c, w) = write_ps2_bcommand_ret h w 0x20;
          conf = word_of_int c
      in if \<not> bit conf 5 then
           (let w = write_ps2_bcommand h w 0xA7;
                conf = conf AND NOT (1 OR push_bit 1 1 OR push_bit 5 1);
                (_, w) = write_ps2_2bcommand h w (config_command conf)
            in (True, conf, w))
         else (False, conf, w))"

definition ps2_controller_init :: "'w hardware \<Rightarrow> ps2_info_t \<Rightarrow> 'w \<Rightarrow> int \<times> ps2_info_t \<times> 'w" where
  "ps2_controller_init h info w =
     (let w = write_ps2_bcommand h w 0xAD;
          w = write_ps2_bcommand h w 0xA7;
          w = flush_out_buff h w;
          (c, w) = write_ps2_bcommand_ret h w 0x20;
          conf = word_of_int c AND NOT (1 OR push_bit 4 1 OR push_bit 6 1);
          (_, w) = write_ps2_2bcommand h w (config_command conf);
          (t, w) = write_ps2_bcommand_ret h w 0xAA
      in if t \<noteq> 0x55 then (- 1, info, w)
         else let (_, w) = write_ps2_2bcommand h w (config_command conf);
          (dual, conf, w) = ps2_check_dual h w;
          (t1, w) = write_ps2_bcommand_ret h w 0xAB;
          port1_ok = (t1 = 0);
          (port2_ok, w) = (if dual then (let (t2, w) = write_ps2_bcommand_ret h w 0xA9 in (t2 = 0, w)) else (False, w))
      in if \<not> port1_ok \<and> \<not> port2_ok then (- 1, info, w)
         else let (conf, w) = (if port1_ok then (conf OR 1, write_ps2_bcommand h w 0xAE) else (conf, w));
          (conf, w) = (if port2_ok then (conf OR push_bit 1 1, write_ps2_bcommand h w 0xA8) else (conf, w));
          (_, w) = write_ps2_2bcommand h w (config_command conf);
          w = flush_out_buff h w;
          w = (if port1_ok then snd (ps2_reset_dev h w 1) else w);
          w = (if port2_ok then snd (ps2_reset_dev h w 2) else w)
      in (0, info\<lparr>ps2_config := conf, ps2_enabled := True, ps2_exists := True, ps2_is_dual_channel := dual\<rparr>, w))"

section \<open>Responses\<close>

text \<open>What the controller does with a command: it is silent for as long as the kernel polls, or the output buffer fills
  after some polls and holds a byte.\<close>

definition status_polls :: "'w hardware \<Rightarrow> nat \<Rightarrow> 'w \<Rightarrow> 'w" where
  "status_polls h n w = ((\<lambda>w. snd (inportb h w PS2_STATUS_REG)) ^^ n) w"

definition output_full :: "'w hardware \<Rightarrow> 'w \<Rightarrow> bool" where
  "output_full h w = bit (fst (inportb h w PS2_STATUS_REG)) 0"

fun offers :: "'w hardware \<Rightarrow> nat \<Rightarrow> 'w \<Rightarrow> u8 option \<Rightarrow> bool" where
  "offers h m w None \<longleftrightarrow> (\<forall>n < m. \<not> output_full h (status_polls h n w))"
| "offers h m w (Some d) \<longleftrightarrow> (\<exists>n < m. (\<forall>k < n. \<not> output_full h (status_polls h k w)) \<and> output_full h (status_polls h n w) \<and>
     fst (inportb h (status_polls h (Suc n) w) PS2_DATA_PORT) = d)"

definition responds :: "'w hardware \<Rightarrow> 'w \<Rightarrow> u8 \<Rightarrow> u8 option \<Rightarrow> bool" where
  "responds h w c = offers h PS2_TIMEOUT (outportb h w PS2_COMMAND_REGISTER c)"

fun returned :: "u8 option \<Rightarrow> int" where
  "returned None = - 1"
| "returned (Some d) = uint d"

lemma status_polls_0 [simp]: "status_polls h 0 w = w"
  by (simp add: status_polls_def)

lemma status_polls_Suc: "status_polls h (Suc n) w = status_polls h n (snd (inportb h w PS2_STATUS_REG))"
  unfolding status_polls_def funpow_Suc_right comp_def by (rule refl)

lemma offers_Suc:
  "\<not> output_full h w \<Longrightarrow> offers h (Suc m) w a \<longleftrightarrow> offers h m (snd (inportb h w PS2_STATUS_REG)) a"
  by (cases a) (simp_all add: All_less_Suc2 Ex_less_Suc2 status_polls_Suc)

lemma offers_now:
  "output_full h w \<Longrightarrow> offers h (Suc m) w a \<longleftrightarrow>
     a = Some (fst (inportb h (snd (inportb h w PS2_STATUS_REG)) PS2_DATA_PORT))"
  by (cases a) (auto simp: All_less_Suc2 Ex_less_Suc2 status_polls_Suc)

lemma read_poll_offers: "offers h m w a \<Longrightarrow> fst (read_poll h m w) = returned a"
proof (induction m arbitrary: w)
  case 0
  then show ?case by (cases a) simp_all
next
  case (Suc m)
  then show ?case
    by (cases "output_full h w") (auto simp: offers_Suc offers_now output_full_def Let_def split: prod.splits)
qed

text \<open>A command that returns a value returns the byte of the response, and \<open>-1\<close> once the polls have run out:
  it does not hang, as the comment over it fears.\<close>

lemma command_returns: "responds h w c a \<Longrightarrow> fst (write_ps2_bcommand_ret h w c) = returned a"
  unfolding responds_def write_ps2_bcommand_ret_def by (rule read_poll_offers)

lemma returned_eq: "returned a = uint d \<longleftrightarrow> a = Some d"
  by (cases a) (auto simp: order.strict_implies_not_eq [OF order.strict_trans2 [OF _ uint_ge_0], symmetric] word_uint_eq_iff
    dest: sym [of "- 1"])

text \<open>The configuration byte tells of a second channel: its bit 5 is clear after that channel has been enabled.\<close>

definition tells_channels :: "'w hardware \<Rightarrow> bool \<Rightarrow> bool" where
  "tells_channels h dual \<longleftrightarrow> (\<forall>w. \<exists>c. responds h w 0x20 c \<and> (case c of None \<Rightarrow> \<not> dual | Some b \<Rightarrow> dual \<longleftrightarrow> \<not> bit b 5))"

lemma check_dual_tells:
  assumes "tells_channels h dual"
  obtains conf w' where "ps2_check_dual h w = (dual, conf, w')" "dual \<longrightarrow> \<not> bit conf 0 \<and> \<not> bit conf 1"
proof -
  let ?w = "write_ps2_bcommand h w 0xA8"
  obtain c where c: "responds h ?w 0x20 c" "case c of None \<Rightarrow> \<not> dual | Some b \<Rightarrow> dual \<longleftrightarrow> \<not> bit b 5"
    using assms unfolding tells_channels_def by blast
  obtain w1 where w1: "write_ps2_bcommand_ret h ?w 0x20 = (returned c, w1)"
    using command_returns [OF c(1)] by (metis prod.collapse)
  have five: "bit (word_of_int (returned c) :: u8) 5 \<longleftrightarrow> \<not> dual" using c(2) by (cases c) (simp_all add: bit_simps)
  have low: "\<not> bit (x AND - 36 :: u8) 0" "\<not> bit (x AND - 36 :: u8) (Suc 0)" for x by (simp_all add: bit_simps)
  show thesis
  proof (rule that)
    show "ps2_check_dual h w = (dual, fst (snd (ps2_check_dual h w)), snd (snd (ps2_check_dual h w)))"
      using five by (auto simp: ps2_check_dual_def Let_def w1 split_beta)
    show "dual \<longrightarrow> \<not> bit (fst (snd (ps2_check_dual h w))) 0 \<and> \<not> bit (fst (snd (ps2_check_dual h w))) 1"
      using five by (auto simp: ps2_check_dual_def Let_def w1 split_beta low)
  qed
qed

section \<open>Properties\<close>


text \<open>A controller with one channel that answers every command at once, and a silent one.\<close>

definition ps2_machine :: "u8 hardware" where
  "ps2_machine = \<lparr>port_read8 = (\<lambda>w p. (if p = 0x64 then 1 else if w = 0xAA then 0x55 else if w = 0x20 then 0x20 else 0, w)),
     port_write8 = (\<lambda>w p v. if p = 0x64 then v else w),
     port_read32 = (\<lambda>w _. (0, w)), port_write32 = (\<lambda>w _ _. w), msr_read = (\<lambda>w _. (0, 0, w)), msr_write = (\<lambda>w _ _ _. w),
     reg_read8 = (\<lambda>w _. (0, w)), reg_read16 = (\<lambda>w _. (0, w)), reg_read32 = (\<lambda>w _. (0, w)), reg_write32 = (\<lambda>w _ _. w)\<rparr>"

lemma ps2_machine_responds:
  "responds ps2_machine w c (Some (if c = 0xAA then 0x55 else if c = 0x20 then 0x20 else 0))"
  by (auto simp: responds_def ps2_machine_def output_full_def outportb_def inportb_def PS2_COMMAND_REGISTER_def PS2_STATUS_REG_def
      PS2_DATA_PORT_def PS2_TIMEOUT_def status_polls_Suc intro!: exI [of _ 0])

lemma no_devices_respond: "responds no_devices w c None"
  by (simp add: responds_def no_devices_def output_full_def inportb_def)


end
