(* ===== verification/Interrupts.thy ===== *)
theory Interrupts
  imports PS2_Controller
begin

text \<open>
  The interrupt dispatcher, \<^verbatim>\<open>src/kernel/interrupts/ISR_handlers.c\<close>.  What a handler prints
  is left out, the characters of the keyboard apart.  A handler ends in one of three ways: it
  returns to the stub, it leaves through \<^verbatim>\<open>_switch_threads\<close>, or it stops the processor.
\<close>

section \<open>State and handlers\<close>

record 'w cpu_state =
  devices :: 'w
  keyboard :: ps2_kb_state
  run_state :: sched
  typed_chars :: "u8 list"

datatype isr_end = Resumes | Switches cpu_regs | Halts

definition lapic_eoi :: "'w cpu_state \<Rightarrow> 'w cpu_state" where
  "lapic_eoi m = m\<lparr>run_state := (run_state m)\<lparr>eoi_writes := Suc (eoi_writes (run_state m))\<rparr>\<rparr>"

definition Stack_segment_fault :: "'w cpu_state \<Rightarrow> isr_end \<times> 'w cpu_state" where
  "Stack_segment_fault m = (Resumes, m)"

definition page_fault_handler :: "'w cpu_state \<Rightarrow> isr_end \<times> 'w cpu_state" where
  "page_fault_handler m = (Halts, m)"

definition general_protection_fault_handler :: "'w cpu_state \<Rightarrow> isr_end \<times> 'w cpu_state" where
  "general_protection_fault_handler m = (Halts, m)"

definition undefined_instruction_handler :: "'w cpu_state \<Rightarrow> interrupt_frame \<Rightarrow> isr_end \<times> 'w cpu_state" where
  "undefined_instruction_handler m frame = (if cs (cpu_regs_of frame) = 0 then (Halts, m) else (Resumes, m))"

definition timer_interrupt_handler :: "'w cpu_state \<Rightarrow> interrupt_frame \<Rightarrow> (isr_end \<times> 'w cpu_state) option" where
  "timer_interrupt_handler m frame = do {
     (s, regs) \<leftarrow> schedule (run_state m) frame INT_TMR;
     Some (Switches regs, m\<lparr>run_state := s\<rparr>)
   }"

text \<open>A timeout reads as \<open>-1\<close>, which is passed on as the byte 255.\<close>

definition keyboard_interrupt_handler :: "'w hardware \<Rightarrow> 'w cpu_state \<Rightarrow> isr_end \<times> 'w cpu_state" where
  "keyboard_interrupt_handler h m =
     (let (d, w) = ps2_read_timeout h (devices m);
          (c, k) = kbd_translate (keyboard m) (word_of_int d);
          m = m\<lparr>devices := w, keyboard := k\<rparr>;
          m = (if c \<noteq> 0 then m\<lparr>typed_chars := typed_chars m @ [c]\<rparr> else m)
      in (Resumes, lapic_eoi m))"

definition c_isr :: "'w hardware \<Rightarrow> 'w cpu_state \<Rightarrow> interrupt_frame \<Rightarrow> (isr_end \<times> 'w cpu_state) option" where
  "c_isr h m frame =
     (if vector frame = 0 then Some (Resumes, m)
      else if vector frame = 8 then Some (undefined_instruction_handler m frame)
      else if vector frame = 12 then Some (Stack_segment_fault m)
      else if vector frame = 13 then Some (general_protection_fault_handler m)
      else if vector frame = 14 then Some (page_fault_handler m)
      else if vector frame = 32 then timer_interrupt_handler m frame
      else if vector frame = 33 then Some (keyboard_interrupt_handler h m)
      else Some (Resumes, m))"

section \<open>Sequences of interrupts\<close>

text \<open>The states that the dispatcher goes through; nothing happens after a halt.\<close>

inductive isr_steps :: "'w hardware \<Rightarrow> 'w cpu_state \<Rightarrow> interrupt_frame list \<Rightarrow> 'w cpu_state \<Rightarrow> bool" for h where
  none: "isr_steps h m [] m"
| step: "c_isr h m frame = Some (e, m1) \<Longrightarrow> e \<noteq> Halts \<Longrightarrow> isr_steps h m1 frames m' \<Longrightarrow> isr_steps h m (frame # frames) m'"

inductive_cases isr_steps_ConsE: "isr_steps h m (frame # frames) m'"

definition is_device_vector :: "interrupt_frame \<Rightarrow> bool" where
  "is_device_vector frame \<longleftrightarrow> vector frame = 32 \<or> vector frame = 33"

text \<open>The frames on which a handler stops the processor.\<close>

definition halting :: "interrupt_frame \<Rightarrow> bool" where
  "halting frame \<longleftrightarrow> vector frame = 13 \<or> vector frame = 14 \<or> vector frame = 8 \<and> cs (cpu_regs_of frame) = 0"

lemma sched_inv_eoi [simp]: "sched_inv (s\<lparr>eoi_writes := n\<rparr>) xs = sched_inv s xs"
  by (simp add: sched_inv_def thread_ok_def queue_def)

lemma keyboard_handler:
  "\<exists>m'. keyboard_interrupt_handler h m = (Resumes, m') \<and>
     run_state m' = (run_state m)\<lparr>eoi_writes := Suc (eoi_writes (run_state m))\<rparr>"
  by (simp add: keyboard_interrupt_handler_def lapic_eoi_def Let_def split_def)

lemma c_isr_cases:
  assumes "sched_inv (run_state m) xs"
  obtains (idle) e where "c_isr h m frame = Some (e, m)" "\<not> is_device_vector frame"
      "e = Halts \<longleftrightarrow> halting frame"
  | (timer) m' regs ys where "vector frame = 32" "c_isr h m frame = Some (Switches regs, m')" "sched_inv (run_state m') ys"
      "set ys = set xs" "eoi_writes (run_state m') = Suc (eoi_writes (run_state m))"
  | (key) m' where "vector frame = 33" "c_isr h m frame = Some (Resumes, m')"
      "run_state m' = (run_state m)\<lparr>eoi_writes := Suc (eoi_writes (run_state m))\<rparr>"
proof (cases "is_device_vector frame")
  case False
  then show thesis
    by (intro idle [of "if halting frame then Halts else Resumes"])
       (auto simp: halting_def c_isr_def is_device_vector_def undefined_instruction_handler_def Stack_segment_fault_def
          general_protection_fault_handler_def page_fault_handler_def)
next
  case True
  show thesis
  proof (cases "vector frame = 32")
    case v: True
    obtain s' regs where s': "schedule (run_state m) frame INT_TMR = Some (s', regs)"
      "eoi_writes s' = Suc (eoi_writes (run_state m))" by (rule schedule_cases [OF assms, of frame])
    have ne: "xs \<noteq> []" using assms by (auto simp: sched_inv_def)
    show thesis
      by (rule timer [OF v, of regs "m\<lparr>run_state := s'\<rparr>" "queue_after (tcbs (run_state m)) xs"])
         (use v s' ne schedule_inv(1) [OF assms s'(1)] in \<open>simp_all add: c_isr_def timer_interrupt_handler_def\<close>)
  next
    case False
    then have v: "vector frame = 33" using True by (simp add: is_device_vector_def)
    from keyboard_handler [of h m] obtain m' where "keyboard_interrupt_handler h m = (Resumes, m')"
      "run_state m' = (run_state m)\<lparr>eoi_writes := Suc (eoi_writes (run_state m))\<rparr>" by blast
    then show thesis by (intro key [OF v]) (simp_all add: c_isr_def v)
  qed
qed

section \<open>Properties\<close>

text \<open>C11. Any sequence of interrupts without a fatal fault is handled to the end: the run queue stays a valid
  queue of the same threads, and the local APIC gets exactly one end-of-interrupt for each timer and keyboard
  interrupt and none for anything else.\<close>

theorem interrupts_keep_queue:
  assumes "sched_inv (run_state m) xs" "\<forall>f \<in> set frames. \<not> halting f"
  shows "\<exists>m' ys. isr_steps h m frames m' \<and> sched_inv (run_state m') ys \<and> set ys = set xs \<and>
     eoi_writes (run_state m') = eoi_writes (run_state m) + length (filter is_device_vector frames)"
  using assms
proof (induction frames arbitrary: m xs)
  case Nil
  then show ?case using isr_steps.none by fastforce
next
  case (Cons f fs)
  have run: ?case if go: "c_isr h m f = Some (e, m1)" "e \<noteq> Halts" and inv: "sched_inv (run_state m1) ys" "set ys = set xs"
    and n: "eoi_writes (run_state m1) = eoi_writes (run_state m) + (if is_device_vector f then 1 else 0)" for e m1 ys
  proof -
    from Cons.IH [OF inv(1)] Cons.prems(2) obtain m' zs where "isr_steps h m1 fs m'" "sched_inv (run_state m') zs" "set zs = set ys"
      "eoi_writes (run_state m') = eoi_writes (run_state m1) + length (filter is_device_vector fs)" by auto
    then show ?thesis using isr_steps.step [OF go] inv(2) n by (intro exI [of _ m'] exI [of _ zs]) auto
  qed
  show ?case
  proof (cases rule: c_isr_cases [OF Cons.prems(1), of h f])
    case (1 e)
    then show ?thesis using Cons.prems by (intro run [of e m xs]) simp_all
  next
    case (2 m' regs ys)
    then show ?thesis by (intro run [of "Switches regs" m' ys]) (simp_all add: is_device_vector_def)
  next
    case (3 m')
    then show ?thesis using Cons.prems(1) by (intro run [of Resumes m' xs]) (simp_all add: is_device_vector_def)
  qed
qed

definition vector_frame :: "u64 \<Rightarrow> interrupt_frame" where
  "vector_frame v = isr_frame (zero_regs\<lparr>psp := (psp zero_regs)\<lparr>cs := 8\<rparr>\<rparr>) 0 0 0 v 0"

theorem interrupts_keep_queue_witness:
  "\<exists>s m'. scheduler_init small_sched 64 = Some s \<and>
     isr_steps no_devices \<lparr>devices = (), keyboard = ps2_state_init, run_state = s, typed_chars = []\<rparr>
       [vector_frame 32, vector_frame 6, vector_frame 33, vector_frame 32] m' \<and> eoi_writes (run_state m') = eoi_writes s + 3"
proof -
  obtain s where s: "scheduler_init small_sched 64 = Some s" "sched_inv s [64, 32]" by (rule small_init)
  let ?m = "\<lparr>devices = (), keyboard = ps2_state_init, run_state = s, typed_chars = []\<rparr>"
  let ?fs = "[vector_frame 32, vector_frame 6, vector_frame 33, vector_frame 32]"
  have "sched_inv (run_state ?m) [64, 32]" "\<forall>f \<in> set ?fs. \<not> halting f"
    using s(2) by (simp_all add: halting_def vector_frame_def isr_frame_def)
  from interrupts_keep_queue [OF this, of no_devices] obtain m' where
    "isr_steps no_devices ?m ?fs m'" "eoi_writes (run_state m') = eoi_writes s + length (filter is_device_vector ?fs)" by auto
  then show ?thesis using s(1)
    by (intro exI [of _ s] exI [of _ m']) (simp add: is_device_vector_def vector_frame_def isr_frame_def)
qed

end
