(* ===== verification/Shellio.thy ===== *)
theory Shellio
  imports Interrupts
begin

text \<open>
  Text output, \<^verbatim>\<open>src/kernel/util/shellio.c\<close>: the cursor, characters written to the text-mode
  video memory, and formatted printing.  Strings are lists of bytes without the final zero.
\<close>

section \<open>Cursor and screen\<close>

definition chr8 :: "char \<Rightarrow> u8" where "chr8 c = of_char c"

definition COLS :: u16 where "COLS = 80"
definition ROWS :: u16 where "ROWS = 25"
definition videoMemStart :: u64 where "videoMemStart = KERNEL_PHYS_TO_VIRT 0xB8000"
definition videoMemEnd :: u64 where "videoMemEnd = KERNEL_PHYS_TO_VIRT (0xB8000 + (ucast COLS * ucast ROWS) * 2)"

record cursor =
  cx :: u16
  cy :: u16

record console =
  vmem :: mem
  curs :: cursor

definition move_cursor :: "u16 \<Rightarrow> cursor \<Rightarrow> cursor" where
  "move_cursor offset c =
     (let rows = offset div ROWS;
          cols = offset mod ROWS
      in \<lparr>cx = ucast ((ucast (cx c) + ucast cols :: u32) mod ucast COLS),
          cy = ucast ((ucast (cy c) + ucast rows :: u32) mod ucast ROWS)\<rparr>)"

definition new_lines :: "u16 \<Rightarrow> cursor \<Rightarrow> cursor" where
  "new_lines count c = \<lparr>cx = 0, cy = cy c + count\<rparr>"

definition cell_addr :: "cursor \<Rightarrow> u64" where
  "cell_addr c = videoMemStart + (ucast (cx c) + ucast (cy c) * ucast COLS) * 2"

definition write_c :: "u8 \<Rightarrow> console \<Rightarrow> console" where
  "write_c ch k =
     (if ch = 0x0A then k\<lparr>curs := new_lines 1 (curs k)\<rparr>
      else if ch = 0x0D then k\<lparr>curs := (curs k)\<lparr>cx := 0\<rparr>\<rparr>
      else k\<lparr>vmem := (vmem k)(cell_addr (curs k) := ch), curs := move_cursor 1 (curs k)\<rparr>)"

fun write_str :: "u8 list \<Rightarrow> console \<Rightarrow> console" where
  "write_str [] k = k"
| "write_str (c # str) k = write_str str (write_c c k)"

text \<open>\<^verbatim>\<open>write_str_len\<close> uses a cursor of its own and leaves the console's alone.\<close>

fun write_bytes :: "mem \<Rightarrow> u64 \<Rightarrow> nat \<Rightarrow> console \<Rightarrow> console" where
  "write_bytes m p 0 k = k"
| "write_bytes m p (Suc n) k = write_bytes m (p + 1) n (write_c (m p) k)"

definition write_str_len :: "mem \<Rightarrow> u64 \<Rightarrow> u64 \<Rightarrow> u64 \<Rightarrow> console \<Rightarrow> console" where
  "write_str_len m str offset len k =
     k\<lparr>vmem := vmem (write_bytes m str (unat len)
        (k\<lparr>curs := \<lparr>cx = ucast (offset mod ucast COLS), cy = ucast (offset div ucast COLS)\<rparr>\<rparr>))\<rparr>"

definition Imclear :: "console \<Rightarrow> console" where
  "Imclear k = \<lparr>vmem = Imemset (vmem k) videoMemStart 0 (videoMemEnd - videoMemStart), curs = \<lparr>cx = 0, cy = 0\<rparr>\<rparr>"

section \<open>Formatted output\<close>

text \<open>The digits as the loops leave them in the buffer, the last digit first.\<close>

function digits32 :: "u32 \<Rightarrow> u8 list" where
  "digits32 v = (chr8 CHR ''0'' + ucast (v mod 10)) # (if v div 10 > 0 then digits32 (v div 10) else [])"
  by pat_completeness auto
termination
  by (relation "measure unat") (auto simp: word_less_nat_alt unat_div)

function digits64 :: "u64 \<Rightarrow> u8 list" where
  "digits64 v = (chr8 CHR ''0'' + ucast (v mod 10)) # (if v div 10 > 0 then digits64 (v div 10) else [])"
  by pat_completeness auto
termination
  by (relation "measure unat") (auto simp: word_less_nat_alt unat_div)

definition hex_digit :: "u64 \<Rightarrow> u8" where
  "hex_digit v = map chr8 ''0123456789abcdef'' ! unat (v AND 0xF)"

function hex_digits :: "u64 \<Rightarrow> u8 list" where
  "hex_digits v = hex_digit v # (if drop_bit 4 v > 0 then hex_digits (drop_bit 4 v) else [])"
  by pat_completeness auto
termination
  by (relation "measure unat") (auto simp: word_less_nat_alt drop_bit_eq_div unat_div)

declare digits32.simps [simp del] digits64.simps [simp del] hex_digits.simps [simp del]

text \<open>Variable arguments: a register, or a pointer to a string.\<close>

datatype varg = Va_word u64 | Va_str "u8 list"

fun va_word :: "varg list \<Rightarrow> (u64 \<times> varg list) option" where
  "va_word (Va_word v # args) = Some (v, args)"
| "va_word args = None"

fun va_str :: "varg list \<Rightarrow> (u8 list \<times> varg list) option" where
  "va_str (Va_str s # args) = Some (s, args)"
| "va_str args = None"

definition write_signed :: "u32 \<Rightarrow> console \<Rightarrow> console" where
  "write_signed v k =
     (let neg = v <s 0;
          uval = (if neg then - v else v)
      in write_str (rev (digits32 uval)) (if neg then write_c (chr8 CHR ''-'') k else k))"

definition write_unsigned :: "u32 \<Rightarrow> console \<Rightarrow> console" where
  "write_unsigned v k = write_str (rev (digits32 v)) k"

definition write_long :: "u64 \<Rightarrow> console \<Rightarrow> console" where
  "write_long v k = write_str (rev (digits64 v)) k"

definition write_hex :: "u64 \<Rightarrow> console \<Rightarrow> console" where
  "write_hex v k = write_str (rev (hex_digits v)) (write_c (chr8 CHR ''x'') (write_c (chr8 CHR ''0'') k))"

text \<open>One directive: the \<^verbatim>\<open>switch\<close>.  The case of \<^verbatim>\<open>'b'\<close> runs on into the default case.\<close>

definition directive :: "u8 \<Rightarrow> varg list \<Rightarrow> console \<Rightarrow> (console \<times> varg list) option" where
  "directive c args k =
     (if c = chr8 CHR ''i'' then do { (v, args) \<leftarrow> va_word args; Some (write_signed (ucast v) k, args) }
      else if c = chr8 CHR ''u'' then do { (v, args) \<leftarrow> va_word args; Some (write_unsigned (ucast v) k, args) }
      else if c = chr8 CHR ''h'' then do { (v, args) \<leftarrow> va_word args; Some (write_signed (ucast v) k, args) }
      else if c = chr8 CHR ''l'' then do { (v, args) \<leftarrow> va_word args; Some (write_long v k, args) }
      else if c = chr8 CHR ''x'' then do { (v, args) \<leftarrow> va_word args; Some (write_hex v k, args) }
      else if c = chr8 CHR ''s'' then do { (s, args) \<leftarrow> va_str args; Some (write_str s k, args) }
      else if c = chr8 CHR ''c'' then do { (v, args) \<leftarrow> va_word args; Some (write_c (ucast v) k, args) }
      else if c = chr8 CHR ''b'' then do {
        (v, args) \<leftarrow> va_word args;
        let k = write_str (map chr8 (if (ucast v :: u32) \<noteq> 0 then ''true'' else ''false'')) k;
        Some (write_c c (write_c (chr8 CHR ''%'') k), args)
      }
      else Some (write_c c (write_c (chr8 CHR ''%'') k), args))"

fun vprintf_loop :: "bool \<Rightarrow> u8 list \<Rightarrow> varg list \<Rightarrow> console \<Rightarrow> console option" where
  "vprintf_loop format_next [] args k = Some k"
| "vprintf_loop format_next (c # format) args k =
     (if c = chr8 CHR ''%'' then vprintf_loop True format args k
      else if format_next then do { (k, args) \<leftarrow> directive c args k; vprintf_loop False format args k }
      else vprintf_loop False format args (write_c c k))"

definition vprintf :: "u8 list \<Rightarrow> varg list \<Rightarrow> console \<Rightarrow> console option" where
  "vprintf format args k = vprintf_loop False format args k"

definition Iprintf :: "u8 list \<Rightarrow> varg list \<Rightarrow> console \<Rightarrow> console option" where
  "Iprintf format args k = vprintf format args k"

text \<open>The same on a cursor of the caller: the global one stays as it is.\<close>

definition mprintf :: "cursor \<Rightarrow> u8 list \<Rightarrow> varg list \<Rightarrow> console \<Rightarrow> (cursor \<times> console) option" where
  "mprintf cur format args k = do {
     k' \<leftarrow> vprintf format args (k\<lparr>curs := cur\<rparr>);
     Some (curs k', k'\<lparr>curs := curs k\<rparr>)
   }"

definition cons_move_cursor :: "u16 \<Rightarrow> console \<Rightarrow> console" where
  "cons_move_cursor offset k = k\<lparr>curs := move_cursor offset (curs k)\<rparr>"

definition cons_new_lines :: "u16 \<Rightarrow> console \<Rightarrow> console" where
  "cons_new_lines count k = k\<lparr>curs := new_lines count (curs k)\<rparr>"

definition cons_write_c :: "u8 \<Rightarrow> console \<Rightarrow> console" where
  "cons_write_c c k = write_c c k"

definition cons_write_str :: "u8 list \<Rightarrow> console \<Rightarrow> console" where
  "cons_write_str str k = write_str str k"

definition shellio_init :: "u8 list \<Rightarrow> console \<Rightarrow> console option" where
  "shellio_init starting_text k =
     vprintf (map chr8 ''Init Shell: %s'') [Va_str starting_text] (k\<lparr>curs := \<lparr>cx = 0, cy = 0\<rparr>\<rparr>)"

end
