(* ===== verification/Shellio_Props.thy ===== *)
theory Shellio_Props
  imports Shellio
begin

text \<open>Formatted output against its text, and where the text goes.\<close>

section \<open>Numbers as text\<close>

definition digit :: "nat \<Rightarrow> u8" where "digit n = of_nat (48 + n)"

fun dec :: "nat \<Rightarrow> u8 list" where
  "dec n = (if n < 10 then [digit n] else dec (n div 10) @ [digit (n mod 10)])"

declare dec.simps [simp del]

definition hex_char :: "nat \<Rightarrow> u8" where "hex_char n = of_nat (if n < 10 then 48 + n else 87 + n)"

fun hex :: "nat \<Rightarrow> u8 list" where
  "hex n = (if n < 16 then [hex_char n] else hex (n div 16) @ [hex_char (n mod 16)])"

declare hex.simps [simp del]

text \<open>Reading a decimal number back.\<close>

definition undec :: "u8 list \<Rightarrow> nat" where "undec t = foldl (\<lambda>a d. a * 10 + (unat d - 48)) 0 t"

lemma undec_dec: "undec (dec n) = n"
proof (induction n rule: dec.induct)
  case (1 n)
  have d: "unat (digit m) = 48 + m" if "m < 10" for m
    using that by (simp add: digit_def unat_word_ariths unat_of_nat)
  show ?case
  proof (cases "n < 10")
    case True
    then show ?thesis by (subst dec.simps) (simp add: undec_def d)
  next
    case False
    have s: "undec (t @ [x]) = undec t * 10 + (unat x - 48)" for t x by (simp add: undec_def)
    have "undec (dec n) = undec (dec (n div 10)) * 10 + n mod 10"
      using False by (subst dec.simps) (simp add: s d)
    with 1 [OF False] show ?thesis by simp
  qed
qed

lemma length_dec: "n < 10 ^ Suc k \<Longrightarrow> length (dec n) \<le> Suc k"
proof (induction k arbitrary: n)
  case 0
  then show ?case by (subst dec.simps) simp
next
  case (Suc k)
  show ?case
  proof (cases "n < 10")
    case False
    have "n div 10 < 10 ^ Suc k" using Suc.prems by (simp add: less_mult_imp_div_less)
    from Suc.IH [OF this] False show ?thesis by (subst dec.simps) simp
  qed (subst dec.simps, simp)
qed

lemma chr8_eq [simp]: "chr8 a = chr8 b \<longleftrightarrow> a = b"
proof
  assume "chr8 a = chr8 b"
  then have "unat (of_nat (of_char a) :: u8) = unat (of_nat (of_char b) :: u8)" by (simp only: chr8_def of_nat_of_char)
  then have "of_char a mod 256 = (of_char b mod 256 :: nat)" by (simp only: unat_of_nat) simp
  then show "a = b" by simp
qed simp

lemma byte_of_nat: "(ucast (w :: 'a::len word) :: u8) = of_nat (unat w)"
  by simp

lemma chr8_zero: "chr8 CHR ''0'' = 48"
  by (simp add: chr8_def of_char_def)

lemma rev_digits32: "rev (digits32 v) = dec (unat v)"
proof (induction v rule: digits32.induct)
  case (1 v)
  have m: "(ucast (v mod 10) :: u8) = of_nat (unat v mod 10)"
    by (simp only: byte_of_nat unat_mod) simp
  have z: "v div 10 > 0 \<longleftrightarrow> \<not> unat v < 10"
    by (auto simp: word_less_nat_alt unat_div)
  show ?case
    by (subst digits32.simps, subst dec.simps) (use 1 z in \<open>auto simp: chr8_zero m digit_def unat_div\<close>)
qed

lemma rev_digits64: "rev (digits64 v) = dec (unat v)"
proof (induction v rule: digits64.induct)
  case (1 v)
  have m: "(ucast (v mod 10) :: u8) = of_nat (unat v mod 10)"
    by (simp only: byte_of_nat unat_mod) simp
  have z: "v div 10 > 0 \<longleftrightarrow> \<not> unat v < 10"
    by (auto simp: word_less_nat_alt unat_div)
  show ?case
    by (subst digits64.simps, subst dec.simps) (use 1 z in \<open>auto simp: chr8_zero m digit_def unat_div\<close>)
qed

lemma pos_mod_bound16: "(n :: nat) mod 16 < 16"
  by simp

lemma hex_alphabet: "n < 16 \<Longrightarrow> map chr8 ''0123456789abcdef'' ! n = hex_char n"
proof -
  assume n: "n < 16"
  have "map chr8 ''0123456789abcdef'' = map hex_char [0..<16]" by code_simp
  then show ?thesis using n by (simp only:) simp
qed

lemma rev_hex_digits: "rev (hex_digits v) = hex (unat v)"
proof (induction v rule: hex_digits.induct)
  case (1 v)
  have "(0xF :: u64) = mask 4" by (simp add: mask_eq_exp_minus_1)
  then have "unat (v AND 0xF) = unat v mod 16"
    by (simp only: flip: take_bit_eq_mask) (simp add: unsigned_take_bit_eq take_bit_eq_mod unat_mod)
  then have m: "hex_digit v = hex_char (unat v mod 16)"
    unfolding hex_digit_def by (simp only: hex_alphabet [OF pos_mod_bound16])
  have d: "unat (drop_bit 4 v) = unat v div 16" by (simp add: drop_bit_eq_div unat_div)
  have z: "drop_bit 4 v > 0 \<longleftrightarrow> \<not> unat v < 16"
    by (simp only: word_less_nat_alt d) auto
  show ?case
    by (subst hex_digits.simps, subst hex.simps) (use 1 z in \<open>auto simp: m d\<close>)
qed

section \<open>Formatted text\<close>

text \<open>The text of a directive; \<open>None\<close> where the argument is missing or not of the kind asked for.\<close>

definition signed_text :: "int \<Rightarrow> u8 list" where
  "signed_text i = (if i < 0 then chr8 CHR ''-'' # dec (nat (- i)) else dec (nat i))"

definition directive_text :: "u8 \<Rightarrow> varg list \<Rightarrow> (u8 list \<times> varg list) option" where
  "directive_text c args =
     (if c \<in> {chr8 CHR ''i'', chr8 CHR ''h''} then do { (v, args) \<leftarrow> va_word args; Some (signed_text (sint (ucast v :: u32)), args) }
      else if c = chr8 CHR ''u'' then do { (v, args) \<leftarrow> va_word args; Some (dec (unat v mod 2 ^ 32), args) }
      else if c = chr8 CHR ''l'' then do { (v, args) \<leftarrow> va_word args; Some (dec (unat v), args) }
      else if c = chr8 CHR ''x'' then do { (v, args) \<leftarrow> va_word args; Some (map chr8 ''0x'' @ hex (unat v), args) }
      else if c = chr8 CHR ''s'' then va_str args
      else if c = chr8 CHR ''c'' then do { (v, args) \<leftarrow> va_word args; Some ([ucast v], args) }
      else if c = chr8 CHR ''b'' then do {
        (v, args) \<leftarrow> va_word args;
        Some (map chr8 (if unat v mod 2 ^ 32 \<noteq> 0 then ''true%b'' else ''false%b''), args)
      }
      else Some ([chr8 CHR ''%'', c], args))"

fun format_text :: "bool \<Rightarrow> u8 list \<Rightarrow> varg list \<Rightarrow> u8 list option" where
  "format_text d [] args = Some []"
| "format_text d (c # f) args =
     (if c = chr8 CHR ''%'' then format_text True f args
      else if d then do { (t, args) \<leftarrow> directive_text c args; u \<leftarrow> format_text False f args; Some (t @ u) }
      else do { u \<leftarrow> format_text False f args; Some (c # u) })"

lemma write_str_append: "write_str (s @ t) k = write_str t (write_str s k)"
  by (induction s arbitrary: k) simp_all

lemma uint_of_int: "uint (word_of_int i :: u32) = i mod 2 ^ 32"
  by (simp only: uint_word_of_int) simp

lemma write_signed_text: "write_signed v k = write_str (signed_text (sint v)) k"
proof (cases "v <s 0")
  case True
  then have s: "sint v < 0" by (simp add: word_sless_alt)
  have "unat (- v) = nat (- sint v)"
  proof -
    have r: "- (2 ^ 31) \<le> sint v" using sint_ge [of v] by simp
    have "uint (- v) = (- sint v) mod 2 ^ 32" using uint_of_int [of "- sint v"] by simp
    also have "\<dots> = - sint v" using r s by (intro mod_pos_pos_trivial) simp_all
    finally have "nat (uint (- v)) = nat (- sint v)" by (rule arg_cong)
    then show ?thesis by (simp only: nat_uint_eq)
  qed
  with True s show ?thesis by (simp add: write_signed_def signed_text_def rev_digits32)
next
  case False
  then have "0 \<le> sint v" by (simp add: word_sless_alt)
  then have "unat v = nat (sint v)"
  proof -
    assume s: "0 \<le> sint v"
    have r: "sint v < 2 ^ 32" using sint_lt [of v] by simp
    have "uint v = sint v mod 2 ^ 32" using uint_of_int [of "sint v"] by simp
    also have "\<dots> = sint v" using r s by (intro mod_pos_pos_trivial) simp_all
    finally have "nat (uint v) = nat (sint v)" by (rule arg_cong)
    then show ?thesis by (simp only: nat_uint_eq)
  qed
  with False \<open>0 \<le> sint v\<close> show ?thesis by (simp add: write_signed_def signed_text_def rev_digits32)
qed

lemma low_word: "unat (ucast (v :: u64) :: u32) = unat v mod 4294967296"
  by (simp add: unsigned_ucast_eq take_bit_eq_mod)

lemma low_word_0: "(ucast (v :: u64) :: u32) = 0 \<longleftrightarrow> unat v mod 4294967296 = 0"
  by (simp only: low_word word_eq_by_unat unsigned_0)

lemma directive_spec: "directive c args k = map_option (\<lambda>(t, a). (write_str t k, a)) (directive_text c args)"
  unfolding directive_def directive_text_def
  by (cases args rule: va_word.cases; cases args rule: va_str.cases)
     (simp_all add: write_signed_text write_unsigned_def write_long_def write_hex_def rev_digits32 rev_digits64 rev_hex_digits
       write_str_append low_word low_word_0)

lemma vprintf_loop_text: "vprintf_loop d format args k = map_option (\<lambda>t. write_str t k) (format_text d format args)"
proof (induction format arbitrary: d args k)
  case (Cons c f)
  show ?case
  proof (cases "d \<and> c \<noteq> chr8 CHR ''%''")
    case True
    then show ?thesis
      by (cases "directive_text c args") (auto simp: directive_spec Cons.IH write_str_append map_option.compositionality comp_def split: bind_splits)
  next
    case False
    then show ?thesis by (auto simp: Cons.IH map_option.compositionality comp_def split: bind_splits)
  qed
qed simp

section \<open>The screen\<close>

text \<open>Rows and cells as numbers.\<close>

definition on_screen :: "u64 \<Rightarrow> bool" where
  "on_screen a \<longleftrightarrow> videoMemStart \<le> a \<and> a < videoMemEnd"

definition cursor_ok :: "cursor \<Rightarrow> bool" where "cursor_ok c \<longleftrightarrow> unat (cx c) < 80 \<and> unat (cy c) < 25"

definition is_plain :: "u8 \<Rightarrow> bool" where "is_plain c \<longleftrightarrow> c \<noteq> 0x0A \<and> c \<noteq> 0x0D"

lemma cell_bound: "s = (18446744071562821632 :: nat) \<Longrightarrow> x < 80 \<Longrightarrow> y < 65536 \<Longrightarrow> s + 2 * (x + 80 * y) < 18446744073709551616"
  by simp

lemma unat_cell:
  assumes "unat (cx c) < 80" "unat (cy c) < 65536"
  shows "unat (cell_addr c) = unat videoMemStart + 2 * (unat (cx c) + 80 * unat (cy c))"
proof -
  have ns: "cell_addr c = of_nat (unat videoMemStart + 2 * (unat (cx c) + 80 * unat (cy c)))"
    by (simp add: cell_addr_def COLS_def mult.commute)
  have "unat videoMemStart = 0xFFFFFFFF800B8000"
    by (simp add: videoMemStart_def KERNEL_PHYS_TO_VIRT_def KERNEL_VMA_def)
  then have "unat videoMemStart + 2 * (unat (cx c) + 80 * unat (cy c)) < 18446744073709551616" by (rule cell_bound [OF _ assms])
  then show ?thesis unfolding ns by (rule unat_of_nat_u64)
qed

lemma cell_on_screen: "cursor_ok c \<Longrightarrow> on_screen (cell_addr c)"
proof -
  assume c: "cursor_ok c"
  then have "unat (cell_addr c) = unat videoMemStart + 2 * (unat (cx c) + 80 * unat (cy c))"
    by (intro unat_cell) (simp_all add: cursor_ok_def)
  moreover have "unat videoMemEnd = unat videoMemStart + 4000"
    by (simp add: videoMemStart_def videoMemEnd_def KERNEL_PHYS_TO_VIRT_def KERNEL_VMA_def COLS_def ROWS_def)
  ultimately show ?thesis using c by (simp add: on_screen_def word_le_nat_alt word_less_nat_alt cursor_ok_def)
qed

lemma move_one:
  assumes "cursor_ok c"
  shows "unat (cx (move_cursor 1 c)) = Suc (unat (cx c)) mod 80" "cy (move_cursor 1 c) = cy c"
proof -
  have x: "unat (ucast (cx c) + 1 :: u32) = Suc (unat (cx c))"
    using assms by (simp add: cursor_ok_def unat_word_ariths unsigned_ucast_eq take_bit_eq_mod)
  have "unat (cx (move_cursor 1 c)) = unat ((ucast (cx c) + 1 :: u32) mod 80) mod 65536"
    by (simp add: move_cursor_def COLS_def ROWS_def unsigned_ucast_eq take_bit_eq_mod)
  also have "\<dots> = Suc (unat (cx c)) mod 80"
    unfolding unat_mod x using mod_less_divisor [of 80 "Suc (unat (cx c))"] by simp
  finally show "unat (cx (move_cursor 1 c)) = Suc (unat (cx c)) mod 80" .
  have "unat (cy (move_cursor 1 c)) = unat (cy c) mod 25"
    using assms by (simp add: move_cursor_def COLS_def ROWS_def unsigned_ucast_eq take_bit_eq_mod unat_mod cursor_ok_def)
  then show "cy (move_cursor 1 c) = cy c" using assms by (simp add: cursor_ok_def word_eq_by_unat)
qed

definition screen_only :: "mem \<Rightarrow> mem \<Rightarrow> bool" where
  "screen_only m m' \<longleftrightarrow> (\<forall>a. m' a \<noteq> m a \<longrightarrow> on_screen a)"

lemma write_plain:
  assumes "cursor_ok (curs k)" "is_plain c"
  shows "screen_only (vmem k) (vmem (write_c c k))" "cursor_ok (curs (write_c c k))"
    "cy (curs (write_c c k)) = cy (curs k)" "unat (cx (curs (write_c c k))) = Suc (unat (cx (curs k))) mod 80"
  using assms cell_on_screen [OF assms(1)] move_one [OF assms(1)]
  by (auto simp: write_c_def is_plain_def screen_only_def cursor_ok_def)

lemma write_newline:
  assumes "unat (cy (curs k)) < 65535"
  shows "vmem (write_c 0x0A k) = vmem k" "unat (cx (curs (write_c 0x0A k))) = 0"
    "unat (cy (curs (write_c 0x0A k))) = Suc (unat (cy (curs k)))"
  using assms by (simp_all add: write_c_def new_lines_def unat_word_ariths)

lemma write_return: "write_c 0x0D k = k\<lparr>curs := (curs k)\<lparr>cx := 0\<rparr>\<rparr>"
  by (simp add: write_c_def)

section \<open>Properties\<close>

text \<open>C16. Formatted output writes exactly the text of the format: signed numbers in decimal with a sign,
  also the least one, unsigned and 64-bit numbers in decimal, pointers in hexadecimal, strings and characters as
  they are, and any other directive with its percent sign.  Reading the decimal digits back gives the
  number, and they fit the buffers of 20 and 21 characters.\<close>

theorem vprintf_writes_text:
  "vprintf format args k = map_option (\<lambda>t. write_str t k) (format_text False format args) \<and>
   undec (rev (digits32 v)) = unat v \<and> length (digits32 v) \<le> 20 \<and>
   undec (rev (digits64 u)) = unat u \<and> length (digits64 u) \<le> 21"
proof -
  have "unat v < 10 ^ Suc 19" using u32_bound [of v] by simp
  then have "length (dec (unat v)) \<le> 20" using length_dec [of "unat v" 19] by simp
  then have "length (digits32 v) \<le> 20" using rev_digits32 [of v] by (metis length_rev)
  moreover have "unat u < 10 ^ Suc 20" using u64_bound [of u] by simp
  then have "length (dec (unat u)) \<le> 21" using length_dec [of "unat u" 20] by simp
  then have "length (digits64 u) \<le> 21" using rev_digits64 [of u] by (metis length_rev)
  ultimately show ?thesis by (simp add: vprintf_def vprintf_loop_text rev_digits32 rev_digits64 undec_dec)
qed

text \<open>C35. Text changes only the video memory as long as it has no more line feeds than there are rows below
  the cursor; each line feed goes down one row, and a line that is too long starts again in its own row.\<close>

theorem text_stays_on_screen:
  assumes "unat (cx (curs k)) < 80" "unat (cy (curs k)) + count_list t 0x0A \<le> 24"
  shows "screen_only (vmem k) (vmem (write_str t k)) \<and> cursor_ok (curs (write_str t k)) \<and>
    unat (cy (curs (write_str t k))) = unat (cy (curs k)) + count_list t 0x0A"
  using assms
proof (induction t arbitrary: k)
  case Nil
  then show ?case by (simp add: screen_only_def cursor_ok_def)
next
  case (Cons c t)
  have ok: "cursor_ok (curs k)" using Cons.prems by (simp add: cursor_ok_def)
  have trans: "screen_only a b \<Longrightarrow> screen_only b d \<Longrightarrow> screen_only a d" for a b d
    by (simp add: screen_only_def) metis
  let ?k = "write_c c k"
  consider "is_plain c" | "c = 0x0A" | "c = 0x0D" by (auto simp: is_plain_def)
  then have "screen_only (vmem k) (vmem ?k) \<and> unat (cx (curs ?k)) < 80 \<and>
      unat (cy (curs ?k)) = unat (cy (curs k)) + (if c = 0x0A then 1 else 0)"
  proof cases
    case 1
    with write_plain [OF ok 1] show ?thesis by (auto simp: is_plain_def cursor_ok_def)
  next
    case 2
    have "unat (cy (curs k)) < 65535" using ok by (simp add: cursor_ok_def)
    with write_newline [of k] 2 show ?thesis by (simp add: screen_only_def)
  next
    case 3
    with ok show ?thesis by (simp add: write_return screen_only_def cursor_ok_def)
  qed
  then show ?case using Cons.IH [of ?k] Cons.prems(2) trans by (auto split: if_splits)
qed

definition blank_console :: console where
  "blank_console = \<lparr>vmem = (\<lambda>_. 0), curs = \<lparr>cx = 0, cy = 0\<rparr>\<rparr>"

theorem text_stays_on_screen_witness:
  "screen_only (\<lambda>_. 0) (vmem (write_str [0x41, 0x0A, 0x42] blank_console)) \<and>
   unat (cy (curs (write_str [0x41, 0x0A, 0x42] blank_console))) = 1"
  using text_stays_on_screen [of blank_console "[0x41, 0x0A, 0x42]"] by (simp add: blank_console_def)

text \<open>There is no scrolling: after a line feed in the last row the next character is written to the
  address just past the video memory.\<close>

theorem line_feed_leaves_screen:
  assumes "cy (curs k) = 24" "is_plain c"
  shows "vmem (write_str [0x0A, c] k) videoMemEnd = c \<and> \<not> on_screen videoMemEnd"
proof -
  have "cell_addr (new_lines 1 (curs k)) = videoMemEnd"
    using assms(1) by (simp add: cell_addr_def new_lines_def COLS_def ROWS_def videoMemStart_def videoMemEnd_def
        KERNEL_PHYS_TO_VIRT_def KERNEL_VMA_def)
  then show ?thesis using assms(2) by (simp add: write_c_def is_plain_def on_screen_def)
qed

theorem line_feed_leaves_screen_witness:
  "vmem (write_str [0x0A, 0x41] (blank_console\<lparr>curs := \<lparr>cx = 7, cy = 24\<rparr>\<rparr>)) videoMemEnd = 0x41"
  using line_feed_leaves_screen [of "blank_console\<lparr>curs := \<lparr>cx = 7, cy = 24\<rparr>\<rparr>" "0x41"] by (simp add: is_plain_def)

end
