(* ===== verification/Tar.thy ===== *)
theory Tar
  imports Shellio_Props
begin

text \<open>
  The tar archives given as boot modules, \<^verbatim>\<open>src/kernel/util/Files/tar_parse.c\<close>.
\<close>

definition TAR_BLOCK_SIZE :: u64 where "TAR_BLOCK_SIZE = 512"

text \<open>The fields of \<^verbatim>\<open>struct tar_header\<close>.\<close>

definition hdr_filename :: "u64 \<Rightarrow> u64 \<Rightarrow> u64" where "hdr_filename h i = h + i"
definition hdr_size :: "u64 \<Rightarrow> u64" where "hdr_size h = h + 124"
definition hdr_typeflag :: "u64 \<Rightarrow> u64" where "hdr_typeflag h = h + 156"

text \<open>\<^verbatim>\<open>getsize\<close>: the loop from \<^verbatim>\<open>j\<close> down to 1; \<^verbatim>\<open>char\<close> is signed.\<close>

fun getsize_loop :: "mem \<Rightarrow> u64 \<Rightarrow> nat \<Rightarrow> u32 \<Rightarrow> u32 \<Rightarrow> u32" where
  "getsize_loop m p 0 count sz = sz"
| "getsize_loop m p (Suc j) count sz = getsize_loop m p j (count * 8) (sz + (scast (m (p + of_nat j)) - 0x30) * count)"

definition getsize :: "mem \<Rightarrow> u64 \<Rightarrow> u32" where
  "getsize m p = getsize_loop m p 11 1 0"

text \<open>\<^verbatim>\<open>parse_octal\<close>, with the number of characters left.\<close>

fun octal_loop :: "mem \<Rightarrow> u64 \<Rightarrow> nat \<Rightarrow> u64 \<Rightarrow> u64" where
  "octal_loop m p 0 v = v"
| "octal_loop m p (Suc n) v =
     (if 0x30 \<le> m p \<and> m p \<le> 0x37 then octal_loop m (p + 1) n (v * 8 + ucast (m p - 0x30)) else v)"

definition parse_octal :: "mem \<Rightarrow> u64 \<Rightarrow> u64 \<Rightarrow> u64" where
  "parse_octal m p len = octal_loop m p (unat len) 0"

text \<open>The loop of \<^verbatim>\<open>tar_count_files\<close>.\<close>

partial_function (option) count_loop :: "mem \<Rightarrow> u64 \<Rightarrow> u64 \<Rightarrow> u64 \<Rightarrow> u64 option" where
  "count_loop m archive_end p file_count =
     (if p + TAR_BLOCK_SIZE \<le> archive_end then
        if m (hdr_filename p 0) = 0 then Some file_count
        else
          (let file_size = parse_octal m (hdr_size p) 12;
               file_count = (if m (hdr_typeflag p) = 0x30 \<or> m (hdr_typeflag p) = 0 then file_count + 1 else file_count);
               data_blocks = (file_size + TAR_BLOCK_SIZE - 1) div TAR_BLOCK_SIZE
           in count_loop m archive_end (p + (TAR_BLOCK_SIZE + data_blocks * TAR_BLOCK_SIZE)) file_count)
      else Some file_count)"

definition tar_count_files :: "mem \<Rightarrow> u64 \<Rightarrow> u64 \<Rightarrow> u64 option" where
  "tar_count_files m archive_start archive_length = count_loop m (archive_start + archive_length) archive_start 0"

text \<open>The endless loop of \<^verbatim>\<open>parse\<close>; the address of each header goes into the array \<^verbatim>\<open>headers\<close>.\<close>

partial_function (option) parse_loop :: "kstate \<Rightarrow> u64 \<Rightarrow> u64 \<Rightarrow> u32 \<Rightarrow> (u32 \<times> kstate) option" where
  "parse_loop k headers address i =
     (if kmem k (hdr_filename address (ucast i)) = 0 then Some (i, k)
      else
        (let sz = getsize (kmem k) (hdr_size address);
             k = store_entry k (headers + 8 * ucast i) address;
             address = address + ucast ((sz div 512 + 1) * 512);
             address = (if sz mod 512 \<noteq> 0 then address + 512 else address)
         in parse_loop k headers address (i + 1)))"

definition parse :: "kstate \<Rightarrow> u64 \<Rightarrow> u64 \<Rightarrow> (u32 \<times> kstate) option" where
  "parse k headers address = parse_loop k headers address 0"

definition tar_mb2_init :: "kstate \<Rightarrow> u64 \<Rightarrow> u32 \<Rightarrow> u32 \<Rightarrow> (u32 \<times> u64 \<times> kstate) option" where
  "tar_mb2_init k root mod_start mod_end = do {
     count \<leftarrow> tar_count_files (kmem k) (ucast mod_start) (ucast mod_end - ucast mod_start);
     (headers, k) \<leftarrow> Imalloc k root (8 * count);
     (check_count, k) \<leftarrow> parse k headers (ucast mod_start);
     Some (if scast check_count \<noteq> count then - 1 else check_count, headers, k)
   }"

end
