(* ===== verification/Tar_Props.thy ===== *)
theory Tar_Props
  imports Tar
begin

text \<open>Counting the files of an archive ends and counts right; the two readers of a size agree.\<close>

section \<open>Octal numbers\<close>

definition octal_digit :: "u8 \<Rightarrow> bool" where "octal_digit c \<longleftrightarrow> 0x30 \<le> c \<and> c \<le> 0x37"

definition octal_value :: "u8 list \<Rightarrow> nat" where "octal_value t = foldl (\<lambda>a c. 8 * a + (unat c - 48)) 0 t"

lemma octal_digit_cases:
  assumes "octal_digit c"
  shows "c \<in> {0x30, 0x31, 0x32, 0x33, 0x34, 0x35, 0x36, 0x37}"
proof -
  have "unat c \<in> {48, 49, 50, 51, 52, 53, 54, 55}"
    using assms by (auto simp: octal_digit_def word_le_nat_alt)
  then have "(of_nat (unat c) :: u8) \<in> of_nat ` {48, 49, 50, 51, 52, 53, 54, 55 :: nat}" by (rule imageI)
  then show ?thesis by simp
qed

lemma octal_digit_value: "octal_digit c \<Longrightarrow> unat (c - 0x30) = unat c - 48 \<and> unat c - 48 < 8"
  by (drule octal_digit_cases) auto

lemma octal_digit_ucast: "octal_digit c \<Longrightarrow> (ucast (c - 0x30) :: u64) = of_nat (unat c - 48)"
  by (drule octal_digit_cases) auto

lemma octal_digit_scast: "octal_digit c \<Longrightarrow> (scast c - 0x30 :: u32) = of_nat (unat c - 48)"
  by (drule octal_digit_cases) auto

lemma octal_value_append: "octal_value (t @ [c]) = 8 * octal_value t + (unat c - 48)"
  by (simp add: octal_value_def)

lemma octal_value_bound: "\<forall>c \<in> set t. octal_digit c \<Longrightarrow> octal_value t < 8 ^ length t"
proof (induction t rule: rev_induct)
  case (snoc c t)
  then have "octal_value t < 8 ^ length t" "unat c - 48 < 8" using octal_digit_value [of c] by simp_all
  then show ?case by (simp add: octal_value_append)
qed (simp add: octal_value_def)

text \<open>The bytes from an address on.\<close>

definition bytes_at :: "mem \<Rightarrow> u64 \<Rightarrow> nat \<Rightarrow> u8 list" where
  "bytes_at m p n = map (\<lambda>i. m (p + of_nat i)) [0..<n]"

lemma bytes_at_Suc: "bytes_at m p (Suc n) = bytes_at m p n @ [m (p + of_nat n)]"
  by (simp add: bytes_at_def)

lemma getsize_loop_value:
  assumes "\<forall>c \<in> set (bytes_at m p n). octal_digit c"
  shows "getsize_loop m p n count sz = sz + count * of_nat (octal_value (bytes_at m p n))"
  using assms
proof (induction n arbitrary: count sz)
  case 0
  then show ?case by (simp add: bytes_at_def octal_value_def)
next
  case (Suc n)
  have "octal_digit (m (p + of_nat n))" "\<forall>c \<in> set (bytes_at m p n). octal_digit c"
    using Suc.prems by (simp_all add: bytes_at_Suc)
  then show ?case
    by (simp add: Suc.IH bytes_at_Suc octal_value_append octal_digit_scast algebra_simps)
qed

lemma octal_loop_step:
  assumes "\<forall>c \<in> set (bytes_at m p n). octal_digit c"
  shows "octal_loop m p (n + k) v = octal_loop m (p + of_nat n) k (of_nat (8 ^ n) * v + of_nat (octal_value (bytes_at m p n)))"
  using assms
proof (induction n arbitrary: k)
  case 0
  then show ?case by (simp add: bytes_at_def octal_value_def)
next
  case (Suc n)
  have d: "octal_digit (m (p + of_nat n))" "\<forall>c \<in> set (bytes_at m p n). octal_digit c"
    using Suc.prems by (simp_all add: bytes_at_Suc)
  have "octal_loop m p (Suc n + k) v = octal_loop m p (n + Suc k) v" by simp
  also have "\<dots> = octal_loop m (p + of_nat n) (Suc k) (of_nat (8 ^ n) * v + of_nat (octal_value (bytes_at m p n)))"
    by (rule Suc.IH [OF d(2)])
  also have "\<dots> = octal_loop m (p + of_nat (Suc n)) k (of_nat (8 ^ Suc n) * v + of_nat (octal_value (bytes_at m p (Suc n))))"
    using d(1) octal_digit_ucast [OF d(1)]
    by (simp add: octal_digit_def bytes_at_Suc octal_value_append algebra_simps)
  finally show ?case .
qed

lemma octal_loop_bound:
  assumes "unat v < 8 ^ k" "k + n \<le> 20"
  shows "unat (octal_loop m p n v) < 8 ^ (k + n)"
  using assms
proof (induction n arbitrary: k p v)
  case (Suc n)
  show ?case
  proof (cases "octal_digit (m p)")
    case True
    let ?w = "v * 8 + ucast (m p - 0x30)"
    have c: "unat (ucast (m p - 0x30) :: u64) < 8" using octal_digit_value [OF True] by (simp add: unsigned_ucast_eq take_bit_eq_mod)
    have k: "(8 :: nat) ^ Suc k \<le> 8 ^ 20" using Suc.prems(2) by (intro power_increasing) simp_all
    have "8 * unat v + 8 \<le> 8 ^ Suc k" using Suc.prems(1) by (simp add: Suc_le_eq [symmetric])
    with c k have "unat ?w = 8 * unat v + unat (ucast (m p - 0x30) :: u64)"
      by (simp add: unat_word_ariths)
    then have "unat ?w < 8 ^ Suc k" using c \<open>8 * unat v + 8 \<le> 8 ^ Suc k\<close> by linarith
    from Suc.IH [OF this, of "p + 1"] Suc.prems(2) True show ?thesis by (simp add: octal_digit_def)
  next
    case False
    have "(8 :: nat) ^ k \<le> 8 ^ (k + Suc n)" by (intro power_increasing) simp_all
    with False Suc.prems(1) show ?thesis by (auto simp: octal_digit_def)
  qed
qed simp

section \<open>Size fields\<close>

text \<open>A size as tar writes it: eleven octal digits and something else.\<close>

definition octal_field :: "mem \<Rightarrow> u64 \<Rightarrow> nat \<Rightarrow> bool" where
  "octal_field m p n \<longleftrightarrow> (\<forall>c \<in> set (bytes_at m p 11). octal_digit c) \<and> \<not> octal_digit (m (p + 11)) \<and>
     octal_value (bytes_at m p 11) = n"

lemma octal_field_bound: "octal_field m p n \<Longrightarrow> n < 8589934592"
  using octal_value_bound [of "bytes_at m p 11"] by (auto simp: octal_field_def bytes_at_def)

lemma parse_octal_field: "octal_field m p n \<Longrightarrow> parse_octal m p 12 = of_nat n"
proof -
  assume f: "octal_field m p n"
  then have d: "\<forall>c \<in> set (bytes_at m p 11). octal_digit c" by (simp add: octal_field_def)
  have "parse_octal m p 12 = octal_loop m p (11 + Suc 0) 0" by (simp add: parse_octal_def)
  also have "\<dots> = octal_loop m (p + of_nat 11) (Suc 0) (of_nat (8 ^ 11) * 0 + of_nat (octal_value (bytes_at m p 11)))"
    by (rule octal_loop_step [OF d])
  also have "\<dots> = of_nat n" using f by (auto simp: octal_field_def octal_digit_def)
  finally show ?thesis .
qed

lemma getsize_field: "octal_field m p n \<Longrightarrow> getsize m p = of_nat n"
  using getsize_loop_value [of m p 11 1 0] by (simp add: octal_field_def getsize_def)

section \<open>Counting\<close>

text \<open>The address after a file of \<open>sz\<close> bytes.\<close>

definition next_header :: "nat \<Rightarrow> nat \<Rightarrow> nat" where
  "next_header p sz = p + 512 + (sz + 511) div 512 * 512"

lemma step_addr:
  assumes "p < 9223372036854775808" "unat sz < 68719476736"
  shows "unat (of_nat p + (TAR_BLOCK_SIZE + (sz + TAR_BLOCK_SIZE - 1) div TAR_BLOCK_SIZE * TAR_BLOCK_SIZE)) = next_header p (unat sz)"
    "next_header p (unat sz) < 9223372105574252544 + 1024"
proof -
  have "sz + TAR_BLOCK_SIZE - 1 = of_nat (unat sz + 511)" by (simp add: TAR_BLOCK_SIZE_def)
  then have u: "unat (sz + TAR_BLOCK_SIZE - 1) = unat sz + 511"
    using assms(2) by (simp only:) (rule unat_of_nat_u64, simp)
  have q: "unat ((sz + TAR_BLOCK_SIZE - 1) div TAR_BLOCK_SIZE) = (unat sz + 511) div 512"
    unfolding unat_div u by (simp add: TAR_BLOCK_SIZE_def)
  have le: "(unat sz + 511) div 512 * 512 \<le> unat sz + 511" by simp
  then show b: "next_header p (unat sz) < 9223372105574252544 + 1024"
    using assms by (simp add: next_header_def)
  have "of_nat p + (TAR_BLOCK_SIZE + (sz + TAR_BLOCK_SIZE - 1) div TAR_BLOCK_SIZE * TAR_BLOCK_SIZE) =
      of_nat (next_header p (unat sz))"
    unfolding next_header_def using arg_cong [OF q, of "of_nat :: nat \<Rightarrow> u64"] by (simp add: TAR_BLOCK_SIZE_def)
  then show "unat (of_nat p + (TAR_BLOCK_SIZE + (sz + TAR_BLOCK_SIZE - 1) div TAR_BLOCK_SIZE * TAR_BLOCK_SIZE)) = next_header p (unat sz)"
    using b by (simp only:) (rule unat_of_nat_u64, simp)
qed

lemma parse_octal_bound: "unat (parse_octal m p 12) < 68719476736"
  using octal_loop_bound [of 0 0 12 m p] by (simp add: parse_octal_def)

lemma block_test:
  assumes "unat e < 9223372036854775808" "unat p < 9223372105574253568"
  shows "p + TAR_BLOCK_SIZE \<le> e \<longleftrightarrow> unat p + 512 \<le> unat e"
proof -
  have "unat (p + 512) = unat p + 512"
    by (rule unat_add_u64 [of p 512, simplified]) (use assms in simp)
  then show ?thesis by (simp add: TAR_BLOCK_SIZE_def word_le_nat_alt)
qed

lemma count_loop_step:
  assumes "unat e < 9223372036854775808" "unat p + 512 \<le> unat e" "m p \<noteq> 0"
  obtains q where "count_loop m e p n = count_loop m e q
      (if m (p + 156) = 0x30 \<or> m (p + 156) = 0 then n + 1 else n)"
    "unat q = next_header (unat p) (unat (parse_octal m (p + 124) 12))" "unat q < 9223372105574253568"
proof -
  let ?sz = "parse_octal m (p + 124) 12"
  let ?q = "p + (TAR_BLOCK_SIZE + (?sz + TAR_BLOCK_SIZE - 1) div TAR_BLOCK_SIZE * TAR_BLOCK_SIZE)"
  have p: "unat p < 9223372036854775808" using assms by simp
  have "p + TAR_BLOCK_SIZE \<le> e" using block_test [OF assms(1), of p] p assms(2) by simp
  then have "count_loop m e p n = count_loop m e ?q (if m (p + 156) = 0x30 \<or> m (p + 156) = 0 then n + 1 else n)"
    using assms(3) by (subst count_loop.simps) (simp add: hdr_filename_def hdr_size_def hdr_typeflag_def Let_def)
  moreover have "unat ?q = next_header (unat p) (unat ?sz)" "next_header (unat p) (unat ?sz) < 9223372105574253568"
    using step_addr [OF p parse_octal_bound, of m "p + 124"] by simp_all
  ultimately show thesis by (intro that [of ?q]) simp_all
qed

lemma count_loop_stop:
  assumes "unat e < 9223372036854775808" "unat p < 9223372105574253568" "\<not> unat p + 512 \<le> unat e \<or> m p = 0"
  shows "count_loop m e p n = Some n"
  using block_test [OF assms(1,2)] assms(3) by (subst count_loop.simps) (auto simp: hdr_filename_def)

lemma blocks_left: "512 * k \<le> e - q \<Longrightarrow> p + 512 \<le> q \<Longrightarrow> p + 512 \<le> (e :: nat) \<Longrightarrow> 512 * Suc k \<le> e - p"
  by (simp add: le_diff_conv2)

lemma count_loop_total:
  assumes "unat e < 9223372036854775808" "unat p < 9223372105574253568"
  shows "\<exists>n. count_loop m e p c = Some (c + of_nat n) \<and> 512 * n \<le> unat e - unat p"
  using assms
proof (induction "unat e - unat p" arbitrary: p c rule: less_induct)
  case less
  show ?case
  proof (cases "unat p + 512 \<le> unat e \<and> m p \<noteq> 0")
    case True
    then obtain q where q: "count_loop m e p c = count_loop m e q (if m (p + 156) = 0x30 \<or> m (p + 156) = 0 then c + 1 else c)"
      "unat q = next_header (unat p) (unat (parse_octal m (p + 124) 12))" "unat q < 9223372105574253568"
      using count_loop_step [OF less.prems(1), of p m c] by blast
    let ?c = "if m (p + 156) = 0x30 \<or> m (p + 156) = 0 then c + 1 else c"
    have n: "unat p + 512 \<le> unat q" by (simp add: q(2) next_header_def)
    then have "unat e - unat q < unat e - unat p" using True by linarith
    from less.hyps [OF this less.prems(1) q(3), of ?c] obtain k where
      k: "count_loop m e q ?c = Some (?c + of_nat k)" "512 * k \<le> unat e - unat q" by blast
    show ?thesis
    proof (cases "m (p + 156) = 0x30 \<or> m (p + 156) = 0")
      case counted: True
      have "count_loop m e p c = Some (c + of_nat (Suc k))" using q(1) k(1) counted by (simp add: add.assoc)
      moreover have "512 * Suc k \<le> unat e - unat p" by (rule blocks_left [OF k(2) n]) (use True in simp)
      ultimately show ?thesis by blast
    next
      case False
      have "count_loop m e p c = Some (c + of_nat k)" using q(1) k(1) False by auto
      moreover have "512 * k \<le> unat e - unat p" using k(2) n by simp
      ultimately show ?thesis by blast
    qed
  next
    case False
    then have "count_loop m e p c = Some c" using count_loop_stop [OF less.prems] by blast
    then show ?thesis by (intro exI [of _ 0]) simp
  qed
qed

section \<open>Archives\<close>

text \<open>An archive in memory: for each entry its size and kind, then a zero block or the end.\<close>

fun archive :: "mem \<Rightarrow> nat \<Rightarrow> nat \<Rightarrow> (nat \<times> u8) list \<Rightarrow> bool" where
  "archive m e p [] \<longleftrightarrow> e < p + 512 \<or> m (of_nat p) = 0"
| "archive m e p ((sz, kind) # fs) \<longleftrightarrow> p + 512 \<le> e \<and> m (of_nat p) \<noteq> 0 \<and> octal_field m (of_nat p + 124) sz \<and>
     m (of_nat p + 156) = kind \<and> archive m e (next_header p sz) fs"

definition regular_files :: "(nat \<times> u8) list \<Rightarrow> nat" where
  "regular_files fs = length (filter (\<lambda>(sz, kind). kind = 0x30 \<or> kind = 0) fs)"

lemma count_loop_archive:
  assumes "unat e < 9223372036854775808" "unat p < 9223372105574253568" "archive m (unat e) (unat p) fs"
  shows "count_loop m e p c = Some (c + of_nat (regular_files fs))"
  using assms(2,3)
proof (induction fs arbitrary: p c)
  case Nil
  then have "\<not> unat p + 512 \<le> unat e \<or> m p = 0" by auto
  with count_loop_stop [OF assms(1) Nil.prems(1)] show ?case by (simp add: regular_files_def)
next
  case (Cons f fs)
  obtain sz kind where f: "f = (sz, kind)" by (cases f)
  have a: "unat p + 512 \<le> unat e" "m p \<noteq> 0" "octal_field m (p + 124) sz" "m (p + 156) = kind"
    "archive m (unat e) (next_header (unat p) sz) fs" using Cons.prems(2) f by simp_all
  have s: "unat (parse_octal m (p + 124) 12) = sz"
    unfolding parse_octal_field [OF a(3)] by (rule unat_of_nat_u64) (use octal_field_bound [OF a(3)] in simp)
  obtain q where q: "count_loop m e p c = count_loop m e q (if kind = 0x30 \<or> kind = 0 then c + 1 else c)"
    "unat q = next_header (unat p) sz" "unat q < 9223372105574253568"
    using count_loop_step [where m = m and p = p and n = c, OF assms(1) a(1) a(2)] unfolding s a(4) by blast
  have "count_loop m e q d = Some (d + of_nat (regular_files fs))" for d
    by (rule Cons.IH) (use q a(5) in simp_all)
  then show ?case using q(1) by (simp add: f regular_files_def add.assoc)
qed

section \<open>Properties\<close>

text \<open>C30. \<open>tar_count_files\<close> returns for every content of the module: each block header moves it at least one block
  on, and it counts at most one file for each block.\<close>

theorem tar_count_terminates:
  assumes "unat archive_start + unat len < 9223372036854775808"
  shows "\<exists>n. tar_count_files m archive_start len = Some (of_nat n) \<and> 512 * n \<le> unat len"
proof -
  have e: "unat (archive_start + len) = unat archive_start + unat len"
    by (rule unat_add_u64) (use assms in simp)
  show ?thesis
    using count_loop_total [of "archive_start + len" archive_start m 0] assms
    by (simp add: e tar_count_files_def)
qed

theorem tar_count_terminates_witness:
  "\<exists>n. tar_count_files (\<lambda>_. 0x37) 0x100000 5120 = Some (of_nat n) \<and> 512 * n \<le> 5120"
  using tar_count_terminates [of "0x100000" 5120 "\<lambda>_. 0x37"] by simp

text \<open>C31. On a well-formed archive \<open>tar_count_files\<close> counts exactly the regular files, whatever their sizes.\<close>

theorem tar_count_correct:
  assumes "unat archive_start + unat len < 9223372036854775808"
    and "archive m (unat archive_start + unat len) (unat archive_start) fs"
  shows "tar_count_files m archive_start len = Some (of_nat (regular_files fs))"
proof -
  have e: "unat (archive_start + len) = unat archive_start + unat len"
    by (rule unat_add_u64) (use assms in simp)
  show ?thesis
    using count_loop_archive [of "archive_start + len" archive_start m fs 0] assms by (simp add: e tar_count_files_def)
qed

text \<open>The two readers of a size field agree on the fields that tar writes, up to the 32 bits that \<open>getsize\<close> returns.\<close>

theorem getsize_parse_octal:
  assumes "octal_field m p n"
  shows "getsize m p = ucast (parse_octal m p 12) \<and> unat (parse_octal m p 12) = n"
proof -
  have "unat (parse_octal m p 12) = n"
    unfolding parse_octal_field [OF assms] by (rule unat_of_nat_u64) (use octal_field_bound [OF assms] in simp)
  moreover have "unat (ucast (parse_octal m p 12) :: u32) = n mod 4294967296"
    unfolding low_word calculation by simp
  then have "getsize m p = ucast (parse_octal m p 12)"
    unfolding getsize_field [OF assms] by (simp add: word_eq_by_unat unat_of_nat take_bit_eq_mod)
  ultimately show ?thesis by simp
qed

text \<open>An archive at address 0: a file of three bytes, a directory, and an empty file, all with names of one letter.\<close>

definition demo_tar :: mem where
  "demo_tar a =
     (if a \<in> {0, 1024, 1536} then 0x61
      else if a = 134 then 0x33
      else if 124 \<le> a mod 512 \<and> a mod 512 < 135 then 0x30
      else if a \<in> {156, 1692} then 0x30
      else if a = 1180 then 0x35
      else 0)"

lemma demo_archive: "archive demo_tar 2560 0 [(3, 0x30), (0, 0x35), (0, 0x30)]"
  by code_simp

theorem tar_count_correct_witness: "tar_count_files demo_tar 0 2560 = Some 2"
  using tar_count_correct [of 0 2560 demo_tar "[(3, 0x30), (0, 0x35), (0, 0x30)]"] demo_archive
  by (simp add: regular_files_def)

theorem getsize_parse_octal_witness:
  "getsize demo_tar 124 = ucast (parse_octal demo_tar 124 12) \<and> unat (parse_octal demo_tar 124 12) = 3"
proof (rule getsize_parse_octal)
  show "octal_field demo_tar 124 3" using demo_archive by simp
qed

lemma round_up_512: "(sz + 511) div 512 = sz div 512 + (if sz mod 512 = 0 then 0 else 1 :: nat)"
proof -
  have "(sz + 511) div 512 = sz div 512 + (sz mod 512 + 511) div 512"
    by (simp add: div_add1_eq [of sz 511 512])
  moreover have "(sz mod 512 + 511) div 512 = (if sz mod 512 = 0 then 0 else 1)"
    by (auto intro!: div_nat_eqI)
  ultimately show ?thesis by simp
qed

text \<open>\<open>parse\<close> looks for the end of the archive at character \<open>i\<close> of the name of file \<open>i\<close>: when the second file's
  name has one character, it stops after the first file.\<close>

theorem parse_stops_at_short_name:
  assumes "kmem k p \<noteq> 0" "octal_field (kmem k) (p + 124) sz" "sz < 4294966272" "unat p < 9223372036854775808"
    and q: "unat q = next_header (unat p) sz" "kmem k (q + 1) = 0" "8 \<le> unat (q + 1 - headers)"
  shows "\<exists>k'. parse k headers p = Some (1, k')"
proof -
  let ?s = "of_nat sz :: u32"
  have s: "unat ?s = sz" by (rule unat_of_nat_u32) (use assms(3) in simp)
  have d: "sz div 512 * 512 + sz mod 512 = sz" by simp
  have u: "unat ((?s div 512 + 1) * 512) = (sz div 512 + 1) * 512"
  proof -
    have "?s div 512 = of_nat (sz div 512)" by (simp add: word_eq_by_unat unat_div s unat_of_nat take_bit_eq_mod) (use assms(3) in simp)
    then have "(?s div 512 + 1) * 512 = of_nat ((sz div 512 + 1) * 512)" by simp
    moreover have "(sz div 512 + 1) * 512 \<le> sz + 512" by simp
    then have "(sz div 512 + 1) * 512 < 4294967296" by (rule le_less_trans) (use assms(3) in simp)
    ultimately show ?thesis by (simp only: unat_of_nat_u32)
  qed
  have m: "?s mod 512 \<noteq> 0 \<longleftrightarrow> sz mod 512 \<noteq> 0"
    by (simp only: word_eq_by_unat unat_mod s) simp
  let ?a = "p + ucast ((?s div 512 + 1) * 512)"
  have w: "(ucast ((?s div 512 + 1) * 512) :: u64) = of_nat ((sz div 512 + 1) * 512)"
    by (metis of_nat_unat u)
  have "q = of_nat (unat q)" by simp
  also have "\<dots> = (if ?s mod 512 \<noteq> 0 then ?a + 512 else ?a)"
  proof (cases "sz mod 512 = 0")
    case True
    then have "(sz + 511) div 512 * 512 = sz div 512 * 512" by (simp add: round_up_512)
    with True show ?thesis unfolding w m q(1) next_header_def by simp
  next
    case False
    then have "(sz + 511) div 512 * 512 = sz div 512 * 512 + 512" by (simp add: round_up_512)
    with False show ?thesis unfolding w m q(1) next_header_def by simp
  qed
  finally have step: "q = (if ?s mod 512 \<noteq> 0 then ?a + 512 else ?a)" .
  have keep: "kmem (store_entry k headers p) (q + 1) = kmem k (q + 1)"
    by (rule store_entry_byte [OF q(3)])
  have "parse_loop k headers p 0 = parse_loop (store_entry k headers p) headers q 1"
    unfolding step
    by (subst parse_loop.simps) (use assms(1) in \<open>simp add: hdr_filename_def hdr_size_def getsize_field [OF assms(2)] Let_def\<close>)
  also have "\<dots> = Some (1, store_entry k headers p)"
    by (subst parse_loop.simps) (use q(2) keep in \<open>simp add: hdr_filename_def\<close>)
  finally show ?thesis by (simp add: parse_def)
qed

theorem parse_stops_at_short_name_witness:
  "\<exists>k'. parse (blank\<lparr>kmem := demo_tar\<rparr>) 0x8000 0 = Some (1, k') \<and> tar_count_files demo_tar 0 2560 = Some 2"
proof -
  have "\<exists>k'. parse (blank\<lparr>kmem := demo_tar\<rparr>) 0x8000 0 = Some (1, k')"
    by (rule parse_stops_at_short_name [of _ _ 3 1024])
       (use demo_archive in \<open>simp_all add: next_header_def demo_tar_def [of 1025] demo_tar_def [of 0] word_le_nat_alt\<close>)
  then show ?thesis using tar_count_correct_witness by blast
qed

end
