(* ===== verification/MADT.thy ===== *)
theory MADT
  imports Tar_Props
begin

text \<open>
  The interrupt controller table of ACPI: the structs of \<^verbatim>\<open>src/include/kernel/Memory/DMA/MADT.h\<close> and
  \<^verbatim>\<open>ACPI_helpers.h\<close> and \<^verbatim>\<open>src/kernel/Memory/DMA/ACPI/MADT.c\<close>.  The table is bytes in memory; the
  result is a typed value whose arrays have the capacity that was allocated.
\<close>

section \<open>Fields of the tables\<close>

text \<open>\<^verbatim>\<open>struct ACPISDTHeader\<close>: 36 bytes.\<close>

definition SIZEOF_SDT_HEADER :: u64 where "SIZEOF_SDT_HEADER = 36"
definition sdt_length :: "mem \<Rightarrow> u64 \<Rightarrow> u32" where "sdt_length m h = load32 m (h + 4)"

record cpu_info =
  cpu_acpi_id :: u8
  cpu_apic_id :: u8
  cpu_flags :: u32

record ioapic_conf =
  io_id :: u8
  io_addr :: u32
  io_gsi_base :: u32

record iso_info =
  iso_bus :: u8
  iso_source_irq :: u8
  iso_gsi :: u32
  iso_flags :: u16

record nmi_info =
  nmi_gsi :: u32
  nmi_flags :: u16

record lapic_nmi_info =
  lnmi_acpi_id :: u8
  lnmi_lint :: u8
  lnmi_flags :: u16

text \<open>An element of an array that has not been written yet is \<open>None\<close>.\<close>

record madt_info =
  lapic_addr :: u64
  madt_flags :: u32
  cpu_count :: u32
  ioapic_count :: u32
  iso_count :: u32
  nmi_count :: u32
  lapic_nmi_count :: u32
  cpus :: "cpu_info option list"
  ioapics :: "ioapic_conf option list"
  isos :: "iso_info option list"
  nmis :: "nmi_info option list"
  lapic_nmis :: "lapic_nmi_info option list"

text \<open>The packed tags, as the assignments of the second pass read them.\<close>

definition cpu_of :: "mem \<Rightarrow> u64 \<Rightarrow> cpu_info" where
  "cpu_of m p = \<lparr>cpu_acpi_id = m (p + 3), cpu_apic_id = m (p + 3), cpu_flags = load32 m (p + 4)\<rparr>"

definition ioapic_of :: "mem \<Rightarrow> u64 \<Rightarrow> ioapic_conf" where
  "ioapic_of m p = \<lparr>io_id = m (p + 2), io_addr = load32 m (p + 4), io_gsi_base = load32 m (p + 8)\<rparr>"

definition iso_of :: "mem \<Rightarrow> u64 \<Rightarrow> iso_info" where
  "iso_of m p = \<lparr>iso_bus = m (p + 2), iso_source_irq = m (p + 3), iso_gsi = load32 m (p + 4), iso_flags = load16 m (p + 8)\<rparr>"

definition nmi_of :: "mem \<Rightarrow> u64 \<Rightarrow> nmi_info" where
  "nmi_of m p = \<lparr>nmi_gsi = load32 m (p + 6), nmi_flags = load16 m (p + 4)\<rparr>"

definition lapic_nmi_of :: "mem \<Rightarrow> u64 \<Rightarrow> lapic_nmi_info" where
  "lapic_nmi_of m p = \<lparr>lnmi_acpi_id = m (p + 2), lnmi_lint = m (p + 5), lnmi_flags = load16 m (p + 3)\<rparr>"

section \<open>The two passes\<close>

text \<open>The loop of both passes: the addresses of the tags, up to the end or a malformed one.\<close>

partial_function (option) madt_tags :: "mem \<Rightarrow> u64 \<Rightarrow> u64 \<Rightarrow> u64 list option" where
  "madt_tags m stop p =
     (if p + 2 \<le> stop then
        (let len = ucast (m (p + 1))
         in if len < 2 \<or> p + len > stop then Some []
            else Option.bind (madt_tags m stop (p + len)) (\<lambda>ps. Some (p # ps)))
      else Some [])"

definition count_type :: "mem \<Rightarrow> u8 \<Rightarrow> u64 list \<Rightarrow> u32" where
  "count_type m t ps = of_nat (length (filter (\<lambda>p. m p = t) ps))"

definition put_at :: "'a option list \<Rightarrow> u32 \<Rightarrow> 'a \<Rightarrow> 'a option list option" where
  "put_at xs i x = (if unat i < length xs then Some (xs[unat i := Some x]) else None)"

definition fill_tag :: "mem \<Rightarrow> u64 \<Rightarrow> madt_info \<Rightarrow> madt_info option" where
  "fill_tag m p info =
     (if m p = 0 then do {
        xs \<leftarrow> put_at (cpus info) (cpu_count info) (cpu_of m p);
        Some (info\<lparr>cpus := xs, cpu_count := cpu_count info + 1\<rparr>) }
      else if m p = 1 then do {
        xs \<leftarrow> put_at (ioapics info) (ioapic_count info) (ioapic_of m p);
        Some (info\<lparr>ioapics := xs, ioapic_count := ioapic_count info + 1\<rparr>) }
      else if m p = 2 then do {
        xs \<leftarrow> put_at (isos info) (iso_count info) (iso_of m p);
        Some (info\<lparr>isos := xs, iso_count := iso_count info + 1\<rparr>) }
      else if m p = 3 then do {
        xs \<leftarrow> put_at (nmis info) (nmi_count info) (nmi_of m p);
        Some (info\<lparr>nmis := xs, nmi_count := nmi_count info + 1\<rparr>) }
      else if m p = 4 then do {
        xs \<leftarrow> put_at (lapic_nmis info) (lapic_nmi_count info) (lapic_nmi_of m p);
        Some (info\<lparr>lapic_nmis := xs, lapic_nmi_count := lapic_nmi_count info + 1\<rparr>) }
      else if m p = 5 then Some (info\<lparr>lapic_addr := load64 m (p + 4)\<rparr>)
      else Some info)"

fun fill_tags :: "mem \<Rightarrow> u64 list \<Rightarrow> madt_info \<Rightarrow> madt_info option" where
  "fill_tags m [] info = Some info"
| "fill_tags m (p # ps) info = do { info \<leftarrow> fill_tag m p info; fill_tags m ps info }"

section \<open>The handler\<close>

definition SIZEOF_MADT_INFO :: u64 where "SIZEOF_MADT_INFO = 72"

definition madt_size :: "mem \<Rightarrow> u64 list \<Rightarrow> u64" where
  "madt_size m ps = SIZEOF_MADT_INFO + ucast (count_type m 0 ps) * 8 + ucast (count_type m 1 ps) * 12 +
     ucast (count_type m 2 ps) * 12 + ucast (count_type m 3 ps) * 8 + ucast (count_type m 4 ps) * 4"

text \<open>
  The struct after \<^verbatim>\<open>Imemset(info, 0, sizeof(total))\<close>, which clears 8 bytes: the five counters are
  what the memory held.
\<close>

definition madt_start :: "mem \<Rightarrow> mem \<Rightarrow> u64 \<Rightarrow> u64 list \<Rightarrow> u64 \<Rightarrow> u32 \<Rightarrow> madt_info" where
  "madt_start m heap info ps addr flags =
     \<lparr>lapic_addr = addr, madt_flags = flags, cpu_count = load32 heap (info + 12), ioapic_count = load32 heap (info + 16),
      iso_count = load32 heap (info + 20), nmi_count = load32 heap (info + 24), lapic_nmi_count = load32 heap (info + 28),
      cpus = replicate (unat (count_type m 0 ps)) None, ioapics = replicate (unat (count_type m 1 ps)) None,
      isos = replicate (unat (count_type m 2 ps)) None, nmis = replicate (unat (count_type m 3 ps)) None,
      lapic_nmis = replicate (unat (count_type m 4 ps)) None\<rparr>"

fun map_ioapics :: "kstate \<Rightarrow> u64 \<Rightarrow> ioapic_conf option list \<Rightarrow> kstate option" where
  "map_ioapics k root [] = Some k"
| "map_ioapics k root (None # xs) = None"
| "map_ioapics k root (Some io # xs) = do {
     (_, k) \<leftarrow> map_mmio k root (ucast (io_addr io)) DEFAULT_PAGE_SIZE (WRITEABLE OR CACHE_DISABLED);
     map_ioapics k root xs
   }"

definition handle_MADT :: "kstate \<Rightarrow> u64 \<Rightarrow> madt_info option \<Rightarrow> u64 \<Rightarrow> (u64 \<times> madt_info option \<times> kstate) option" where
  "handle_MADT k root apic_info base = do {
     let m = kmem k;
     let stop = base + ucast (sdt_length m base);
     let lapic = ucast (load32 m (base + 0x24));
     let flags = load32 m (base + 0x28);
     ps \<leftarrow> madt_tags m stop (base + 0x2C);
     (p, k) \<leftarrow> Imalloc k root (madt_size m ps);
     if p = 0 then Some (FRAME_ALLOC_FAILED, apic_info, k)
     else if \<not> is_object p then None
     else do {
       let k = k\<lparr>kmem := Imemset (kmem k) p 0 8\<rparr>;
       qs \<leftarrow> madt_tags (kmem k) stop (base + 0x2C);
       info \<leftarrow> fill_tags (kmem k) qs (madt_start m (kmem k) p ps lapic flags);
       (_, k) \<leftarrow> map_mmio k root (lapic_addr info) DEFAULT_PAGE_SIZE (WRITEABLE OR CACHE_DISABLED);
       k \<leftarrow> map_ioapics k root (take (unat (ioapic_count info)) (ioapics info));
       Some (0, Some info, k)
     }
   }"

end
