(* ===== verification/MADT_Props.thy ===== *)
theory MADT_Props
  imports MADT
begin

text \<open>The two passes over the interrupt controller table fit each other.\<close>

section \<open>The tags\<close>

lemma madt_tags_total:
  assumes "unat stop < 18446744073709551359" "unat p < 18446744073709551359"
  shows "\<exists>ps. madt_tags m stop p = Some ps \<and> 2 * length ps \<le> unat stop - unat p"
  using assms(2)
proof (induction "unat stop - unat p" arbitrary: p rule: less_induct)
  case less
  let ?len = "ucast (m (p + 1)) :: u64"
  show ?case
  proof (cases "p + 2 \<le> stop \<and> \<not> (?len < 2 \<or> p + ?len > stop)")
    case False
    then have "madt_tags m stop p = Some []" by (subst madt_tags.simps) (auto simp: Let_def)
    then show ?thesis by simp
  next
    case True
    have l: "unat ?len < 256" using u8_bound [of "m (p + 1)"] by (simp add: unsigned_ucast_eq take_bit_eq_mod)
    have two: "2 \<le> unat ?len" using True by (simp add: word_le_nat_alt not_less)
    have q: "unat (p + ?len) = unat p + unat ?len" by (rule unat_add_u64) (use l less.prems in linarith)
    then have le: "unat p + unat ?len \<le> unat stop" using True by (simp add: word_le_nat_alt not_less)
    then have "unat stop - unat (p + ?len) < unat stop - unat p" using two q by linarith
    moreover have "unat (p + ?len) < 18446744073709551359" using q le assms(1) by linarith
    ultimately obtain ps where ps: "madt_tags m stop (p + ?len) = Some ps"
      "2 * length ps \<le> unat stop - unat (p + ?len)" using less.hyps [of "p + ?len"] by blast
    have "madt_tags m stop p = Some (p # ps)"
      using True ps(1) by (subst madt_tags.simps) (auto simp: Let_def)
    moreover have "2 * length (p # ps) \<le> unat stop - unat p" using ps(2) q le two by simp
    ultimately show ?thesis by blast
  qed
qed

section \<open>Filling the arrays\<close>

text \<open>The first elements of an array are written, as many as its counter says.\<close>

definition partly :: "'a option list \<Rightarrow> u32 \<Rightarrow> 'a list \<Rightarrow> nat \<Rightarrow> bool" where
  "partly xs n ds r \<longleftrightarrow> xs = map Some ds @ replicate r None \<and> unat n = length ds \<and> length ds + r < 4294967296"

lemma partly_put:
  assumes "partly xs n ds (Suc r)"
  obtains ys where "put_at xs n x = Some ys" "partly ys (n + 1) (ds @ [x]) r"
proof -
  have n: "unat n = length ds" "length ds + Suc r < 4294967296" using assms by (simp_all add: partly_def)
  have "unat (n + 1) = Suc (length ds)" using n by (simp add: unat_word_ariths)
  moreover have "put_at xs n x = Some (map Some ds @ Some x # replicate r None)"
    using assms by (simp add: put_at_def partly_def list_update_append)
  ultimately show thesis using n by (intro that) (simp_all add: partly_def)
qed

lemma partly_done: "partly xs n ds 0 \<Longrightarrow> xs = map Some ds \<and> unat n = length ds"
  by (simp add: partly_def)

definition of_type :: "mem \<Rightarrow> u8 \<Rightarrow> u64 list \<Rightarrow> u64 list" where
  "of_type m t ps = filter (\<lambda>p. m p = t) ps"

text \<open>All five arrays, with what the remaining tags will add.\<close>

definition filling :: "mem \<Rightarrow> u64 list \<Rightarrow> madt_info \<Rightarrow> u64 list \<Rightarrow> bool" where
  "filling m before info ps \<longleftrightarrow>
     partly (cpus info) (cpu_count info) (map (cpu_of m) (of_type m 0 before)) (length (of_type m 0 ps)) \<and>
     partly (ioapics info) (ioapic_count info) (map (ioapic_of m) (of_type m 1 before)) (length (of_type m 1 ps)) \<and>
     partly (isos info) (iso_count info) (map (iso_of m) (of_type m 2 before)) (length (of_type m 2 ps)) \<and>
     partly (nmis info) (nmi_count info) (map (nmi_of m) (of_type m 3 before)) (length (of_type m 3 ps)) \<and>
     partly (lapic_nmis info) (lapic_nmi_count info) (map (lapic_nmi_of m) (of_type m 4 before)) (length (of_type m 4 ps))"

lemma of_type_append [simp]: "of_type m t (xs @ ys) = of_type m t xs @ of_type m t ys"
  and of_type_Cons [simp]: "of_type m t (p # ps) = (if m p = t then p # of_type m t ps else of_type m t ps)"
  and of_type_Nil [simp]: "of_type m t [] = []"
  by (simp_all add: of_type_def)

lemma fill_tag_step:
  assumes "filling m before info (p # ps)"
  obtains info' where "fill_tag m p info = Some info'" "filling m (before @ [p]) info' ps"
    "lapic_addr info' = (if m p = 5 then load64 m (p + 4) else lapic_addr info)" "madt_flags info' = madt_flags info"
proof -
  consider "m p = 0" | "m p = 1" | "m p = 2" | "m p = 3" | "m p = 4" | "m p \<notin> {0, 1, 2, 3, 4}" by blast
  then show thesis
  proof cases
    case 1
    then have "partly (cpus info) (cpu_count info) (map (cpu_of m) (of_type m 0 before)) (Suc (length (of_type m 0 ps)))"
      using assms by (simp add: filling_def)
    from partly_put [OF this, of "cpu_of m p"] obtain ys where ys: "put_at (cpus info) (cpu_count info) (cpu_of m p) = Some ys"
      "partly ys (cpu_count info + 1) (map (cpu_of m) (of_type m 0 before) @ [cpu_of m p]) (length (of_type m 0 ps))" .
    show ?thesis
      by (rule that [of "info\<lparr>cpus := ys, cpu_count := cpu_count info + 1\<rparr>"])
         (use 1 ys assms in \<open>simp_all add: fill_tag_def filling_def\<close>)
  next
    case 2
    then have "partly (ioapics info) (ioapic_count info) (map (ioapic_of m) (of_type m 1 before)) (Suc (length (of_type m 1 ps)))"
      using assms by (simp add: filling_def)
    from partly_put [OF this, of "ioapic_of m p"] obtain ys where ys: "put_at (ioapics info) (ioapic_count info) (ioapic_of m p) = Some ys"
      "partly ys (ioapic_count info + 1) (map (ioapic_of m) (of_type m 1 before) @ [ioapic_of m p]) (length (of_type m 1 ps))" .
    show ?thesis
      by (rule that [of "info\<lparr>ioapics := ys, ioapic_count := ioapic_count info + 1\<rparr>"])
         (use 2 ys assms in \<open>simp_all add: fill_tag_def filling_def\<close>)
  next
    case 3
    then have "partly (isos info) (iso_count info) (map (iso_of m) (of_type m 2 before)) (Suc (length (of_type m 2 ps)))"
      using assms by (simp add: filling_def)
    from partly_put [OF this, of "iso_of m p"] obtain ys where ys: "put_at (isos info) (iso_count info) (iso_of m p) = Some ys"
      "partly ys (iso_count info + 1) (map (iso_of m) (of_type m 2 before) @ [iso_of m p]) (length (of_type m 2 ps))" .
    show ?thesis
      by (rule that [of "info\<lparr>isos := ys, iso_count := iso_count info + 1\<rparr>"])
         (use 3 ys assms in \<open>simp_all add: fill_tag_def filling_def\<close>)
  next
    case 4
    then have "partly (nmis info) (nmi_count info) (map (nmi_of m) (of_type m 3 before)) (Suc (length (of_type m 3 ps)))"
      using assms by (simp add: filling_def)
    from partly_put [OF this, of "nmi_of m p"] obtain ys where ys: "put_at (nmis info) (nmi_count info) (nmi_of m p) = Some ys"
      "partly ys (nmi_count info + 1) (map (nmi_of m) (of_type m 3 before) @ [nmi_of m p]) (length (of_type m 3 ps))" .
    show ?thesis
      by (rule that [of "info\<lparr>nmis := ys, nmi_count := nmi_count info + 1\<rparr>"])
         (use 4 ys assms in \<open>simp_all add: fill_tag_def filling_def\<close>)
  next
    case 5
    then have "partly (lapic_nmis info) (lapic_nmi_count info) (map (lapic_nmi_of m) (of_type m 4 before)) (Suc (length (of_type m 4 ps)))"
      using assms by (simp add: filling_def)
    from partly_put [OF this, of "lapic_nmi_of m p"] obtain ys where
      ys: "put_at (lapic_nmis info) (lapic_nmi_count info) (lapic_nmi_of m p) = Some ys"
      "partly ys (lapic_nmi_count info + 1) (map (lapic_nmi_of m) (of_type m 4 before) @ [lapic_nmi_of m p]) (length (of_type m 4 ps))" .
    show ?thesis
      by (rule that [of "info\<lparr>lapic_nmis := ys, lapic_nmi_count := lapic_nmi_count info + 1\<rparr>"])
         (use 5 ys assms in \<open>simp_all add: fill_tag_def filling_def\<close>)
  next
    case 6
    show ?thesis
      by (rule that [of "if m p = 5 then info\<lparr>lapic_addr := load64 m (p + 4)\<rparr> else info"])
         (use 6 assms in \<open>auto simp: fill_tag_def filling_def\<close>)
  qed
qed

text \<open>The last tag of type 5 replaces the address of the local APIC.\<close>

definition final_lapic :: "mem \<Rightarrow> u64 \<Rightarrow> u64 list \<Rightarrow> u64" where
  "final_lapic m a ps = foldl (\<lambda>a p. if m p = 5 then load64 m (p + 4) else a) a ps"

lemma fill_tags_run:
  assumes "filling m before info ps"
  shows "\<exists>info'. fill_tags m ps info = Some info' \<and> filling m (before @ ps) info' [] \<and>
    lapic_addr info' = final_lapic m (lapic_addr info) ps \<and> madt_flags info' = madt_flags info"
  using assms
proof (induction ps arbitrary: before info)
  case Nil
  then show ?case by (simp add: final_lapic_def)
next
  case (Cons p ps)
  obtain info1 where i: "fill_tag m p info = Some info1" "filling m (before @ [p]) info1 ps"
    "lapic_addr info1 = (if m p = 5 then load64 m (p + 4) else lapic_addr info)" "madt_flags info1 = madt_flags info"
    by (rule fill_tag_step [OF Cons.prems])
  from Cons.IH [OF i(2)] i show ?case by (auto simp: final_lapic_def)
qed

lemma empty_array:
  assumes "length ps < 4294967296"
  shows "partly (replicate (unat (count_type m t ps)) None) 0 [] (length (of_type m t ps))"
proof -
  have "length (filter (\<lambda>p. m p = t) ps) < 4294967296" using assms length_filter_le [of "\<lambda>p. m p = t" ps] by linarith
  then show ?thesis by (simp add: partly_def count_type_def of_type_def unat_of_nat_u32)
qed

lemma filling_start:
  assumes "length ps < 4294967296"
    and "load32 heap (info + 12) = 0" "load32 heap (info + 16) = 0" "load32 heap (info + 20) = 0"
      "load32 heap (info + 24) = 0" "load32 heap (info + 28) = 0"
  shows "filling m [] (madt_start m heap info ps a f) ps"
proof -
  show ?thesis using assms(2-) by (simp add: filling_def madt_start_def empty_array [OF assms(1)])
qed

section \<open>Properties\<close>

text \<open>C29. When the five counters of the fresh struct happen to be zero, the second pass over the tags fills exactly
  the arrays that the first pass counted: it never writes past the end of an array, and afterwards each array
  holds the entries of its kind, all of them, in the order of the table.\<close>

theorem madt_passes_agree:
  assumes "madt_tags m stop p = Some ps" "length ps < 4294967296"
    and "load32 heap (info + 12) = 0" "load32 heap (info + 16) = 0" "load32 heap (info + 20) = 0"
      "load32 heap (info + 24) = 0" "load32 heap (info + 28) = 0"
  shows "\<exists>r. fill_tags m ps (madt_start m heap info ps a f) = Some r \<and>
    cpus r = map (Some \<circ> cpu_of m) (of_type m 0 ps) \<and> unat (cpu_count r) = length (cpus r) \<and>
    ioapics r = map (Some \<circ> ioapic_of m) (of_type m 1 ps) \<and> unat (ioapic_count r) = length (ioapics r) \<and>
    isos r = map (Some \<circ> iso_of m) (of_type m 2 ps) \<and> unat (iso_count r) = length (isos r) \<and>
    nmis r = map (Some \<circ> nmi_of m) (of_type m 3 ps) \<and> unat (nmi_count r) = length (nmis r) \<and>
    lapic_nmis r = map (Some \<circ> lapic_nmi_of m) (of_type m 4 ps) \<and> unat (lapic_nmi_count r) = length (lapic_nmis r) \<and>
    lapic_addr r = final_lapic m a ps \<and> madt_flags r = f"
proof -
  have s: "lapic_addr (madt_start m heap info ps a f) = a" "madt_flags (madt_start m heap info ps a f) = f"
    by (simp_all add: madt_start_def)
  from fill_tags_run [OF filling_start [OF assms(2-), of m a f]] obtain r where
    r: "fill_tags m ps (madt_start m heap info ps a f) = Some r" "filling m ps r []"
    "lapic_addr r = final_lapic m a ps" "madt_flags r = f"
    unfolding s by auto
  then show ?thesis by (intro exI [of _ r]) (auto simp: filling_def dest!: partly_done)
qed

text \<open>The counters are not cleared, because only \<open>sizeof(total)\<close> bytes are.  If the memory held a processor count
  that is not below the number of processors, the second pass writes outside its array.\<close>

theorem madt_stale_counter_overruns:
  assumes "m p = 0" "unat (count_type m 0 (p # ps)) \<le> unat (load32 heap (info + 12))"
  shows "fill_tags m (p # ps) (madt_start m heap info (p # ps) a f) = None"
  using assms by (simp add: fill_tag_def put_at_def madt_start_def)

text \<open>A table of a processor, an I/O controller and a 64-bit address of the local APIC.\<close>

definition demo_madt :: mem where
  "demo_madt a =
     (let t = [0, 8, 1, 0, 1, 0, 0, 0,  1, 12, 2, 0, 0, 0, 0xC0, 0xFE, 0, 0, 0, 0,  5, 12, 0, 0, 0, 0, 0xE0, 0xFE, 0, 0, 0, 0]
      in if unat a < 32 then t ! unat a else 0)"

lemma demo_madt_tags: "madt_tags demo_madt 32 0 = Some [0, 8, 20]"
  by (simp add: madt_tags.simps demo_madt_def)

theorem madt_passes_agree_witness:
  "\<exists>r. fill_tags demo_madt [0, 8, 20] (madt_start demo_madt (\<lambda>_. 0) 0x5000 [0, 8, 20] 0 1) = Some r \<and>
     length (cpus r) = 1 \<and> lapic_addr r = 0xFEE00000"
proof -
  have z: "load32 (\<lambda>_. 0) (0x5000 + 12) = 0" "load32 (\<lambda>_. 0) (0x5000 + 16) = 0" "load32 (\<lambda>_. 0) (0x5000 + 20) = 0"
    "load32 (\<lambda>_. 0) (0x5000 + 24) = 0" "load32 (\<lambda>_. 0) (0x5000 + 28) = 0"
    by code_simp+
  have l: "length [0, 8, 20 :: u64] < 4294967296" by simp
  have v: "final_lapic demo_madt 0 [0, 8, 20] = 0xFEE00000" "of_type demo_madt 0 [0, 8, 20] = [0]" by code_simp+
  from madt_passes_agree [OF demo_madt_tags l z, of 0 1] v show ?thesis by fastforce
qed

theorem madt_stale_counter_overruns_witness:
  "fill_tags demo_madt [0, 8, 20] (madt_start demo_madt (\<lambda>_. 7) 0x5000 [0, 8, 20] 0 1) = None"
proof (rule madt_stale_counter_overruns)
  show "demo_madt 0 = 0" by (simp add: demo_madt_def)
  have "count_type demo_madt 0 [0, 8, 20] \<le> load32 (\<lambda>_. 7) (0x5000 + 12)" by code_simp
  then show "unat (count_type demo_madt 0 [0, 8, 20]) \<le> unat (load32 (\<lambda>_. 7) (0x5000 + 12))"
    by (simp only: word_le_nat_alt)
qed

end
