(* ===== verification/PCIE.thy ===== *)
theory PCIE
  imports MADT_Props
begin

text \<open>
  The PCI Express scan: \<^verbatim>\<open>src/kernel/Memory/DMA/ACPI/PCIE.c\<close> with the inline functions of
  \<^verbatim>\<open>ACPI_helpers.h\<close>.  The configuration space is memory-mapped device registers.
\<close>

section \<open>Configuration space\<close>

definition MAX_MCFG_ENTRIES :: nat where "MAX_MCFG_ENTRIES = 16"

text \<open>\<^verbatim>\<open>bus - start_bus\<close> is an \<^verbatim>\<open>int\<close> that is then widened.\<close>

definition ecam_addr :: "u64 \<Rightarrow> u8 \<Rightarrow> u8 \<Rightarrow> u8 \<Rightarrow> u8 \<Rightarrow> u16 \<Rightarrow> u64" where
  "ecam_addr base start_bus bus dev func off =
     base + (push_bit 20 (word_of_int (uint bus - uint start_bus)) OR push_bit 15 (ucast dev) OR push_bit 12 (ucast func) OR ucast off)"

text \<open>The offsets of \<^verbatim>\<open>pci_hdr_common_t\<close> and \<^verbatim>\<open>pci_hdr0_t\<close>.\<close>

definition pci_vendor_id :: "u64 \<Rightarrow> u64" where "pci_vendor_id dev = dev"
definition pci_header_type :: "u64 \<Rightarrow> u64" where "pci_header_type dev = dev + 0x0E"
definition pci_bar :: "u64 \<Rightarrow> nat \<Rightarrow> u64" where "pci_bar dev i = dev + 0x10 + 4 * of_nat i"

section \<open>Base address registers\<close>

definition BAR_TYPE_BIT :: nat where "BAR_TYPE_BIT = 1"
definition BAR_TYPE_32BIT :: u32 where "BAR_TYPE_32BIT = 0"
definition BAR_TYPE_LEGACY :: u32 where "BAR_TYPE_LEGACY = 1"
definition BAR_TYPE_64BIT :: u32 where "BAR_TYPE_64BIT = 2"
definition BAR_FLAG_MASK :: u32 where "BAR_FLAG_MASK = 0xFFFFFFF0"

text \<open>What the two functions compute from the values they read.\<close>

definition bar_is_64bit :: "u32 \<Rightarrow> bool" where
  "bar_is_64bit bar_0 \<longleftrightarrow> drop_bit BAR_TYPE_BIT bar_0 = BAR_TYPE_64BIT"

definition decode_phys_BAR :: "u32 \<Rightarrow> u32 \<Rightarrow> u64" where
  "decode_phys_BAR bar_l bar_h =
     (if bit bar_l 0 then FRAME_ALLOC_FAILED
      else let bar_type = drop_bit BAR_TYPE_BIT bar_l AND 0x3
      in if bar_type = BAR_TYPE_LEGACY then FRAME_ALLOC_FAILED
         else if bar_type = BAR_TYPE_32BIT then ucast (bar_l AND BAR_FLAG_MASK)
         else push_bit 32 (ucast bar_h) OR ucast (bar_l AND BAR_FLAG_MASK))"

definition encode_phys_BAR :: "u64 \<Rightarrow> u32 \<times> u32" where
  "encode_phys_BAR bar_val = (ucast (bar_val AND 0xFFFFFFFF), ucast (drop_bit 32 bar_val))"

definition bar_size32 :: "u32 \<Rightarrow> u32" where
  "bar_size32 readback = NOT (readback AND NOT 0xF) + 1"

section \<open>The scan\<close>

text \<open>
  One register: \<open>None\<close> for a 64-bit one, because the jump to \<^verbatim>\<open>allocate\<close> skips the initialisation of
  the \<^verbatim>\<open>addr\<close> and \<^verbatim>\<open>size\<close> that are then used.
\<close>

definition probe_bar :: "'w hardware \<Rightarrow> u64 \<Rightarrow> u64 \<Rightarrow> kstate \<times> 'w \<Rightarrow> (kstate \<times> 'w) option" where
  "probe_bar h root active_bar s =
     (let (k, w) = s;
          (b, w) = reg_read32 h w active_bar
      in if bar_is_64bit b then None
         else
           (let (addr, w) = reg_read32 h w active_bar;
                w = reg_write32 h w active_bar 0xFFFFFFFF;
                (r, w) = reg_read32 h w active_bar;
                w = reg_write32 h w active_bar addr
            in do {
              (_, k) \<leftarrow> map_mmio k root (ucast addr) (ucast (bar_size32 r)) (WRITEABLE OR CACHE_DISABLED);
              Some (k, w)
            }))"

fun bar_loop :: "'w hardware \<Rightarrow> u64 \<Rightarrow> u64 \<Rightarrow> nat list \<Rightarrow> kstate \<times> 'w \<Rightarrow> (kstate \<times> 'w) option" where
  "bar_loop h root dev [] s = Some s"
| "bar_loop h root dev (b # bs) s = do { s \<leftarrow> probe_bar h root (pci_bar dev b) s; bar_loop h root dev bs s }"

text \<open>A configuration page is mapped before it is read.\<close>

definition map_config :: "u64 \<Rightarrow> u64 \<Rightarrow> kstate \<times> 'w \<Rightarrow> (u64 \<times> kstate \<times> 'w) option" where
  "map_config root phys s = do {
     (v, k) \<leftarrow> map_mmio (fst s) root phys DEFAULT_PAGE_SIZE (CACHE_DISABLED OR WRITEABLE);
     if v = FRAME_ALLOC_FAILED then None else Some (v, k, snd s)
   }"

fun fn_loop :: "'w hardware \<Rightarrow> u64 \<Rightarrow> u64 \<Rightarrow> u8 \<Rightarrow> u8 \<Rightarrow> u8 \<Rightarrow> u8 \<Rightarrow> nat list \<Rightarrow> kstate \<times> 'w \<Rightarrow> (kstate \<times> 'w) option" where
  "fn_loop h root base start bus dev_n header [] s = Some s"
| "fn_loop h root base start bus dev_n header (fn # fns) s = do {
     (dev, k, w) \<leftarrow> map_config root (ecam_addr base start bus dev_n (of_nat fn) 0) s;
     let (vendor, w) = reg_read16 h w (pci_vendor_id dev);
     s \<leftarrow> (if vendor = 0xFFFF then Some (k, w)
           else if header AND 0x3 = 0 then bar_loop h root dev [0..<6] (k, w)
           else Some (k, w));
     fn_loop h root base start bus dev_n header fns s
   }"

fun dev_loop :: "'w hardware \<Rightarrow> u64 \<Rightarrow> u64 \<Rightarrow> u8 \<Rightarrow> u8 \<Rightarrow> nat list \<Rightarrow> kstate \<times> 'w \<Rightarrow> (kstate \<times> 'w) option" where
  "dev_loop h root base start bus [] s = Some s"
| "dev_loop h root base start bus (d # ds) s = do {
     (dev, k, w) \<leftarrow> map_config root (ecam_addr base start bus (of_nat d) 0 0) s;
     let (vendor, w) = reg_read16 h w (pci_vendor_id dev);
     s \<leftarrow> (if vendor = 0xFFFF then Some (k, w)
           else
             (let (header, w) = reg_read8 h w (pci_header_type dev);
                  functions = (if bit header 7 then 8 else 1)
              in fn_loop h root base start bus (of_nat d) header [0..<functions] (k, w)));
     dev_loop h root base start bus ds s
   }"

fun bus_loop :: "'w hardware \<Rightarrow> u64 \<Rightarrow> u64 \<Rightarrow> u8 \<Rightarrow> nat list \<Rightarrow> kstate \<times> 'w \<Rightarrow> (kstate \<times> 'w) option" where
  "bus_loop h root base start [] s = Some s"
| "bus_loop h root base start (b # bs) s = do {
     s \<leftarrow> dev_loop h root base start (of_nat b) [0..<3] s;
     bus_loop h root base start bs s
   }"

text \<open>The entries of the table \<^verbatim>\<open>MCFG\<close>, in memory from the given address on.\<close>

definition ecam_entry :: "u64 \<Rightarrow> nat \<Rightarrow> u64" where "ecam_entry mcfg i = mcfg + 44 + 16 * of_nat i"

fun mcfg_loop :: "'w hardware \<Rightarrow> u64 \<Rightarrow> u64 \<Rightarrow> nat list \<Rightarrow> kstate \<times> 'w \<Rightarrow> (kstate \<times> 'w) option" where
  "mcfg_loop h root mcfg [] s = Some s"
| "mcfg_loop h root mcfg (i # is) s =
     (let e = ecam_entry mcfg i; base = load64 (kmem (fst s)) e; start = kmem (fst s) (e + 10)
      in if base = 0 then mcfg_loop h root mcfg is s
         else do { s \<leftarrow> bus_loop h root base start [unat start..<3] s; mcfg_loop h root mcfg is s })"

definition discoverPCIE :: "'w hardware \<Rightarrow> u64 \<Rightarrow> u64 \<Rightarrow> kstate \<times> 'w \<Rightarrow> (int \<times> kstate \<times> 'w) option" where
  "discoverPCIE h root mcfg s =
     (if kmem (fst s) mcfg = 0 then Some (- 1, s)
      else do { s \<leftarrow> mcfg_loop h root mcfg [0..<MAX_MCFG_ENTRIES] s; Some (0, s) })"

section \<open>Addresses and registers\<close>

lemma small_bit:
  assumes "unat (w :: 'a::len word) < 2 ^ k" "k \<le> n"
  shows "\<not> bit w n"
proof -
  have "unat w < 2 ^ n" using assms(1) power_increasing [OF assms(2), of "2 :: nat"] by linarith
  then have "\<not> bit (unat w) n" by (simp add: bit_iff_odd)
  moreover have "bit w n \<Longrightarrow> bit (unat w) n" by (simp add: bit_unsigned_iff)
  ultimately show ?thesis by blast
qed

lemma ecam_bits:
  fixes base :: u64
  assumes "start \<le> bus" "dev < 32" "func < 8" "off < 4096"
  defines "x \<equiv> ecam_addr base start bus dev func off - base"
  shows "take_bit 12 x = ucast off" "take_bit 3 (drop_bit 12 x) = ucast func" "take_bit 5 (drop_bit 15 x) = ucast dev"
    "drop_bit 20 x = ucast (bus - start)"
proof -
  have i: "word_of_int (uint bus - uint start) = (ucast (bus - start) :: u64)"
  proof -
    have "uint (bus - start) = uint bus - uint start" using assms(1) by (simp only: uint_minus_simple_alt)
    then have "word_of_int (uint bus - uint start) = (word_of_int (uint (bus - start)) :: u64)" by (simp only:)
    then show ?thesis by (simp only: of_int_uint)
  qed
  have x: "x = push_bit 20 (ucast (bus - start)) OR push_bit 15 (ucast dev) OR push_bit 12 (ucast func) OR ucast off"
    unfolding x_def ecam_addr_def i by simp
  have b: "\<not> bit dev n" if "5 \<le> n" for n
    by (rule small_bit [OF _ that]) (use assms(2) in \<open>simp add: word_less_nat_alt\<close>)
  have c: "\<not> bit func n" if "3 \<le> n" for n
    by (rule small_bit [OF _ that]) (use assms(3) in \<open>simp add: word_less_nat_alt\<close>)
  have d: "\<not> bit off n" if "12 \<le> n" for n
    by (rule small_bit [OF _ that]) (use assms(4) in \<open>simp add: word_less_nat_alt\<close>)
  have e: "\<not> bit (bus - start) n" if "8 \<le> n" for n
    by (rule small_bit [OF _ that]) (use u8_bound [of "bus - start"] in simp)
  show "take_bit 12 x = ucast off" unfolding x
    by (rule bit_eqI) (use d in \<open>auto simp: field_bits\<close>)
  show "take_bit 3 (drop_bit 12 x) = ucast func" unfolding x
    by (rule bit_eqI) (use c d in \<open>auto simp: field_bits\<close>)
  show "take_bit 5 (drop_bit 15 x) = ucast dev" unfolding x
    by (rule bit_eqI) (use b c d in \<open>auto simp: field_bits\<close>)
  show "drop_bit 20 x = ucast (bus - start)" unfolding x
  proof (rule bit_eqI)
    fix n assume "possible_bit TYPE(64 word) n"
    show "bit (drop_bit 20 (push_bit 20 (ucast (bus - start)) OR push_bit 15 (ucast dev) OR push_bit 12 (ucast func) OR ucast off :: u64)) n =
        bit (ucast (bus - start) :: u64) n"
      using e [of n] by (cases "8 \<le> n") (use b c d in \<open>auto simp: field_bits\<close>)
  qed
qed

text \<open>The configuration addresses of one segment are injective: two different functions, or two different offsets
  in a function's page, never have the same address.\<close>

theorem ecam_addr_injective:
  assumes "start \<le> bus" "dev < 32" "func < 8" "off < 4096"
    and "start \<le> bus'" "dev' < 32" "func' < 8" "off' < 4096"
    and same: "ecam_addr base start bus dev func off = ecam_addr base start bus' dev' func' off'"
  shows "bus = bus' \<and> dev = dev' \<and> func = func' \<and> off = off'"
proof -
  note l = ecam_bits [OF assms(1-4), of base] and r = ecam_bits [OF assms(5-8), of base]
  have u: "(ucast a :: u64) = ucast b \<longleftrightarrow> a = b" for a b :: u8
    using u8_bound [of a] u8_bound [of b] by (simp add: word_eq_by_unat unsigned_ucast_eq take_bit_eq_mod)
  have v: "(ucast a :: u64) = ucast b \<longleftrightarrow> a = b" for a b :: u16
    using u16_bound [of a] u16_bound [of b] by (simp add: word_eq_by_unat unsigned_ucast_eq take_bit_eq_mod)
  show ?thesis using l r unfolding same by (simp add: u v)
qed

theorem ecam_addr_injective_witness:
  "ecam_addr 0xE0000000 0 2 3 1 0x10 \<noteq> ecam_addr 0xE0000000 0 2 3 2 0x10 \<and>
   ecam_addr 0xE0000000 0 2 3 1 0x10 \<noteq> ecam_addr 0xE0000000 0 3 3 1 0x10"
  using ecam_addr_injective [of 0 2 3 1 "0x10" 2 3 2 "0x10" "0xE0000000"] ecam_addr_injective [of 0 2 3 1 "0x10" 3 3 1 "0x10" "0xE0000000"]
  by auto

text \<open>\<open>encode_phys_BAR\<close> is undone by \<open>decode_phys_BAR\<close> on a register whose type bits read as 64-bit.\<close>

theorem bar_roundtrip:
  assumes "take_bit 4 v = 0"
  shows "decode_phys_BAR (fst (encode_phys_BAR v) OR 4) (snd (encode_phys_BAR v)) = v"
proof -
  have z: "\<not> bit v n" if "n < 4" for n using assms that by (metis bit_0_eq bit_take_bit_iff bot_apply bot_bool_def)
  have m: "(0xFFFFFFF0 :: u32) = NOT (mask 4)" by (simp add: mask_eq_exp_minus_1)
  have four: "bit (4 :: u32) n \<longleftrightarrow> n = 2" "bit (4 :: int) n \<longleftrightarrow> n = 2" for n
  proof -
    have "(4 :: u32) = push_bit 2 1" "(4 :: int) = push_bit 2 1" by simp_all
    then show "bit (4 :: u32) n \<longleftrightarrow> n = 2" "bit (4 :: int) n \<longleftrightarrow> n = 2"
      by (simp_all only: bit_push_bit_iff bit_1_iff) auto
  qed
  define l :: u32 where "l = ucast (v AND mask 32) OR 4"
  have "drop_bit 1 l AND mask 2 = 2"
  proof (rule bit_eqI)
    fix n assume "possible_bit TYPE(32 word) n"
    have two: "bit (2 :: u32) n \<longleftrightarrow> n = 1"
    proof -
      have "(2 :: u32) = push_bit 1 1" by simp
      then show ?thesis by (simp only: bit_push_bit_iff bit_1_iff) auto
    qed
    show "bit (drop_bit 1 l AND mask 2) n = bit (2 :: u32) n"
      unfolding two using z [of 1] z [of 2] by (auto simp: l_def field_bits four less_Suc_eq numeral_2_eq_2)
  qed
  then have "drop_bit 1 l AND 3 = 2" by (simp add: mask_eq_exp_minus_1)
  moreover have "\<not> bit l 0" using z [of 0] by (simp add: l_def field_bits four)
  moreover have "l AND NOT (mask 4) = ucast v AND NOT (mask 4)"
    by (rule bit_eqI) (auto simp: l_def bit_and_iff bit_or_iff bit_not_iff bit_mask_iff bit_ucast_iff four)
  then have "(push_bit 32 (ucast (ucast (drop_bit 32 v) :: u32)) OR ucast (l AND NOT (mask 4)) :: u64) = v"
    by (simp only:, intro bit_eqI) (use z in \<open>auto simp: field_bits bit_not_iff not_less\<close>)
  ultimately show ?thesis
    by (simp add: decode_phys_BAR_def encode_phys_BAR_def BAR_TYPE_BIT_def BAR_TYPE_LEGACY_def BAR_TYPE_32BIT_def
        BAR_FLAG_MASK_def m Let_def masks flip: l_def)
qed

theorem bar_roundtrip_witness:
  "decode_phys_BAR (fst (encode_phys_BAR 0x8FE000000) OR 4) (snd (encode_phys_BAR 0x8FE000000)) = 0x8FE000000"
  by (rule bar_roundtrip) simp

text \<open>The test for a 64-bit register is true only while its address is zero.\<close>

theorem bar_is_64bit_only_zero: "bar_is_64bit b \<longleftrightarrow> b = 4 \<or> b = 5"
proof -
  have "bar_is_64bit b \<longleftrightarrow> unat b div 2 = 2"
    by (simp add: bar_is_64bit_def BAR_TYPE_BIT_def BAR_TYPE_64BIT_def word_eq_by_unat unat_drop_bit_eq drop_bit_eq_div unat_div)
  also have "\<dots> \<longleftrightarrow> unat b = 4 \<or> unat b = 5" by auto
  finally show ?thesis by (simp add: word_eq_by_unat)
qed

end
