(* ===== verification/ACPI.thy ===== *)
theory ACPI
  imports PCIE
begin

text \<open>
  The ACPI tables, \<^verbatim>\<open>src/kernel/Memory/DMA/ACPI/ACPI.c\<close> with the structs of
  \<^verbatim>\<open>include/kernel/Memory/DMA/ACPI.h\<close>.  The statics \<^verbatim>\<open>FADT\<close> and \<^verbatim>\<open>MCFG\<close> are memory at the addresses
  \<open>fadt_at\<close> and \<open>mcfg_at\<close>.  Offsets are those of the structs as declared, with the padding that the
  compiler adds to the ones that are not packed.
\<close>

record 'w acpi =
  acpi_ks :: kstate
  acpi_dev :: 'w
  acpi_root :: u64
  fadt_at :: u64
  mcfg_at :: u64
  apic_info :: "madt_info option"

abbreviation acpi_mem :: "'w acpi \<Rightarrow> mem" where "acpi_mem s \<equiv> kmem (acpi_ks s)"

section \<open>Structs\<close>

definition SIZEOF_FADT :: u64 where "SIZEOF_FADT = 288"
definition fadt_full_length :: "u64 \<Rightarrow> u64" where "fadt_full_length f = f + 44"
definition fadt_pm_timer_block :: "u64 \<Rightarrow> u64" where "fadt_pm_timer_block f = f + 76"
definition fadt_flags :: "u64 \<Rightarrow> u64" where "fadt_flags f = f + 116"
definition fadt_x_pm_timer :: "u64 \<Rightarrow> u64" where "fadt_x_pm_timer f = f + 240"
definition gas_address_space :: "u64 \<Rightarrow> u64" where "gas_address_space g = g"
definition gas_address :: "u64 \<Rightarrow> u64" where "gas_address g = g + 8"

text \<open>\<^verbatim>\<open>PointerToOtherSDT\<close>: 8-byte aligned in the XSDT, packed in the RSDT.\<close>

definition xsdt_entry :: "u64 \<Rightarrow> u64 \<Rightarrow> u64" where "xsdt_entry x i = x + 40 + 8 * i"
definition rsdt_entry :: "u64 \<Rightarrow> u64 \<Rightarrow> u64" where "rsdt_entry r i = r + 36 + 4 * i"

text \<open>The packed root pointers of \<^verbatim>\<open>multiboot2.h\<close>.\<close>

definition rsdp_rsdt_address :: "u64 \<Rightarrow> u64" where "rsdp_rsdt_address p = p + 16"
definition xsdp_length :: "u64 \<Rightarrow> u64" where "xsdp_length p = p + 20"
definition xsdp_xsdt_address :: "u64 \<Rightarrow> u64" where "xsdp_xsdt_address p = p + 24"

section \<open>Checksums and signatures\<close>

fun checksum_loop :: "mem \<Rightarrow> u64 \<Rightarrow> nat \<Rightarrow> u8 \<Rightarrow> u8" where
  "checksum_loop m p 0 s = s"
| "checksum_loop m p (Suc n) s = checksum_loop m (p + 1) n (s + m p)"

definition calculate_checksum :: "mem \<Rightarrow> u64 \<Rightarrow> u64 \<Rightarrow> u8" where
  "calculate_checksum m buffer len = checksum_loop m buffer (unat len) 0"

text \<open>\<^verbatim>\<open>Istrncmp(p, lit, n) == 0\<close> for a literal of length \<open>n\<close>.\<close>

definition equals_literal :: "mem \<Rightarrow> u64 \<Rightarrow> string \<Rightarrow> bool" where
  "equals_literal m p s \<longleftrightarrow> bytes_at m p (length s) = map chr8 s"

section \<open>Tables\<close>

definition handle_table :: "'w acpi \<Rightarrow> u64 \<Rightarrow> (int \<times> 'w acpi) option" where
  "handle_table s h =
     (let m = acpi_mem s; len = ucast (sdt_length m h)
      in if equals_literal m h ''FACP'' then
           if calculate_checksum m (fadt_at s) len \<noteq> 0 then Some (- 1, s)
           else
             (let m = Imemcpy m (fadt_at s) h (if len < SIZEOF_FADT then len else SIZEOF_FADT);
                  len = ucast (sdt_length m h);
                  m = m(fadt_full_length (fadt_at s) := (if len < SIZEOF_FADT then 0 else 1))
              in Some (0, s\<lparr>acpi_ks := (acpi_ks s)\<lparr>kmem := m\<rparr>\<rparr>))
         else if equals_literal m h ''MCFG'' then
           if calculate_checksum m (mcfg_at s) len \<noteq> 0 then Some (- 1, s)
           else Some (0, s\<lparr>acpi_ks := (acpi_ks s)\<lparr>kmem := Imemcpy m (mcfg_at s) h len\<rparr>\<rparr>)
         else if equals_literal m h ''APIC'' then
           if calculate_checksum m (mcfg_at s) len \<noteq> 0 then Some (- 1, s)
           else do {
             (_, info, k) \<leftarrow> handle_MADT (acpi_ks s) (acpi_root s) (apic_info s) h;
             Some (0, s\<lparr>acpi_ks := k, apic_info := info\<rparr>)
           }
         else Some (0, s))"

text \<open>The loops over the pointers; \<open>i\<close> is the index, then the number of entries left.\<close>

fun xsdt_loop :: "'w acpi \<Rightarrow> u64 \<Rightarrow> u64 \<Rightarrow> nat \<Rightarrow> (int \<times> 'w acpi) option" where
  "xsdt_loop s x i 0 = Some (0, s)"
| "xsdt_loop s x i (Suc n) = do {
     (r, s) \<leftarrow> handle_table s (MMIO_PHYS_TO_VIRT (load64 (acpi_mem s) (xsdt_entry x i)));
     if r \<noteq> 0 then Some (- 1, s) else xsdt_loop s x (i + 1) n
   }"

fun rsdt_loop :: "'w acpi \<Rightarrow> u64 \<Rightarrow> u64 \<Rightarrow> nat \<Rightarrow> (int \<times> 'w acpi) option" where
  "rsdt_loop s r i 0 = Some (0, s)"
| "rsdt_loop s r i (Suc n) = do {
     (e, s) \<leftarrow> handle_table s (MMIO_PHYS_TO_VIRT (ucast (load32 (acpi_mem s) (rsdt_entry r i))));
     if e \<noteq> 0 then Some (- 1, s) else rsdt_loop s r (i + 1) n
   }"

text \<open>The number of entries is an \<^verbatim>\<open>int\<close>.\<close>

definition entry_count :: "u32 \<Rightarrow> u64 \<Rightarrow> nat" where
  "entry_count len sz = nat (sint (ucast ((ucast len - SIZEOF_SDT_HEADER) div sz) :: u32))"

definition categoriseTablesXSDT :: "'w acpi \<Rightarrow> u64 \<Rightarrow> (int \<times> 'w acpi) option" where
  "categoriseTablesXSDT s x = xsdt_loop s x 0 (entry_count (sdt_length (acpi_mem s) x) 8)"

definition categoriseTablesRSDT :: "'w acpi \<Rightarrow> u64 \<Rightarrow> (int \<times> 'w acpi) option" where
  "categoriseTablesRSDT s r = rsdt_loop s r 0 (entry_count (sdt_length (acpi_mem s) r) 4)"

section \<open>Root pointers\<close>

definition map_root :: "'w acpi \<Rightarrow> u64 \<Rightarrow> (u64 \<times> 'w acpi) option" where
  "map_root s phys = do {
     (v, k) \<leftarrow> map_mmio (acpi_ks s) (acpi_root s) phys DEFAULT_PAGE_SIZE (WRITEABLE OR CACHE_DISABLED);
     Some (v, s\<lparr>acpi_ks := k\<rparr>)
   }"

definition handle_new_acpi :: "'w acpi \<Rightarrow> u64 \<Rightarrow> (int \<times> 'w acpi) option" where
  "handle_new_acpi s xsdp =
     (let m = acpi_mem s
      in if \<not> equals_literal m xsdp ''RSD PTR '' then Some (- 1, s)
         else if calculate_checksum m xsdp 20 \<noteq> 0 then Some (- 1, s)
         else if calculate_checksum m xsdp (ucast (load32 m (xsdp_length xsdp))) \<noteq> 0 then Some (- 1, s)
         else
           (let root_phys = load64 m (xsdp_xsdt_address xsdp)
            in do {
              (v, s) \<leftarrow> map_root s root_phys;
              if v = FRAME_ALLOC_FAILED then Some (- 1, s)
              else do {
                (r, s) \<leftarrow> categoriseTablesXSDT s (MMIO_PHYS_TO_VIRT root_phys);
                Some (if r \<noteq> 0 then - 1 else 0, s)
              }
            }))"

definition handle_old_acpi :: "'w hardware \<Rightarrow> 'w acpi \<Rightarrow> u64 \<Rightarrow> (int \<times> 'w acpi) option" where
  "handle_old_acpi h s rsdp =
     (let m = acpi_mem s
      in if \<not> equals_literal m rsdp ''RSD PTR '' then Some (- 1, s)
         else if calculate_checksum m rsdp 20 \<noteq> 0 then Some (- 1, s)
         else
           (let root_phys = ucast (load32 m (rsdp_rsdt_address rsdp))
            in do {
              (v, s) \<leftarrow> map_root s root_phys;
              if v = FRAME_ALLOC_FAILED then Some (- 1, s)
              else do {
                (r, s) \<leftarrow> categoriseTablesRSDT s (MMIO_PHYS_TO_VIRT root_phys);
                if r \<noteq> 0 then Some (- 1, s)
                else do {
                  (_, k, w) \<leftarrow> discoverPCIE h (acpi_root s) (mcfg_at s) (acpi_ks s, acpi_dev s);
                  Some (0, s\<lparr>acpi_ks := k, acpi_dev := w\<rparr>)
                }
              }
            }))"

text \<open>\<^verbatim>\<open>handle_ACPI\<close> of \<^verbatim>\<open>multiboot2.c\<close>; both copies of the root pointer are statics.\<close>

definition handle_ACPI :: "'w hardware \<Rightarrow> 'w acpi \<Rightarrow> u64 \<Rightarrow> u64 \<Rightarrow> 'w acpi option" where
  "handle_ACPI h s rsdp_new rsdp =
     (if acpi_mem s rsdp_new \<noteq> 0 then map_option snd (handle_new_acpi s rsdp_new)
      else if acpi_mem s rsdp \<noteq> 0 then map_option snd (handle_old_acpi h s rsdp)
      else Some s)"

section \<open>Properties\<close>

lemma bytes_at_Cons: "bytes_at m p (Suc n) = m p # bytes_at m (p + 1) n"
proof (induction n)
  case 0
  then show ?case by (simp add: bytes_at_def)
next
  case (Suc n)
  have "bytes_at m p (Suc (Suc n)) = bytes_at m p (Suc n) @ [m (p + of_nat (Suc n))]" by (rule bytes_at_Suc)
  also have "\<dots> = m p # (bytes_at m (p + 1) n @ [m (p + 1 + of_nat n)])" by (simp add: Suc add.assoc)
  also have "\<dots> = m p # bytes_at m (p + 1) (Suc n)" by (simp only: bytes_at_Suc)
  finally show ?case .
qed

lemma checksum_loop_sum: "checksum_loop m p n s = s + sum_list (bytes_at m p n)"
proof (induction n arbitrary: p s)
  case 0
  show ?case by (simp add: bytes_at_def)
next
  case (Suc n)
  then show ?case by (simp add: bytes_at_Cons add.assoc)
qed

lemma zero_sum: "(\<And>i. i < n \<Longrightarrow> f i = 0) \<Longrightarrow> sum_list (map f [0..<n]) = (0 :: u8)"
  by (induction n) simp_all

text \<open>A table is accepted whatever its checksum while the static that it will be copied to is zero: the
  checksum is taken over the static instead of the table.\<close>

theorem checksum_of_wrong_object:
  assumes "equals_literal (acpi_mem s) h ''MCFG''"
    and "\<And>i. i < unat (sdt_length (acpi_mem s) h) \<Longrightarrow> acpi_mem s (mcfg_at s + of_nat i) = 0"
  shows "handle_table s h = Some (0, s\<lparr>acpi_ks := (acpi_ks s)\<lparr>kmem :=
     Imemcpy (acpi_mem s) (mcfg_at s) h (ucast (sdt_length (acpi_mem s) h))\<rparr>\<rparr>)"
proof -
  have "sum_list (bytes_at (acpi_mem s) (mcfg_at s) (unat (sdt_length (acpi_mem s) h))) = 0"
    unfolding bytes_at_def by (rule zero_sum) (rule assms(2))
  moreover have "unat (ucast (sdt_length (acpi_mem s) h) :: u64) = unat (sdt_length (acpi_mem s) h)"
    using u32_bound [of "sdt_length (acpi_mem s) h"] by (simp add: unsigned_ucast_eq take_bit_eq_mod)
  ultimately have "calculate_checksum (acpi_mem s) (mcfg_at s) (ucast (sdt_length (acpi_mem s) h)) = 0"
    by (simp add: calculate_checksum_def checksum_loop_sum)
  moreover have "\<not> equals_literal (acpi_mem s) h ''FACP''"
    using assms(1) by (auto simp: equals_literal_def)
  ultimately show ?thesis using assms(1) by (simp add: handle_table_def Let_def)
qed

text \<open>A table of 44 bytes with the signature, any checksum, at address \<open>0x1000\<close>.\<close>

definition demo_mcfg :: mem where
  "demo_mcfg a = (if a = 0x1000 then 0x4D else if a = 0x1001 then 0x43 else if a = 0x1002 then 0x46 else if a = 0x1003 then 0x47
     else if a = 0x1004 then 44 else if a = 0x1010 then 0xAA else 0)"

definition demo_acpi :: "unit acpi" where
  "demo_acpi = \<lparr>acpi_ks = blank\<lparr>kmem := demo_mcfg\<rparr>, acpi_dev = (), acpi_root = 0, fadt_at = 0x8000, mcfg_at = 0x9000, apic_info = None\<rparr>"

theorem checksum_of_wrong_object_witness:
  "\<exists>s'. handle_table demo_acpi 0x1000 = Some (0, s') \<and> calculate_checksum demo_mcfg 0x1000 44 \<noteq> 0"
proof -
  have len: "sdt_length demo_mcfg 0x1000 = 44" by code_simp
  have sig: "equals_literal demo_mcfg 0x1000 ''MCFG''" by code_simp
  have zero: "demo_mcfg (0x9000 + of_nat i) = 0" if "i < 44" for i
  proof -
    have "unat (0x9000 + of_nat i :: u64) = 0x9000 + i"
      using unat_of_nat_u64 [of "0x9000 + i"] that by simp
    then have "0x9000 + of_nat i \<noteq> (c :: u64)" if "unat c < 0x9000" for c using that by auto
    then show ?thesis by (simp add: demo_mcfg_def)
  qed
  have sum: "calculate_checksum demo_mcfg 0x1000 44 \<noteq> 0" by code_simp
  have "handle_table demo_acpi 0x1000 = Some (0, demo_acpi\<lparr>acpi_ks := (acpi_ks demo_acpi)\<lparr>kmem :=
     Imemcpy (acpi_mem demo_acpi) (mcfg_at demo_acpi) 0x1000 (ucast (sdt_length (acpi_mem demo_acpi) 0x1000))\<rparr>\<rparr>)"
    by (rule checksum_of_wrong_object) (simp_all add: demo_acpi_def len sig zero)
  with sum show ?thesis by blast
qed

end
