(* ===== verification/APIC.thy ===== *)
theory APIC
  imports ACPI
begin

text \<open>
  Interrupt controllers, \<^verbatim>\<open>src/kernel/interrupts/APIC/APIC.c\<close> and \<^verbatim>\<open>PIC.c\<close>, the routing of the
  keyboard's interrupt, \<^verbatim>\<open>syscall_init\<close> and the feature check of \<^verbatim>\<open>cpuid_helpers.h\<close>: programs
  for devices, with the device as a parameter.
\<close>

section \<open>Registers\<close>

definition IA32_APIC_BASE_MSR :: u32 where "IA32_APIC_BASE_MSR = 0x1B"
definition IA32_APIC_BASE_MSR_ENABLE :: u64 where "IA32_APIC_BASE_MSR_ENABLE = 0x800"
definition SPURIOUS_INT_VEC :: u64 where "SPURIOUS_INT_VEC = 0xF0"
definition ADDR_SPACE_IO :: u8 where "ADDR_SPACE_IO = 1"
definition IO_REG_SEL :: u64 where "IO_REG_SEL = 0x0"
definition IO_WIN :: u64 where "IO_WIN = 0x10"
definition IOAPICID :: u8 where "IOAPICID = 0x0"
definition IOAPICVER :: u8 where "IOAPICVER = 0x1"
definition IOAPIC_REDIR_ENTR_COUNT_SHIFT :: nat where "IOAPIC_REDIR_ENTR_COUNT_SHIFT = 16"
definition IOAPICID_SHIFT :: nat where "IOAPICID_SHIFT = 24"
definition IOAPIC_RELOC_BASE_INDEX :: nat where "IOAPIC_RELOC_BASE_INDEX = 0x10"
definition PM_TIMER_HZ :: u32 where "PM_TIMER_HZ = 3579545"
definition LAPIC_EOI :: u32 where "LAPIC_EOI = 0xB0"
definition LAPIC_TIMER_DIV :: u32 where "LAPIC_TIMER_DIV = 0x3E0"
definition LAPIC_LVT_TIMER :: u32 where "LAPIC_LVT_TIMER = 0x320"
definition LAPIC_TIMER_INITCNT :: u32 where "LAPIC_TIMER_INITCNT = 0x380"
definition LAPIC_TIMER_CURCNT :: u32 where "LAPIC_TIMER_CURCNT = 0x390"
definition LAPIC_LVT_MASKED :: u32 where "LAPIC_LVT_MASKED = 0x10000"
definition LAPIC_TIMER_PERIODIC :: u32 where "LAPIC_TIMER_PERIODIC = 0x20000"

definition cpu_set_apic_base :: "'w hardware \<Rightarrow> 'w \<Rightarrow> u64 \<Rightarrow> 'w" where
  "cpu_set_apic_base h w apic =
     cpuSetMSR h w IA32_APIC_BASE_MSR (ucast ((apic AND 0xfffff0000) OR IA32_APIC_BASE_MSR_ENABLE)) (ucast (drop_bit 32 apic AND 0x0f))"

definition lapic_read :: "'w hardware \<Rightarrow> u64 \<Rightarrow> 'w \<Rightarrow> u32 \<Rightarrow> u32 \<times> 'w" where
  "lapic_read h LAPIC_ADDR w reg_offset = reg_read32 h w (LAPIC_ADDR + ucast reg_offset)"

definition lapic_write :: "'w hardware \<Rightarrow> u64 \<Rightarrow> 'w \<Rightarrow> u32 \<Rightarrow> u32 \<Rightarrow> 'w" where
  "lapic_write h LAPIC_ADDR w reg_offset v = reg_write32 h w (LAPIC_ADDR + ucast reg_offset) v"

definition ioapic_write :: "'w hardware \<Rightarrow> 'w \<Rightarrow> u64 \<Rightarrow> u8 \<Rightarrow> u32 \<Rightarrow> 'w" where
  "ioapic_write h w base reg val =
     (let w = reg_write32 h w (base + IO_REG_SEL) (ucast reg) in reg_write32 h w (base + IO_WIN) val)"

definition ioapic_read :: "'w hardware \<Rightarrow> 'w \<Rightarrow> u64 \<Rightarrow> u8 \<Rightarrow> u32 \<times> 'w" where
  "ioapic_read h w base reg =
     (let w = reg_write32 h w (base + IO_REG_SEL) (ucast reg) in reg_read32 h w (base + IO_WIN))"

definition ioapic_route :: "'w hardware \<Rightarrow> 'w \<Rightarrow> u64 \<Rightarrow> nat \<Rightarrow> u8 \<Rightarrow> u8 \<Rightarrow> bool \<Rightarrow> bool \<Rightarrow> 'w" where
  "ioapic_route h w base pin vec apic_id active_low level =
     (let low = ucast vec OR push_bit 13 (of_bool active_low) OR push_bit 15 (of_bool level);
          w = ioapic_write h w base (of_nat (IOAPIC_RELOC_BASE_INDEX + 1 + 2 * pin)) (push_bit 24 (ucast apic_id))
      in ioapic_write h w base (of_nat (IOAPIC_RELOC_BASE_INDEX + 2 * pin)) low)"

text \<open>A redirection entry is its two words; the other view of the \<^verbatim>\<open>union\<close> are the bit fields in them.\<close>

type_synonym ioapic_redirection_entry_t = "u32 \<times> u32"

definition redir_vector :: "ioapic_redirection_entry_t \<Rightarrow> u32" where "redir_vector e = take_bit 8 (fst e)"
definition redir_delvMode :: "ioapic_redirection_entry_t \<Rightarrow> u32" where "redir_delvMode e = take_bit 3 (drop_bit 8 (fst e))"
definition redir_destMode :: "ioapic_redirection_entry_t \<Rightarrow> u32" where "redir_destMode e = take_bit 1 (drop_bit 11 (fst e))"
definition redir_delvStatus :: "ioapic_redirection_entry_t \<Rightarrow> u32" where "redir_delvStatus e = take_bit 1 (drop_bit 12 (fst e))"
definition redir_pinPolarity :: "ioapic_redirection_entry_t \<Rightarrow> u32" where "redir_pinPolarity e = take_bit 1 (drop_bit 13 (fst e))"
definition redir_remoteIRR :: "ioapic_redirection_entry_t \<Rightarrow> u32" where "redir_remoteIRR e = take_bit 1 (drop_bit 14 (fst e))"
definition redir_triggerMode :: "ioapic_redirection_entry_t \<Rightarrow> u32" where "redir_triggerMode e = take_bit 1 (drop_bit 15 (fst e))"
definition redir_mask :: "ioapic_redirection_entry_t \<Rightarrow> u32" where "redir_mask e = take_bit 1 (drop_bit 16 (fst e))"
definition redir_destination :: "ioapic_redirection_entry_t \<Rightarrow> u32" where "redir_destination e = take_bit 8 (drop_bit 24 (snd e))"

definition ioapic_set :: "'w hardware \<Rightarrow> 'w \<Rightarrow> u64 \<Rightarrow> nat \<Rightarrow> ioapic_redirection_entry_t \<Rightarrow> 'w" where
  "ioapic_set h w base pin redir =
     (let w = ioapic_write h w base (of_nat (IOAPIC_RELOC_BASE_INDEX + 1 + 2 * pin)) (snd redir)
      in ioapic_write h w base (of_nat (IOAPIC_RELOC_BASE_INDEX + 2 * pin)) (fst redir))"

text \<open>The ports and values that \<^verbatim>\<open>disable_PIC\<close> writes, in order.\<close>

definition pic_program :: "(u32 \<times> u8) list" where
  "pic_program = [(0x20, 0x11), (0xA0, 0x11), (0x21, 0x20), (0xA1, 0x28), (0x21, 0x04), (0xA1, 0x02),
     (0x21, 0x01), (0xA1, 0x01), (0x21, 0xFF), (0xA1, 0xFF)]"

definition disable_PIC :: "'w hardware \<Rightarrow> 'w \<Rightarrow> 'w" where
  "disable_PIC h w = foldl (\<lambda>w (p, v). outportb h w p v) w pic_program"

section \<open>Calibration of the local timer\<close>

definition pm_read :: "'w hardware \<Rightarrow> 'w \<Rightarrow> u64 \<Rightarrow> bool \<Rightarrow> bool \<Rightarrow> u32 \<times> 'w" where
  "pm_read h w addr is32 isMMIO =
     (let (v, w) = (if isMMIO then reg_read32 h w addr else inportl h w (ucast addr))
      in (if is32 then v else v AND 0xFFFFFF, w))"

partial_function (option) wait_loop ::
  "'w hardware \<Rightarrow> u64 \<Rightarrow> bool \<Rightarrow> bool \<Rightarrow> u32 \<Rightarrow> u32 \<Rightarrow> u32 \<Rightarrow> 'w \<Rightarrow> (u32 \<times> 'w) option" where
  "wait_loop h pm_addr is32 isMMIO start msk wait w =
     (let (v, w) = pm_read h w pm_addr is32 isMMIO;
          elapsed = (v - start) AND msk
      in if elapsed < wait then wait_loop h pm_addr is32 isMMIO start msk wait w else Some (elapsed, w))"

definition calibrate_lapic_ticks_per_ms :: "'w hardware \<Rightarrow> u64 \<Rightarrow> 'w \<Rightarrow> u64 \<Rightarrow> bool \<Rightarrow> bool \<Rightarrow> (u32 \<times> 'w) option" where
  "calibrate_lapic_ticks_per_ms h lapic w pm_addr is32 isMMIO = do {
     let msk = (if is32 then 0xFFFFFFFF else 0xFFFFFF);
     let wait = PM_TIMER_HZ div 100;
     let w = lapic_write h lapic w LAPIC_TIMER_DIV 0x3;
     let w = lapic_write h lapic w LAPIC_LVT_TIMER LAPIC_LVT_MASKED;
     let (start, w) = pm_read h w pm_addr is32 isMMIO;
     let w = lapic_write h lapic w LAPIC_TIMER_INITCNT 0xFFFFFFFF;
     (elapsed, w) \<leftarrow> wait_loop h pm_addr is32 isMMIO start msk wait w;
     let (cur, w) = lapic_read h lapic w LAPIC_TIMER_CURCNT;
     let w = lapic_write h lapic w LAPIC_TIMER_INITCNT 0;
     let lapic_ticks = (ucast (0xFFFFFFFF - cur) :: u64);
     Some (ucast ((lapic_ticks * ucast PM_TIMER_HZ) div (ucast elapsed * 1000)), w)
   }"

definition lapic_ticks_per_ms :: "'w hardware \<Rightarrow> u64 \<Rightarrow> 'w acpi \<Rightarrow> (u32 \<times> 'w acpi) option" where
  "lapic_ticks_per_ms h lapic s =
     (let m = acpi_mem s; f = fadt_at s; is32 = bit (load32 m (fadt_flags f)) 8
      in if m (fadt_full_length f) = 0 then
           (if load32 m (fadt_pm_timer_block f) = 0 then Some (0, s)
            else do {
              (t, w) \<leftarrow> calibrate_lapic_ticks_per_ms h lapic (acpi_dev s) (ucast (ucast (load32 m (fadt_pm_timer_block f)) :: u16)) is32 False;
              Some (t, s\<lparr>acpi_dev := w\<rparr>)
            })
         else
           (let addr = load64 m (gas_address (fadt_x_pm_timer f))
            in if addr = 0 then Some (0, s)
               else if m (gas_address_space (fadt_x_pm_timer f)) = ADDR_SPACE_IO then do {
                 (t, w) \<leftarrow> calibrate_lapic_ticks_per_ms h lapic (acpi_dev s) (ucast (ucast addr :: u16)) is32 False;
                 Some (t, s\<lparr>acpi_dev := w\<rparr>)
               }
               else do {
                 (_, s) \<leftarrow> map_root s addr;
                 (t, w) \<leftarrow> calibrate_lapic_ticks_per_ms h lapic (acpi_dev s) (MMIO_PHYS_TO_VIRT addr) (bit (load32 (acpi_mem s) (fadt_flags f)) 8) True;
                 Some (t, s\<lparr>acpi_dev := w\<rparr>)
               }))"

section \<open>Switching the controllers on\<close>

record apic =
  LAPIC_ADDR :: u64
  LAPIC_TICKS_PER_MS :: u32

definition enable_apic :: "'w hardware \<Rightarrow> 'w acpi \<Rightarrow> (int \<times> apic \<times> 'w acpi) option" where
  "enable_apic h s = do {
     let w = disable_PIC h (acpi_dev s);
     info \<leftarrow> apic_info s;
     let a = MMIO_PHYS_TO_VIRT (lapic_addr info);
     let w = reg_write32 h w (a + SPURIOUS_INT_VEC) (push_bit 8 1 OR 0xFF);
     (t, s) \<leftarrow> lapic_ticks_per_ms h a (s\<lparr>acpi_dev := w\<rparr>);
     Some (if t = 0 then - 1 else 0, \<lparr>LAPIC_ADDR = a, LAPIC_TICKS_PER_MS = t\<rparr>, s)
   }"

record ioapic_info =
  base_address :: u64
  total_size :: u32
  ioapic_id :: u8
  ioapic_version :: u8
  redirection_count :: u8
  redirection_table :: "(u32 \<times> u32) list"

fun read_redirections :: "'w hardware \<Rightarrow> u64 \<Rightarrow> nat \<Rightarrow> nat \<Rightarrow> 'w \<Rightarrow> (u32 \<times> u32) list \<times> 'w" where
  "read_redirections h base reg 0 w = ([], w)"
| "read_redirections h base reg (Suc n) w =
     (let (low, w) = ioapic_read h w base (of_nat reg);
          (high, w) = ioapic_read h w base (of_nat (reg + 1));
          (rs, w) = read_redirections h base (reg + 2) n w
      in ((low, high) # rs, w))"

definition enable_io_apic :: "'w hardware \<Rightarrow> 'w \<Rightarrow> u64 \<Rightarrow> ioapic_info \<times> 'w" where
  "enable_io_apic h w ioapic_addr =
     (let (v, w) = ioapic_read h w ioapic_addr IOAPICVER;
          count = (ucast ((drop_bit IOAPIC_REDIR_ENTR_COUNT_SHIFT v AND 0xFF) + 1) :: u8);
          (v, w) = ioapic_read h w ioapic_addr IOAPICVER;
          (i, w) = ioapic_read h w ioapic_addr IOAPICID;
          (rs, w) = read_redirections h ioapic_addr IOAPIC_RELOC_BASE_INDEX (unat count) w
      in (\<lparr>base_address = ioapic_addr, total_size = 16 + 8 * ucast count, ioapic_id = ucast (drop_bit IOAPICID_SHIFT i AND 0xF),
           ioapic_version = ucast (v AND 0xFF), redirection_count = count, redirection_table = rs\<rparr>, w))"

text \<open>The two loops over the controllers of the table: sizes, then contents.\<close>

fun ioapic_sizes :: "'w hardware \<Rightarrow> ioapic_conf option list \<Rightarrow> u64 \<Rightarrow> 'w \<Rightarrow> (u64 \<times> 'w) option" where
  "ioapic_sizes h [] tsize w = Some (tsize, w)"
| "ioapic_sizes h (None # xs) tsize w = None"
| "ioapic_sizes h (Some io # xs) tsize w =
     (let (v, w) = ioapic_read h w (MMIO_PHYS_TO_VIRT (ucast (io_addr io))) IOAPICVER
      in ioapic_sizes h xs (tsize + (ucast (drop_bit IOAPIC_REDIR_ENTR_COUNT_SHIFT v AND 0xFF) + 1) * 8) w)"

fun ioapic_contents :: "'w hardware \<Rightarrow> ioapic_conf option list \<Rightarrow> 'w \<Rightarrow> (ioapic_info list \<times> 'w) option" where
  "ioapic_contents h [] w = Some ([], w)"
| "ioapic_contents h (None # xs) w = None"
| "ioapic_contents h (Some io # xs) w = do {
     let (i, w) = enable_io_apic h w (MMIO_PHYS_TO_VIRT (ucast (io_addr io)));
     (is, w) \<leftarrow> ioapic_contents h xs w;
     Some (i # is, w)
   }"

definition enable_io_apics :: "'w hardware \<Rightarrow> 'w acpi \<Rightarrow> (ioapic_info list \<times> 'w acpi) option" where
  "enable_io_apics h s = do {
     info \<leftarrow> apic_info s;
     let xs = take (unat (ioapic_count info)) (ioapics info);
     (tsize, w) \<leftarrow> ioapic_sizes h xs (16 * ucast (ioapic_count info)) (acpi_dev s);
     (p, k) \<leftarrow> Imalloc (acpi_ks s) (acpi_root s) (8 + tsize);
     if xs \<noteq> [] \<and> \<not> is_object p then None
     else do {
       (is, w) \<leftarrow> ioapic_contents h xs w;
       Some (is, s\<lparr>acpi_ks := k, acpi_dev := w\<rparr>)
     }
   }"

definition keyboard_ps2_init :: "'w hardware \<Rightarrow> ioapic_info list \<Rightarrow> 'w \<Rightarrow> 'w option" where
  "keyboard_ps2_init h is w =
     (case is of [] \<Rightarrow> None | i # _ \<Rightarrow> Some (ioapic_route h w (base_address i) 1 33 0 False False))"

section \<open>System calls and processor features\<close>

definition MSR_EFER :: u32 where "MSR_EFER = 0xC0000080"
definition MSR_STAR :: u32 where "MSR_STAR = 0xC0000081"
definition MSR_LSTAR :: u32 where "MSR_LSTAR = 0xC0000082"
definition MSR_FMASK :: u32 where "MSR_FMASK = 0xC0000084"
definition MSR_FSBASE :: u32 where "MSR_FSBASE = 0xC0000100"
definition MSR_GSBASE :: u32 where "MSR_GSBASE = 0xC0000101"
definition MSR_KernelGSBase :: u32 where "MSR_KernelGSBase = 0xC0000102"
definition SIZEOF_KTABLE :: u64 where "SIZEOF_KTABLE = 32"

definition syscall_init :: "'w hardware \<Rightarrow> 'w acpi \<Rightarrow> (int \<times> 'w acpi) option" where
  "syscall_init h s = do {
     let w = cpuSetMSR h (acpi_dev s) MSR_EFER 0x1 0x0;
     let w = wrmsr h w MSR_STAR (push_bit 48 0x10 OR push_bit 32 0x08);
     let w = wrmsr h w MSR_LSTAR 0x0;
     let w = wrmsr h w MSR_FMASK 0x2;
     let w = wrmsr h w MSR_GSBASE 0x0;
     let w = wrmsr h w MSR_FSBASE 0x0;
     (ktable, k) \<leftarrow> Imalloc (acpi_ks s) (acpi_root s) SIZEOF_KTABLE;
     if \<not> is_object ktable then None
     else do {
       let k = store_entry k ktable ktable;
       let w = wrmsr h w MSR_KernelGSBase (load_entry k ktable);
       Some (0, s\<lparr>acpi_ks := k, acpi_dev := w\<rparr>)
     }
   }"

text \<open>\<^verbatim>\<open>syscall_handler\<close>: only call 0, which writes to the screen, has a result.\<close>

definition syscall_write :: "mem \<Rightarrow> console \<Rightarrow> u64 \<Rightarrow> u64 \<Rightarrow> u64 \<Rightarrow> u64 \<Rightarrow> u64 \<times> console" where
  "syscall_write m c output_id buf len offset = (0, write_str_len m buf offset len c)"

definition syscall_handler :: "mem \<Rightarrow> console \<Rightarrow> u64 \<Rightarrow> u64 \<Rightarrow> u64 \<Rightarrow> u64 \<Rightarrow> u64 \<Rightarrow> (u64 \<times> console) option" where
  "syscall_handler m c number first second third fourth =
     (if number = 0 then Some (syscall_write m c first second third fourth) else None)"

definition CHECK_CPUID_FEAT :: "u64 \<Rightarrow> u64 \<Rightarrow> bool" where
  "CHECK_CPUID_FEAT features feature_check \<longleftrightarrow> features AND feature_check \<noteq> 0"

definition CPUID_FEAT_EDX_MSR :: u64 where "CPUID_FEAT_EDX_MSR = push_bit 5 1"

record cpuid_info =
  vendor :: "u8 list"
  max_leaf :: u32
  cpu_features :: u64

definition le_bytes :: "u32 \<Rightarrow> u8 list" where
  "le_bytes v = [ucast v, ucast (drop_bit 8 v), ucast (drop_bit 16 v), ucast (drop_bit 24 v)]"

text \<open>The instruction is a parameter: \<open>eax, ebx, ecx, edx\<close> of a leaf.\<close>

definition init_cpuid :: "(u32 \<Rightarrow> u32 \<times> u32 \<times> u32 \<times> u32) \<Rightarrow> cpuid_info" where
  "init_cpuid cpuid =
     (let (eax, ebx, ecx, edx) = cpuid 0; (_, _, _, edx1) = cpuid 1
      in \<lparr>vendor = le_bytes ebx @ le_bytes edx @ le_bytes ecx @ [0], max_leaf = eax, cpu_features = ucast edx1\<rparr>)"

end
