(* ===== verification/APIC_Props.thy ===== *)
theory APIC_Props
  imports APIC
begin

text \<open>The calibration loop ends on a timer that advances, and computes without overflow.\<close>

section \<open>A timer that advances\<close>

text \<open>
  \<open>tick w\<close> is the timer's count; a read returns its low bits, after which the count has advanced by
  at least one and at most \<open>step\<close>.  Writes to the local APIC do not touch it.
\<close>

definition pm_advances :: "'w hardware \<Rightarrow> u64 \<Rightarrow> u64 \<Rightarrow> bool \<Rightarrow> bool \<Rightarrow> ('w \<Rightarrow> nat) \<Rightarrow> nat \<Rightarrow> bool" where
  "pm_advances h lapic addr is32 isMMIO tick step \<longleftrightarrow>
     (\<forall>w. fst (pm_read h w addr is32 isMMIO) = take_bit (if is32 then 32 else 24) (of_nat (tick w)) \<and>
        tick w < tick (snd (pm_read h w addr is32 isMMIO)) \<and> tick (snd (pm_read h w addr is32 isMMIO)) \<le> tick w + step) \<and>
     (\<forall>w r v. tick (lapic_write h lapic w r v) = tick w)"

lemma take_bit_word_diff: "take_bit n (take_bit n x - take_bit n y) = take_bit n (x - y :: 'a::len word)"
  by transfer (simp add: take_bit_diff)

lemma elapsed_ticks:
  assumes "b \<le> a" "a - b < 16777216"
  shows "unat ((take_bit (if is32 then 32 else 24) (of_nat a) - take_bit (if is32 then 32 else 24) (of_nat b) :: u32)
     AND (if is32 then 0xFFFFFFFF else 0xFFFFFF)) = a - b"
proof -
  let ?n = "if is32 then 32 else 24 :: nat"
  have m: "(if is32 then 0xFFFFFFFF else 0xFFFFFF :: u32) = mask ?n" by (simp add: mask_eq_exp_minus_1)
  have "(take_bit ?n (of_nat a) - take_bit ?n (of_nat b) :: u32) AND mask ?n = take_bit ?n (of_nat a - of_nat b)"
    unfolding take_bit_eq_mask [symmetric] by (rule take_bit_word_diff)
  also have "\<dots> = take_bit ?n (of_nat (a - b))" using assms(1) by (simp add: of_nat_diff)
  finally have e: "(take_bit ?n (of_nat a) - take_bit ?n (of_nat b) :: u32) AND mask ?n = take_bit ?n (of_nat (a - b))" .
  have "unat (of_nat (a - b) :: u32) = a - b" by (rule unat_of_nat_u32) (use assms(2) in simp)
  then have "unat (take_bit ?n (of_nat (a - b)) :: u32) = (a - b) mod 2 ^ ?n"
    unfolding unsigned_take_bit_eq by (simp only: take_bit_eq_mod)
  also have "\<dots> = a - b" using assms(2) by (cases is32) simp_all
  finally show ?thesis unfolding m e .
qed

text \<open>The state after so many reads of the timer.\<close>

definition polled :: "'w hardware \<Rightarrow> u64 \<Rightarrow> bool \<Rightarrow> bool \<Rightarrow> nat \<Rightarrow> 'w \<Rightarrow> 'w" where
  "polled h addr is32 isMMIO n w = ((\<lambda>w. snd (pm_read h w addr is32 isMMIO)) ^^ n) w"

lemma polled_0 [simp]: "polled h addr is32 isMMIO 0 w = w"
  by (simp add: polled_def)

lemma polled_Suc: "polled h addr is32 isMMIO (Suc n) w = polled h addr is32 isMMIO n (snd (pm_read h w addr is32 isMMIO))"
  unfolding polled_def funpow_Suc_right comp_def by (rule refl)

text \<open>The loop ends with the first read that is at least 35795 counts after the start.\<close>

lemma wait_loop_ends:
  assumes adv: "pm_advances h lapic addr is32 isMMIO tick step" and st: "step \<le> 16000000"
    and "t0 \<le> tick w" "tick w \<le> t0 + 35795 + step"
  shows "\<exists>n. wait_loop h addr is32 isMMIO (take_bit (if is32 then 32 else 24) (of_nat t0))
        (if is32 then 0xFFFFFFFF else 0xFFFFFF) 35795 w =
      Some (of_nat (tick (polled h addr is32 isMMIO n w) - t0), polled h addr is32 isMMIO (Suc n) w) \<and>
    (\<forall>k < n. tick (polled h addr is32 isMMIO k w) - t0 < 35795) \<and>
    35795 \<le> tick (polled h addr is32 isMMIO n w) - t0 \<and> tick (polled h addr is32 isMMIO n w) - t0 \<le> 35795 + step"
  using assms(3,4)
proof (induction "t0 + 35795 - tick w" arbitrary: w rule: less_induct)
  case less
  let ?m = "if is32 then 0xFFFFFFFF else 0xFFFFFF :: u32"
  let ?s = "take_bit (if is32 then 32 else 24) (of_nat t0) :: u32"
  obtain v w1 where r: "pm_read h w addr is32 isMMIO = (v, w1)" by fastforce
  have v: "v = take_bit (if is32 then 32 else 24) (of_nat (tick w))" "tick w < tick w1" "tick w1 \<le> tick w + step"
    using adv r unfolding pm_advances_def by (metis fst_conv snd_conv)+
  have u: "unat ((v - ?s) AND ?m) = tick w - t0"
    unfolding v(1) by (rule elapsed_ticks) (use less.prems st in linarith)+
  have lt: "(v - ?s) AND ?m < 35795 \<longleftrightarrow> tick w - t0 < 35795"
    by (simp only: word_less_nat_alt u) simp
  have p: "polled h addr is32 isMMIO (Suc n) w = polled h addr is32 isMMIO n w1" for n by (simp add: polled_Suc r)
  show ?case
  proof (cases "tick w - t0 < 35795")
    case True
    have eq: "wait_loop h addr is32 isMMIO ?s ?m 35795 w = wait_loop h addr is32 isMMIO ?s ?m 35795 w1"
      using lt True by (subst wait_loop.simps) (simp only: r Let_def prod.case if_True)
    have "t0 + 35795 - tick w1 < t0 + 35795 - tick w" "t0 \<le> tick w1" "tick w1 \<le> t0 + 35795 + step"
      using True v(2,3) less.prems by linarith+
    from less.hyps [OF this] obtain n where n: "wait_loop h addr is32 isMMIO ?s ?m 35795 w1 =
        Some (of_nat (tick (polled h addr is32 isMMIO n w1) - t0), polled h addr is32 isMMIO (Suc n) w1)"
      "\<forall>k < n. tick (polled h addr is32 isMMIO k w1) - t0 < 35795"
      "35795 \<le> tick (polled h addr is32 isMMIO n w1) - t0" "tick (polled h addr is32 isMMIO n w1) - t0 \<le> 35795 + step" by blast
    have "\<forall>k < Suc n. tick (polled h addr is32 isMMIO k w) - t0 < 35795"
      using True n(2) by (auto simp: less_Suc_eq_0_disj p)
    then show ?thesis using n(1,3,4) by (intro exI [of _ "Suc n"]) (simp only: eq p)
  next
    case False
    have "(v - ?s) AND ?m = of_nat (tick w - t0)" using u by (metis as_of_nat)
    then have "wait_loop h addr is32 isMMIO ?s ?m 35795 w = Some (of_nat (tick w - t0), w1)"
      using lt False by (subst wait_loop.simps) (simp only: r Let_def prod.case if_False)
    then show ?thesis using False less.prems by (intro exI [of _ 0]) (simp add: p del: of_nat_diff)
  qed
qed

section \<open>The result\<close>

lemma ticks_no_overflow:
  assumes "35795 \<le> unat (e :: u32)" "unat e \<le> 35795 + 16000000"
  shows "unat (ucast ((ucast (0xFFFFFFFF - c :: u32) * ucast PM_TIMER_HZ :: u64) div (ucast e * 1000)) :: u32) =
    (4294967295 - unat c) * 3579545 div (unat e * 1000)"
proof -
  have c: "unat (0xFFFFFFFF - c) = 4294967295 - unat c"
  proof -
    have "c \<le> 0xFFFFFFFF" using u32_bound [of c] by (simp add: word_le_nat_alt)
    then show ?thesis by (simp add: unat_sub)
  qed
  let ?x = "ucast (0xFFFFFFFF - c) :: u64"
  have x: "unat ?x = 4294967295 - unat c" using c by (simp add: unsigned_ucast_eq take_bit_eq_mod)
  have num: "unat (?x * ucast PM_TIMER_HZ) = (4294967295 - unat c) * 3579545"
    by (subst unat_mult_u64) (simp_all add: x PM_TIMER_HZ_def)
  have den: "unat (ucast e * 1000 :: u64) = unat e * 1000"
    by (subst unat_mult_u64) (use assms in \<open>simp_all add: unsigned_ucast_eq take_bit_eq_mod\<close>)
  have "(4294967295 - unat c) * 3579545 div (unat e * 1000) \<le> 4294967295 * 3579545 div (unat e * 1000)"
    by (rule div_le_mono) simp
  also have "\<dots> \<le> 4294967295 * 3579545 div (35795 * 1000)"
    by (rule div_le_mono2) (use assms(1) in simp_all)
  also have "\<dots> < 4294967296" by simp
  finally have "(4294967295 - unat c) * 3579545 div (unat e * 1000) < 4294967296" .
  then show ?thesis by (simp add: unsigned_ucast_eq take_bit_eq_mod unat_div num den)
qed

section \<open>Properties\<close>

text \<open>C32. On a power management timer that advances at least once and at most 16000000 counts between two reads, also
  across a wrap of its 24 or 32 bits, the calibration ends.  It polls the timer until the first read that is 35795 counts
  or more after the one taken before the local timer was started; the ticks per millisecond it returns are those that
  the local timer counted down till its current count was read right after, over that many counts at 3579545 per second,
  with no intermediate result overflowing its 64 or 32 bits.\<close>

theorem calibration_ends:
  assumes "pm_advances h lapic addr is32 isMMIO tick step" "step \<le> 16000000"
  shows "\<exists>n.
    let first = lapic_write h lapic (lapic_write h lapic w LAPIC_TIMER_DIV 3) LAPIC_LVT_TIMER LAPIC_LVT_MASKED;
        started = lapic_write h lapic (snd (pm_read h first addr is32 isMMIO)) LAPIC_TIMER_INITCNT 0xFFFFFFFF;
        e = tick (polled h addr is32 isMMIO n started) - tick first;
        (c, done) = lapic_read h lapic (polled h addr is32 isMMIO (Suc n) started) LAPIC_TIMER_CURCNT;
        t = (4294967295 - unat c) * 3579545 div (e * 1000)
    in (\<forall>k < n. tick (polled h addr is32 isMMIO k started) - tick first < 35795) \<and> 35795 \<le> e \<and> e \<le> 35795 + step \<and>
       t < 4294967296 \<and>
       calibrate_lapic_ticks_per_ms h lapic w addr is32 isMMIO =
         Some (of_nat t, lapic_write h lapic done LAPIC_TIMER_INITCNT 0)"
proof -
  let ?w1 = "lapic_write h lapic (lapic_write h lapic w LAPIC_TIMER_DIV 3) LAPIC_LVT_TIMER LAPIC_LVT_MASKED"
  obtain s w2 where r: "pm_read h ?w1 addr is32 isMMIO = (s, w2)" by fastforce
  have s: "s = take_bit (if is32 then 32 else 24) (of_nat (tick ?w1))" "tick ?w1 < tick w2" "tick w2 \<le> tick ?w1 + step"
    using assms(1) r unfolding pm_advances_def by (metis fst_conv snd_conv)+
  let ?w3 = "lapic_write h lapic w2 LAPIC_TIMER_INITCNT 0xFFFFFFFF"
  have k: "tick ?w3 = tick w2" using assms(1) unfolding pm_advances_def by blast
  have "tick ?w1 \<le> tick ?w3" "tick ?w3 \<le> tick ?w1 + 35795 + step" using s(2,3) unfolding k by linarith+
  from wait_loop_ends [OF assms this] obtain n where
    n: "wait_loop h addr is32 isMMIO s (if is32 then 0xFFFFFFFF else 0xFFFFFF) 35795 ?w3 =
      Some (of_nat (tick (polled h addr is32 isMMIO n ?w3) - tick ?w1), polled h addr is32 isMMIO (Suc n) ?w3)"
    "\<forall>k < n. tick (polled h addr is32 isMMIO k ?w3) - tick ?w1 < 35795"
    "35795 \<le> tick (polled h addr is32 isMMIO n ?w3) - tick ?w1" "tick (polled h addr is32 isMMIO n ?w3) - tick ?w1 \<le> 35795 + step"
    unfolding s(1) by blast
  let ?e = "tick (polled h addr is32 isMMIO n ?w3) - tick ?w1"
  obtain c w5 where c: "lapic_read h lapic (polled h addr is32 isMMIO (Suc n) ?w3) LAPIC_TIMER_CURCNT = (c, w5)" by fastforce
  let ?e32 = "of_nat ?e :: u32" and ?q = "(4294967295 - unat c) * 3579545 div (?e * 1000)"
  let ?t = "ucast ((ucast (0xFFFFFFFF - c) * ucast PM_TIMER_HZ :: u64) div (ucast ?e32 * 1000)) :: u32"
  have e: "unat ?e32 = ?e" by (rule unat_of_nat_u32) (use n(4) assms(2) in linarith)
  have w: "PM_TIMER_HZ div 100 = 35795" by (simp add: PM_TIMER_HZ_def)
  have cal: "calibrate_lapic_ticks_per_ms h lapic w addr is32 isMMIO = Some (?t, lapic_write h lapic w5 LAPIC_TIMER_INITCNT 0)"
    unfolding calibrate_lapic_ticks_per_ms_def Let_def w r prod.case n(1) bind.bind_lunit c by (rule refl)
  have t: "unat ?t = ?q" using ticks_no_overflow [of ?e32 c] n(3,4) assms(2) unfolding e by linarith
  have "?q < 4294967296" using u32_bound [of ?t] unfolding t .
  moreover have "?t = of_nat ?q" using t by (metis as_of_nat)
  ultimately show ?thesis using n(2-4) cal
    by (intro exI [of _ n]) (simp only: Let_def r snd_conv c prod.case simp_thms)
qed

text \<open>A machine whose only devices are a 24-bit timer at port \<open>0x608\<close>, 1000 counts for each read, and a local timer
  that has always counted a million ticks.  The timer wraps during the window, of 36000 counts.\<close>

definition pm_machine :: "nat hardware" where
  "pm_machine = \<lparr>port_read8 = (\<lambda>w _. (0, w)), port_write8 = (\<lambda>w _ _. w),
     port_read32 = (\<lambda>w _. (take_bit 24 (of_nat w), w + 1000)), port_write32 = (\<lambda>w _ _. w),
     msr_read = (\<lambda>w _. (0, 0, w)), msr_write = (\<lambda>w _ _ _. w),
     reg_read8 = (\<lambda>w _. (0, w)), reg_read16 = (\<lambda>w _. (0, w)), reg_read32 = (\<lambda>w _. (4293967295, w)),
     reg_write32 = (\<lambda>w _ _. w)\<rparr>"

theorem calibration_ends_witness:
  "\<exists>w'. calibrate_lapic_ticks_per_ms pm_machine 0xFFFFFE00FEE00000 16777000 0x608 False False = Some (99431, w')"
proof -
  have "(0xFFFFFF :: u32) = mask 24" by (simp add: mask_eq_exp_minus_1)
  then have m: "take_bit 24 x AND 0xFFFFFF = take_bit 24 x" for x :: u32
    by (simp only: take_bit_eq_mask [symmetric]) simp
  have adv: "pm_advances pm_machine 0xFFFFFE00FEE00000 0x608 False False id 1000"
    by (simp add: pm_advances_def pm_read_def pm_machine_def inportl_def lapic_write_def m)
  have read: "snd (pm_read pm_machine w 0x608 False False) = w + 1000" for w
    by (simp add: pm_read_def pm_machine_def inportl_def)
  have polls: "polled pm_machine 0x608 False False n w = w + 1000 * n" for n w
    by (induction n arbitrary: w) (simp_all add: polled_Suc read)
  have dev: "lapic_write pm_machine a w r v = w" "lapic_read pm_machine a w r = (4293967295, w)" for a w r v
    by (simp_all add: lapic_write_def lapic_read_def pm_machine_def)
  have "1000 \<le> (16000000 :: nat)" by simp
  have minus: "16777000 + 1000 + 1000 * n - 16777000 = 1000 + 1000 * n" for n :: nat by simp
  from calibration_ends [OF adv \<open>1000 \<le> 16000000\<close>, of 16777000] show ?thesis
    unfolding Let_def dev read polls prod.case id_apply minus
  proof (elim exE conjE, goal_cases)
    case (1 n)
    from 1(2,3) have "n = 35" by arith
    then have "(4294967295 - unat (4293967295 :: u32)) * 3579545 div ((1000 + 1000 * n) * 1000) = 99431" by simp
    with 1(5) show ?case by (simp only: of_nat_numeral) blast
  qed
qed

section \<open>Redirection entries\<close>

text \<open>Routing a pin of the I/O APIC is setting its redirection entry: vector, destination, polarity and trigger mode are those asked
  for, the pin is not masked, and delivery and destination mode are zero, fixed delivery to one physical processor.\<close>

theorem ioapic_route_sets_entry:
  "\<exists>e. ioapic_route h w base pin vec apic_id active_low level = ioapic_set h w base pin e \<and>
     redir_vector e = ucast vec \<and> redir_destination e = ucast apic_id \<and> redir_pinPolarity e = of_bool active_low \<and>
     redir_triggerMode e = of_bool level \<and> redir_mask e = 0 \<and> redir_delvMode e = 0 \<and> redir_destMode e = 0 \<and>
     redir_delvStatus e = 0 \<and> redir_remoteIRR e = 0"
proof -
  let ?low = "ucast vec OR push_bit 13 (of_bool active_low) OR push_bit 15 (of_bool level) :: u32"
  let ?e = "(?low, push_bit 24 (ucast apic_id) :: u32)"
  have "ioapic_route h w base pin vec apic_id active_low level = ioapic_set h w base pin ?e"
    by (simp add: ioapic_route_def ioapic_set_def Let_def)
  moreover have high: "\<not> bit vec n" if "8 \<le> n" for n using that bit_imp_le_length [of vec n] by auto
  have one: "take_bit 1 (drop_bit n x) = of_bool (bit x n)" for n and x :: u32
    by (rule bit_word_eqI) (auto simp: bit_simps simp flip: bit_0)
  have "redir_vector ?e = ucast vec" "redir_destination ?e = ucast apic_id"
    unfolding redir_vector_def redir_destination_def fst_conv snd_conv
    by (rule bit_word_eqI; auto simp: bit_simps dest: bit_imp_le_length)+
  moreover have "redir_delvMode ?e = 0"
    unfolding redir_delvMode_def fst_conv by (rule bit_word_eqI) (auto simp: bit_simps high)
  moreover have "redir_pinPolarity ?e = of_bool active_low" "redir_triggerMode ?e = of_bool level" "redir_mask ?e = 0" 
     "redir_destMode ?e = 0" "redir_delvStatus ?e = 0" "redir_remoteIRR ?e = 0"
    unfolding redir_pinPolarity_def redir_triggerMode_def redir_mask_def redir_destMode_def redir_delvStatus_def redir_remoteIRR_def one fst_conv
    by (simp_all add: bit_simps high)
  ultimately show ?thesis by blast
qed

end
