(* ===== verification/Multiboot.thy ===== *)
theory Multiboot
  imports APIC_Props
begin

text \<open>
  The boot information, \<^verbatim>\<open>src/kernel/util/multiboot2.c\<close>, and the memory map that is made
  from it, \<^verbatim>\<open>src/kernel/Memory/memory_mapping.c\<close>.  Offsets are those of the structs of
  \<^verbatim>\<open>multiboot2.h\<close>.  The memory map at \<^verbatim>\<open>_kernel_end\<close> is the component
  \<^const>\<open>kmmap\<close>, so the model does not show that its bitmap may grow over the boot information.
\<close>

section \<open>Structs\<close>

definition MULTIBOOT2_BOOTLOADER_MAGIC :: u32 where "MULTIBOOT2_BOOTLOADER_MAGIC = 0x36d76289"
definition MULTIBOOT_TAG_TYPE_END :: u32 where "MULTIBOOT_TAG_TYPE_END = 0"
definition MULTIBOOT_TAG_TYPE_MODULE :: u32 where "MULTIBOOT_TAG_TYPE_MODULE = 3"
definition MULTIBOOT_TAG_TYPE_MMAP :: u32 where "MULTIBOOT_TAG_TYPE_MMAP = 6"
definition MULTIBOOT_TAG_TYPE_ACPI_OLD :: u32 where "MULTIBOOT_TAG_TYPE_ACPI_OLD = 14"
definition MULTIBOOT_TAG_TYPE_ACPI_NEW :: u32 where "MULTIBOOT_TAG_TYPE_ACPI_NEW = 15"
definition MULTIBOOT_MEMORY_AVAILABLE :: u32 where "MULTIBOOT_MEMORY_AVAILABLE = 1"

definition tag_type :: "u64 \<Rightarrow> u64" where "tag_type t = t"
definition tag_size :: "u64 \<Rightarrow> u64" where "tag_size t = t + 4"
definition module_start :: "u64 \<Rightarrow> u64" where "module_start t = t + 8"
definition module_end :: "u64 \<Rightarrow> u64" where "module_end t = t + 12"
definition mmap_entry_size :: "u64 \<Rightarrow> u64" where "mmap_entry_size t = t + 8"
definition mmap_entries :: "u64 \<Rightarrow> u64" where "mmap_entries t = t + 16"
definition entry_addr :: "u64 \<Rightarrow> u64" where "entry_addr e = e"
definition entry_len :: "u64 \<Rightarrow> u64" where "entry_len e = e + 8"
definition entry_type :: "u64 \<Rightarrow> u64" where "entry_type e = e + 16"

definition SIZEOF_RSDP :: u64 where "SIZEOF_RSDP = 20"
definition SIZEOF_XSDP :: u64 where "SIZEOF_XSDP = 36"

text \<open>\<^verbatim>\<open>bitmap.data\<close> of the map.\<close>

definition bitmap_data_at :: "u64 \<Rightarrow> u64" where "bitmap_data_at mm = mm + 1304"

section \<open>The physical memory map\<close>

definition register_entry :: "mem_map \<Rightarrow> u64 \<Rightarrow> u64 \<Rightarrow> u32 \<Rightarrow> mem_map option" where
  "register_entry mm addr len typ =
     (let mm = (if addr + len > mem_size mm then mm\<lparr>mem_size := addr + len\<rparr> else mm)
      in if typ = MULTIBOOT_MEMORY_AVAILABLE then
           (let start = ALIGN_UP addr DEFAULT_PAGE_SIZE; stop = ALIGN_DOWN (addr + len) DEFAULT_PAGE_SIZE
            in if stop > start then memmap_register_region mm start stop else Some mm)
         else Some mm)"

text \<open>The loop does not end for an entry size of zero.\<close>

partial_function (option) entries_loop :: "mem \<Rightarrow> u64 \<Rightarrow> u64 \<Rightarrow> mem_map \<Rightarrow> mem_map option" where
  "entries_loop m tag e mm =
     (if e < tag + ucast (load32 m (tag_size tag)) then
        Option.bind (register_entry mm (load64 m (entry_addr e)) (load64 m (entry_len e)) (load32 m (entry_type e)))
          (entries_loop m tag (e + ucast (load32 m (mmap_entry_size tag))))
      else Some mm)"

text \<open>Everything of \<^verbatim>\<open>handle_mb2_mmap\<close> but its last step: register the usable ranges, clear
  the bitmap, and mark the kernel with the bitmap behind it.\<close>

definition mb2_memory_map :: "mem \<Rightarrow> mem_map \<Rightarrow> u64 \<Rightarrow> u64 \<Rightarrow> u64 \<Rightarrow> (int \<times> mem_map) option" where
  "mb2_memory_map m mm tag kernel_start_phys kernel_end = do {
     let mm = mm\<lparr>region_count := 0, mem_size := 0, bitmap := (bitmap mm)\<lparr>bm_size := 0\<rparr>\<rparr>;
     mm \<leftarrow> entries_loop m tag (mmap_entries tag) mm;
     mm \<leftarrow> zero_mem_map mm;
     set_mem_region mm (ALIGN_DOWN kernel_start_phys DEFAULT_PAGE_SIZE)
       (KERNEL_VIRT_TO_PHYS (ALIGN_UP (bitmap_data_at kernel_end + bm_size (bitmap mm)) DEFAULT_PAGE_SIZE))
   }"

section \<open>The direct map\<close>

text \<open>The page size that the loop computes is not used: every step maps 2 MiB.\<close>

partial_function (option) direct_map_loop :: "kstate \<Rightarrow> u64 \<Rightarrow> u64 \<Rightarrow> u64 \<Rightarrow> (int \<times> kstate) option" where
  "direct_map_loop k pml4 addr stop =
     (if addr < stop then
        Option.bind (page_in k pml4 (KERNEL_PHYS_TO_VIRT addr) addr HUGE_PS WRITEABLE)
          (\<lambda>(err, k). if err \<noteq> 0 then Some (- 1, k) else direct_map_loop k pml4 (addr + HUGE_PS) stop)
      else Some (0, k))"

function page_in_regions_from :: "kstate \<Rightarrow> u64 \<Rightarrow> nat \<Rightarrow> nat \<Rightarrow> (int \<times> kstate) option" where
  "page_in_regions_from k pml4 n i =
     (if i < n then do {
        r \<leftarrow> idx (regions (kmmap k)) i;
        (err, k) \<leftarrow> direct_map_loop k pml4 (ALIGN_UP (start_addr r) HUGE_PS) (start_addr r + len_bytes r);
        if err \<noteq> 0 then Some (- 1, k) else page_in_regions_from k pml4 n (Suc i)
      }
      else Some (0, k))"
  by pat_completeness auto
termination
  by (relation "measure (\<lambda>(k, r, n, i). n - i)") auto

declare page_in_regions_from.simps [simp del]

definition page_in_regions :: "kstate \<Rightarrow> u64 \<Rightarrow> (int \<times> kstate) option" where
  "page_in_regions k pml4 = page_in_regions_from k pml4 (unat (region_count (kmmap k))) 0"

definition handle_mb2_mmap :: "kstate \<Rightarrow> u64 \<Rightarrow> u64 \<Rightarrow> u64 \<Rightarrow> u64 \<Rightarrow> (int \<times> kstate) option" where
  "handle_mb2_mmap k pml4 tag kernel_start_phys kernel_end = do {
     (err, mm) \<leftarrow> mb2_memory_map (kmem k) (kmmap k) tag kernel_start_phys kernel_end;
     let k = k\<lparr>kmmap := mm\<rparr>;
     if err \<noteq> 0 then Some (- 1, k)
     else do {
       (err, k) \<leftarrow> page_in_regions k pml4;
       Some (if err \<noteq> 0 then - 1 else 0, k)
     }
   }"

section \<open>The tags\<close>

text \<open>One pass through the \<^verbatim>\<open>switch\<close>: the tag of the memory map is remembered, a module is
  parsed, the root pointers of ACPI are copied; all other tags are only printed.\<close>

definition handle_tag :: "kstate \<Rightarrow> u64 \<Rightarrow> u64 \<Rightarrow> u64 \<Rightarrow> u64 \<Rightarrow> u64 \<Rightarrow> (u64 \<times> kstate) option" where
  "handle_tag k root rsdp rsdp_new tag mmap =
     (let typ = load32 (kmem k) (tag_type tag)
      in if typ = MULTIBOOT_TAG_TYPE_MODULE then do {
           (_, _, k) \<leftarrow> tar_mb2_init k root (load32 (kmem k) (module_start tag)) (load32 (kmem k) (module_end tag));
           Some (mmap, k)
         }
         else if typ = MULTIBOOT_TAG_TYPE_MMAP then Some (tag, k)
         else if typ = MULTIBOOT_TAG_TYPE_ACPI_OLD then
           Some (mmap, k\<lparr>kmem := Imemcpy (kmem k) rsdp (tag + 8) SIZEOF_RSDP\<rparr>)
         else if typ = MULTIBOOT_TAG_TYPE_ACPI_NEW then
           Some (mmap, k\<lparr>kmem := Imemcpy (kmem k) rsdp_new (tag + 8) SIZEOF_XSDP\<rparr>)
         else Some (mmap, k))"

text \<open>The next tag is 8-byte aligned; a size that rounds to zero never leads on.\<close>

definition next_tag :: "mem \<Rightarrow> u64 \<Rightarrow> u64" where
  "next_tag m tag = tag + ucast ((load32 m (tag_size tag) + 7) AND NOT 7)"

partial_function (option) tag_loop :: "kstate \<Rightarrow> u64 \<Rightarrow> u64 \<Rightarrow> u64 \<Rightarrow> u64 \<Rightarrow> u64 \<Rightarrow> (u64 \<times> kstate) option" where
  "tag_loop k root rsdp rsdp_new tag mmap =
     (if load32 (kmem k) (tag_type tag) = MULTIBOOT_TAG_TYPE_END then Some (mmap, k)
      else Option.bind (handle_tag k root rsdp rsdp_new tag mmap)
        (\<lambda>(mmap, k). tag_loop k root rsdp rsdp_new (next_tag (kmem k) tag) mmap))"

text \<open>The addresses that the linker gives: the tables and copies that are statics, and the kernel's ends.\<close>

record statics =
  st_pml4 :: u64
  st_rsdp :: u64
  st_rsdp_new :: u64
  st_kernel_start_phys :: u64
  st_kernel_end :: u64

definition handle_multiboot2 :: "statics \<Rightarrow> kstate \<Rightarrow> u64 \<Rightarrow> u32 \<Rightarrow> u64 \<Rightarrow> (int \<times> kstate) option" where
  "handle_multiboot2 st k root magic info =
     (if magic \<noteq> MULTIBOOT2_BOOTLOADER_MAGIC then Some (- 1, k)
      else if info AND 7 \<noteq> 0 then Some (- 1, k)
      else do {
        (mmap, k) \<leftarrow> tag_loop k root (st_rsdp st) (st_rsdp_new st) (info + 8) 0;
        if mmap = 0 then Some (- 1, k)
        else do {
          (err, k) \<leftarrow> handle_mb2_mmap k (st_pml4 st) mmap (st_kernel_start_phys st) (st_kernel_end st);
          Some (if err \<noteq> 0 then - 1 else 0, k)
        }
      })"

end
