(* ===== verification/Boot_Map.thy ===== *)
theory Boot_Map
  imports Multiboot Frame_Init
begin

text \<open>
  The physical memory map that the boot information turns into: the ranges that the entries of the memory map tag
  stand for, and the frames that are free once \<^const>\<open>mb2_memory_map\<close> has returned.
\<close>

lemma map_list_update_same: "f y = f (xs ! i) \<Longrightarrow> map f (xs[i := y]) = map f xs"
  by (cases "i < length xs") (simp_all add: map_update list_update_same_conv list_update_beyond)

section \<open>The tag and its ranges\<close>

text \<open>The usable part of an entry \<open>(addr, len, type)\<close>: whole frames only.\<close>

type_synonym entry = "u64 \<times> u64 \<times> u32"
type_synonym span = "nat \<times> nat"

definition available :: "entry \<Rightarrow> bool" where
  "available = (\<lambda>(a, l, t). t = MULTIBOOT_MEMORY_AVAILABLE)"

definition entry_span :: "entry \<Rightarrow> span" where
  "entry_span = (\<lambda>(a, l, t). ((unat a + 4095) div 4096 * 4096, (unat a + unat l) div 4096 * 4096))"

definition nonempty :: "span \<Rightarrow> bool" where
  "nonempty = (\<lambda>(s, e). s < e)"

definition spans :: "entry list \<Rightarrow> span list" where
  "spans es = filter nonempty (map entry_span (filter available es))"

text \<open>The tag holds these entries: they lie a fixed distance apart and end where the tag ends.\<close>

definition mmap_tag :: "mem \<Rightarrow> u64 \<Rightarrow> entry list \<Rightarrow> bool" where
  "mmap_tag m tag es \<longleftrightarrow>
     (let esz = unat (load32 m (mmap_entry_size tag)) in
      0 < esz \<and> unat (load32 m (tag_size tag)) = 16 + esz * length es \<and>
      unat tag + 16 + esz * length es < 18446744073709551616 \<and>
      (\<forall>i < length es. let e = mmap_entries tag + of_nat (esz * i) in
         es ! i = (load64 m (entry_addr e), load64 m (entry_len e), load32 m (entry_type e))))"

text \<open>Usable ranges that the map can take: in order, apart, whole 64-frame words, at most 4 GiB each, no more than
  there are slots for.\<close>

definition span_ok :: "span \<Rightarrow> bool" where
  "span_ok = (\<lambda>(s, e). e - s \<le> 4294967296 \<and> 262144 dvd e - s)"

definition spans_ok :: "span list \<Rightarrow> bool" where
  "spans_ok rs \<longleftrightarrow> length rs \<le> MAX_MEM_REGIONS \<and> (\<forall>r \<in> set rs. span_ok r) \<and>
     sorted_wrt (\<lambda>r r'. snd r \<le> fst r') rs"

definition entries_ok :: "entry list \<Rightarrow> bool" where
  "entries_ok es \<longleftrightarrow> spans_ok (spans es) \<and>
     (\<forall>(a, l, t) \<in> set es. t = MULTIBOOT_MEMORY_AVAILABLE \<longrightarrow> unat a + unat l + 4096 \<le> 18446744073709551616)"

lemma spans_append: "spans (xs @ ys) = spans xs @ spans ys"
  by (simp add: spans_def)

lemma spans_ok_append: "spans_ok (rs @ rs') \<Longrightarrow> spans_ok rs"
  by (simp add: spans_ok_def sorted_wrt_append)

section \<open>Registering them\<close>

definition region_span :: "mem_region \<Rightarrow> span" where
  "region_span r = (unat (start_addr r), region_end r)"

definition span_frames :: "span list \<Rightarrow> nat" where
  "span_frames rs = (\<Sum>(s, e) \<leftarrow> rs. (e - s) div 4096)"

definition registered :: "mem_map \<Rightarrow> span list \<Rightarrow> bool" where
  "registered mm rs \<longleftrightarrow> reg_inv mm \<and> no_padding mm \<and> map region_span (mm_regions mm) = rs \<and>
     unat (bm_size (bitmap mm)) = span_frames rs"

lemma registered_length: "registered mm rs \<Longrightarrow> length rs = unat (region_count mm)"
  by (auto simp: registered_def mm_regions_def reg_inv_def)

lemma registered_nth: "registered mm rs \<Longrightarrow> i < length rs \<Longrightarrow> region_span (regions mm ! i) = rs ! i"
  using registered_length [of mm rs] by (auto simp: registered_def mm_regions_def)

lemma reg_inv_mem_size: "reg_inv (mm\<lparr>mem_size := x\<rparr>) = reg_inv mm"
  by (simp add: reg_inv_def)

lemma registered_mem_size: "registered (mm\<lparr>mem_size := x\<rparr>) rs = registered mm rs"
  by (simp add: registered_def reg_inv_def no_padding_def mm_regions_def)

lemma register_span:
  assumes reg: "registered mm rs" and ok: "spans_ok (rs @ [(unat a, unat b)])"
    and dvd: "4096 dvd unat a" "4096 dvd unat b" and lt: "unat a < unat b"
  obtains mm' where "memmap_register_region mm a b = Some mm'" "registered mm' (rs @ [(unat a, unat b)])"
proof -
  let ?n = "unat (region_count mm)"
  have inv: "reg_inv mm" and room: "?n < MAX_MEM_REGIONS"
    using reg ok registered_length [OF reg] by (auto simp: registered_def spans_ok_def)
  have small: "unat b \<le> unat a + 4294967296" and len: "262144 dvd unat b - unat a"
    using ok by (auto simp: spans_ok_def span_ok_def)
  have "region_end (regions mm ! (?n - 1)) \<le> unat a" if "region_count mm \<noteq> 0"
  proof -
    have n: "?n - 1 < length rs" using registered_length [OF reg] last_index [OF that] by simp
    then have "snd (rs ! (?n - 1)) \<le> unat a" using ok by (auto simp: spans_ok_def sorted_wrt_append)
    then show ?thesis using registered_nth [OF reg n] by (metis region_span_def snd_conv)
  qed
  then have rok: "range_ok mm a b" using dvd lt small by (auto simp: range_ok_def)
  obtain mm' where mm': "memmap_register_region mm a b = Some mm'" "reg_inv mm'" "region_count mm' = region_count mm + 1"
    "take ?n (regions mm') = mm_regions mm" "start_addr (regions mm' ! ?n) = a" "region_end (regions mm' ! ?n) = unat b"
    using register_region [OF inv room rok] by blast
  have n1: "unat (region_count mm + 1) = Suc ?n"
    using room by (intro unat_Suc_less [of _ 255]) (simp add: MAX_MEM_REGIONS_def less_by_unat)
  have n: "?n < length (regions mm')" using mm'(2) room by (simp add: reg_inv_def)
  then have regs: "mm_regions mm' = mm_regions mm @ [regions mm' ! ?n]"
    by (simp add: mm_regions_def mm'(3,4) n1 take_Suc_conv_app_nth)
  have nf: "nframes (regions mm' ! ?n) = (unat b - unat a) div 4096"
    using mm'(5,6) by (simp add: nframes_def region_end_def)
  have words: "64 dvd (unat b - unat a) div 4096"
    using len by (auto elim!: dvdE)
  have "no_padding mm'" unfolding no_padding_def
  proof (intro allI impI)
    fix i assume "i < unat (region_count mm')"
    then consider "i < ?n" | "i = ?n" by (auto simp: mm'(3) n1 less_Suc_eq)
    then show "64 dvd nframes (regions mm' ! i)"
    proof cases
      case 1
      then have "regions mm' ! i = regions mm ! i" using mm'(4) n
        by (metis (no_types, lifting) mm_regions_def nth_take)
      then show ?thesis using 1 reg by (simp add: registered_def no_padding_def)
    qed (simp add: nf words)
  qed
  moreover have "unat (bm_size (bitmap mm')) = span_frames rs + (unat b - unat a) div 4096"
  proof -
    have eq: "mm' = mm\<lparr>mem_size := mem_size mm + (b - a), regions := (regions mm)[?n := new_region mm a b],
        bitmap := (bitmap mm)\<lparr>bm_size := bm_size (bitmap mm) + qword_count (new_region mm a b) * 64\<rparr>,
        region_count := region_count mm + 1\<rparr>" using register_eq [OF inv room, of a b] mm'(1) by simp
    have "nframes (new_region mm a b) = (unat b - unat a) div 4096"
      using nf n by (simp add: eq)
    then have "nslots (new_region mm a b) = (unat b - unat a) div 4096"
      using no_padding_len(2) [OF new_region_ok(1) [OF inv room rok]] words by simp
    then show ?thesis using new_region_ok(6) [OF inv room rok] reg by (simp add: eq registered_def)
  qed
  ultimately have "registered mm' (rs @ [(unat a, unat b)])"
    using reg mm'(2,5,6) by (simp add: registered_def regs region_span_def span_frames_def)
  with mm'(1) show thesis by (rule that)
qed

lemma rounded_entry:
  assumes "unat a + unat l + 4096 \<le> 18446744073709551616"
  shows "(unat (ALIGN_UP a DEFAULT_PAGE_SIZE), unat (ALIGN_DOWN (a + l) DEFAULT_PAGE_SIZE)) = entry_span (a, l, t)"
  using assms ALIGN_UP_4096 [of a] unat_ALIGN_DOWN [of 12 "a + l"]
  by (simp add: entry_span_def DEFAULT_PAGE_SIZE_def unat_add_u64)

lemma register_entry_registered:
  assumes reg: "registered mm rs" and ok: "spans_ok (rs @ spans [(a, l, t)])"
    and bound: "t = MULTIBOOT_MEMORY_AVAILABLE \<longrightarrow> unat a + unat l + 4096 \<le> 18446744073709551616"
  obtains mm' where "register_entry mm a l t = Some mm'" "registered mm' (rs @ spans [(a, l, t)])"
proof -
  let ?mm = "if a + l > mem_size mm then mm\<lparr>mem_size := a + l\<rparr> else mm"
  let ?s = "ALIGN_UP a DEFAULT_PAGE_SIZE" and ?e = "ALIGN_DOWN (a + l) DEFAULT_PAGE_SIZE"
  have reg1: "registered ?mm rs" using reg by (simp add: registered_mem_size)
  have eq: "t = MULTIBOOT_MEMORY_AVAILABLE \<Longrightarrow> entry_span (a, l, t) = (unat ?s, unat ?e)"
    using bound by (intro rounded_entry [symmetric]) simp
  consider (skip) "spans [(a, l, t)] = []" "t \<noteq> MULTIBOOT_MEMORY_AVAILABLE \<or> \<not> ?e > ?s"
    | (take) "spans [(a, l, t)] = [(unat ?s, unat ?e)]" "t = MULTIBOOT_MEMORY_AVAILABLE" "?e > ?s"
    using eq by (cases "t = MULTIBOOT_MEMORY_AVAILABLE"; cases "?e > ?s")
      (simp_all add: spans_def available_def nonempty_def less_by_unat)
  then show thesis
  proof cases
    case skip
    then have "register_entry mm a l t = Some ?mm" by (auto simp: register_entry_def Let_def)
    with reg1 show thesis by (intro that) (simp_all add: skip(1))
  next
    case take
    have pg: "4096 dvd fst (entry_span (a, l, t))" "4096 dvd snd (entry_span (a, l, t))" by (simp_all add: entry_span_def)
    have "4096 dvd unat ?s" "4096 dvd unat ?e" using pg unfolding eq [OF take(2)] by simp_all
    then obtain mm' where "memmap_register_region ?mm ?s ?e = Some mm'" "registered mm' (rs @ [(unat ?s, unat ?e)])"
      using register_span [OF reg1] ok take by (metis less_by_unat)
    with take show thesis by (intro that [of mm']) (simp_all add: register_entry_def Let_def)
  qed
qed

lemma entries_loop_registered:
  assumes tag: "mmap_tag m tag es" and ok: "entries_ok es" and i: "i \<le> length es" and reg: "registered mm (spans (take i es))"
  shows "\<exists>mm'. entries_loop m tag (mmap_entries tag + of_nat (unat (load32 m (mmap_entry_size tag)) * i)) mm = Some mm' \<and>
    registered mm' (spans es)"
  using i reg
proof (induction "length es - i" arbitrary: i mm)
  let ?w = "unat (load32 m (mmap_entry_size tag))" and ?s = "ucast (load32 m (tag_size tag)) :: u64"
  have w: "0 < ?w" "unat ?s = 16 + ?w * length es" "unat tag + 16 + ?w * length es < 18446744073709551616"
    using tag by (auto simp: mmap_tag_def Let_def unat_ucast_u32_u64)
  have stop: "unat (tag + ?s) = unat tag + 16 + ?w * length es" using w(2,3) by (simp add: unat_add_u64)
  have at: "unat (mmap_entries tag + of_nat (?w * i)) = unat tag + 16 + ?w * i" if "i \<le> length es" for i
  proof -
    have le: "?w * i \<le> ?w * length es" using that by (rule mult_le_mono2)
    have "unat (of_nat (?w * i) :: u64) = ?w * i" using le w(3) by (intro unat_of_nat_u64) linarith
    moreover have "unat (mmap_entries tag) = unat tag + 16" using w(3) by (simp add: mmap_entries_def unat_add_u64)
    moreover have "unat tag + 16 + ?w * i < 18446744073709551616" using le w(3) by linarith
    ultimately show ?thesis by (subst unat_add_u64) (simp_all only:)
  qed
  {
    case 0
    then have "i = length es" by simp
    then have "\<not> mmap_entries tag + of_nat (?w * i) < tag + ?s" unfolding less_by_unat stop by (simp only: at order_refl)
    then show ?case using 0 \<open>i = length es\<close> by (subst entries_loop.simps) simp
  next
    case (Suc d)
    let ?e = "mmap_entries tag + of_nat (?w * i)"
    have i: "i < length es" using Suc.hyps(2) by simp
    then have lt: "?e < tag + ?s" unfolding less_by_unat stop using w(1) by (simp only: at) simp
    obtain a l t where e: "es ! i = (a, l, t)" by (cases "es ! i")
    have ld: "load64 m (entry_addr ?e) = a" "load64 m (entry_len ?e) = l" "load32 m (entry_type ?e) = t"
      using tag i e unfolding mmap_tag_def Let_def by (metis prod.inject)+
    have split: "es = take i es @ [(a, l, t)] @ drop (Suc i) es" using i e by (metis append_Cons append_Nil id_take_nth_drop)
    have tk: "take (Suc i) es = take i es @ [(a, l, t)]" using i e by (simp add: take_Suc_conv_app_nth)
    have "spans_ok ((spans (take i es) @ spans [(a, l, t)]) @ spans (drop (Suc i) es))"
      using ok split by (metis append_assoc entries_ok_def spans_append)
    then have sp: "spans_ok (spans (take i es) @ spans [(a, l, t)])" by (rule spans_ok_append)
    have bound: "t = MULTIBOOT_MEMORY_AVAILABLE \<longrightarrow> unat a + unat l + 4096 \<le> 18446744073709551616"
      using ok nth_mem [OF i] unfolding e entries_ok_def by blast
    obtain mm1 where mm1: "register_entry mm a l t = Some mm1" "registered mm1 (spans (take (Suc i) es))"
      using register_entry_registered [OF Suc.prems(2) sp bound] unfolding tk spans_append by blast
    have nxt: "?e + ucast (load32 m (mmap_entry_size tag)) = mmap_entries tag + of_nat (?w * Suc i)"
      by (simp add: algebra_simps)
    obtain mm' where "entries_loop m tag (mmap_entries tag + of_nat (?w * Suc i)) mm1 = Some mm'" "registered mm' (spans es)"
    proof -
      have "d = length es - Suc i" "Suc i \<le> length es" using Suc.hyps(2) i by linarith+
      from Suc.hyps(1) [OF this mm1(2)] that show thesis by blast
    qed
    then have "entries_loop m tag ?e mm = Some mm'" by (subst entries_loop.simps) (simp only: lt if_True ld mm1(1) bind.simps nxt)
    then show ?case using \<open>registered mm' (spans es)\<close> by blast
  }
qed

section \<open>The finished map\<close>

text \<open>The frames that lie in one piece of an available entry.\<close>

definition usable_frame :: "entry list \<Rightarrow> nat \<Rightarrow> bool" where
  "usable_frame es f \<longleftrightarrow> 4096 dvd f \<and> (\<exists>(a, l, t) \<in> set es. t = MULTIBOOT_MEMORY_AVAILABLE \<and> unat a \<le> f \<and> f + 4096 \<le> unat a + unat l)"

lemma frame_in_rounded:
  fixes a b f :: nat
  shows "4096 dvd f \<Longrightarrow> a \<le> f \<and> f + 4096 \<le> b \<longleftrightarrow> (a + 4095) div 4096 * 4096 \<le> f \<and> f + 4096 \<le> b div 4096 * 4096"
proof -
  assume "4096 dvd f"
  then obtain q where q: "f = 4096 * q" by (rule dvdE)
  have "a \<le> 4096 * q \<longleftrightarrow> (a + 4095) div 4096 \<le> q" by linarith
  moreover have "4096 * q + 4096 \<le> b \<longleftrightarrow> Suc q \<le> b div 4096" by linarith
  moreover have "4096 * q + 4096 \<le> b div 4096 * 4096 \<longleftrightarrow> Suc q \<le> b div 4096" by linarith
  ultimately show ?thesis unfolding q by simp
qed

lemma usable_frame_spans:
  "usable_frame es f \<longleftrightarrow> 4096 dvd f \<and> (\<exists>(s, e) \<in> set (spans es). s \<le> f \<and> f + 4096 \<le> e)"
proof (cases "4096 dvd f")
  case True
  have "(case x of (a, l, t) \<Rightarrow> t = MULTIBOOT_MEMORY_AVAILABLE \<and> unat a \<le> f \<and> f + 4096 \<le> unat a + unat l) \<longleftrightarrow>
      available x \<and> fst (entry_span x) \<le> f \<and> f + 4096 \<le> snd (entry_span x)" for x
    using frame_in_rounded [OF True, of "unat (fst x)" "unat (fst x) + unat (fst (snd x))"]
    by (cases x) (auto simp: available_def entry_span_def)
  then have "usable_frame es f \<longleftrightarrow> (\<exists>x \<in> set es. available x \<and> fst (entry_span x) \<le> f \<and> f + 4096 \<le> snd (entry_span x))"
    using True by (simp add: usable_frame_def)
  also have "\<dots> \<longleftrightarrow> (\<exists>r \<in> set (spans es). fst r \<le> f \<and> f + 4096 \<le> snd r)"
    by (force simp: spans_def nonempty_def split_beta)
  finally show ?thesis using True by (simp add: split_beta)
qed (simp add: usable_frame_def)

lemma span_of_region:
  assumes "registered mm rs"
  shows "(s, e) \<in> set rs \<longleftrightarrow> (\<exists>i < unat (region_count mm). unat (start_addr (regions mm ! i)) = s \<and> region_end (regions mm ! i) = e)"
  using registered_nth [OF assms] unfolding in_set_conv_nth registered_length [OF assms]
  by (metis Pair_inject region_span_def)

lemma all_frames:
  assumes reg: "registered mm (spans es)"
  shows "{frame_at (regions mm ! i) k | i k. i < unat (region_count mm) \<and> k < nframes (regions mm ! i)} = {f. usable_frame es f}"
proof (rule set_eqI, unfold mem_Collect_eq)
  fix f
  have ok: "region_ok (regions mm ! i)" if "i < unat (region_count mm)" for i
    using reg that by (simp add: registered_def reg_inv_def)
  have one: "(\<exists>k < nframes r. f = frame_at r k) \<longleftrightarrow> 4096 dvd f \<and> unat (start_addr r) \<le> f \<and> f + 4096 \<le> region_end r"
    if r: "region_ok r" for r
  proof -
    obtain q where q: "unat (start_addr r) = 4096 * q" using r by (auto simp: region_ok_def)
    have "4096 dvd f \<and> 4096 * q \<le> f \<and> f + 4096 \<le> 4096 * q + 4096 * nframes r \<longleftrightarrow> (\<exists>k < nframes r. f = 4096 * q + 4096 * k)"
    proof
      assume f: "4096 dvd f \<and> 4096 * q \<le> f \<and> f + 4096 \<le> 4096 * q + 4096 * nframes r"
      then obtain p where "f = 4096 * p" by (auto elim: dvdE)
      with f show "\<exists>k < nframes r. f = 4096 * q + 4096 * k" by (intro exI [of _ "p - q"]) auto
    qed auto
    then show ?thesis by (auto simp: frame_at_def region_end_eq [OF r] q)
  qed
  show "(\<exists>i k. f = frame_at (regions mm ! i) k \<and> i < unat (region_count mm) \<and> k < nframes (regions mm ! i)) \<longleftrightarrow> usable_frame es f"
    unfolding usable_frame_spans using one [OF ok] span_of_region [OF reg] by (auto simp: Bex_def) blast+
qed

text \<open>The memory map and its bitmap lie behind the kernel image.  \<open>bitmap_stop\<close> is where the bitmap really ends,
  with one bit per frame; \<open>kernel_stop\<close> is where the range ends that the code reserves: it adds the size of the bitmap,
  a number of bits, as bytes.\<close>

definition bitmap_stop :: "entry list \<Rightarrow> u64 \<Rightarrow> u64" where
  "bitmap_stop es kernel_end = KERNEL_VIRT_TO_PHYS (bitmap_data_at kernel_end + of_nat (span_frames (spans es) div 8))"

definition kernel_stop :: "entry list \<Rightarrow> u64 \<Rightarrow> u64" where
  "kernel_stop es kernel_end =
     KERNEL_VIRT_TO_PHYS (ALIGN_UP (bitmap_data_at kernel_end + of_nat (span_frames (spans es))) DEFAULT_PAGE_SIZE)"

definition kernel_fits :: "entry list \<Rightarrow> u64 \<Rightarrow> u64 \<Rightarrow> bool" where
  "kernel_fits es kernel_start kernel_end \<longleftrightarrow>
     unat (ALIGN_DOWN kernel_start DEFAULT_PAGE_SIZE) < unat (kernel_stop es kernel_end) \<and>
     (\<exists>(s, e) \<in> set (spans es). s \<le> unat (ALIGN_DOWN kernel_start DEFAULT_PAGE_SIZE) \<and> unat (kernel_stop es kernel_end) \<le> e)"

lemma pages_aligned:
  "4096 dvd unat (ALIGN_DOWN x DEFAULT_PAGE_SIZE)" "4096 dvd unat (KERNEL_VIRT_TO_PHYS (ALIGN_UP x DEFAULT_PAGE_SIZE))"
proof -
  show down: "4096 dvd unat (ALIGN_DOWN x DEFAULT_PAGE_SIZE)" for x
    using unat_ALIGN_DOWN [of 12 x] by (simp add: DEFAULT_PAGE_SIZE_def)
  have up: "4096 dvd unat (ALIGN_UP x DEFAULT_PAGE_SIZE)"
    using down [of "x + DEFAULT_PAGE_SIZE - 1"] by (simp add: ALIGN_UP_def ALIGN_DOWN_def)
  have "KERNEL_VIRT_TO_PHYS y = y + 0x80000000" for y by (simp add: KERNEL_VIRT_TO_PHYS_def KERNEL_VMA_def)
  then have "unat (KERNEL_VIRT_TO_PHYS y) = (unat y + 0x80000000) mod 18446744073709551616" for y
    by (simp add: unat_word_ariths)
  moreover have "4096 dvd (unat (ALIGN_UP x DEFAULT_PAGE_SIZE) + 0x80000000) mod 18446744073709551616"
    using up by (intro dvd_mod dvd_add) simp_all
  ultimately show "4096 dvd unat (KERNEL_VIRT_TO_PHYS (ALIGN_UP x DEFAULT_PAGE_SIZE))" by simp
qed

lemma block_mem: "4096 dvd a \<Longrightarrow> x \<in> block a n \<longleftrightarrow> 4096 dvd x \<and> a \<le> x \<and> x < a + 4096 * n"
proof -
  assume "4096 dvd a"
  then obtain q where q: "a = 4096 * q" by (rule dvdE)
  have "(\<exists>j < n. x = 4096 * q + 4096 * j) \<longleftrightarrow> 4096 dvd x \<and> 4096 * q \<le> x \<and> x < 4096 * q + 4096 * n"
  proof
    assume x: "4096 dvd x \<and> 4096 * q \<le> x \<and> x < 4096 * q + 4096 * n"
    then obtain p where "x = 4096 * p" by (auto elim: dvdE)
    with x show "\<exists>j < n. x = 4096 * q + 4096 * j" by (intro exI [of _ "p - q"]) auto
  qed auto
  then show ?thesis by (auto simp: block_def q)
qed

lemma kernel_reserved:
  assumes wf: "mm_wf mm" and free: "\<forall>k < nframes (regions mm ! i). free_slot mm i k"
    and a: "4096 dvd unat a" "4096 dvd unat b" "unat a < unat b"
    and i: "i < unat (region_count mm)" "unat (start_addr (regions mm ! i)) \<le> unat a" "unat b \<le> region_end (regions mm ! i)"
  obtains mm' where "set_mem_region mm a b = Some (0, mm')" "mm_wf mm'"
    "map region_span (mm_regions mm') = map region_span (mm_regions mm)" "length (regions mm') = length (regions mm)"
    "free_set mm' = {f \<in> free_set mm. \<not> (unat a \<le> f \<and> f < unat b)}"
proof -
  let ?r = "regions mm ! i"
  have lay: "layout_ok mm" using wf by (simp add: mm_wf_nth)
  note region = layout_region(1) [OF lay mm_regions_mem [OF lay i(1)]]
  have "4096 dvd unat (start_addr ?r)" using region by (simp add: region_ok_def)
  then obtain q qa qb where q: "unat (start_addr ?r) = 4096 * q" "unat a = 4096 * qa" "unat b = 4096 * qb"
    using a(1,2) by (auto elim!: dvdE)
  let ?s = "qa - q"
  define w :: u64 where "w = of_nat (qb - qa)"
  have n: "unat w = qb - qa" using q(3) u64_bound [of b] unfolding w_def by (intro unat_of_nat_u64) simp
  have fits: "?s + (qb - qa) \<le> nframes ?r" "frame_at ?r ?s = unat a"
    using i(2,3) a(3) q by (simp_all add: region_end_eq [OF region] frame_at_def)
  have fb: "free_block mm i ?s (unat w)" using free fits(1) by (simp add: free_block_def n)
  have pos: "0 < unat w" using a(3) q unfolding n by simp
  have "unat (frame_addr ?r (of_nat ?s)) = unat a" using frame_addr_unat [OF wf fb pos] fits(2) by simp
  then have fa: "frame_addr ?r (of_nat ?s) = a" by (simp only: word_eq_by_unat)
  have "unat (a + w * DEFAULT_PAGE_SIZE) = unat b"
    using n q a(3) u64_bound [of b] by (simp add: unat_add_u64 unat_mult_u64 DEFAULT_PAGE_SIZE_def)
  then have fe: "a + w * DEFAULT_PAGE_SIZE = b" by (simp only: word_eq_by_unat)
  have npos: "0 < w" using pos by (simp only: word_gt_0 unat_gt_0)
  obtain mm' where mm': "set_mem_region mm a b = Some (0, mm')"
    "frames_written mm i ?s (unat w) True (free_frames ?r - w) mm'" "mm_wf mm'"
    by (rule set_allocated [OF wf fb npos]) (simp only: fa fe)
  have sum: "unat a + 4096 * (qb - qa) = unat b" using q a(3) by simp
  have "block (unat a) (qb - qa) \<inter> free_set mm = {f \<in> free_set mm. unat a \<le> f \<and> f < unat b}"
    using free_set_aligned [OF wf] unfolding set_eq_iff Int_iff mem_Collect_eq block_mem [OF a(1)] sum by blast
  moreover have "free_set mm' = free_set mm - block (unat a) (qb - qa)"
    using written_free_set [OF mm'(2) lay i(1)] fits by (simp add: n)
  ultimately have fs: "free_set mm' = {f \<in> free_set mm. \<not> (unat a \<le> f \<and> f < unat b)}" by blast
  obtain b' where eq: "mm' = mm\<lparr>regions := (regions mm)[i := ?r\<lparr>free_frames := free_frames ?r - w\<rparr>], bitmap := b'\<rparr>"
    using mm'(2) unfolding frames_written_def by blast
  have "map region_span (regions mm') = map region_span (regions mm)"
    unfolding eq by (simp add: region_span_def region_end_def map_list_update_same)
  then have "map region_span (mm_regions mm') = map region_span (mm_regions mm)"
    unfolding mm_regions_def take_map [symmetric] by (simp add: eq)
  with mm'(1,3) fs show thesis by (intro that) (simp_all add: eq)
qed

definition kernel_high :: "entry list \<Rightarrow> u64 \<Rightarrow> bool" where
  "kernel_high es kernel_end \<longleftrightarrow>
     KERNEL_VMA \<le> kernel_end \<and> unat kernel_end + 1304 + span_frames (spans es) + 4096 \<le> 18446744073709551616"

lemma unat_virt_to_phys: "KERNEL_VMA \<le> p \<Longrightarrow> unat (KERNEL_VIRT_TO_PHYS p) = unat p - unat KERNEL_VMA"
  by (simp add: KERNEL_VIRT_TO_PHYS_def unat_sub)

lemma bitmap_before_stop:
  assumes "kernel_high es kernel_end"
  shows "unat (bitmap_stop es kernel_end) \<le> unat (kernel_stop es kernel_end)"
proof -
  let ?n = "span_frames (spans es)"
  have hi: "unat KERNEL_VMA \<le> unat kernel_end" and room: "unat kernel_end + 1304 + ?n + 4096 \<le> 18446744073709551616"
    using assms by (simp_all add: kernel_high_def le_by_unat)
  have data: "unat (bitmap_data_at kernel_end + of_nat n) = unat kernel_end + 1304 + n" if "n \<le> ?n" for n
  proof -
    have "unat (bitmap_data_at kernel_end) = unat kernel_end + 1304" using room by (simp add: bitmap_data_at_def unat_add_u64)
    moreover have "unat (of_nat n :: u64) = n" using that room by (intro unat_of_nat_u64) linarith
    moreover have "unat kernel_end + 1304 + n < 18446744073709551616" using that room by linarith
    ultimately show ?thesis by (subst unat_add_u64) (simp_all only:)
  qed
  have up: "unat kernel_end + 1304 + ?n \<le> unat (ALIGN_UP (bitmap_data_at kernel_end + of_nat ?n) DEFAULT_PAGE_SIZE)"
    using room data [of ?n] ALIGN_UP_4096 [of "bitmap_data_at kernel_end + of_nat ?n"] by (simp add: DEFAULT_PAGE_SIZE_def)
  show ?thesis unfolding bitmap_stop_def kernel_stop_def
    using hi up data [of "?n div 8"] by (subst (1 2) unat_virt_to_phys) (simp_all add: le_by_unat)
qed

text \<open>The reserved range covers the image and the bitmap.\<close>

lemma image_reserved:
  assumes "kernel_high es kernel_end" "4096 dvd f"
    and "\<not> (unat (ALIGN_DOWN kernel_start DEFAULT_PAGE_SIZE) \<le> f \<and> f < unat (kernel_stop es kernel_end))"
  shows "f + 4096 \<le> unat kernel_start \<or> unat (bitmap_stop es kernel_end) \<le> f"
proof -
  have down: "unat (ALIGN_DOWN kernel_start DEFAULT_PAGE_SIZE) = unat kernel_start div 4096 * 4096"
    using unat_ALIGN_DOWN [of 12 kernel_start] by (simp add: DEFAULT_PAGE_SIZE_def)
  from assms(2) obtain p where p: "f = 4096 * p" by (rule dvdE)
  have "f + 4096 \<le> unat kernel_start" if "f < unat kernel_start div 4096 * 4096"
  proof -
    have "p < unat kernel_start div 4096" using that p by simp
    then have "Suc p * 4096 \<le> unat kernel_start div 4096 * 4096" by (intro mult_le_mono1) simp
    also have "\<dots> \<le> unat kernel_start" by simp
    finally show ?thesis using p by simp
  qed
  then show ?thesis using assms(3) bitmap_before_stop [OF assms(1)] down by linarith
qed

lemma memory_map_built:
  assumes tag: "mmap_tag m tag es" and ok: "entries_ok es" and len: "length (regions mm) = MAX_MEM_REGIONS"
    and fits: "kernel_fits es kernel_start kernel_end"
  shows "\<exists>mm'. mb2_memory_map m mm tag kernel_start kernel_end = Some (0, mm') \<and> mm_wf mm' \<and>
     map region_span (mm_regions mm') = spans es \<and> length (regions mm') = MAX_MEM_REGIONS \<and>
     free_set mm' = {f. usable_frame es f \<and>
       \<not> (unat (ALIGN_DOWN kernel_start DEFAULT_PAGE_SIZE) \<le> f \<and> f < unat (kernel_stop es kernel_end))}"
proof -
  let ?mm0 = "mm\<lparr>region_count := 0, mem_size := 0, bitmap := (bitmap mm)\<lparr>bm_size := 0\<rparr>\<rparr>"
  have "registered ?mm0 (spans (take 0 es))"
    using len by (simp add: registered_def reg_inv_def no_padding_def mm_regions_def spans_def span_frames_def)
  then obtain mm1 where mm1: "entries_loop m tag (mmap_entries tag) ?mm0 = Some mm1" "registered mm1 (spans es)"
    using entries_loop_registered [OF tag ok, of 0] by auto
  let ?a = "ALIGN_DOWN kernel_start DEFAULT_PAGE_SIZE" and ?b = "kernel_stop es kernel_end"
  obtain s e where se: "(s, e) \<in> set (spans es)" "s \<le> unat ?a" "unat ?b \<le> e" "unat ?a < unat ?b"
    using fits by (auto simp: kernel_fits_def)
  obtain i where i: "i < unat (region_count mm1)" "unat (start_addr (regions mm1 ! i)) = s" "region_end (regions mm1 ! i) = e"
    using se(1) span_of_region [OF mm1(2)] by blast
  have inv: "reg_inv mm1" "no_padding mm1" using mm1(2) by (simp_all add: registered_def)
  have "0 < region_count mm1" using i(1) by (cases "region_count mm1 = 0") (simp_all add: word_gt_0)
  then obtain mm2 where mm2: "zero_mem_map mm1 = Some mm2" "mm_wf mm2"
    "free_set mm2 = {frame_at (regions mm1 ! i) k | i k. i < unat (region_count mm1) \<and> k < nframes (regions mm1 ! i)}"
    "regions mm2 = regions mm1" "region_count mm2 = region_count mm1" "bm_size (bitmap mm2) = bm_size (bitmap mm1)"
    using zero_mem_map_clears [OF inv(1) _ inv(2)] by blast
  have lay: "layout_ok mm2" using mm2(2) by (simp add: mm_wf_nth)
  have free: "\<forall>k < nframes (regions mm2 ! i). free_slot mm2 i k"
  proof (intro allI impI)
    fix k assume k: "k < nframes (regions mm2 ! i)"
    have "frame_at (regions mm2 ! i) k \<in> free_set mm2" unfolding mm2(3) using i(1) k mm2(4) by auto
    then obtain j l where jl: "frame_at (regions mm2 ! i) k = frame_at (regions mm2 ! j) l" "free_slot mm2 j l"
      unfolding free_set_def by blast
    then have "i = j \<and> k = l" using i(1) k mm2(5) by (intro frame_at_inj [OF lay]) (simp_all add: free_slot_def)
    then show "free_slot mm2 i k" using jl(2) by simp
  qed
  have b: "?b = KERNEL_VIRT_TO_PHYS (ALIGN_UP (bitmap_data_at kernel_end + bm_size (bitmap mm2)) DEFAULT_PAGE_SIZE)"
  proof -
    have "of_nat (span_frames (spans es)) = bm_size (bitmap mm2)"
      using mm1(2) mm2(6) as_of_nat [of "bm_size (bitmap mm1)"] by (simp add: registered_def)
    then show ?thesis by (simp add: kernel_stop_def)
  qed
  have al: "4096 dvd unat ?a" "4096 dvd unat ?b" unfolding kernel_stop_def by (rule pages_aligned)+
  obtain mm' where mm': "set_mem_region mm2 ?a ?b = Some (0, mm')" "mm_wf mm'"
    "map region_span (mm_regions mm') = map region_span (mm_regions mm2)" "length (regions mm') = length (regions mm2)"
    "free_set mm' = {f \<in> free_set mm2. \<not> (unat ?a \<le> f \<and> f < unat ?b)}"
    by (rule kernel_reserved [OF mm2(2) free al se(4)]) (use i se mm2(4,5) in simp_all)
  have "mb2_memory_map m mm tag kernel_start kernel_end = Some (0, mm')"
    by (simp add: mb2_memory_map_def Let_def mm1(1) mm2(1) mm'(1) flip: b)
  moreover have "free_set mm2 = {f. usable_frame es f}" unfolding mm2(3) by (rule all_frames [OF mm1(2)])
  moreover have "map region_span (mm_regions mm2) = spans es" "length (regions mm2) = MAX_MEM_REGIONS"
    using mm1(2) mm2(4,5) by (auto simp: registered_def mm_regions_def reg_inv_def)
  ultimately show ?thesis using mm'(2-5) by (intro exI [of _ mm']) simp
qed

section \<open>The claim\<close>

text \<open>Boot information at \<open>0x9000\<close> with one reserved entry and 63 MiB from 1 MiB on.\<close>

definition boot_mem :: mem where
  "boot_mem = (\<lambda>_. 0)(0x9000 := 6, 0x9004 := 64, 0x9008 := 24, 0x901A := 0x10, 0x9020 := 2,
     0x902A := 0x10, 0x9032 := 0xF0, 0x9033 := 3, 0x9038 := 1)"

definition boot_entries :: "entry list" where
  "boot_entries = [(0, 0x100000, 2), (0x100000, 0x3F00000, 1)]"

lemma boot_loads:
  "load32 boot_mem 0x9004 = 64" "load32 boot_mem 0x9008 = 24" "load64 boot_mem 0x9010 = 0" "load64 boot_mem 0x9018 = 0x100000"
  "load32 boot_mem 0x9020 = 2" "load64 boot_mem 0x9028 = 0x100000" "load64 boot_mem 0x9030 = 0x3F00000" "load32 boot_mem 0x9038 = 1"
  by code_simp+

lemma boot_tag: "mmap_tag boot_mem 0x9000 boot_entries"
  by (simp add: mmap_tag_def boot_entries_def mmap_entry_size_def tag_size_def mmap_entries_def entry_addr_def entry_len_def
      entry_type_def boot_loads less_Suc_eq)

lemma boot_spans: "spans boot_entries = [(0x100000, 0x4000000)]"
  by (simp add: spans_def boot_entries_def available_def entry_span_def nonempty_def MULTIBOOT_MEMORY_AVAILABLE_def)

lemma boot_ok: "entries_ok boot_entries"
  unfolding entries_ok_def boot_spans
  by (simp add: boot_entries_def spans_ok_def span_ok_def MAX_MEM_REGIONS_def)

lemma boot_stop: "kernel_stop boot_entries (KERNEL_PHYS_TO_VIRT 0x200000) = 0x205000"
  unfolding kernel_stop_def boot_spans
  by (simp add: span_frames_def bitmap_data_at_def KERNEL_PHYS_TO_VIRT_def KERNEL_VIRT_TO_PHYS_def KERNEL_VMA_def
      ALIGN_UP_def DEFAULT_PAGE_SIZE_def)

lemma boot_fits: "kernel_fits boot_entries 0x100000 (KERNEL_PHYS_TO_VIRT 0x200000)"
  unfolding kernel_fits_def boot_stop boot_spans by (simp add: ALIGN_DOWN_def DEFAULT_PAGE_SIZE_def)

lemma boot_bitmap: "bitmap_stop boot_entries (KERNEL_PHYS_TO_VIRT 0x200000) = 0x200CF8"
  unfolding bitmap_stop_def boot_spans
  by (simp add: span_frames_def bitmap_data_at_def KERNEL_PHYS_TO_VIRT_def KERNEL_VIRT_TO_PHYS_def KERNEL_VMA_def)

lemma boot_high: "kernel_high boot_entries (KERNEL_PHYS_TO_VIRT 0x200000)"
  unfolding kernel_high_def boot_spans by (simp add: span_frames_def KERNEL_PHYS_TO_VIRT_def KERNEL_VMA_def word_le_nat_alt)

text \<open>C7. Parsing the memory map tag gives a well-formed map whose regions are the page-rounded usable
  ranges, and whose free frames are exactly the whole frames inside an available entry, less those of one reserved
  range.  That range starts with the frame of the first byte of the kernel image and, for a kernel in the top 2 GiB,
  covers the image and the bitmap behind it, so that no free frame meets either.  It is larger than the two: its end
  \<open>kernel_stop\<close> counts a byte for every bit of the bitmap, and the frames between the real end \<open>bitmap_stop\<close> and it are
  lost (\<open>bitmap_frames_lost\<close> below).  The usable ranges are in order, apart, made of 64-frame words and at most
  4 GiB each.\<close>

theorem memory_map_from_boot_info:
  assumes "mmap_tag m tag es" "entries_ok es" "length (regions mm) = MAX_MEM_REGIONS"
    "kernel_fits es kernel_start kernel_end"
  shows "\<exists>mm'. mb2_memory_map m mm tag kernel_start kernel_end = Some (0, mm') \<and> mm_wf mm' \<and>
     map region_span (mm_regions mm') = spans es \<and>
     free_set mm' = {f. usable_frame es f \<and>
       \<not> (unat (ALIGN_DOWN kernel_start DEFAULT_PAGE_SIZE) \<le> f \<and> f < unat (kernel_stop es kernel_end))} \<and>
     (kernel_high es kernel_end \<longrightarrow>
       (\<forall>f \<in> free_set mm'. f + 4096 \<le> unat kernel_start \<or> unat (bitmap_stop es kernel_end) \<le> f))"
proof -
  from memory_map_built [OF assms] obtain mm' where mm': "mb2_memory_map m mm tag kernel_start kernel_end = Some (0, mm')"
    "mm_wf mm'" "map region_span (mm_regions mm') = spans es"
    "free_set mm' = {f. usable_frame es f \<and>
       \<not> (unat (ALIGN_DOWN kernel_start DEFAULT_PAGE_SIZE) \<le> f \<and> f < unat (kernel_stop es kernel_end))}" by blast
  moreover have "f + 4096 \<le> unat kernel_start \<or> unat (bitmap_stop es kernel_end) \<le> f"
    if "kernel_high es kernel_end" "f \<in> free_set mm'" for f
    using image_reserved [OF that(1)] that(2) unfolding mm'(4) usable_frame_spans by blast
  ultimately show ?thesis by blast
qed

theorem memory_map_from_boot_info_witness:
  "\<exists>mm'. mb2_memory_map boot_mem empty_map 0x9000 0x100000 (KERNEL_PHYS_TO_VIRT 0x200000) = Some (0, mm') \<and> mm_wf mm' \<and>
     map region_span (mm_regions mm') = [(0x100000, 0x4000000)] \<and>
     free_set mm' = {f. usable_frame boot_entries f \<and> \<not> (0x100000 \<le> f \<and> f < 0x205000)} \<and>
     (\<forall>f \<in> free_set mm'. f + 4096 \<le> 0x100000 \<or> 0x200CF8 \<le> f)"
proof -
  have "length (regions empty_map) = MAX_MEM_REGIONS" by (simp add: empty_map_def MAX_MEM_REGIONS_def)
  from memory_map_from_boot_info [OF boot_tag boot_ok this boot_fits]
  show ?thesis by (simp add: boot_stop boot_spans boot_high boot_bitmap) (simp add: ALIGN_DOWN_def DEFAULT_PAGE_SIZE_def)
qed

text \<open>What the wrong unit costs here: the image and the bitmap end at \<open>0x200CF8\<close>, yet the four frames from
  \<open>0x201000\<close> on, all of them usable, are not free.\<close>

theorem bitmap_frames_lost:
  "bitmap_stop boot_entries (KERNEL_PHYS_TO_VIRT 0x200000) = 0x200CF8 \<and>
   (\<exists>mm'. mb2_memory_map boot_mem empty_map 0x9000 0x100000 (KERNEL_PHYS_TO_VIRT 0x200000) = Some (0, mm') \<and>
     (\<forall>f \<in> {0x201000, 0x202000, 0x203000, 0x204000}. usable_frame boot_entries f \<and> f \<notin> free_set mm') \<and>
     0x205000 \<in> free_set mm')"
proof -
  have len: "length (regions empty_map) = MAX_MEM_REGIONS" by (simp add: empty_map_def MAX_MEM_REGIONS_def)
  have usable: "usable_frame boot_entries f \<longleftrightarrow> 4096 dvd f \<and> 0x100000 \<le> f \<and> f + 4096 \<le> 0x4000000" for f
    by (simp add: usable_frame_spans boot_spans)
  have down: "unat (ALIGN_DOWN 0x100000 DEFAULT_PAGE_SIZE) = 0x100000" by (simp add: ALIGN_DOWN_def DEFAULT_PAGE_SIZE_def)
  from memory_map_built [OF boot_tag boot_ok len boot_fits]
  obtain mm' where "mb2_memory_map boot_mem empty_map 0x9000 0x100000 (KERNEL_PHYS_TO_VIRT 0x200000) = Some (0, mm')"
    "free_set mm' = {f. usable_frame boot_entries f \<and> \<not> (0x100000 \<le> f \<and> f < 0x205000)}"
    unfolding down boot_stop by auto
  then show ?thesis by (intro conjI exI [of _ mm'] boot_bitmap) (simp_all add: usable)
qed

end
