(* ===== verification/Multiboot_Props.thy ===== *)
theory Multiboot_Props
  imports Boot_Map
begin

text \<open>
  What the boot information turns into: the physical memory map and the direct map of all usable memory.
\<close>

section \<open>Regions stay where they are\<close>

definition same_shape :: "mem_map \<Rightarrow> mem_map \<Rightarrow> bool" where
  "same_shape mm mm' \<longleftrightarrow> region_count mm' = region_count mm \<and>
     map (\<lambda>r. (start_addr r, len_bytes r)) (regions mm') = map (\<lambda>r. (start_addr r, len_bytes r)) (regions mm)"

lemma same_shape_refl [simp]: "same_shape mm mm"
  by (simp add: same_shape_def)

lemma same_shape_trans: "same_shape a b \<Longrightarrow> same_shape b c \<Longrightarrow> same_shape a c"
  by (simp add: same_shape_def)

lemma same_shapeD:
  assumes "same_shape mm mm'"
  shows "region_count mm' = region_count mm" "length (regions mm') = length (regions mm)"
    "i < length (regions mm) \<Longrightarrow> start_addr (regions mm' ! i) = start_addr (regions mm ! i)"
    "i < length (regions mm) \<Longrightarrow> len_bytes (regions mm' ! i) = len_bytes (regions mm ! i)"
proof -
  show "region_count mm' = region_count mm" using assms by (simp add: same_shape_def)
  show len: "length (regions mm') = length (regions mm)" using assms map_eq_imp_length_eq by (auto simp: same_shape_def)
  assume i: "i < length (regions mm)"
  have "map (\<lambda>r. (start_addr r, len_bytes r)) (regions mm') ! i = map (\<lambda>r. (start_addr r, len_bytes r)) (regions mm) ! i"
    using assms by (simp add: same_shape_def)
  with i len show "start_addr (regions mm' ! i) = start_addr (regions mm ! i)" "len_bytes (regions mm' ! i) = len_bytes (regions mm ! i)"
    by simp_all
qed

lemma set_mem_region_shape:
  assumes "set_mem_region mm a b = Some (e, mm')"
  shows "same_shape mm mm'"
  using assms
  by (auto simp: set_mem_region_def same_shape_def bind_eq_Some Let_def map_list_update_same
      split: if_splits option.splits)

lemma alloc_loop_shape: "alloc_loop mm n i = Some (f, mm') \<Longrightarrow> same_shape mm mm'"
proof (induction "unat (region_count mm) - i" arbitrary: i)
  case 0
  then show ?case by (subst (asm) alloc_loop.simps) simp
next
  case (Suc d)
  note IH = Suc.hyps(1) [of "Suc i"]
  from Suc.prems Suc.hyps(2) show ?case
    by (subst (asm) alloc_loop.simps)
       (auto simp: bind_eq_Some split: if_splits option.splits dest: set_mem_region_shape intro: IH)
qed

lemma need_table_shape:
  assumes "need_table k ea = Some (ok, k')"
  shows "same_shape (kmmap k) (kmmap k')"
  using assms
  by (auto simp: need_table_def ialloc_kframe_def map_alloc_frame_contiguous_def store_entry_def bind_eq_Some Let_def
      split: if_splits dest: alloc_loop_shape)

lemma need_then_shape:
  assumes "Option.bind (need_table k ea) (\<lambda>(ok, k1). if \<not> ok then Some (- 1, k1) else F k1) = Some (e, k')"
    and "kmmap k = mm" and "\<And>k1. F k1 = Some (e, k') \<Longrightarrow> same_shape (kmmap k1) (kmmap k')"
  shows "same_shape mm (kmmap k')"
  using assms by (fastforce simp: bind_eq_Some split: if_splits dest: need_table_shape intro: same_shape_trans)

lemma leaf_end_shape: "Some (0, k1) = Some (e :: int, k') \<Longrightarrow> kmmap k1 = mm \<Longrightarrow> same_shape mm (kmmap k')"
  by auto

lemma page_in_shape:
  assumes "page_in k r va pa sz p = Some (e, k')"
  shows "same_shape (kmmap k) (kmmap k')"
proof -
  have sizes: "(SUPER_PS = HUGE_PS) = False" "(HUGE_PS = SUPER_PS) = False" by (simp_all add: SUPER_PS_def HUGE_PS_def)
  have same: "kmmap (upper_perms k1 ea p) = kmmap k1" "kmmap k1 = kmmap k1" for k1 ea by simp_all
  consider (one) "(sz = SUPER_PS) = True" | (two) "(sz = SUPER_PS) = False" "(sz = HUGE_PS) = True"
    | (three) "(sz = SUPER_PS) = False" "(sz = HUGE_PS) = False" by blast
  then show ?thesis
  proof cases
    case one
    show ?thesis using assms unfolding page_in_def Let_def one if_True
      by (elim need_then_shape leaf_end_shape same; simp)
  next
    case two
    show ?thesis using assms unfolding page_in_def Let_def two if_True if_False
      by (elim need_then_shape leaf_end_shape same; simp)
  next
    case three
    show ?thesis using assms unfolding page_in_def Let_def three if_False
      by (elim need_then_shape leaf_end_shape same; simp)
  qed
qed

section \<open>Large pages of the direct map\<close>

lemma nat_mod_eq_iff_add: "(a + w) mod m = (b + w) mod (m :: nat) \<longleftrightarrow> a mod m = b mod m"
proof
  assume "(a + w) mod m = (b + w) mod m"
  then have "int (a + w) mod int m = int (b + w) mod int m" by (simp only: of_nat_mod [symmetric])
  then have "(int (a + w) - int w) mod int m = (int (b + w) - int w) mod int m" by (rule mod_diff_cong) simp
  then show "a mod m = b mod m" by (simp flip: of_nat_mod)
qed (metis mod_add_cong)

lemma unat_drop_21: "unat (drop_bit 21 (x :: u64)) = unat x div 2097152"
  by (simp only: unat_drop_bit_eq) (simp add: drop_bit_eq_div)

lemma huge_index:
  "unat (drop_bit 21 (take_bit 48 (KERNEL_PHYS_TO_VIRT x))) = (unat x div 2097152 + 8796093021184) mod 134217728"
proof -
  have "unat (take_bit 48 (KERNEL_PHYS_TO_VIRT x)) = (unat x + 8796093021184 * 2097152) mod 18446744073709551616 mod 281474976710656"
    by (simp only: unsigned_take_bit_eq) (simp add: take_bit_eq_mod unat_word_ariths KERNEL_PHYS_TO_VIRT_def KERNEL_VMA_def)
  also have "\<dots> = (unat x + 8796093021184 * 2097152) mod (2097152 * 134217728)" by (subst mod_mod_cancel) simp_all
  finally have "unat (drop_bit 21 (take_bit 48 (KERNEL_PHYS_TO_VIRT x))) =
      (unat x + 8796093021184 * 2097152) mod (2097152 * 134217728) div 2097152"
    by (simp only: unat_drop_21)
  also have "\<dots> = (unat x + 8796093021184 * 2097152) div 2097152 mod 134217728"
    by (subst mod_mult2_eq) simp
  also have "(unat x + 8796093021184 * 2097152) div 2097152 = unat x div 2097152 + 8796093021184"
    by (rule div_mult_self1 [THEN trans]) simp_all
  finally show ?thesis .
qed

lemma same_huge_iff:
  "same_page HUGE_PS (KERNEL_PHYS_TO_VIRT x) (KERNEL_PHYS_TO_VIRT y) \<longleftrightarrow>
     unat x div 2097152 mod 134217728 = unat y div 2097152 mod 134217728"
proof -
  have "same_page HUGE_PS (KERNEL_PHYS_TO_VIRT x) (KERNEL_PHYS_TO_VIRT y) \<longleftrightarrow>
      (unat x div 2097152 + 8796093021184) mod 134217728 = (unat y div 2097152 + 8796093021184) mod 134217728"
    unfolding same_page_iff(2) word_eq_by_unat huge_index ..
  also have "\<dots> \<longleftrightarrow> unat x div 2097152 mod 134217728 = unat y div 2097152 mod 134217728"
    by (rule nat_mod_eq_iff_add)
  finally show ?thesis .
qed

lemma ppn_of_huge:
  assumes "2097152 dvd unat x" "2097152 dvd unat y" "unat x div 2097152 mod 134217728 = unat y div 2097152 mod 134217728"
  shows "ppn_of x = ppn_of y"
proof -
  have ppn: "unat (ppn_of z) = 512 * (q mod 524288)" if "unat z = 2097152 * q" for z q
  proof -
    have "unat (ppn_of z) = unat z div 4096 mod 268435456"
      by (simp only: ppn_of_def unsigned_take_bit_eq unat_drop_bit_eq) (simp add: take_bit_eq_mod drop_bit_eq_div)
    also have "\<dots> = (512 * q) mod (512 * 524288)" by (simp add: that)
    also have "\<dots> = 512 * (q mod 524288)" by (rule mult_mod_right [symmetric])
    finally show ?thesis .
  qed
  obtain q q' where q: "unat x = 2097152 * q" "unat y = 2097152 * q'" using assms(1,2) by (auto elim!: dvdE)
  have "q mod 134217728 = q' mod 134217728" using assms(3) by (simp add: q)
  then have "q mod 134217728 mod 524288 = q' mod 134217728 mod 524288" by simp
  then have "q mod 524288 = q' mod 524288" by (simp add: mod_mod_cancel)
  then show ?thesis by (simp add: word_eq_by_unat ppn [OF q(1)] ppn [OF q(2)])
qed

text \<open>The pages that one region asks for, from the first boundary of 2 MiB on.\<close>

definition direct_pages :: "u64 \<Rightarrow> u64 \<Rightarrow> (u64 \<times> u64) list" where
  "direct_pages a stop = map (\<lambda>i. let pa = a + of_nat (2097152 * i) in (KERNEL_PHYS_TO_VIRT pa, pa))
     [0..<(unat stop - unat a + 2097151) div 2097152]"

definition page_result :: "(bool \<times> kstate) \<Rightarrow> int \<times> kstate" where
  "page_result = (\<lambda>(ok, k). (if ok then 0 else - 1, k))"

lemma direct_map_loop_pages:
  assumes "unat stop + 2097152 \<le> 18446744073709551616"
  shows "direct_map_loop k r a stop =
     map_option page_result (map_pages (\<lambda>k va pa. page_in k r va pa HUGE_PS WRITEABLE) k (direct_pages a stop))"
proof (induction "(unat stop - unat a + 2097151) div 2097152" arbitrary: a k)
  case 0
  then have "\<not> a < stop" by (simp add: less_by_unat)
  then show ?case using 0 by (subst direct_map_loop.simps) (simp add: direct_pages_def page_result_def)
next
  case (Suc n)
  then have lt: "unat a < unat stop" by (cases "unat a < unat stop") simp_all
  have next_a: "unat (a + HUGE_PS) = unat a + 2097152"
    using lt assms by (simp add: unat_add_u64 HUGE_PS_def)
  have n: "n = (unat stop - unat (a + HUGE_PS) + 2097151) div 2097152"
    using Suc.hyps(2) lt unfolding next_a by (simp add: div_nat_eqI)
  have "direct_pages a stop = (KERNEL_PHYS_TO_VIRT a, a) # direct_pages (a + HUGE_PS) stop"
  proof -
    have "[0..<Suc n] = 0 # map Suc [0..<n]" by (simp add: map_Suc_upt upt_conv_Cons del: upt_Suc)
    then show ?thesis unfolding direct_pages_def n [symmetric] Suc.hyps(2) [symmetric]
      by (simp add: HUGE_PS_def add.assoc Let_def del: upt_Suc)
  qed
  then show ?case using lt Suc.hyps(1) [OF n]
    by (subst direct_map_loop.simps)
       (cases "page_in k r (KERNEL_PHYS_TO_VIRT a) a HUGE_PS WRITEABLE", auto simp: less_by_unat page_result_def)
qed

lemma map_pages_append:
  "map_pages f s (xs @ ys) = Option.bind (map_pages f s xs) (\<lambda>(ok, s). if ok then map_pages f s ys else Some (False, s))"
proof (induction xs arbitrary: s)
  case (Cons x xs)
  show ?case
  proof (cases "f s (fst x) (snd x)")
    case None
    then show ?thesis by (cases x) simp
  next
    case (Some r)
    then show ?thesis using Cons.IH [of "snd r"] by (cases x; cases r) simp
  qed
qed simp

lemma map_pages_shape:
  "map_pages (\<lambda>k va pa. page_in k r va pa sz p) k xs = Some (ok, k') \<Longrightarrow> same_shape (kmmap k) (kmmap k')"
proof (induction xs arbitrary: k)
  case (Cons x xs)
  then show ?case
    by (cases x) (auto simp: bind_eq_Some split: if_splits dest: page_in_shape intro: same_shape_trans [OF page_in_shape])
qed simp

definition region_pages :: "mem_map \<Rightarrow> nat \<Rightarrow> (u64 \<times> u64) list" where
  "region_pages mm i = direct_pages (ALIGN_UP (start_addr (regions mm ! i)) HUGE_PS)
     (start_addr (regions mm ! i) + len_bytes (regions mm ! i))"

definition map_list :: "mem_map \<Rightarrow> (u64 \<times> u64) list" where
  "map_list mm = concat (map (region_pages mm) [0..<unat (region_count mm)])"

definition regions_fit :: "mem_map \<Rightarrow> bool" where
  "regions_fit mm \<longleftrightarrow> unat (region_count mm) \<le> length (regions mm) \<and>
     (\<forall>i < unat (region_count mm). region_end (regions mm ! i) + 2097152 \<le> 18446744073709551616)"

lemma page_in_regions_pages:
  assumes fit: "regions_fit mm" and shape: "same_shape mm (kmmap k)"
  shows "page_in_regions_from k r (unat (region_count mm)) i =
     map_option page_result (map_pages (\<lambda>k va pa. page_in k r va pa HUGE_PS WRITEABLE) k
       (concat (map (region_pages mm) [i..<unat (region_count mm)])))"
  using shape
proof (induction "unat (region_count mm) - i" arbitrary: i k)
  case 0
  then show ?case by (subst page_in_regions_from.simps) (simp add: page_result_def)
next
  case (Suc d)
  let ?n = "unat (region_count mm)" and ?f = "\<lambda>k va pa. page_in k r va pa HUGE_PS WRITEABLE"
  have i: "i < ?n" "i < length (regions mm)" using Suc.hyps(2) fit by (auto simp: regions_fit_def)
  note sh = same_shapeD [OF Suc.prems]
  have stop: "unat (start_addr (regions mm ! i) + len_bytes (regions mm ! i)) + 2097152 \<le> 18446744073709551616"
    using fit i(1) by (auto simp: regions_fit_def region_end_def unat_add_u64)
  have "[i..<?n] = i # [Suc i..<?n]" using i(1) by (rule upt_conv_Cons)
  then have split: "map_pages ?f k (concat (map (region_pages mm) [i..<?n])) =
     Option.bind (map_pages ?f k (region_pages mm i))
       (\<lambda>(ok, k). if ok then map_pages ?f k (concat (map (region_pages mm) [Suc i..<?n])) else Some (False, k))"
    by (simp add: map_pages_append)
  have rest: "page_in_regions_from k' r ?n (Suc i) = map_option page_result (map_pages ?f k'
      (concat (map (region_pages mm) [Suc i..<?n])))" if "map_pages ?f k (region_pages mm i) = Some (True, k')" for k'
    using Suc.hyps(2) by (intro Suc.hyps(1) same_shape_trans [OF Suc.prems map_pages_shape [OF that]]) simp
  have loop: "direct_map_loop k r (ALIGN_UP (start_addr (regions mm ! i)) HUGE_PS)
      (start_addr (regions mm ! i) + len_bytes (regions mm ! i)) = map_option page_result (map_pages ?f k (region_pages mm i))"
    unfolding region_pages_def by (rule direct_map_loop_pages [OF stop])
  show ?case unfolding split
    by (subst page_in_regions_from.simps)
       (use i sh rest in \<open>auto simp: loop idx_def page_result_def split: option.splits bind_split_asm bind_split\<close>)
qed

text \<open>Each address of a region from its first boundary on lies on one of its pages.\<close>

lemma unat_ALIGN_UP_huge:
  "unat x + 2097151 < 18446744073709551616 \<Longrightarrow> unat (ALIGN_UP x HUGE_PS) = (unat x + 2097151) div 2097152 * 2097152"
  using unat_ALIGN_UP [of 21 x] by (simp add: HUGE_PS_def)

lemma unat_ALIGN_DOWN_huge: "unat (ALIGN_DOWN x HUGE_PS) = unat x div 2097152 * 2097152"
  using unat_ALIGN_DOWN [of 21 x] by (simp add: HUGE_PS_def)

lemma direct_pages_mem:
  assumes a: "2097152 dvd unat a" and stop: "unat stop + 2097152 \<le> 18446744073709551616"
  shows "(va, pa) \<in> set (direct_pages a stop) \<longleftrightarrow>
    va = KERNEL_PHYS_TO_VIRT pa \<and> 2097152 dvd unat pa \<and> unat a \<le> unat pa \<and> unat pa < unat stop"
proof -
  have at: "unat (a + of_nat (2097152 * i)) = unat a + 2097152 * i" if "i < (unat stop - unat a + 2097151) div 2097152" for i
  proof -
    have "unat a + 2097152 * i < unat stop" using that by linarith
    then show ?thesis using stop by (simp add: unat_add_u64 unat_of_nat_u64 del: of_nat_mult)
  qed
  have "(\<exists>i < (unat stop - unat a + 2097151) div 2097152. pa = a + of_nat (2097152 * i)) \<longleftrightarrow>
      2097152 dvd unat pa \<and> unat a \<le> unat pa \<and> unat pa < unat stop"
  proof (intro iffI; (elim exE conjE)?)
    fix i assume i: "i < (unat stop - unat a + 2097151) div 2097152" "pa = a + of_nat (2097152 * i)"
    then have "unat pa = unat a + 2097152 * i" by (simp only: at)
    then show "2097152 dvd unat pa \<and> unat a \<le> unat pa \<and> unat pa < unat stop" using i(1) a by auto
  next
    assume pa: "2097152 dvd unat pa" "unat a \<le> unat pa" "unat pa < unat stop"
    have "2097152 dvd unat pa - unat a" using pa(1) a by (rule dvd_diff_nat)
    then obtain i where i: "unat pa - unat a = 2097152 * i" by (rule dvdE)
    then have lt: "i < (unat stop - unat a + 2097151) div 2097152" using pa by linarith
    then have "unat pa = unat (a + of_nat (2097152 * i))" using at i pa(2) by simp
    then have "pa = a + of_nat (2097152 * i)" by (simp add: word_eq_by_unat del: of_nat_mult)
    with lt show "\<exists>i < (unat stop - unat a + 2097151) div 2097152. pa = a + of_nat (2097152 * i)" by blast
  qed
  moreover have "(va, pa) \<in> set (direct_pages a stop) \<longleftrightarrow> va = KERNEL_PHYS_TO_VIRT pa \<and>
      (\<exists>i < (unat stop - unat a + 2097151) div 2097152. pa = a + of_nat (2097152 * i))"
    unfolding direct_pages_def Let_def set_map image_iff set_upt prod.inject by (metis atLeastLessThan_iff le0)
  ultimately show ?thesis by blast
qed

text \<open>The physical addresses that the direct map is to cover.\<close>

definition directly_mapped :: "mem_map \<Rightarrow> u64 \<Rightarrow> bool" where
  "directly_mapped mm x \<longleftrightarrow> (\<exists>i < unat (region_count mm).
     ALIGN_UP (start_addr (regions mm ! i)) HUGE_PS \<le> x \<and>
     unat x < region_end (regions mm ! i))"

lemma region_pages_mem:
  assumes fit: "regions_fit mm" and i: "i < unat (region_count mm)"
  shows "(va, pa) \<in> set (region_pages mm i) \<longleftrightarrow> va = KERNEL_PHYS_TO_VIRT pa \<and> 2097152 dvd unat pa \<and>
    ALIGN_UP (start_addr (regions mm ! i)) HUGE_PS \<le> pa \<and> unat pa < region_end (regions mm ! i)"
proof -
  let ?r = "regions mm ! i"
  have e: "region_end ?r + 2097152 \<le> 18446744073709551616" using fit i by (simp add: regions_fit_def)
  then have stop: "unat (start_addr ?r + len_bytes ?r) = region_end ?r" by (simp add: region_end_def unat_add_u64)
  have "2097152 dvd unat (ALIGN_UP (start_addr ?r) HUGE_PS)"
    using e by (subst unat_ALIGN_UP_huge) (simp_all add: region_end_def)
  from direct_pages_mem [OF this] e stop show ?thesis unfolding region_pages_def by (simp add: le_by_unat)
qed

lemma directly_mapped_page:
  assumes fit: "regions_fit mm" and x: "directly_mapped mm x"
  obtains i where "i < unat (region_count mm)"
    "(KERNEL_PHYS_TO_VIRT (ALIGN_DOWN x HUGE_PS), ALIGN_DOWN x HUGE_PS) \<in> set (region_pages mm i)"
proof -
  obtain i where i: "i < unat (region_count mm)" "ALIGN_UP (start_addr (regions mm ! i)) HUGE_PS \<le> x"
    "unat x < region_end (regions mm ! i)" using x unfolding directly_mapped_def by blast
  let ?u = "ALIGN_UP (start_addr (regions mm ! i)) HUGE_PS"
  have "region_end (regions mm ! i) + 2097152 \<le> 18446744073709551616" using fit i by (simp add: regions_fit_def)
  then obtain q where q: "unat ?u = q * 2097152"
    using unat_ALIGN_UP_huge [of "start_addr (regions mm ! i)"] by (simp add: region_end_def)
  have "q \<le> unat x div 2097152" using i(2) q by (simp add: le_by_unat less_eq_div_iff_mult_less_eq)
  then have "?u \<le> ALIGN_DOWN x HUGE_PS" by (simp add: le_by_unat q unat_ALIGN_DOWN_huge)
  moreover have "unat (ALIGN_DOWN x HUGE_PS) < region_end (regions mm ! i)"
    using i(3) times_div_less_eq_dividend [of 2097152 "unat x"] unfolding unat_ALIGN_DOWN_huge by (simp add: mult.commute)
  ultimately have "(KERNEL_PHYS_TO_VIRT (ALIGN_DOWN x HUGE_PS), ALIGN_DOWN x HUGE_PS) \<in> set (region_pages mm i)"
    unfolding region_pages_mem [OF fit i(1)] by (simp add: unat_ALIGN_DOWN_huge)
  with i(1) show thesis by (rule that)
qed

lemma region_pages_target:
  assumes fit: "regions_fit mm"
  shows "one_target HUGE_PS (map_list mm)"
  unfolding one_target_def map_list_def
proof (intro ballI, clarsimp simp: region_pages_mem [OF fit])
  fix pa pa' :: u64
  assume "2097152 dvd unat pa" "2097152 dvd unat pa'"
    and "same_page HUGE_PS (KERNEL_PHYS_TO_VIRT pa) (KERNEL_PHYS_TO_VIRT pa')"
  then show "ppn_of pa = ppn_of pa'" by (intro ppn_of_huge) (simp_all add: same_huge_iff)
qed

lemma page_in_regions_cases:
  assumes inv: "pt_inv k r" and opn: "\<forall>va. open_path k r HUGE_PS va" and fit: "regions_fit (kmmap k)"
  obtains (failed) k' where "page_in_regions k r = Some (- 1, k')" "pt_inv k' r" "free_set (kmmap k') = {}"
      "frames_left k < 3 * length (map_list (kmmap k))"
  | (mapped) k' where "page_in_regions k r = Some (0, k')" "pt_inv k' r"
      "\<And>x. directly_mapped (kmmap k) x \<Longrightarrow> translate k' r (KERNEL_PHYS_TO_VIRT x) = Some (ppn_of (ALIGN_DOWN x HUGE_PS))"
      "\<And>va. (\<forall>x. directly_mapped (kmmap k) x \<longrightarrow> \<not> same_page HUGE_PS (KERNEL_PHYS_TO_VIRT x) va) \<Longrightarrow>
         translate k' r va = translate k r va"
proof -
  let ?xs = "map_list (kmmap k)"
  have room: "\<forall>(va, pa) \<in> set (map_list (kmmap k)). open_path k r HUGE_PS va" using opn by auto
  have run: "page_in_regions k r = map_option page_result (map_pages (\<lambda>k va pa. page_in k r va pa HUGE_PS WRITEABLE) k ?xs)"
    unfolding page_in_regions_def map_list_def by (rule page_in_regions_pages [OF fit same_shape_refl])
  from vm.map_pages_cases [OF inv room, of WRITEABLE] show thesis
  proof (elim disjE exE conjE)
    fix k' assume "map_pages (\<lambda>k va pa. page_in k r va pa HUGE_PS WRITEABLE) k ?xs = Some (False, k')" "pt_inv k' r" "free_set (kmmap k') = {}"
      "frames_left k < 3 * length ?xs"
    then show thesis by (intro failed [of k']) (simp_all add: run page_result_def)
  next
    fix k' assume k': "map_pages (\<lambda>k va pa. page_in k r va pa HUGE_PS WRITEABLE) k ?xs = Some (True, k')" "pt_inv k' r"
      "translate k' r = mapped_pages HUGE_PS ?xs (translate k r)"
    show thesis
    proof (rule mapped [of k'])
      fix x assume "directly_mapped (kmmap k) x"
      then obtain i where "i < unat (region_count (kmmap k))"
        "(KERNEL_PHYS_TO_VIRT (ALIGN_DOWN x HUGE_PS), ALIGN_DOWN x HUGE_PS) \<in> set (region_pages (kmmap k) i)"
        by (rule directly_mapped_page [OF fit])
      then have "(KERNEL_PHYS_TO_VIRT (ALIGN_DOWN x HUGE_PS), ALIGN_DOWN x HUGE_PS) \<in> set ?xs" by (auto simp: map_list_def)
      then show "translate k' r (KERNEL_PHYS_TO_VIRT x) = Some (ppn_of (ALIGN_DOWN x HUGE_PS))"
        unfolding k'(3) by (rule mapped_pages_hit [OF region_pages_target [OF fit]]) (simp add: same_huge_iff unat_ALIGN_DOWN_huge)
    next
      fix va assume "\<forall>x. directly_mapped (kmmap k) x \<longrightarrow> \<not> same_page HUGE_PS (KERNEL_PHYS_TO_VIRT x) va"
      then have "\<forall>(v, p) \<in> set ?xs. \<not> same_page HUGE_PS v va"
        unfolding directly_mapped_def map_list_def by (clarsimp simp: region_pages_mem [OF fit]) blast
      then show "translate k' r va = translate k r va" unfolding k'(3) by (rule mapped_pages_other)
    qed (use k' in \<open>simp_all add: run page_result_def\<close>)
  qed
qed

section \<open>From an empty root table\<close>

definition empty_table :: "mem \<Rightarrow> u64 \<Rightarrow> bool" where
  "empty_table m r \<longleftrightarrow> (\<forall>j. unat j < 512 \<longrightarrow> load64 m (entry_at r j) = 0)"

lemma empty_table_tab: "empty_table m r \<Longrightarrow> path_ok p \<Longrightarrow> tab m r p = (if p = [] then Some r else None)"
proof (induction p)
  case (Cons i p)
  then show ?case by (cases p) (auto simp: empty_table_def points_def present_def split: option.split)
qed simp

lemma empty_table_ent:
  "empty_table m r \<Longrightarrow> path_ok q \<Longrightarrow> unat j < 512 \<Longrightarrow> ent m r (j # q) = (if q = [] then Some 0 else None)"
  by (auto simp: empty_table_tab empty_table_def)

lemma empty_table_open: "empty_table (kmem k) r \<Longrightarrow> open_path k r sz va"
  by (simp add: open_path_def paths_def empty_table_ent index_bound del: ent.simps)

lemma empty_table_translate: "empty_table (kmem k) r \<Longrightarrow> translate k r va = None"
  by (simp add: translate_def walk_ents_def paths_def empty_table_ent index_bound del: ent.simps)

lemma empty_table_inv:
  assumes "empty_table (kmem k) r" "4096 dvd unat r" "unat (KERNEL_VIRT_TO_PHYS r) \<notin> free_set (kmmap k)"
    "mm_wf (kmmap k)" "low_frames (kmmap k)"
  shows "pt_inv k r"
proof -
  have "tables_apart (kmem k) r" using assms(1,2) by (simp add: tables_apart_def empty_table_tab)
  moreover have "tables_not_free (kmem k) r (free_set (kmmap k))"
    using assms(1,3) by (simp add: tables_not_free_def empty_table_tab)
  ultimately show ?thesis using assms(4,5) by (simp add: pt_inv_def)
qed

text \<open>The addresses that the usable ranges are to be mapped at, from the first 2 MiB boundary of each on.\<close>

definition mapped_span :: "span list \<Rightarrow> u64 \<Rightarrow> bool" where
  "mapped_span rs x \<longleftrightarrow> (\<exists>(s, e) \<in> set rs. (s + 2097151) div 2097152 * 2097152 \<le> unat x \<and> unat x < e)"

lemma directly_mapped_spans:
  assumes fit: "regions_fit mm"
  shows "directly_mapped mm x = mapped_span (map region_span (mm_regions mm)) x"
proof -
  have len: "length (mm_regions mm) = unat (region_count mm)" using fit by (simp add: regions_fit_def mm_regions_def)
  have up: "ALIGN_UP (start_addr (regions mm ! i)) HUGE_PS \<le> x \<longleftrightarrow>
      (unat (start_addr (regions mm ! i)) + 2097151) div 2097152 * 2097152 \<le> unat x" if "i < unat (region_count mm)" for i
    using fit that by (subst le_by_unat, subst unat_ALIGN_UP_huge) (auto simp: regions_fit_def region_end_def)
  have "set (map region_span (mm_regions mm)) = (\<lambda>i. region_span (regions mm ! i)) ` {..<unat (region_count mm)}"
    using nth_image [of "unat (region_count mm)" "regions mm"] fit
    by (simp add: mm_regions_def regions_fit_def image_image lessThan_atLeast0 flip: nth_image)
  then show ?thesis unfolding mapped_span_def directly_mapped_def using up by (auto simp: region_span_def)
qed

text \<open>How many pages that takes.\<close>

definition span_pages :: "span list \<Rightarrow> nat" where
  "span_pages rs = (\<Sum>(s, e) \<leftarrow> rs. (e - (s + 2097151) div 2097152 * 2097152 + 2097151) div 2097152)"

lemma map_list_length:
  assumes fit: "regions_fit mm"
  shows "length (map_list mm) = span_pages (map region_span (mm_regions mm))"
proof -
  let ?n = "unat (region_count mm)"
  have one: "length (region_pages mm i) =
      (region_end (regions mm ! i) - (unat (start_addr (regions mm ! i)) + 2097151) div 2097152 * 2097152 + 2097151) div 2097152"
    if "i < ?n" for i
  proof -
    have e: "region_end (regions mm ! i) + 2097152 \<le> 18446744073709551616" using fit that by (simp add: regions_fit_def)
    then have "unat (start_addr (regions mm ! i) + len_bytes (regions mm ! i)) = region_end (regions mm ! i)"
      "unat (ALIGN_UP (start_addr (regions mm ! i)) HUGE_PS) = (unat (start_addr (regions mm ! i)) + 2097151) div 2097152 * 2097152"
      by (simp_all add: region_end_def unat_add_u64 unat_ALIGN_UP_huge)
    then show ?thesis by (simp add: region_pages_def direct_pages_def)
  qed
  have regs: "mm_regions mm = map ((!) (regions mm)) [0..<?n]"
    using fit by (intro nth_equalityI) (auto simp: mm_regions_def regions_fit_def)
  show ?thesis unfolding span_pages_def regs map_list_def length_concat map_map
    by (intro arg_cong [of _ _ sum_list] map_cong refl) (simp add: one region_span_def)
qed

section \<open>The claim\<close>

text \<open>Kernel memory with the boot information of \<^const>\<open>boot_mem\<close>, nothing registered yet, and a zeroed root
  table inside the kernel image.\<close>

definition boot_state :: kstate where
  "boot_state = \<lparr>kmem = boot_mem, kmmap = empty_map\<rparr>"

definition boot_root :: u64 where
  "boot_root = KERNEL_PHYS_TO_VIRT 0x180000"

lemma boot_mem_high: "65536 \<le> unat x \<Longrightarrow> boot_mem x = 0"
  by (auto simp: boot_mem_def)

lemma boot_root_empty: "empty_table (kmem boot_state) boot_root"
  unfolding empty_table_def
proof (intro allI impI)
  fix j :: u64 assume j: "unat j < 512"
  have r: "unat boot_root = 0xFFFFFFFF80180000" by (simp add: boot_root_def KERNEL_PHYS_TO_VIRT_def KERNEL_VMA_def)
  have "boot_mem (entry_at boot_root j + of_nat i) = 0" if "i < 8" for i
  proof (rule boot_mem_high)
    have "unat (j * 8) = unat j * 8" using j by (simp add: unat_mult_u64)
    then have "unat (entry_at boot_root j) = unat boot_root + unat j * 8" using j r by (simp add: entry_at_def unat_add_u64 mult.commute)
    then have "unat (entry_at boot_root j + of_nat i) = unat boot_root + unat j * 8 + i"
      using that j r by (simp add: unat_add_u64 unat_of_nat_u64)
    then show "65536 \<le> unat (entry_at boot_root j + of_nat i)" using r by simp
  qed
  then have "load64 boot_mem (entry_at boot_root j) = load64 (\<lambda>_. 0) (entry_at boot_root j)"
    unfolding load64_def by (intro load_le_cong) simp
  then show "load64 (kmem boot_state) (entry_at boot_root j) = 0" by (simp add: boot_state_def load_blank)
qed

lemma boot_frames:
  "93 \<le> card {f. usable_frame boot_entries f \<and> \<not> (0x100000 \<le> f \<and> f < 0x205000)}" (is "_ \<le> card ?S")
proof -
  have mem: "f \<in> ?S \<longleftrightarrow> 4096 dvd f \<and> 0x100000 \<le> f \<and> f + 4096 \<le> 0x4000000 \<and> \<not> (0x100000 \<le> f \<and> f < 0x205000)" for f
    by (simp add: usable_frame_spans boot_spans)
  have "?S \<subseteq> {..0x4000000}" unfolding subset_iff mem by auto
  then have fin: "finite ?S" by (rule finite_subset) simp
  have "(\<lambda>k. 0x205000 + 4096 * k) ` {..<93} \<subseteq> ?S" unfolding image_subset_iff mem by auto
  from card_mono [OF fin this] show ?thesis by (simp add: card_image inj_on_def)
qed

text \<open>C6. Setting up the memory from the boot information, with an empty root table in the kernel image and
  all usable memory below 2 GiB: every address of a usable range from its first 2 MiB boundary on is then mapped at its
  kernel address, by the 2 MiB page that holds it, and nothing else is; the only error is that no frame was left
  for a table, which three free frames per page rule out.\<close>

theorem direct_map_from_boot_info:
  assumes tag: "mmap_tag (kmem k) tag es" and ok: "entries_ok es" and len: "length (regions (kmmap k)) = MAX_MEM_REGIONS"
    and fits: "kernel_fits es kernel_start kernel_end" and low: "\<forall>r \<in> set (spans es). snd r \<le> 2147483648"
    and root: "empty_table (kmem k) root" "4096 dvd unat root"
      "ALIGN_DOWN kernel_start DEFAULT_PAGE_SIZE \<le> KERNEL_VIRT_TO_PHYS root" "KERNEL_VIRT_TO_PHYS root < kernel_stop es kernel_end"
  shows "\<exists>err k'. handle_mb2_mmap k root tag kernel_start kernel_end = Some (err, k') \<and> pt_inv k' root \<and>
     (if err = 0 then
        (\<forall>x. mapped_span (spans es) x \<longrightarrow> translate k' root (KERNEL_PHYS_TO_VIRT x) = Some (ppn_of (ALIGN_DOWN x HUGE_PS))) \<and>
        (\<forall>va. (\<forall>x. mapped_span (spans es) x \<longrightarrow> \<not> same_page HUGE_PS (KERNEL_PHYS_TO_VIRT x) va) \<longrightarrow> translate k' root va = None)
      else err = - 1 \<and> free_set (kmmap k') = {}) \<and>
     (3 * span_pages (spans es) \<le> card {f. usable_frame es f \<and>
        \<not> (unat (ALIGN_DOWN kernel_start DEFAULT_PAGE_SIZE) \<le> f \<and> f < unat (kernel_stop es kernel_end))} \<longrightarrow> err = 0)"
proof -
  obtain mm where mm: "mb2_memory_map (kmem k) (kmmap k) tag kernel_start kernel_end = Some (0, mm)" "mm_wf mm"
    "map region_span (mm_regions mm) = spans es" "length (regions mm) = MAX_MEM_REGIONS"
    "free_set mm = {f. usable_frame es f \<and>
       \<not> (unat (ALIGN_DOWN kernel_start DEFAULT_PAGE_SIZE) \<le> f \<and> f < unat (kernel_stop es kernel_end))}"
    using memory_map_built [OF tag ok len fits] by blast
  let ?k = "k\<lparr>kmmap := mm\<rparr>"
  have "low_frames mm" using low unfolding low_frames_def mm(5) usable_frame_spans by fastforce
  then have inv: "pt_inv ?k root" using root mm(2,5) by (intro empty_table_inv) (simp_all add: le_by_unat less_by_unat)
  have fit: "regions_fit mm"
  proof -
    have "layout_ok mm" using mm(2) by (simp add: mm_wf_nth)
    then have "unat (region_count mm) \<le> length (regions mm)" by (simp add: layout_ok_def)
    moreover have "region_end (regions mm ! i) \<le> 2147483648" if "i < unat (region_count mm)" for i
    proof -
      have "region_span (regions mm ! i) \<in> set (spans es)"
        unfolding mm(3) [symmetric] set_map by (rule imageI [OF mm_regions_mem [OF \<open>layout_ok mm\<close> that]])
      with low show ?thesis by (auto simp: region_span_def)
    qed
    ultimately show ?thesis by (fastforce simp: regions_fit_def)
  qed
  have open_all: "\<forall>va. open_path ?k root HUGE_PS va" using root(1) by (simp add: empty_table_open)
  have mapped_iff: "directly_mapped mm x = mapped_span (spans es) x" for x
    using directly_mapped_spans [OF fit] mm(3) by simp
  have start: "handle_mb2_mmap k root tag kernel_start kernel_end =
      Option.bind (page_in_regions ?k root) (\<lambda>(err, k). Some (if err \<noteq> 0 then - 1 else 0, k))"
    by (simp add: handle_mb2_mmap_def mm(1) Let_def)
  show ?thesis
  proof (rule page_in_regions_cases [OF inv open_all])
    show "regions_fit (kmmap ?k)" using fit by simp
  next
    fix k' assume k': "page_in_regions ?k root = Some (- 1, k')" "pt_inv k' root" "free_set (kmmap k') = {}"
      "frames_left ?k < 3 * length (map_list (kmmap ?k))"
    from k'(4) have "card (free_set mm) < 3 * span_pages (spans es)"
      by (simp add: frames_left_def map_list_length [OF fit] mm(3))
    with k'(1-3) show ?thesis unfolding mm(5) by (intro exI [of _ "- 1"] exI [of _ k']) (simp add: start)
  next
    fix k' assume k': "page_in_regions ?k root = Some (0, k')" "pt_inv k' root"
      "\<And>x. directly_mapped (kmmap ?k) x \<Longrightarrow> translate k' root (KERNEL_PHYS_TO_VIRT x) = Some (ppn_of (ALIGN_DOWN x HUGE_PS))"
      "\<And>va. (\<forall>x. directly_mapped (kmmap ?k) x \<longrightarrow> \<not> same_page HUGE_PS (KERNEL_PHYS_TO_VIRT x) va) \<Longrightarrow>
         translate k' root va = translate ?k root va"
    have none: "translate ?k root va = None" for va using root(1) by (simp add: empty_table_translate)
    have "\<forall>x. mapped_span (spans es) x \<longrightarrow> translate k' root (KERNEL_PHYS_TO_VIRT x) = Some (ppn_of (ALIGN_DOWN x HUGE_PS))"
      using k'(3) mapped_iff by simp
    moreover have "\<forall>va. (\<forall>x. mapped_span (spans es) x \<longrightarrow> \<not> same_page HUGE_PS (KERNEL_PHYS_TO_VIRT x) va) \<longrightarrow> translate k' root va = None"
      using k'(4) mapped_iff none by simp
    ultimately show ?thesis using k'(1,2) by (intro exI [of _ 0] exI [of _ k']) (simp add: start)
  qed
qed

theorem direct_map_from_boot_info_witness:
  "\<exists>k'. handle_mb2_mmap boot_state boot_root 0x9000 0x100000 (KERNEL_PHYS_TO_VIRT 0x200000) = Some (0, k') \<and>
     pt_inv k' boot_root \<and> translate k' boot_root (KERNEL_PHYS_TO_VIRT 0x3456789) = Some 0x3400"
proof -
  have tag: "mmap_tag (kmem boot_state) 0x9000 boot_entries" using boot_tag by (simp add: boot_state_def)
  have len: "length (regions (kmmap boot_state)) = MAX_MEM_REGIONS" by (simp add: boot_state_def empty_map_def MAX_MEM_REGIONS_def)
  have low: "\<forall>r \<in> set (spans boot_entries). snd r \<le> 2147483648" by (simp add: boot_spans)
  have al: "4096 dvd unat boot_root" unfolding boot_root_def by (rule frame_page) simp
  have down: "ALIGN_DOWN 0x100000 DEFAULT_PAGE_SIZE = 0x100000" by (simp add: ALIGN_DOWN_def DEFAULT_PAGE_SIZE_def)
  have in_image: "ALIGN_DOWN 0x100000 DEFAULT_PAGE_SIZE \<le> KERNEL_VIRT_TO_PHYS boot_root"
    "KERNEL_VIRT_TO_PHYS boot_root < kernel_stop boot_entries (KERNEL_PHYS_TO_VIRT 0x200000)"
    unfolding down boot_stop by (simp_all add: boot_root_def KERNEL_VIRT_TO_PHYS_def KERNEL_PHYS_TO_VIRT_def)
  have pages: "span_pages (spans boot_entries) = 31" unfolding boot_spans by (simp add: span_pages_def)
  have x: "mapped_span (spans boot_entries) 0x3456789" by (simp add: mapped_span_def boot_spans)
  have ppn: "ppn_of (ALIGN_DOWN 0x3456789 HUGE_PS) = 0x3400"
    by (simp add: ppn_of_def ALIGN_DOWN_def HUGE_PS_def take_bit_eq_mod drop_bit_eq_div)
  from direct_map_from_boot_info [OF tag boot_ok len boot_fits low boot_root_empty al in_image] obtain err k'
    where res: "handle_mb2_mmap boot_state boot_root 0x9000 0x100000 (KERNEL_PHYS_TO_VIRT 0x200000) = Some (err, k')" "pt_inv k' boot_root"
      and ok: "if err = 0 then (\<forall>x. mapped_span (spans boot_entries) x \<longrightarrow>
          translate k' boot_root (KERNEL_PHYS_TO_VIRT x) = Some (ppn_of (ALIGN_DOWN x HUGE_PS))) \<and>
        (\<forall>va. (\<forall>x. mapped_span (spans boot_entries) x \<longrightarrow> \<not> same_page HUGE_PS (KERNEL_PHYS_TO_VIRT x) va) \<longrightarrow> translate k' boot_root va = None)
        else err = - 1 \<and> free_set (kmmap k') = {}"
      and err: "3 * span_pages (spans boot_entries) \<le> card {f. usable_frame boot_entries f \<and>
        \<not> (unat (ALIGN_DOWN 0x100000 DEFAULT_PAGE_SIZE) \<le> f \<and> f < unat (kernel_stop boot_entries (KERNEL_PHYS_TO_VIRT 0x200000)))} \<longrightarrow> err = 0"
    by blast
  have "err = 0" using err boot_frames unfolding pages down boot_stop by simp
  then have "translate k' boot_root (KERNEL_PHYS_TO_VIRT 0x3456789) = Some 0x3400"
    using ok x ppn by (metis (no_types, lifting))
  with res \<open>err = 0\<close> show ?thesis by blast
qed

end
