(* ===== verification/Kmain.thy ===== *)
theory Kmain
  imports Multiboot_Props
begin

text \<open>
  The entry of the kernel, \<^verbatim>\<open>src/kernel/kernel.c\<close>: the order in which \<^verbatim>\<open>kmain\<close> brings the
  components up.  A failed step either halts the machine or is ignored, as in the code; the loop at the end and the text
  on the screen are left out.
\<close>

section \<open>The programs of the first threads\<close>

definition fill_vga :: "u8 list" where
  "fill_vga =
     [0xB8, 0xFF, 0xFF, 0xFF, 0xFF,
      0xFC,
      0xBF, 0x00, 0x80, 0x0B, 0x00,
      0xB9, 0xE8, 0x03, 0x00, 0x00,
      0xF3, 0xAB,
      0xEB, 0xF1]"

definition color_vga :: "u8 list" where
  "color_vga =
     [0xB8, 0x11, 0x11, 0x11, 0x11,
      0xFC,
      0xBF, 0x00, 0x80, 0x0B, 0x00,
      0xB9, 0xE8, 0x03, 0x00, 0x00,
      0xF3, 0xAB,
      0xEB, 0xF1]"

definition clear_vga :: "u8 list" where
  "clear_vga =
     [0xB8, 0x20, 0x07, 0x20, 0x07,
      0xFC,
      0xBF, 0x00, 0x80, 0x0B, 0x00,
      0xB9, 0xE8, 0x03, 0x00, 0x00,
      0xF3, 0xAB,
      0xEB, 0xF1]"

section \<open>State\<close>

text \<open>The addresses of the kernel's statics; the programs are part of the kernel image.\<close>

record kernel_statics = statics +
  st_tss :: u64
  st_fadt :: u64
  st_mcfg :: u64
  st_fill_vga :: u64
  st_clear_vga :: u64
  st_color_vga :: u64

text \<open>What the running kernel keeps beside the memory, the threads and the devices.\<close>

record 'w kernel =
  kn_sys :: sys
  kn_dev :: 'w
  kn_idt :: "idt_entry list"
  kn_gdt :: "gdt_entry list"
  kn_tss :: tss
  kn_cpuid :: cpuid_info
  kn_apic :: apic
  kn_ioapics :: "ioapic_info list"
  kn_ps2 :: ps2_info_t

text \<open>\<^verbatim>\<open>cli; hlt\<close> keeps the processor stopped.\<close>

datatype 'w boot = Halted sys 'w | Running "'w kernel"

section \<open>The entry\<close>

definition SIZEOF_PML4_TABLE :: u64 where "SIZEOF_PML4_TABLE = 4096"

definition thread_allocation :: thread_memory_allocation_info where
  "thread_allocation =
     \<lparr>code_pages = 2, code_page_size = DEFAULT_PAGE_SIZE,
      mapping_pages = 2, mapping_page_size = DEFAULT_PAGE_SIZE,
      stack_pages = 4, stack_page_size = DEFAULT_PAGE_SIZE\<rparr>"

text \<open>The three processes; the results of the calls are not looked at.\<close>

definition first_processes :: "kernel_statics \<Rightarrow> sys \<Rightarrow> sys option" where
  "first_processes st s = do {
     (_, s) \<leftarrow> create_initial_process s 0 False 10 (st_fill_vga st) (of_nat (length fill_vga)) thread_allocation;
     (_, s) \<leftarrow> create_process s 0 False 15 (st_clear_vga st) (of_nat (length clear_vga)) thread_allocation;
     (_, s) \<leftarrow> create_process s 0 False 10 (st_color_vga st) (of_nat (length color_vga)) thread_allocation;
     Some s
   }"

definition start_timer :: "'w hardware \<Rightarrow> apic \<Rightarrow> 'w \<Rightarrow> 'w" where
  "start_timer h a w =
     (let w = lapic_write h (LAPIC_ADDR a) w LAPIC_TIMER_INITCNT 0x0;
          w = lapic_write h (LAPIC_ADDR a) w LAPIC_LVT_TIMER (32 OR LAPIC_TIMER_PERIODIC)
      in lapic_write h (LAPIC_ADDR a) w LAPIC_TIMER_INITCNT (LAPIC_TICKS_PER_MS a * 500))"

definition kmain ::
  "'w hardware \<Rightarrow> (u32 \<Rightarrow> u32 \<times> u32 \<times> u32 \<times> u32) \<Rightarrow> (nat \<Rightarrow> u64) \<Rightarrow> kernel_statics \<Rightarrow> ps2_info_t \<Rightarrow> u32 \<Rightarrow> u64 \<Rightarrow>
     sys \<Rightarrow> 'w \<Rightarrow> 'w boot option"
where
  "kmain h cpuid isr_table st ps2 magic mboot s w = do {
     let idt = idt_init isr_table;
     let k = (ks s)\<lparr>kmem := Imemset (kmem (ks s)) (st_pml4 st) 0 SIZEOF_PML4_TABLE\<rparr>;
     (err, k) \<leftarrow> handle_multiboot2 (statics.truncate st) k (cr3_of s) magic mboot;
     if err \<noteq> 0 then Some (Halted (s\<lparr>ks := k\<rparr>) w)
     else do {
       (gdt, t, k) \<leftarrow> gdt_init k (st_tss st);
       let pml4 = KERNEL_VIRT_TO_PHYS (st_pml4 st);
       let s = s\<lparr>sch := (sch s)\<lparr>cpu_cr3 := pml4\<rparr>\<rparr>;
       (_, k) \<leftarrow> alloc_init k pml4 (DEFAULT_PAGE_SIZE * 510) KERNEL_HEAP_ADDR;
       a \<leftarrow> handle_ACPI h \<lparr>acpi_ks = k, acpi_dev = w, acpi_root = pml4, fadt_at = st_fadt st, mcfg_at = st_mcfg st, apic_info = None\<rparr>
              (st_rsdp_new st) (st_rsdp st);
       let cpu = init_cpuid cpuid;
       if \<not> CHECK_CPUID_FEAT (cpu_features cpu) CPUID_FEAT_EDX_MSR then Some (Halted (s\<lparr>ks := acpi_ks a\<rparr>) (acpi_dev a))
       else do {
         (_, apic, a) \<leftarrow> enable_apic h a;
         (ios, a) \<leftarrow> enable_io_apics h a;
         let (_, ps2, w) = ps2_controller_init h ps2 (acpi_dev a);
         (_, k) \<leftarrow> page_in (acpi_ks a) (st_pml4 st) 0xB8000 0xB8000 DEFAULT_PAGE_SIZE (WRITEABLE OR push_bit USER_ACCESS_SHIFT 1);
         s \<leftarrow> first_processes st (s\<lparr>ks := k\<rparr>);
         w \<leftarrow> keyboard_ps2_init h ios w;
         let w = start_timer h apic w;
         Some (Running \<lparr>kn_sys = s, kn_dev = w, kn_idt = idt, kn_gdt = gdt, kn_tss = t, kn_cpuid = cpu,
                        kn_apic = apic, kn_ioapics = ios, kn_ps2 = ps2\<rparr>)
       }
     }
   }"

section \<open>Without boot information nothing is started\<close>

lemma handle_multiboot2_rejects:
  assumes "magic \<noteq> MULTIBOOT2_BOOTLOADER_MAGIC \<or> mboot AND 7 \<noteq> 0"
  shows "handle_multiboot2 st k root magic mboot = Some (- 1, k)"
  using assms by (auto simp: handle_multiboot2_def)

text \<open>An information structure with no tag at all: the loop stops at once and the memory map is missing.\<close>

lemma handle_multiboot2_no_tags:
  assumes "load32 (kmem k) (tag_type (mboot + 8)) = MULTIBOOT_TAG_TYPE_END"
  shows "handle_multiboot2 st k root magic mboot = Some (- 1, k)"
proof -
  have "tag_loop k root (st_rsdp st) (st_rsdp_new st) (mboot + 8) 0 = Some (0, k)"
    using assms by (subst tag_loop.simps) simp
  then show ?thesis by (simp add: handle_multiboot2_def)
qed

text \<open>A wrong magic number or a misaligned pointer: the machine halts with the root table cleared, and no device has been
  touched.\<close>

lemma kmain_halts_without_boot_info:
  assumes "magic \<noteq> MULTIBOOT2_BOOTLOADER_MAGIC \<or> mboot AND 7 \<noteq> 0"
  shows "kmain h cpuid isr_table st ps2 magic mboot s w =
    Some (Halted (s\<lparr>ks := (ks s)\<lparr>kmem := Imemset (kmem (ks s)) (st_pml4 st) 0 SIZEOF_PML4_TABLE\<rparr>\<rparr>) w)"
  by (simp add: kmain_def Let_def handle_multiboot2_rejects [OF assms])

lemma keyboard_needs_ioapic: "keyboard_ps2_init h ios w = Some w' \<Longrightarrow> ios \<noteq> []"
  by (auto simp: keyboard_ps2_init_def)

text \<open>A kernel that runs was started by a boot loader of the standard, on a processor with model-specific registers, and found an
  I/O interrupt controller for the keyboard.\<close>

lemma kmain_running:
  assumes "kmain h cpuid isr_table st ps2 magic mboot s w = Some (Running n)"
  shows "magic = MULTIBOOT2_BOOTLOADER_MAGIC" "mboot AND 7 = 0"
    "CHECK_CPUID_FEAT (cpu_features (kn_cpuid n)) CPUID_FEAT_EDX_MSR" "kn_idt n = idt_init isr_table" "kn_ioapics n \<noteq> []"
  subgoal using assms kmain_halts_without_boot_info [of magic mboot h cpuid isr_table st ps2 s w] by fastforce
  subgoal using assms kmain_halts_without_boot_info [of magic mboot h cpuid isr_table st ps2 s w] by fastforce
  using assms by (auto simp: kmain_def Let_def bind_eq_Some split_beta split: if_splits dest: keyboard_needs_ioapic)

end
