(* ===== verification/Page_Rights.thy ===== *)
theory Page_Rights
  imports Address_Space
begin

text \<open>
  The rights of a page as the processor computes them: a right holds when every entry on the way to the page, its own
  included, has the bit.
\<close>

definition grants :: "kstate \<Rightarrow> u64 \<Rightarrow> u64 \<Rightarrow> u64 \<Rightarrow> nat \<Rightarrow> bool" where
  "grants ks r sz va b \<longleftrightarrow>
     (\<forall>p \<in> set (upper_paths sz va @ [page_path sz va]). \<exists>e. ent (kmem ks) r p = Some e \<and> present e \<and> bit e b)"

definition can_write :: "kstate \<Rightarrow> u64 \<Rightarrow> u64 \<Rightarrow> u64 \<Rightarrow> bool" where
  "can_write ks r sz va = grants ks r sz va 1"

definition user_access :: "kstate \<Rightarrow> u64 \<Rightarrow> u64 \<Rightarrow> u64 \<Rightarrow> bool" where
  "user_access ks r sz va = grants ks r sz va 2"

lemma rights_set_grants:
  assumes "rights_set ks r sz va perms"
  shows "can_write ks r sz va = PERM_BIT perms WRITEABLE_SHIFT" "user_access ks r sz va = PERM_BIT perms USER_ACCESS_SHIFT"
  using assms unfolding rights_set_def can_write_def user_access_def grants_def PERM_BIT_def WRITEABLE_SHIFT_def USER_ACCESS_SHIFT_def
    lets_through_def by fastforce+

text \<open>C5. After \<^verbatim>\<open>page_in\<close> without error, of any page size, the page can be written, and used in user
  mode, exactly when the permissions ask for it: the leaf entry holds the two bits and every table above lets them through.\<close>

theorem page_in_rights:
  assumes "pt_inv ks r" "open_path ks r sz va" "page_in ks r va phys sz perms = Some (0, ks')"
  shows "can_write ks' r sz va = PERM_BIT perms WRITEABLE_SHIFT \<and>
    user_access ks' r sz va = PERM_BIT perms USER_ACCESS_SHIFT"
proof (rule page_in_cases [OF assms(1,2), of phys perms])
  fix k assume "page_in ks r va phys sz perms = Some (0, k)" "rights_set k r sz va perms"
  then show ?thesis using assms(3) rights_set_grants [of k r sz va perms] by simp
qed (use assms(3) in simp)

theorem page_in_rights_witness:
  "\<exists>ks'. page_in blank blank_root 0xFFFFFF0000000000 0x5000 DEFAULT_PAGE_SIZE USER_ACCESS = Some (0, ks') \<and>
     \<not> can_write ks' blank_root DEFAULT_PAGE_SIZE 0xFFFFFF0000000000 \<and>
     user_access ks' blank_root DEFAULT_PAGE_SIZE 0xFFFFFF0000000000"
proof (rule blank_page_in [of "0xFFFFFF0000000000" "0x5000" USER_ACCESS])
  fix k assume k: "page_in blank blank_root 0xFFFFFF0000000000 0x5000 DEFAULT_PAGE_SIZE USER_ACCESS = Some (0, k)"
  from page_in_rights [OF blank_inv blank_open k] k show ?thesis
    by (simp add: PERM_BIT_def USER_ACCESS_def USER_ACCESS_SHIFT_def WRITEABLE_SHIFT_def bit_simps)
qed

end
