(* ===== verification/Thread_Space.thy ===== *)
theory Thread_Space
  imports Process Page_Rights
begin

text \<open>
  The address space of a new thread: \<^const>\<open>create_thread\<close> copies the root table, so the thread starts with the
  translations of the address space that was in use, the kernel's among them.
\<close>

section \<open>Trees with the same entries\<close>

text \<open>\<open>r'\<close> in \<open>m'\<close> has the root entries of \<open>r\<close> in \<open>m\<close>, and the tables below are untouched.\<close>

definition same_tree :: "mem \<Rightarrow> u64 \<Rightarrow> mem \<Rightarrow> u64 \<Rightarrow> bool" where
  "same_tree m r m' r' \<longleftrightarrow>
     (\<forall>j. unat j < 512 \<longrightarrow> load64 m' (entry_at r' j) = load64 m (entry_at r j)) \<and>
     (\<forall>q t j. q \<noteq> [] \<longrightarrow> path_ok q \<longrightarrow> tab m r q = Some t \<longrightarrow> unat j < 512 \<longrightarrow>
        load64 m' (entry_at t j) = load64 m (entry_at t j))"

lemma same_tree_tab: "same_tree m r m' r' \<Longrightarrow> path_ok q \<Longrightarrow> q \<noteq> [] \<Longrightarrow> tab m' r' q = tab m r q"
proof (induction q)
  case (Cons i q)
  then have i: "unat i < 512" "path_ok q" by auto
  show ?case
  proof (cases "q = []")
    case True
    then show ?thesis using Cons.prems(1) i by (simp add: same_tree_def)
  next
    case False
    then have IH: "tab m' r' q = tab m r q" using Cons i by simp
    show ?thesis
    proof (cases "tab m r q")
      case (Some t)
      then have "load64 m' (entry_at t i) = load64 m (entry_at t i)"
        using Cons.prems(1) False i unfolding same_tree_def by blast
      then show ?thesis using Some IH by simp
    qed (simp add: IH)
  qed
qed simp

lemma same_tree_ent:
  assumes "same_tree m r m' r'" "path_ok q" "unat j < 512"
  shows "ent m' r' (j # q) = ent m r (j # q)"
proof (cases "q = []")
  case False
  note tab = same_tree_tab [OF assms(1,2) False]
  show ?thesis
  proof (cases "tab m r q")
    case (Some t)
    then show ?thesis using assms False tab unfolding same_tree_def by simp
  qed (simp add: tab)
qed (use assms in \<open>simp add: same_tree_def\<close>)

lemma same_tree_translate:
  assumes "same_tree (kmem k) r (kmem k') r'"
  shows "translate k' r' = translate k r"
  using same_tree_ent [OF assms paths_ok(1)] same_tree_ent [OF assms paths_ok(2)] same_tree_ent [OF assms paths_ok(3)] index_bound
  by (intro ext) (simp add: translate_def paths_def del: ent.simps)

lemma same_tree_trans:
  assumes "same_tree m1 r1 m2 r2" "same_tree m2 r2 m3 r3"
  shows "same_tree m1 r1 m3 r3"
  using assms same_tree_tab [OF assms(1)] unfolding same_tree_def by metis

lemma same_tree_inv:
  assumes inv: "pt_inv k r" and same: "same_tree (kmem k) r (kmem k') r"
    and mm: "mm_wf (kmmap k')" "free_set (kmmap k') \<subseteq> free_set (kmmap k)"
  shows "pt_inv k' r"
proof -
  have tabs: "tab (kmem k') r q = tab (kmem k) r q" if "path_ok q" for q
    using same_tree_tab [OF same that] by (cases "q = []") simp_all
  have "tables_apart (kmem k') r" using inv tables_same(1) [OF tabs] by (simp add: pt_inv_def)
  moreover have "tables_not_free (kmem k') r (free_set (kmmap k'))"
    using inv mm(2) tabs unfolding pt_inv_def tables_not_free_def by (metis subsetD)
  moreover have "low_frames (kmmap k')" using inv mm(2) by (auto simp: pt_inv_def low_frames_def)
  ultimately show ?thesis using mm(1) by (simp add: pt_inv_def)
qed

text \<open>A page is a table when its bytes are.\<close>

lemma same_page_loads:
  assumes t: "4096 dvd unat t" "unat j < 512" and u: "4096 dvd unat u"
    and same: "\<And>x. unat x < 4096 \<Longrightarrow> m' (u + x) = m (t + x)"
  shows "load64 m' (entry_at u j) = load64 m (entry_at t j)"
proof -
  have off: "m' (entry_at u j + of_nat i) = m (entry_at t j + of_nat i)" if "i < 8" for i
  proof -
    have "unat (8 * j + of_nat i) = 8 * unat j + i" using t(2) that by (simp add: unat_add_u64 unat_mult_u64 unat_of_nat_u64)
    then have "unat (8 * j + of_nat i) < 4096" using t(2) that by simp
    from same [OF this] show ?thesis by (simp add: entry_at_def add.assoc)
  qed
  show ?thesis by (rule bit_word_eqI) (simp add: bit_load64 off div_less_iff_less_mult)
qed

text \<open>The tables of the direct map lie in the upper 4 GiB, above the heap.\<close>

lemma low_bits_bound: "(\<And>k. 31 \<le> k \<Longrightarrow> \<not> bit (x :: u64) k) \<Longrightarrow> unat x < 2147483648"
proof -
  assume high: "\<And>k. 31 \<le> k \<Longrightarrow> \<not> bit x k"
  have "x = take_bit 31 x" by (rule bit_word_eqI) (use high in \<open>auto simp: bit_simps simp flip: not_le\<close>)
  then have "unat x = take_bit 31 (unat x)" by (metis unsigned_take_bit_eq)
  then show ?thesis using take_bit_nat_less_exp [of 31 "unat x"] by simp
qed

lemma sign_extended: "unat (scast (w :: u32) :: u64) < 2147483648 \<or> 18446744071562067968 \<le> unat (scast w :: u64)"
proof (cases "bit w 31")
  case False
  have "\<not> bit (scast w :: u64) k" if "31 \<le> k" for k using that False by (auto simp: bit_signed_iff min_def)
  then show ?thesis using low_bits_bound by blast
next
  case True
  have "\<not> bit (NOT (scast w :: u64)) k" if "31 \<le> k" for k
    using that True by (auto simp: bit_simps bit_signed_iff min_def)
  then have "unat (NOT (scast w :: u64)) < 2147483648" by (rule low_bits_bound)
  moreover have not: "unat (NOT x) = 18446744073709551615 - unat x" for x :: u64
  proof -
    have "NOT x = - 1 - x" by (simp add: not_eq_complement)
    moreover have "unat (- 1 - x) = unat (- 1 :: u64) - unat x" by (rule unat_sub_word) simp
    moreover have "unat (- 1 :: u64) = 18446744073709551615" by (simp add: unsigned_minus_1_eq_mask mask_eq_exp_minus_1)
    ultimately show ?thesis by simp
  qed
  ultimately show ?thesis unfolding not by linarith
qed

lemma next_table_high: "18446744069414584320 \<le> unat (next_table e)"
proof -
  define w :: u32 where "w = push_bit 12 (ucast (page_ppn e))"
  have "unat (next_table e) = (unat (scast w :: u64) + 0xFFFFFFFF80000000) mod 18446744073709551616"
    by (simp add: next_table_def ppn_addr_def w_def KERNEL_PHYS_TO_VIRT_def KERNEL_VMA_def unat_word_ariths)
  moreover have "unat (scast w :: u64) < 2147483648 \<or> 18446744071562067968 \<le> unat (scast w :: u64)"
    by (rule sign_extended)
  moreover have "18446744069414584320 \<le> (n + 18446744071562067968) mod 18446744073709551616"
    if "n < 2147483648 \<or> 18446744071562067968 \<le> n" "n < 18446744073709551616" for n :: nat
  proof (cases "n < 2147483648")
    case False
    then have "(n + 18446744071562067968) mod 18446744073709551616 = n - 2147483648"
      using that by (subst mod_if) (simp add: not_less)
    then show ?thesis using that False by simp
  qed simp
  ultimately show ?thesis using u64_bound [of "scast w"] by presburger
qed

lemma tab_high: "tab m r q = Some t \<Longrightarrow> q \<noteq> [] \<Longrightarrow> 18446744069414584320 \<le> unat t"
  using next_table_high by (cases q) (auto simp: Let_def split: option.splits if_splits)

lemma low_writes_same_tree:
  assumes apart: "tables_apart m r" and r: "18446744069414584320 \<le> unat r"
    and same: "\<And>x. 18446744069414584320 \<le> unat x \<Longrightarrow> m' x = m x"
  shows "same_tree m r m' r"
proof -
  have page: "load64 m' (entry_at t j) = load64 m (entry_at t j)"
    if t: "4096 dvd unat t" "18446744069414584320 \<le> unat t" and j: "unat j < 512" for t j
  proof (rule same_page_loads [OF t(1) j t(1)])
    fix x :: u64 assume x: "unat x < 4096"
    have "unat t + 4096 \<le> 18446744073709551616" using page_top [OF t(1)] by simp
    then have "unat (t + x) = unat t + unat x" using x by (simp add: unat_add_u64)
    then show "m' (t + x) = m (t + x)" using t(2) by (intro same) simp
  qed
  have root: "4096 dvd unat r" by (rule tables_apartD(1) [OF apart, of "[]"]) simp_all
  show ?thesis unfolding same_tree_def
    using page [OF root r] page tables_apartD(1) [OF apart] tab_high by blast
qed

section \<open>A frame for the root\<close>

lemma ialloc_single:
  assumes wf: "mm_wf (kmmap k)" and free: "free_set (kmmap k) \<noteq> {}"
  obtains f mm m' where "ialloc_frames k 1 DEFAULT_PAGE = Some (KERNEL_PHYS_TO_VIRT f, k\<lparr>kmem := m', kmmap := mm\<rparr>)"
    "unat f \<in> free_set (kmmap k)" "free_set mm = free_set (kmmap k) - {unat f}" "mm_wf mm" "4096 dvd unat f"
    "\<And>x. \<not> within (KERNEL_PHYS_TO_VIRT f) 4096 x \<Longrightarrow> m' x = kmem k x"
proof (cases rule: pmm.alloc_one [OF wf])
  case 1
  then show thesis using pmm.alloc_complete [OF wf] free by blast
next
  case (2 f mm)
  let ?F = "KERNEL_PHYS_TO_VIRT f"
  have al: "4096 dvd unat f" by (rule free_set_aligned [OF wf 2(4)])
  have F: "4096 dvd unat ?F" by (rule frame_page [OF al])
  have psz: "PAGE_TYPE_TO_SIZE DEFAULT_PAGE = DEFAULT_PAGE_SIZE"
    by (simp add: PAGE_TYPE_TO_SIZE_def DEFAULT_PAGE_def HUGE_PAGE_def SUPER_PAGE_def PAGE_S_def DEFAULT_PAGE_SIZE_def)
  let ?m' = "store64 (store64 (store64 (kmem k) ?F 1) (page_addr_at ?F 0) (KERNEL_VIRT_TO_PHYS ?F)) (page_size_at ?F) DEFAULT_PAGE_SIZE"
  have "ialloc_frames k 1 DEFAULT_PAGE = Some (?F, k\<lparr>kmem := ?m', kmmap := mm\<rparr>)"
    using 2(1) psz
    by (simp add: ialloc_frames_def map_frame_default Let_def frames_loop.simps store_entry_def page_count_at_def)
  moreover have "?m' x = kmem k x" if x: "\<not> within ?F 4096 x" for x
  proof -
    have far: "8 \<le> unat (x - (?F + of_nat i))" if "i + 8 \<le> 4096" for i
      using far_in_block [of 4096 x ?F 0 i] that x by (simp add: place_of_def within_def less_by_unat)
    show ?thesis using far [of 0] far [of 8] far [of 16]
      by (simp add: page_addr_at_def page_size_at_def store64_byte)
  qed
  ultimately show thesis using that 2 al by blast
qed

text \<open>Copying the root table into a page that no table is.\<close>

lemma root_copied:
  assumes inv: "tables_apart m r" and F: "4096 dvd unat F" and new: "\<And>q t. path_ok q \<Longrightarrow> tab m r q = Some t \<Longrightarrow> t \<noteq> F"
    and m': "\<And>x. \<not> within F 4096 x \<Longrightarrow> m' x = m x"
  shows "same_tree m r (Imemcpy m' F r 4096) F" "same_tree m r (Imemcpy m' F r 4096) r"
    "\<not> within F 4096 x \<Longrightarrow> Imemcpy m' F r 4096 x = m x"
proof -
  have root: "4096 dvd unat r" "r \<noteq> F" using tables_apartD(1) [OF inv, of "[]"] new [of "[]"] by simp_all
  have apart: "\<not> (within F 4096 x \<and> within t 4096 x)" if "4096 dvd unat t" "t \<noteq> F" for t x
    using that unfolding within_page [OF F] within_page [OF that(1)] by (metis F dvd_div_mult_self word_eq_by_unat)
  have dis: "disjoint_regions F r 4096" using apart [OF root] by (simp add: disjoint_regions_def)
  let ?m = "Imemcpy m' F r 4096"
  show "\<not> within F 4096 x \<Longrightarrow> ?m x = m x" by (simp add: Imemcpy_eq [OF dis] m')
  have in_page: "within t 4096 (t + x)" if "unat x < 4096" for t x :: u64 using that by (simp add: within_def less_by_unat)
  have other: "?m (t + x) = m (t + x)" if t: "4096 dvd unat t" "t \<noteq> F" and x: "unat x < 4096" for t x
    using apart [OF t, of "t + x"] in_page [OF x, of t] by (simp add: Imemcpy_eq [OF dis] m')
  have copied: "?m (F + x) = m (r + x)" if x: "unat x < 4096" for x
    using apart [OF root, of "r + x"] in_page [OF x] by (simp add: Imemcpy_eq [OF dis] m')
  have below: "load64 ?m (entry_at t j) = load64 m (entry_at t j)" if "path_ok q" "tab m r q = Some t" "unat j < 512" for q t j
    by (rule same_page_loads [OF tables_apartD(1) [OF inv that(1,2)] that(3) tables_apartD(1) [OF inv that(1,2)]])
       (rule other [OF tables_apartD(1) [OF inv that(1,2)] new [OF that(1,2)]])
  have "load64 ?m (entry_at F j) = load64 m (entry_at r j)" if "unat j < 512" for j
    by (rule same_page_loads [OF root(1) that F]) (rule copied)
  then show "same_tree m r ?m F" using below by (simp add: same_tree_def)
  have "load64 ?m (entry_at r j) = load64 m (entry_at r j)" if "unat j < 512" for j
    using below [of "[]" r j] that by simp
  then show "same_tree m r ?m r" using below by (simp add: same_tree_def)
qed

section \<open>The control block\<close>

text \<open>Clearing the bytes of a used block keeps the heap.\<close>

lemma block_cleared:
  assumes inv: "heap_inv k a (us @ (n, True) # vs)" and len: "unat len + 16 \<le> n"
  shows "heap_inv (k\<lparr>kmem := Imemset (kmem k) (place_of a (32 + total us)) v len\<rparr>) a (us @ (n, True) # vs)"
proof -
  note i = heap_inv_blocks [OF inv]
  let ?k = "k\<lparr>kmem := Imemset (kmem k) (place_of a (32 + total us)) v len\<rparr>"
  have load: "load_entry ?k (place_of a q) = load_entry k (place_of a q)"
    if q: "q + 8 \<le> 32 + total us \<or> 16 + total us + n \<le> q" "q < 32 + total us + n + total vs" for q
  proof (rule load_entry_cong)
    fix j :: nat assume j: "j < 8"
    have "unat (place_of a q + of_nat j) = unat a + q + j" "unat (place_of a (32 + total us)) = unat a + 32 + total us"
      using i(8) q(2) j by (simp_all add: unat_place)
    moreover have "within (place_of a (32 + total us)) len x \<longleftrightarrow>
        unat (place_of a (32 + total us)) \<le> unat x \<and> unat x < unat (place_of a (32 + total us)) + unat len"
      if "unat (place_of a (32 + total us)) + unat len < 18446744073709551616" for x
      using that by (rule within_iff)
    ultimately have "\<not> within (place_of a (32 + total us)) len (place_of a q + of_nat j)"
      using q j len i(8) by auto
    then show "kmem ?k (place_of a q + of_nat j) = kmem k (place_of a q + of_nat j)" by (simp add: Imemset_eq)
  qed
  have "heap_inv ?k a (us @ [(n, True)] @ vs)"
  proof (rule heap_inv_update [OF inv])
    show "blocks_at ?k a (16 + total us) [(n, True)]" using load [of "16 + total us"] i(3,10) by simp
  qed (use i load in auto)
  then show ?thesis by simp
qed

lemma heap_untouched:
  assumes inv: "heap_inv k a bs"
    and same: "\<And>x. unat a \<le> unat x \<Longrightarrow> unat x < unat a + 64 + total bs \<Longrightarrow> kmem k' x = kmem k x"
  shows "heap_inv k' a bs"
proof -
  have lim: "unat a + 64 + total bs < 18446744073709551616" "sizes_ok bs" using inv by (simp_all add: heap_inv_def)
  have load: "load_entry k' (place_of a q) = load_entry k (place_of a q)" if "q < 16 + total bs" for q
  proof (rule load_entry_cong)
    fix j :: nat assume "j < 8"
    then have "unat (place_of a q + of_nat j) = unat a + q + j" using that lim(1) by (simp add: unat_place)
    then show "kmem k' (place_of a q + of_nat j) = kmem k (place_of a q + of_nat j)" using that \<open>j < 8\<close> by (intro same) simp_all
  qed
  have "blocks_at k' a 16 bs \<longleftrightarrow> blocks_at k a 16 bs"
    by (rule blocks_at_cong [OF lim(2)]) (use load in auto)
  moreover have "heapStart k' a = heapStart k a" "heapSize k' a = heapSize k a"
    using load [of 0] load [of 8] by (simp_all add: heapStart_def heapSize_def place_of_def)
  ultimately show ?thesis using inv by (simp add: heap_inv_def)
qed

section \<open>The new thread\<close>

lemma tcb_block: "block_for SIZEOF_TCB = 288"
  by (simp add: block_for_def SIZEOF_TCB_def)

definition new_block :: "u64 \<Rightarrow> bool \<Rightarrow> u16 \<Rightarrow> u64 \<Rightarrow> tcb" where
  "new_block tid0 priv prio f = zero_tcb\<lparr>tid := tid0, registers := zero_regs\<lparr>psp := initial_regs priv\<rparr>, page_table := f,
    tstate := THREAD_NEW, privileged := priv, priority := prio, active_priority := prio\<rparr>"

lemma new_block_fields [simp]:
  "tid (new_block tid0 priv prio f) = tid0" "psp (registers (new_block tid0 priv prio f)) = initial_regs priv"
  "page_table (new_block tid0 priv prio f) = f" "tstate (new_block tid0 priv prio f) = THREAD_NEW"
  "privileged (new_block tid0 priv prio f) = priv" "priority (new_block tid0 priv prio f) = prio"
  "active_priority (new_block tid0 priv prio f) = prio" "subspace_field (tmemory (new_block tid0 priv prio f)) sub = 0"
  by (simp_all add: new_block_def) (cases sub; simp add: zero_tcb_def)

text \<open>A copied root is the root of a tree of its own.\<close>

lemma copied_root_inv:
  assumes inv: "pt_inv k r" and same: "same_tree (kmem k) r (kmem k') F" and F: "4096 dvd unat F"
    and fresh: "\<And>q t. path_ok q \<Longrightarrow> tab (kmem k) r q = Some t \<Longrightarrow> t \<noteq> F"
    and mm: "mm_wf (kmmap k')" "free_set (kmmap k') \<subseteq> free_set (kmmap k)" "unat (KERNEL_VIRT_TO_PHYS F) \<notin> free_set (kmmap k')"
  shows "pt_inv k' F"
proof -
  have tabs: "tab (kmem k') F q = (if q = [] then Some F else tab (kmem k) r q)" if "path_ok q" for q
    using same_tree_tab [OF same that] by simp
  have apart: "tables_apart (kmem k) r" using inv by (simp add: pt_inv_def)
  have "tables_apart (kmem k') F"
    unfolding tables_apart_def
  proof (intro conjI allI impI)
    fix p t assume p: "path_ok p" "tab (kmem k') F p = Some t"
    then show "4096 dvd unat t" using F tables_apartD(1) [OF apart] by (auto simp: tabs split: if_splits)
    fix q assume "path_ok q" "tab (kmem k') F q = Some t"
    then show "p = q" using p tables_apartD(2) [OF apart] fresh unfolding tabs [OF p(1)] tabs [OF \<open>path_ok q\<close>]
      by (metis option.inject)
  qed
  moreover have "tables_not_free (kmem k') F (free_set (kmmap k'))"
    using inv mm(2,3) unfolding pt_inv_def tables_not_free_def by (auto simp: tabs split: if_splits)
  moreover have "low_frames (kmmap k')" using inv mm(2) by (auto simp: pt_inv_def low_frames_def)
  ultimately show ?thesis using mm(1) by (simp add: pt_inv_def)
qed

text \<open>The bytes of the heap's area.\<close>

definition in_heap :: "nat \<Rightarrow> u64 \<Rightarrow> bool" where
  "in_heap n x \<longleftrightarrow> 18446742974197923840 \<le> unat x \<and> unat x < 18446742974197923840 + 64 + n"

lemma unat_heap_place: "q < 1099511627776 \<Longrightarrow> unat (place_of KERNEL_HEAP_ADDR q) = 18446742974197923840 + q"
proof -
  assume "q < 1099511627776"
  moreover have "unat KERNEL_HEAP_ADDR = 18446742974197923840" by (simp add: KERNEL_HEAP_ADDR_def)
  ultimately show ?thesis by (simp add: unat_place)
qed

lemma outside_block:
  assumes x: "\<not> in_heap (tu + n + tv) x" and len: "tu + n + tv < 549755813888"
  shows "n \<le> unat (x - place_of KERNEL_HEAP_ADDR (16 + tu))"
proof (cases "unat x < 18446742974197923840")
  case True
  let ?p = "place_of KERNEL_HEAP_ADDR (16 + tu)"
  have p: "unat ?p = 18446742974197923840 + (16 + tu)" using len by (intro unat_heap_place) simp
  have "unat (x - ?p) = 18446744073709551616 - (unat ?p - unat x)"
    using True p u64_bound [of ?p] by (simp add: unat_word_ariths unat_sub_if')
  then show ?thesis using p len by simp
next
  case False
  then have x': "18446742974197923840 + 64 + (tu + n + tv) \<le> unat x" using x by (simp add: in_heap_def)
  have "unat (x - place_of KERNEL_HEAP_ADDR (16 + tu)) = unat x - (18446742974197923840 + (16 + tu))"
    using x' len unat_heap_place [of "16 + tu"] by (simp add: unat_sub_word le_by_unat)
  then show ?thesis using x' by simp
qed

text \<open>An allocation from the heap changes nothing outside it, so no table.\<close>

lemma heap_only_same_tree:
  assumes inv: "pt_inv k r" and r: "18446744069414584320 \<le> unat r" and n: "n < 549755813888"
    and same: "\<And>x. \<not> in_heap n x \<Longrightarrow> m' x = kmem k x"
  shows "same_tree (kmem k) r m' r"
proof (rule low_writes_same_tree [OF _ r])
  show "tables_apart (kmem k) r" using inv by (simp add: pt_inv_def)
  fix x :: u64 assume "18446744069414584320 \<le> unat x"
  then show "m' x = kmem k x" using n by (intro same) (simp add: in_heap_def)
qed

lemma create_thread_run:
  assumes prio: "prio \<noteq> UINT16_MAX"
    and heap: "heap_inv (ks s) KERNEL_HEAP_ADDR (us @ (n, False) # vs)" "all_used us" "288 \<le> n" "total us + n + total vs < 549755813888"
    and inv: "pt_inv (ks s) (KERNEL_PHYS_TO_VIRT (cr3_of s))" and root: "0xFFFFFFFF00000000 \<le> KERNEL_PHYS_TO_VIRT (cr3_of s)"
    and free: "free_set (kmmap (ks s)) \<noteq> {}"
  obtains f k' where "create_thread s priv prio = Some (place_of KERNEL_HEAP_ADDR (32 + total us), s\<lparr>ks := k', TID_GEN := TID_GEN s + 1,
        sch := (sch s)\<lparr>tcbs := (tcbs (sch s))(place_of KERNEL_HEAP_ADDR (32 + total us) \<mapsto> new_block (TID_GEN s) priv prio f)\<rparr>\<rparr>)"
    "heap_inv k' KERNEL_HEAP_ADDR (taken_from us n 288 vs)" "is_object (place_of KERNEL_HEAP_ADDR (32 + total us))"
    "pt_inv k' (KERNEL_PHYS_TO_VIRT (cr3_of s))" "pt_inv k' (KERNEL_PHYS_TO_VIRT f)"
    "unat f \<in> free_set (kmmap (ks s))" "free_set (kmmap k') = free_set (kmmap (ks s)) - {unat f}"
    "same_tree (kmem (ks s)) (KERNEL_PHYS_TO_VIRT (cr3_of s)) (kmem k') (KERNEL_PHYS_TO_VIRT f)"
    "same_tree (kmem (ks s)) (KERNEL_PHYS_TO_VIRT (cr3_of s)) (kmem k') (KERNEL_PHYS_TO_VIRT (cr3_of s))"
    "\<And>x. \<not> in_heap (total us + n + total vs) x \<Longrightarrow> \<not> within (KERNEL_PHYS_TO_VIRT f) 4096 x \<Longrightarrow> kmem k' x = kmem (ks s) x"
proof -
  let ?r = "KERNEL_PHYS_TO_VIRT (cr3_of s)" and ?t = "place_of KERNEL_HEAP_ADDR (32 + total us)"
  have H: "unat KERNEL_HEAP_ADDR = 18446742974197923840" by (simp add: KERNEL_HEAP_ADDR_def)
  have sz: "unat SIZEOF_TCB = 272" by (simp add: SIZEOF_TCB_def)
  have apart: "tables_apart (kmem (ks s)) ?r" and wf: "mm_wf (kmmap (ks s))" using inv by (simp_all add: pt_inv_def)
  have r: "18446744069414584320 \<le> unat ?r" using root by (simp add: le_by_unat)
  have bound: "unat SIZEOF_TCB + 31 < 18446744073709551616" "block_for SIZEOF_TCB \<le> n"
    using sz heap(3) by (simp_all add: tcb_block)
  obtain k1 where k1: "Imalloc_alocator (ks s) (cr3_of s) KERNEL_HEAP_ADDR SIZEOF_TCB = Some (?t, k1)"
    "heap_inv k1 KERNEL_HEAP_ADDR (taken_from us n (block_for SIZEOF_TCB) vs)"
    "\<And>x. n \<le> unat (x - place_of KERNEL_HEAP_ADDR (16 + total us)) \<Longrightarrow> kmem k1 x = kmem (ks s) x" "kmmap k1 = kmmap (ks s)"
    using malloc_taken [OF heap(1,2) bound, of "cr3_of s"] by metis
  let ?k2 = "k1\<lparr>kmem := Imemset (kmem k1) ?t 0 SIZEOF_TCB\<rparr>"
  have heap2: "heap_inv ?k2 KERNEL_HEAP_ADDR (taken_from us n 288 vs)"
    using k1(2) unfolding tcb_block taken_from_def by (intro block_cleared) (simp_all add: sz)
  note place = unat_heap_place
  have bytes2: "kmem ?k2 x = kmem (ks s) x" if x: "\<not> in_heap (total us + n + total vs) x" for x
  proof -
    have "\<not> within ?t SIZEOF_TCB x" using x heap(3,4) place [of "32 + total us"] sz by (subst within_iff) (auto simp: in_heap_def)
    moreover have "kmem k1 x = kmem (ks s) x" by (rule k1(3) [OF outside_block [OF x heap(4)]])
    ultimately show ?thesis by (simp add: Imemset_eq)
  qed
  have same2: "same_tree (kmem (ks s)) ?r (kmem ?k2) ?r" by (rule heap_only_same_tree [OF inv r heap(4) bytes2])
  have inv2: "pt_inv ?k2 ?r" by (rule same_tree_inv [OF inv same2]) (simp_all add: k1(4) wf)
  obtain f mm m' where f: "ialloc_frames ?k2 1 DEFAULT_PAGE = Some (KERNEL_PHYS_TO_VIRT f, ?k2\<lparr>kmem := m', kmmap := mm\<rparr>)"
    "unat f \<in> free_set (kmmap ?k2)" "free_set mm = free_set (kmmap ?k2) - {unat f}" "mm_wf mm" "4096 dvd unat f"
    "\<And>x. \<not> within (KERNEL_PHYS_TO_VIRT f) 4096 x \<Longrightarrow> m' x = kmem ?k2 x"
    by (rule ialloc_single [of ?k2]) (use wf free k1(4) in simp_all)
  let ?F = "KERNEL_PHYS_TO_VIRT f" let ?k3 = "?k2\<lparr>kmem := Imemcpy m' ?F ?r 4096, kmmap := mm\<rparr>"
  have new: "t \<noteq> ?F" if "path_ok q" "tab (kmem ?k2) ?r q = Some t" for q t
    using inv2 that f(2) unfolding pt_inv_def tables_not_free_def by fastforce
  have apart2: "tables_apart (kmem ?k2) ?r" using inv2 by (simp add: pt_inv_def)
  have copied: "same_tree (kmem ?k2) ?r (kmem ?k3) ?F" "same_tree (kmem ?k2) ?r (kmem ?k3) ?r"
    using root_copied [OF apart2 frame_page [OF f(5)] new f(6)] by simp_all
  have inv3: "pt_inv ?k3 ?r" by (rule same_tree_inv [OF inv2 copied(2)]) (use f(3,4) in auto)
  have heap3: "heap_inv ?k3 KERNEL_HEAP_ADDR (taken_from us n 288 vs)"
  proof (rule heap_untouched [OF heap2])
    fix x :: u64 assume x: "unat x < unat KERNEL_HEAP_ADDR + 64 + total (taken_from us n 288 vs)"
    have "total (taken_from us n 288 vs) = total us + n + total vs" using total_taken [OF heap(3)] by simp
    then have x': "unat x < 18446744069414584320" using x H heap(4) by simp
    have "unat f < 2147483648" using inv2 f(2) by (simp add: pt_inv_def low_frames_def)
    then have F: "18446744069414584320 \<le> unat ?F" by (simp add: KERNEL_PHYS_TO_VIRT_def KERNEL_VMA_def unat_add_u64)
    have "\<not> within ?F 4096 x"
      unfolding within_page [OF frame_page [OF f(5)]] using x' F frame_page [OF f(5)] by (auto elim!: dvdE)
    then show "kmem ?k3 x = kmem ?k2 x" using root_copied(3) [OF apart2 frame_page [OF f(5)] new f(6)] by simp
  qed
  have inv4: "pt_inv ?k3 ?F"
    by (rule copied_root_inv [OF inv2 copied(1) frame_page [OF f(5)] new]) (use f(2-4) in auto)
  have bytes3: "kmem ?k3 x = kmem (ks s) x" if "\<not> in_heap (total us + n + total vs) x" "\<not> within ?F 4096 x" for x
    using root_copied(3) [OF apart2 frame_page [OF f(5)] new f(6) that(2)] bytes2 [OF that(1)] by simp
  let ?s' = "s\<lparr>ks := ?k3, TID_GEN := TID_GEN s + 1, sch := (sch s)\<lparr>tcbs := (tcbs (sch s))(?t \<mapsto> new_block (TID_GEN s) priv prio f)\<rparr>\<rparr>"
  have obj: "is_object ?t" using place [of "32 + total us"] heap(3,4) by (auto simp: is_object_def FRAME_ALLOC_FAILED_def word_eq_by_unat)
  have cr: "cr3_of (s\<lparr>ks := k\<rparr>) = cr3_of s" "cr3_of (s\<lparr>TID_GEN := i, ks := k\<rparr>) = cr3_of s" for k i
    by (simp_all add: cr3_of_def)
  have phys: "KERNEL_VIRT_TO_PHYS ?F = f" by (simp add: KERNEL_VIRT_TO_PHYS_def KERNEL_PHYS_TO_VIRT_def)
  have run: "create_thread s priv prio = Some (?t, ?s')"
    using prio obj f(1) by (simp add: create_thread_def sys_malloc_def Imalloc_def k1(1) Let_def phys cr new_block_def)
  show thesis
    using that [OF run heap3 obj inv3 inv4 _ _ same_tree_trans [OF same2 copied(1)] same_tree_trans [OF same2 copied(2)] bytes3] f(2,3) k1(4)
    by simp
qed

text \<open>C14. Creating a thread, with room in the heap for its control block and a frame for its root table: the
  block gets the next thread number, the entry registers of its privilege level and its priority, the root table is a frame that
  was free, and in the new address space every address translates as it did in the current one, which is unchanged.  Heap and
  page tables stay well-formed.  The active priority starts as the priority itself, although \<^verbatim>\<open>docs/Scheduling/Design.md\<close> and the
  comment at the test of the priority want it one higher.\<close>

theorem create_thread_address_space:
  assumes prio: "prio \<noteq> UINT16_MAX"
    and heap: "heap_inv (ks s) KERNEL_HEAP_ADDR (us @ (n, False) # vs)" "all_used us" "288 \<le> n" "total us + n + total vs < 549755813888"
    and inv: "pt_inv (ks s) (KERNEL_PHYS_TO_VIRT (cr3_of s))" and root: "0xFFFFFFFF00000000 \<le> KERNEL_PHYS_TO_VIRT (cr3_of s)"
    and free: "free_set (kmmap (ks s)) \<noteq> {}"
  shows "\<exists>t b s'. create_thread s priv prio = Some (t, s') \<and> t = place_of KERNEL_HEAP_ADDR (32 + total us) \<and>
     tcbs (sch s') = (tcbs (sch s))(t \<mapsto> b) \<and> tid b = TID_GEN s \<and> TID_GEN s' = TID_GEN s + 1 \<and>
     psp (registers b) = initial_regs priv \<and> tstate b = THREAD_NEW \<and> priority b = prio \<and> active_priority b = prio \<and>
     heap_inv (ks s') KERNEL_HEAP_ADDR (taken_from us n 288 vs) \<and> pt_inv (ks s') (KERNEL_PHYS_TO_VIRT (cr3_of s)) \<and>
     unat (page_table b) \<in> free_set (kmmap (ks s)) \<and>
     free_set (kmmap (ks s')) = free_set (kmmap (ks s)) - {unat (page_table b)} \<and>
     translate (ks s') (KERNEL_PHYS_TO_VIRT (page_table b)) = translate (ks s) (KERNEL_PHYS_TO_VIRT (cr3_of s)) \<and>
     translate (ks s') (KERNEL_PHYS_TO_VIRT (cr3_of s)) = translate (ks s) (KERNEL_PHYS_TO_VIRT (cr3_of s))"
proof -
  obtain f k' where c: "create_thread s priv prio = Some (place_of KERNEL_HEAP_ADDR (32 + total us), s\<lparr>ks := k', TID_GEN := TID_GEN s + 1,
        sch := (sch s)\<lparr>tcbs := (tcbs (sch s))(place_of KERNEL_HEAP_ADDR (32 + total us) \<mapsto> new_block (TID_GEN s) priv prio f)\<rparr>\<rparr>)"
    "heap_inv k' KERNEL_HEAP_ADDR (taken_from us n 288 vs)" "pt_inv k' (KERNEL_PHYS_TO_VIRT (cr3_of s))"
    "unat f \<in> free_set (kmmap (ks s))" "free_set (kmmap k') = free_set (kmmap (ks s)) - {unat f}"
    "same_tree (kmem (ks s)) (KERNEL_PHYS_TO_VIRT (cr3_of s)) (kmem k') (KERNEL_PHYS_TO_VIRT f)"
    "same_tree (kmem (ks s)) (KERNEL_PHYS_TO_VIRT (cr3_of s)) (kmem k') (KERNEL_PHYS_TO_VIRT (cr3_of s))"
    by (rule create_thread_run [OF assms, of priv])
  show ?thesis
    using c same_tree_translate [OF c(6)] same_tree_translate [OF c(7)]
    by (intro exI [of _ "place_of KERNEL_HEAP_ADDR (32 + total us)"] exI [of _ "new_block (TID_GEN s) priv prio f"]
        exI [of _ "s\<lparr>ks := k', TID_GEN := TID_GEN s + 1, sch := (sch s)\<lparr>tcbs := (tcbs (sch s))(place_of KERNEL_HEAP_ADDR (32 + total us) \<mapsto>
          new_block (TID_GEN s) priv prio f)\<rparr>\<rparr>"]) simp
qed

text \<open>The heap of two pages and the zeroed root table in one memory.\<close>

definition demo_sys :: sys where
  "demo_sys = \<lparr>ks = demo_heap, sch = \<lparr>tcbs = (\<lambda>_. None), top_tcb = 0, last_tcb = 0, running_tcb = 0, dummy_tcb = 0, thread_count = 0,
     cpu_cr3 = 0x1000, eoi_writes = 0\<rparr>, TID_GEN = 1, PID_GEN = 1, pcbs = (\<lambda>_. None)\<rparr>"

lemma demo_sys_root: "KERNEL_PHYS_TO_VIRT (cr3_of demo_sys) = blank_root"
  by (simp add: demo_sys_def cr3_of_def blank_root_def)

lemma demo_sys_same: "same_tree (kmem blank) blank_root (kmem (ks demo_sys)) blank_root"
proof (rule low_writes_same_tree)
  show "tables_apart (kmem blank) blank_root" using blank_inv by (simp add: pt_inv_def)
  show "18446744069414584320 \<le> unat blank_root" by (simp add: blank_root_def KERNEL_PHYS_TO_VIRT_def KERNEL_VMA_def)
  fix x :: u64 assume x: "18446744069414584320 \<le> unat x"
  have H: "unat KERNEL_HEAP_ADDR = 18446742974197923840" by (simp add: KERNEL_HEAP_ADDR_def)
  have "32 \<le> unat (x - KERNEL_HEAP_ADDR)" using x H by (simp add: unat_sub_word le_by_unat)
  then show "kmem (ks demo_sys) x = kmem blank x"
    using root_header(2) [of KERNEL_HEAP_ADDR "0x2000" x "\<lparr>kmem = (\<lambda>_. 0), kmmap = example_map\<rparr>"] H
    by (simp add: demo_sys_def demo_heap_def blank_def)
qed

lemma demo_sys_map: "kmmap (ks demo_sys) = example_map"
  by (simp add: demo_sys_def demo_heap_def init_root_header_def Let_def put_block_size_def put_allocated_def put_prev_def store_entry_def)

theorem create_thread_address_space_witness:
  "\<exists>b s'. create_thread demo_sys False 10 = Some (0xFFFFFF0000000020, s') \<and>
     tcbs (sch s') 0xFFFFFF0000000020 = Some b \<and> tid b = 1 \<and> psp (registers b) = initial_regs False \<and>
     unat (page_table b) \<in> free_set example_map \<and>
     heap_inv (ks s') KERNEL_HEAP_ADDR [(288, True), (0x1FF0 - 288, False)] \<and>
     translate (ks s') (KERNEL_PHYS_TO_VIRT (page_table b)) = translate (ks demo_sys) blank_root"
proof -
  have prio: "10 \<noteq> UINT16_MAX" by (simp add: UINT16_MAX_def)
  have heap: "heap_inv (ks demo_sys) KERNEL_HEAP_ADDR ([] @ (0x1FF0, False) # [])" using demo_heap_inv by (simp add: demo_sys_def)
  have inv: "pt_inv (ks demo_sys) (KERNEL_PHYS_TO_VIRT (cr3_of demo_sys))"
    unfolding demo_sys_root
    by (rule same_tree_inv [OF blank_inv demo_sys_same]) (simp_all add: demo_sys_map example_maps_wf, simp add: blank_def)
  have root: "0xFFFFFFFF00000000 \<le> KERNEL_PHYS_TO_VIRT (cr3_of demo_sys)"
    unfolding demo_sys_root by (simp add: blank_root_def KERNEL_PHYS_TO_VIRT_def KERNEL_VMA_def)
  have free: "free_set (kmmap (ks demo_sys)) \<noteq> {}" unfolding demo_sys_map by (auto simp: example_free_set intro: exI [of _ 0])
  have at: "place_of KERNEL_HEAP_ADDR 32 = 0xFFFFFF0000000020" by (simp add: place_of_def KERNEL_HEAP_ADDR_def)
  from create_thread_address_space [OF prio heap _ _ _ inv root free, of False] show ?thesis
    by (auto simp: at demo_sys_root demo_sys_map taken_from_def) (auto simp: demo_sys_def)
qed

end
