(* ===== verification/Thread_Memory.thy ===== *)
theory Thread_Memory
  imports Thread_Space
begin

text \<open>
  Memory for a thread: \<^const>\<open>thread_supply_mem_region\<close> maps the frames of a list one after the other behind the memory
  that the thread has in a subspace, and \<^const>\<open>thread_supply_new_mem_region\<close> takes the frames from the allocator first.
\<close>

section \<open>Pages one after the other\<close>

definition run_pages :: "u64 \<Rightarrow> u64 list \<Rightarrow> (u64 \<times> u64) list" where
  "run_pages va fs = map (\<lambda>k. (va + of_nat (4096 * k), fs ! k)) [0..<length fs]"

lemma drop_run_pages:
  "i < length fs \<Longrightarrow> drop i (run_pages va fs) = (va + of_nat (4096 * i), fs ! i) # drop (Suc i) (run_pages va fs)"
  by (subst Cons_nth_drop_Suc [symmetric]) (simp_all add: run_pages_def)

lemma page_number_48: "unat (drop_bit 12 (take_bit 48 ((va :: u64) + of_nat (4096 * k)))) = (unat va div 4096 + k) mod 68719476736"
proof -
  have "unat (va + of_nat (4096 * k)) mod 281474976710656 = (unat va + 4096 * k) mod 281474976710656"
  proof -
    have "unat (va + of_nat (4096 * k)) = (unat va + 4096 * k) mod 18446744073709551616"
      by (simp add: unat_word_ariths unat_of_nat mod_simps del: of_nat_mult)
    then show ?thesis by (simp only:) (rule mod_mod_cancel, simp)
  qed
  moreover have "unat (drop_bit 12 (take_bit 48 w)) = unat w mod 281474976710656 div 4096" for w :: u64
    by (simp add: unsigned_drop_bit_eq unsigned_take_bit_eq del: take_bit_word_eq_self) (simp add: drop_bit_eq_div take_bit_eq_mod)
  ultimately have "unat (drop_bit 12 (take_bit 48 (va + of_nat (4096 * k)))) = (unat va + 4096 * k) mod 281474976710656 div 4096"
    by simp
  also have "\<dots> = (unat va + 4096 * k) div 4096 mod 68719476736"
    using mod_mult2_eq [of "unat va + 4096 * k" 4096 68719476736] by simp
  finally show ?thesis by (simp add: add.commute)
qed

lemma run_distinct:
  assumes "k < 68719476736" "k' < 68719476736" "same_page DEFAULT_PAGE_SIZE (va + of_nat (4096 * k)) (va + of_nat (4096 * k'))"
  shows "k = k'"
proof -
  have "(unat va div 4096 + k) mod 68719476736 = (unat va div 4096 + k') mod 68719476736"
    using assms(3) unfolding same_page_iff(1) by (simp add: word_eq_by_unat page_number_48 del: of_nat_mult)
  then have "k mod 68719476736 = k' mod 68719476736" by (simp add: nat_mod_eq_iff)
  then show ?thesis using assms(1,2) by simp
qed

lemma run_mapped:
  assumes "length fs \<le> 510"
  shows "k < length fs \<Longrightarrow> same_page DEFAULT_PAGE_SIZE (va + of_nat (4096 * k)) va' \<Longrightarrow>
      mapped_pages DEFAULT_PAGE_SIZE (run_pages va fs) f va' = Some (ppn_of (fs ! k))"
    "\<forall>k < length fs. \<not> same_page DEFAULT_PAGE_SIZE (va + of_nat (4096 * k)) va' \<Longrightarrow>
      mapped_pages DEFAULT_PAGE_SIZE (run_pages va fs) f va' = f va'"
proof -
  have "j = k" if "j < length fs" "k < length fs" "same_page DEFAULT_PAGE_SIZE (va + of_nat (4096 * j)) (va + of_nat (4096 * k))" for j k
    using that assms by (intro run_distinct [of j k va]) simp_all
  then have "one_target DEFAULT_PAGE_SIZE (run_pages va fs)"
    unfolding one_target_def run_pages_def by fastforce
  moreover have "k < length fs \<Longrightarrow> (va + of_nat (4096 * k), fs ! k) \<in> set (run_pages va fs)" by (auto simp: run_pages_def)
  ultimately show "k < length fs \<Longrightarrow> same_page DEFAULT_PAGE_SIZE (va + of_nat (4096 * k)) va' \<Longrightarrow>
      mapped_pages DEFAULT_PAGE_SIZE (run_pages va fs) f va' = Some (ppn_of (fs ! k))"
    by (rule mapped_pages_hit)
  assume "\<forall>k < length fs. \<not> same_page DEFAULT_PAGE_SIZE (va + of_nat (4096 * k)) va'"
  then show "mapped_pages DEFAULT_PAGE_SIZE (run_pages va fs) f va' = f va'"
    by (intro mapped_pages_other) (auto simp: run_pages_def)
qed

section \<open>The loop over a list\<close>

definition grown :: "thread_memory \<Rightarrow> addr_sub_space \<Rightarrow> nat \<Rightarrow> thread_memory" where
  "grown m sub n = (put_field m sub (subspace_field m sub + of_nat (4096 * n)))\<lparr>memory_limit := memory_limit m + of_nat (4096 * n)\<rparr>"

lemma grown_simps [simp]:
  "subspace_field (grown m sub n) sub = subspace_field m sub + of_nat (4096 * n)"
  "memory_limit (grown m sub n) = memory_limit m + of_nat (4096 * n)"
  by (cases sub; simp add: grown_def)+

lemma grown_0 [simp]: "grown m sub 0 = m"
  by (cases sub; simp add: grown_def)

lemma grown_step:
  "(put_field m sub (subspace_field m sub + DEFAULT_PAGE_SIZE))\<lparr>memory_limit := memory_limit m + DEFAULT_PAGE_SIZE\<rparr> = grown m sub 1"
  by (simp add: grown_def DEFAULT_PAGE_SIZE_def)

lemma put_field_limit [simp]: "memory_limit (put_field m sub v) = memory_limit m"
  by (cases sub) simp_all

lemma grown_grown: "grown (grown m sub a) sub b = grown m sub (a + b)"
  by (cases sub; simp add: grown_def algebra_simps)

text \<open>The list is read from memory in each step; it lies in a page that the steps leave alone.\<close>

lemma spared_load:
  assumes "spares k k' r" "foreign k r P" "unat j < 512"
  shows "load64 (kmem k') (entry_at P j) = load64 (kmem k) (entry_at P j)"
proof (rule same_page_loads)
  show "4096 dvd unat P" "4096 dvd unat P" using assms(2) by (simp_all add: foreign_def)
  fix x :: u64 assume "unat x < 4096"
  then have "within P 4096 (P + x)" by (simp add: within_def less_by_unat)
  then show "kmem k' (P + x) = kmem k (P + x)" using assms(1,2) unfolding spares_def by blast
qed (rule assms(3))

lemma spared_list:
  assumes "spares k k' r" "foreign k r info" "frame_list (kmem k) info fs"
  shows "frame_list (kmem k') info fs"
proof -
  note ld = spared_load [OF assms(1,2)]
  have "load64 (kmem k') (entry_at info (of_nat i + 2)) = load64 (kmem k) (entry_at info (of_nat i + 2))" if "i < length fs" for i
  proof (rule ld)
    have "i < 510" using that assms(3) by (simp add: frame_list_def)
    then show "unat (of_nat i + 2 :: u64) < 512" by (simp add: unat_add_u64 unat_of_nat_u64)
  qed
  then show ?thesis using assms(3) ld [of 0] ld [of 1] by (simp add: frame_list_def page_addr_entry)
qed

text \<open>What mapping leaves as it was: the pages that are not its own, and room for more pages.\<close>

definition carries :: "kstate \<Rightarrow> kstate \<Rightarrow> u64 \<Rightarrow> bool" where
  "carries k k' r \<longleftrightarrow> spares k k' r \<and>
     (\<forall>va. open_path k r DEFAULT_PAGE_SIZE va \<longrightarrow> open_path k' r DEFAULT_PAGE_SIZE va)"

lemma carries_refl: "carries k k r"
  by (simp add: carries_def spares_refl)

lemma carries_trans: "carries k1 k2 r \<Longrightarrow> carries k2 k3 r \<Longrightarrow> carries k1 k3 r"
  using spares_trans unfolding carries_def by blast

lemma carriesD:
  assumes "carries k k' r"
  shows "spares k k' r" "foreign k r P \<Longrightarrow> foreign k' r P"
    "open_path k r DEFAULT_PAGE_SIZE va \<Longrightarrow> open_path k' r DEFAULT_PAGE_SIZE va"
  using assms unfolding carries_def spares_def by blast+

text \<open>The three subspaces of threads lie under the root entries 9, 18 and 249; mapping there changes the root table and the
  tables under these entries.\<close>

definition user_va :: "u64 \<Rightarrow> bool" where
  "user_va va \<longleftrightarrow> VA_PML4_INDEX va \<in> {9, 18, 249}"

definition user_path :: "u64 list \<Rightarrow> bool" where
  "user_path q \<longleftrightarrow> q = [] \<or> last q \<in> {9, 18, 249}"

definition user_only :: "kstate \<Rightarrow> kstate \<Rightarrow> u64 \<Rightarrow> bool" where
  "user_only k k' r \<longleftrightarrow> spares_at user_path k k' r \<and> free_set (kmmap k') \<subseteq> free_set (kmmap k)"

lemma user_only_refl: "user_only k k r"
  by (simp add: user_only_def spares_at_refl)

lemma user_only_trans: "user_only k1 k2 r \<Longrightarrow> user_only k2 k3 r \<Longrightarrow> user_only k1 k3 r"
  using spares_at_trans unfolding user_only_def by blast

lemma walk_only_user: "walk_only va k k' r \<Longrightarrow> user_va va \<Longrightarrow> user_only k k' r"
  unfolding walk_only_def user_only_def by (auto simp: user_path_def user_va_def paths_def)

lemma supply_loop_run:
  assumes "tcbs (sch s) t = Some b" "pt_inv (ks s) r" "r = KERNEL_PHYS_TO_VIRT (page_table b)"
    and "foreign (ks s) r info" "frame_list (kmem (ks s)) info fs" "i \<le> length fs"
    and "\<forall>k < length fs. open_path (ks s) r DEFAULT_PAGE_SIZE (va + of_nat (4096 * k))"
    and "SUB_SPACE_TO_ADDR sub + subspace_field (tmemory b) sub = va + of_nat (4096 * i)"
  shows "(\<exists>s'. supply_loop s t sub info perms (of_nat i) = Some (- 1, s') \<and> frames_left (ks s) < 3 * (length fs - i)) \<or>
    (\<exists>k'. supply_loop s t sub info perms (of_nat i) = Some (0, s\<lparr>ks := k',
         sch := (sch s)\<lparr>tcbs := (tcbs (sch s))(t \<mapsto> b\<lparr>tmemory := grown (tmemory b) sub (length fs - i)\<rparr>)\<rparr>\<rparr>) \<and>
       pt_inv k' r \<and> carries (ks s) k' r \<and> frames_left (ks s) \<le> frames_left k' + 3 * (length fs - i) \<and>
       translate k' r = mapped_pages DEFAULT_PAGE_SIZE (drop i (run_pages va fs)) (translate (ks s) r) \<and>
       ((\<forall>k < length fs. user_va (va + of_nat (4096 * k))) \<longrightarrow> user_only (ks s) k' r))"
  using assms
proof (induction "length fs - i" arbitrary: i s b)
  case 0
  then have "\<not> (of_nat i :: u64) < load_entry (ks s) (page_count_at info)" "drop i (run_pages va fs) = []"
    by (simp_all add: frame_list_def load_entry_def run_pages_def)
  then show ?case using 0 by (subst (1 2) supply_loop.simps) (auto simp: carries_refl user_only_refl fun_upd_idem intro!: exI [of _ "ks s"])
next
  case (Suc d)
  have i: "i < length fs" "length fs \<le> 510" using Suc.hyps(2) Suc.prems(5) by (auto simp: frame_list_def)
  have list: "load_entry (ks s) (page_addr_at info (of_nat i)) = fs ! i" "load_entry (ks s) (page_size_at info) = DEFAULT_PAGE_SIZE"
    "(of_nat i :: u64) < load_entry (ks s) (page_count_at info)"
    using Suc.prems(5) i by (simp_all add: frame_list_def load_entry_def less_by_unat unat_of_nat_u64)
  let ?va = "va + of_nat (4096 * i)" and ?p = "perms OR push_bit USER_ACCESS_SHIFT (of_bool (\<not> privileged b))"
  have opn: "open_path (ks s) r DEFAULT_PAGE_SIZE ?va" using Suc.prems(7) i(1) by blast
  note unfold = supply_loop.simps [of s t sub info perms "of_nat i"]
  show ?case
  proof (rule page_in_cases [OF Suc.prems(2) opn, of "fs ! i" ?p])
    fix k assume k: "page_in (ks s) r ?va (fs ! i) DEFAULT_PAGE_SIZE ?p = Some (- 1, k)" "frames_left (ks s) < 3"
    have "supply_loop s t sub info perms (of_nat i) = Some (- 1, s\<lparr>ks := k\<rparr>)"
      unfolding unfold using list Suc.prems(1,3,8) k(1) by simp
    then show ?thesis using k(2) i(1) by auto
  next
    fix k assume k: "page_in (ks s) r ?va (fs ! i) DEFAULT_PAGE_SIZE ?p = Some (0, k)" "pt_inv k r" "spares (ks s) k r"
      "frames_left (ks s) \<le> frames_left k + 3"
      "\<And>va'. translate k r va' = (if same_page DEFAULT_PAGE_SIZE ?va va' then Some (ppn_of (fs ! i)) else translate (ks s) r va')"
      "walk_only ?va (ks s) k r"
    let ?b = "b\<lparr>tmemory := grown (tmemory b) sub 1\<rparr>"
    let ?s = "s\<lparr>ks := k, sch := (sch s)\<lparr>tcbs := (tcbs (sch s))(t \<mapsto> ?b)\<rparr>\<rparr>"
    have list': "frame_list (kmem k) info fs" by (rule spared_list [OF k(3) Suc.prems(4,5)])
    then have "load_entry k (page_size_at info) = DEFAULT_PAGE_SIZE" by (simp add: frame_list_def load_entry_def)
    then have step: "supply_loop s t sub info perms (of_nat i) = supply_loop ?s t sub info perms (of_nat (Suc i))"
      unfolding unfold using list Suc.prems(1,3,8) k(1) grown_step [of "tmemory b" sub] by (simp add: Let_def add.commute)
    have tr: "translate k r = mapped DEFAULT_PAGE_SIZE ?va (fs ! i) (translate (ks s) r)" using k(5) by (auto simp: mapped_def)
    have car: "carries (ks s) k r"
      using k(3) vm.room_kept [OF Suc.prems(2) opn k(1)] unfolding carries_def by blast
    have opn': "open_path k r DEFAULT_PAGE_SIZE (va + of_nat (4096 * j))" if "j < length fs" for j
      using carriesD(3) [OF car] Suc.prems(7) that by blast
    have frn: "foreign k r info" using k(3) Suc.prems(4) unfolding spares_def by blast
    have rest: "length fs - i = Suc (length fs - Suc i)" using i(1) by simp
    have IH: "(\<exists>s'. supply_loop ?s t sub info perms (of_nat (Suc i)) = Some (- 1, s') \<and> frames_left k < 3 * (length fs - Suc i)) \<or>
      (\<exists>k'. supply_loop ?s t sub info perms (of_nat (Suc i)) = Some (0, ?s\<lparr>ks := k',
           sch := (sch ?s)\<lparr>tcbs := (tcbs (sch ?s))(t \<mapsto> ?b\<lparr>tmemory := grown (tmemory ?b) sub (length fs - Suc i)\<rparr>)\<rparr>\<rparr>) \<and>
         pt_inv k' r \<and> carries k k' r \<and> frames_left k \<le> frames_left k' + 3 * (length fs - Suc i) \<and>
         translate k' r = mapped_pages DEFAULT_PAGE_SIZE (drop (Suc i) (run_pages va fs)) (translate k r) \<and>
         ((\<forall>k < length fs. user_va (va + of_nat (4096 * k))) \<longrightarrow> user_only k k' r))"
      using Suc.hyps(1) [of "Suc i" ?s ?b] Suc.hyps(2) Suc.prems(3,8) k(2) list' i(1) opn' frn by (simp add: add.assoc)
    then show ?thesis
    proof (elim disjE exE conjE)
      fix s' assume "supply_loop ?s t sub info perms (of_nat (Suc i)) = Some (- 1, s')" "frames_left k < 3 * (length fs - Suc i)"
      then show ?thesis using step k(4) rest by (intro disjI1 exI [of _ s']) simp
    next
      fix k' assume k': "supply_loop ?s t sub info perms (of_nat (Suc i)) = Some (0, ?s\<lparr>ks := k',
           sch := (sch ?s)\<lparr>tcbs := (tcbs (sch ?s))(t \<mapsto> ?b\<lparr>tmemory := grown (tmemory ?b) sub (length fs - Suc i)\<rparr>)\<rparr>\<rparr>)"
        "pt_inv k' r" "carries k k' r" "frames_left k \<le> frames_left k' + 3 * (length fs - Suc i)"
        "translate k' r = mapped_pages DEFAULT_PAGE_SIZE (drop (Suc i) (run_pages va fs)) (translate k r)"
        "(\<forall>k < length fs. user_va (va + of_nat (4096 * k))) \<longrightarrow> user_only k k' r"
      moreover have "(\<forall>k < length fs. user_va (va + of_nat (4096 * k))) \<longrightarrow> user_only (ks s) k' r"
        using walk_only_user [OF k(6)] user_only_trans k'(6) i(1) by blast
      ultimately show ?thesis using step rest tr carries_trans [OF car k'(3)] k(4)
        by (intro disjI2 exI [of _ k']) (simp add: grown_grown drop_run_pages [OF i(1)])
    qed
  qed
qed

section \<open>New memory\<close>

text \<open>A list of new frames leaves the tables alone.\<close>

lemma new_list_same_tree:
  assumes inv: "pt_inv k r" and f: "unat f \<in> free_set (kmmap k)" and slots: "from_slot (kmem k) m' (KERNEL_PHYS_TO_VIRT f) 0"
  shows "same_tree (kmem k) r m' r"
proof -
  have "load64 m' (entry_at u j) = load64 (kmem k) (entry_at u j)" if "path_ok q" "tab (kmem k) r q = Some u" "unat j < 512" for q u j
  proof -
    have "4096 dvd unat u" using inv that(1,2) by (auto simp: pt_inv_def dest: tables_apartD(1))
    moreover have "u \<noteq> KERNEL_PHYS_TO_VIRT f" using inv that(1,2) f unfolding pt_inv_def tables_not_free_def by fastforce
    ultimately show ?thesis using slots that(3) unfolding from_slot_def by blast
  qed
  from this [of "[]" r] this show ?thesis by (simp add: same_tree_def)
qed

lemma size_is_no_type: "ucast (PAGE_TYPE_TO_SIZE p) \<noteq> HUGE_PAGE" "ucast (PAGE_TYPE_TO_SIZE p) \<noteq> SUPER_PAGE"
  by (simp_all add: PAGE_TYPE_TO_SIZE_def HUGE_PAGE_def SUPER_PAGE_def SUPER_PS_def HUGE_PS_def PAGE_S_def DEFAULT_PAGE_SIZE_def)

lemma frame_no_error: "4096 dvd unat f \<Longrightarrow> KERNEL_PHYS_TO_VIRT f \<noteq> FRAME_ALLOC_FAILED"
  using frame_page [of f] by (auto simp: FRAME_ALLOC_FAILED_def)

text \<open>Pages of low memory are no tables and no free frames, so mapping keeps the heap.\<close>

lemma low_page_foreign:
  assumes inv: "pt_inv k r" and r: "18446744069414584320 \<le> unat r" and P: "4096 dvd unat P" "unat P < 18446744069414584320"
  shows "foreign k r P"
proof -
  have "t \<noteq> P" if "tab (kmem k) r q = Some t" for q t
    using that r P(2) tab_high [OF that] by (cases "q = []") auto
  moreover have "2147483648 \<le> unat (KERNEL_VIRT_TO_PHYS P)"
  proof -
    have V: "unat KERNEL_VMA = 18446744071562067968" by (simp add: KERNEL_VMA_def)
    have "unat (P - KERNEL_VMA) = 18446744073709551616 - (18446744071562067968 - unat P)"
      using P(2) by (simp add: unat_word_ariths unat_sub_if' V)
    then show ?thesis using P(2) by (simp add: KERNEL_VIRT_TO_PHYS_def)
  qed
  ultimately show ?thesis using P(1) inv by (fastforce simp: foreign_def pt_inv_def low_frames_def)
qed

lemma page_within:
  fixes x :: u64
  defines "P \<equiv> of_nat (unat x div 4096 * 4096) :: u64"
  shows "4096 dvd unat P" "unat P \<le> unat x" "within P 4096 x" "unat x < unat P + 4096"
proof -
  have P: "unat P = unat x div 4096 * 4096" unfolding P_def
    using u64_bound [of x] div_mult_mod_eq [of "unat x" 4096] by (intro unat_of_nat_u64) linarith
  then show "4096 dvd unat P" "unat P \<le> unat x" by simp_all
  then show "within P 4096 x" using P by (subst within_page) simp_all
  show "unat x < unat P + 4096" unfolding P using mod_less_divisor [of 4096 "unat x"] div_mult_mod_eq [of "unat x" 4096] by linarith
qed

lemma spares_low_byte:
  assumes "pt_inv k r" "18446744069414584320 \<le> unat r" "spares k k' r" "unat x < 18446744069414584320"
  shows "kmem k' x = kmem k x"
proof -
  have "unat (of_nat (unat x div 4096 * 4096) :: u64) < 18446744069414584320" using page_within(2) [of x] assms(4) by simp
  then have "foreign k r (of_nat (unat x div 4096 * 4096))" by (rule low_page_foreign [OF assms(1,2) page_within(1)])
  then show ?thesis using assms(3) page_within(3) [of x] unfolding spares_def by blast
qed

lemma spares_heap:
  assumes "pt_inv k r" "18446744069414584320 \<le> unat r" "spares k k' r"
    and "heap_inv k KERNEL_HEAP_ADDR bs" "total bs < 549755813888"
  shows "heap_inv k' KERNEL_HEAP_ADDR bs"
proof (rule heap_untouched [OF assms(4)])
  have H: "unat KERNEL_HEAP_ADDR = 18446742974197923840" by (simp add: KERNEL_HEAP_ADDR_def)
  fix x :: u64 assume "unat x < unat KERNEL_HEAP_ADDR + 64 + total bs"
  then show "kmem k' x = kmem k x" using assms(5) H by (intro spares_low_byte [OF assms(1-3)]) simp
qed

text \<open>Bytes in other pages than that of the list.\<close>

lemma from_slot_byte:
  assumes "from_slot m m' info 0" "4096 dvd unat info" "\<not> within info 4096 x"
  shows "m' x = m x"
proof -
  define P :: u64 where "P = of_nat (unat x div 4096 * 4096)"
  define d where "d = unat x - unat P"
  have P: "4096 dvd unat P" "unat P \<le> unat x" "within P 4096 x" "unat x < unat P + 4096"
    using page_within [of x] by (simp_all add: P_def)
  have d: "d < 4096" "unat x = unat P + d" using P by (simp_all add: d_def)
  have ne: "P \<noteq> info" using P(3) assms(3) by auto
  let ?j = "of_nat (d div 8) :: u64"
  have j: "unat ?j = d div 8" "unat ?j < 512" using d(1) by (simp_all add: unat_of_nat_u64)
  have x: "x = entry_at P ?j + of_nat (d mod 8)"
  proof -
    have "unat (entry_at P ?j + of_nat (d mod 8)) = unat P + 8 * (d div 8) + d mod 8"
      using entry_byte(1) [OF P(1) j(2), of "d mod 8"] j(1) by simp
    then show ?thesis using d(2) by (simp add: word_eq_by_unat)
  qed
  have "load64 m' (entry_at P ?j) = load64 m (entry_at P ?j)" using assms(1) P(1) j(2) ne unfolding from_slot_def by blast
  then have "bit (m' x) b = bit (m x) b" if "b < 8" for b
  proof -
    have "bit (load64 M (entry_at P ?j)) (8 * (d mod 8) + b) = bit (M x) b" for M
    proof -
      have "d mod 8 < 8" by simp
      then have "8 * (d mod 8) + b < 64" using that by linarith
      then show ?thesis using that unfolding x by (simp add: bit_load64)
    qed
    with \<open>load64 m' (entry_at P ?j) = load64 m (entry_at P ?j)\<close> show ?thesis by metis
  qed
  then show ?thesis by (intro bit_word_eqI) simp
qed

lemma new_memory_run:
  assumes b: "tcbs (sch s) t = Some b" and inv: "pt_inv (ks s) (KERNEL_PHYS_TO_VIRT (page_table b))"
    and n: "1 \<le> unat pages" "unat pages \<le> 510" "4 * unat pages \<le> frames_left (ks s)"
    and va: "va = SUB_SPACE_TO_ADDR sub + subspace_field (tmemory b) sub"
    and opn: "\<forall>k < unat pages. open_path (ks s) (KERNEL_PHYS_TO_VIRT (page_table b)) DEFAULT_PAGE_SIZE (va + of_nat (4096 * k))"
  obtains fs k' where "thread_supply_new_mem_region s t sub pages p_size perms = Some (KERNEL_PHYS_TO_VIRT (hd fs), s\<lparr>ks := k',
       sch := (sch s)\<lparr>tcbs := (tcbs (sch s))(t \<mapsto> b\<lparr>tmemory := grown (tmemory b) sub (unat pages)\<rparr>)\<rparr>\<rparr>)"
    "length fs = unat pages" "distinct fs" "unat ` set fs \<subseteq> free_set (kmmap (ks s))"
    "pt_inv k' (KERNEL_PHYS_TO_VIRT (page_table b))" "frame_list (kmem k') (KERNEL_PHYS_TO_VIRT (hd fs)) fs"
    "\<And>k va'. k < unat pages \<Longrightarrow> same_page DEFAULT_PAGE_SIZE (va + of_nat (4096 * k)) va' \<Longrightarrow>
        translate k' (KERNEL_PHYS_TO_VIRT (page_table b)) va' = Some (ppn_of (fs ! k))"
    "\<And>va'. (\<forall>k < unat pages. \<not> same_page DEFAULT_PAGE_SIZE (va + of_nat (4096 * k)) va') \<Longrightarrow>
        translate k' (KERNEL_PHYS_TO_VIRT (page_table b)) va' = translate (ks s) (KERNEL_PHYS_TO_VIRT (page_table b)) va'"
    "carries (ks s) k' (KERNEL_PHYS_TO_VIRT (page_table b))" "frames_left (ks s) \<le> frames_left k' + 4 * unat pages"
    "\<And>f. f \<in> set fs \<Longrightarrow> foreign k' (KERNEL_PHYS_TO_VIRT (page_table b)) (KERNEL_PHYS_TO_VIRT f)"
    "\<forall>k < unat pages. user_va (va + of_nat (4096 * k)) \<Longrightarrow> user_only (ks s) k' (KERNEL_PHYS_TO_VIRT (page_table b))"
proof -
  let ?r = "KERNEL_PHYS_TO_VIRT (page_table b)"
  have wf: "mm_wf (kmmap (ks s))" using inv by (simp add: pt_inv_def)
  have card: "unat pages \<le> card (free_set (kmmap (ks s)))" using n(3) by (simp add: frames_left_def)
  obtain fs m' mm' where fs: "ialloc_frames (ks s) pages DEFAULT_PAGE = Some (KERNEL_PHYS_TO_VIRT (hd fs), (ks s)\<lparr>kmem := m', kmmap := mm'\<rparr>)"
    "length fs = unat pages" "pmm.taken mm' fs" "unat ` set fs \<subseteq> free_set (kmmap (ks s))"
    "free_set mm' = free_set (kmmap (ks s)) - unat ` set fs" "mm_wf mm'" "frame_list m' (KERNEL_PHYS_TO_VIRT (hd fs)) fs"
    "from_slot (kmem (ks s)) m' (KERNEL_PHYS_TO_VIRT (hd fs)) 0"
    by (rule ialloc_frames_run [OF wf n(1,2) card])
  let ?k = "(ks s)\<lparr>kmem := m', kmmap := mm'\<rparr>" and ?info = "KERNEL_PHYS_TO_VIRT (hd fs)"
  have fs0: "fs \<noteq> []" using fs(2) n(1) by auto
  then have hd: "unat (hd fs) \<in> free_set (kmmap (ks s))" using fs(4) by auto
  have same: "same_tree (kmem (ks s)) ?r (kmem ?k) ?r" using new_list_same_tree [OF inv hd fs(8)] by simp
  have inv1: "pt_inv ?k ?r" by (rule same_tree_inv [OF inv same]) (use fs(5,6) in auto)
  have al: "4096 dvd unat f" if "f \<in> set fs" for f using fs(4) that free_set_aligned [OF wf] by auto
  have frn: "foreign ?k ?r (KERNEL_PHYS_TO_VIRT f)" if f: "f \<in> set fs" for f
  proof -
    have "t \<noteq> KERNEL_PHYS_TO_VIRT f" if "path_ok q" "tab m' ?r q = Some t" for q t
    proof -
      have "tab (kmem (ks s)) ?r q = Some t" using same_tree_tab [OF same that(1)] that(2) by (cases "q = []") simp_all
      then show ?thesis using inv that(1) f fs(4) unfolding pt_inv_def tables_not_free_def by fastforce
    qed
    moreover have "unat f \<notin> free_set mm'" using fs(5) f by simp
    ultimately show ?thesis using frame_page [OF al [OF f]] by (simp add: foreign_def)
  qed
  have tr: "translate ?k ?r = translate (ks s) ?r" by (rule same_tree_translate [OF same])
  have opn1: "\<forall>k < length fs. open_path ?k ?r DEFAULT_PAGE_SIZE (va + of_nat (4096 * k))"
  proof (intro allI impI)
    fix k assume "k < length fs"
    then have "open_path (ks s) ?r DEFAULT_PAGE_SIZE (va + of_nat (4096 * k))" using opn fs(2) by simp
    then show "open_path ?k ?r DEFAULT_PAGE_SIZE (va + of_nat (4096 * k))"
      using same_tree_ent [OF same paths_ok(1) index_bound(2)] same_tree_ent [OF same paths_ok(2) index_bound(3)]
      unfolding open_path_def path2_def path3_def path1_def by metis
  qed
  have left: "\<not> frames_left ?k < 3 * length fs" "frames_left (ks s) \<le> frames_left ?k + length fs"
  proof -
    have "card (unat ` set fs) \<le> length fs" using card_image_le [OF finite_set] card_length le_trans by blast
    then have "frames_left (ks s) - length fs \<le> frames_left ?k"
      using diff_card_le_card_Diff [of "unat ` set fs" "free_set (kmmap (ks s))"] fs(5) by (simp add: frames_left_def)
    then show "\<not> frames_left ?k < 3 * length fs" "frames_left (ks s) \<le> frames_left ?k + length fs" using n(3) fs(2) by simp_all
  qed
  let ?s = "s\<lparr>ks := ?k\<rparr>"
  have frn0: "foreign ?k ?r ?info" using frn fs0 by simp
  have pre: "tcbs (sch ?s) t = Some b" "pt_inv (ks ?s) ?r" "foreign (ks ?s) ?r ?info" "frame_list (kmem (ks ?s)) ?info fs"
    "\<forall>k < length fs. open_path (ks ?s) ?r DEFAULT_PAGE_SIZE (va + of_nat (4096 * k))"
    "SUB_SPACE_TO_ADDR sub + subspace_field (tmemory b) sub = va + of_nat (4096 * 0)" "0 \<le> length fs"
    using b inv1 frn0 fs(7) opn1 va by simp_all
  note run0 = supply_loop_run [OF pre(1,2) refl pre(3,4,7,5,6), where perms = perms]
  obtain k' where k': "supply_loop (s\<lparr>ks := ?k\<rparr>) t sub ?info perms 0 = Some (0, s\<lparr>ks := k',
         sch := (sch s)\<lparr>tcbs := (tcbs (sch s))(t \<mapsto> b\<lparr>tmemory := grown (tmemory b) sub (length fs)\<rparr>)\<rparr>\<rparr>)"
    "pt_inv k' ?r" "carries ?k k' ?r" "frames_left ?k \<le> frames_left k' + 3 * length fs"
    "translate k' ?r = mapped_pages DEFAULT_PAGE_SIZE (run_pages va fs) (translate (ks s) ?r)"
    "(\<forall>k < length fs. user_va (va + of_nat (4096 * k))) \<longrightarrow> user_only ?k k' ?r"
    using run0 left(1) tr by (elim disjE exE conjE) simp_all
  have run: "thread_supply_new_mem_region s t sub pages p_size perms = Some (?info, s\<lparr>ks := k',
       sch := (sch s)\<lparr>tcbs := (tcbs (sch s))(t \<mapsto> b\<lparr>tmemory := grown (tmemory b) sub (unat pages)\<rparr>)\<rparr>\<rparr>)"
    using ialloc_frames_small [OF size_is_no_type] fs(1,2) k'(1) frame_no_error [of "hd fs"] al fs0
    by (simp add: thread_supply_new_mem_region_def thread_supply_mem_region_def Let_def)
  have list: "frame_list (kmem k') ?info fs" by (rule spared_list [OF carriesD(1) [OF k'(3)] frn]) (use fs0 fs(7) in simp_all)
  have frn': "foreign k' ?r (KERNEL_PHYS_TO_VIRT f)" if "f \<in> set fs" for f
    using carriesD(2) [OF k'(3) frn [OF that]] .
  have spares1: "spares_at A (ks s) ?k ?r" for A
    unfolding spares_at_def
  proof (intro allI impI conjI)
    fix P assume P: "foreign_at A (ks s) ?r P"
    have "tab m' ?r q = tab (kmem (ks s)) ?r q" if "path_ok q" for q
      using same_tree_tab [OF same that] by (cases "q = []") simp_all
    then show "foreign_at A ?k ?r P" using P fs(5) unfolding foreign_at_def by simp
    fix x assume x: "within P 4096 x"
    have ne: "?info \<noteq> P" using P hd by (auto simp: foreign_at_def)
    have al': "4096 dvd unat ?info" "4096 dvd unat P" using frame_page al fs0 P by (auto simp: foreign_at_def)
    then have "\<not> within ?info 4096 x"
      using x ne unfolding within_page [OF al'(1)] within_page [OF al'(2)] by (metis dvd_div_mult_self word_eq_by_unat)
    then show "kmem ?k x = kmem (ks s) x" using from_slot_byte [OF fs(8) al'(1)] by simp
  qed
  have "open_path (ks s) ?r DEFAULT_PAGE_SIZE va \<Longrightarrow> open_path ?k ?r DEFAULT_PAGE_SIZE va" for va
    using same_tree_ent [OF same paths_ok(1) index_bound(2)] same_tree_ent [OF same paths_ok(2) index_bound(3)]
    unfolding open_path_def path2_def path3_def path1_def by metis
  then have "carries (ks s) ?k ?r" using spares1 by (simp add: carries_def spares_at_all [symmetric])
  from carries_trans [OF this k'(3)] have car: "carries (ks s) k' ?r" .
  have "user_only (ks s) ?k ?r" using spares1 fs(5) by (simp add: user_only_def)
  note user = user_only_trans [OF this]
  have len: "length fs \<le> 510" using fs(2) n(2) by simp
  show thesis
  proof (rule that [OF run fs(2) _ fs(4) k'(2) list _ _ car _ frn'])
    show "distinct fs" using fs(3) by (simp add: pmm.taken_def)
    fix k va' assume "k < unat pages" "same_page DEFAULT_PAGE_SIZE (va + of_nat (4096 * k)) va'"
    then show "translate k' ?r va' = Some (ppn_of (fs ! k))" unfolding k'(5) fs(2) [symmetric] by (rule run_mapped(1) [OF len])
  next
    fix va' assume "\<forall>k < unat pages. \<not> same_page DEFAULT_PAGE_SIZE (va + of_nat (4096 * k)) va'"
    then show "translate k' ?r va' = translate (ks s) ?r va'" unfolding k'(5) fs(2) [symmetric] by (rule run_mapped(2) [OF len])
  next
    show "frames_left (ks s) \<le> frames_left k' + 4 * unat pages" using left(2) k'(4) fs(2) by simp
  next
    assume "\<forall>k < unat pages. user_va (va + of_nat (4096 * k))"
    then show "user_only (ks s) k' ?r" using user k'(6) fs(2) by simp
  qed
qed

text \<open>C15. A thread that is given \<open>pages\<close> pages, with four free frames for each, gets that many different frames that were
  free, whatever the page type: they are mapped as 4 KiB pages one after the other behind the memory it has in the subspace, no
  other translation of its address space changes, its sizes grow by that much, and the list of the frames is still in memory.\<close>

theorem thread_gets_new_memory:
  assumes b: "tcbs (sch s) t = Some b" and inv: "pt_inv (ks s) (KERNEL_PHYS_TO_VIRT (page_table b))"
    and n: "1 \<le> unat pages" "unat pages \<le> 510" "4 * unat pages \<le> frames_left (ks s)"
    and va: "va = SUB_SPACE_TO_ADDR sub + subspace_field (tmemory b) sub"
    and opn: "\<forall>k < unat pages. open_path (ks s) (KERNEL_PHYS_TO_VIRT (page_table b)) DEFAULT_PAGE_SIZE (va + of_nat (4096 * k))"
  shows "\<exists>fs k'. thread_supply_new_mem_region s t sub pages p_size perms = Some (KERNEL_PHYS_TO_VIRT (hd fs), s\<lparr>ks := k',
       sch := (sch s)\<lparr>tcbs := (tcbs (sch s))(t \<mapsto> b\<lparr>tmemory := grown (tmemory b) sub (unat pages)\<rparr>)\<rparr>\<rparr>) \<and>
     length fs = unat pages \<and> distinct fs \<and> unat ` set fs \<subseteq> free_set (kmmap (ks s)) \<and> unat ` set fs \<inter> free_set (kmmap k') = {} \<and>
     pt_inv k' (KERNEL_PHYS_TO_VIRT (page_table b)) \<and> frame_list (kmem k') (KERNEL_PHYS_TO_VIRT (hd fs)) fs \<and>
     (\<forall>k va'. k < unat pages \<longrightarrow> same_page DEFAULT_PAGE_SIZE (va + of_nat (4096 * k)) va' \<longrightarrow>
        translate k' (KERNEL_PHYS_TO_VIRT (page_table b)) va' = Some (ppn_of (fs ! k))) \<and>
     (\<forall>va'. (\<forall>k < unat pages. \<not> same_page DEFAULT_PAGE_SIZE (va + of_nat (4096 * k)) va') \<longrightarrow>
        translate k' (KERNEL_PHYS_TO_VIRT (page_table b)) va' = translate (ks s) (KERNEL_PHYS_TO_VIRT (page_table b)) va')"
proof -
  obtain fs k' where m: "thread_supply_new_mem_region s t sub pages p_size perms = Some (KERNEL_PHYS_TO_VIRT (hd fs), s\<lparr>ks := k',
       sch := (sch s)\<lparr>tcbs := (tcbs (sch s))(t \<mapsto> b\<lparr>tmemory := grown (tmemory b) sub (unat pages)\<rparr>)\<rparr>\<rparr>)"
    "length fs = unat pages" "distinct fs" "unat ` set fs \<subseteq> free_set (kmmap (ks s))"
    "pt_inv k' (KERNEL_PHYS_TO_VIRT (page_table b))" "frame_list (kmem k') (KERNEL_PHYS_TO_VIRT (hd fs)) fs"
    "\<And>k va'. k < unat pages \<Longrightarrow> same_page DEFAULT_PAGE_SIZE (va + of_nat (4096 * k)) va' \<Longrightarrow>
        translate k' (KERNEL_PHYS_TO_VIRT (page_table b)) va' = Some (ppn_of (fs ! k))"
    "\<And>va'. (\<forall>k < unat pages. \<not> same_page DEFAULT_PAGE_SIZE (va + of_nat (4096 * k)) va') \<Longrightarrow>
        translate k' (KERNEL_PHYS_TO_VIRT (page_table b)) va' = translate (ks s) (KERNEL_PHYS_TO_VIRT (page_table b)) va'"
    "\<And>f. f \<in> set fs \<Longrightarrow> foreign k' (KERNEL_PHYS_TO_VIRT (page_table b)) (KERNEL_PHYS_TO_VIRT f)"
    by (rule new_memory_run [OF assms, of p_size perms]) blast
  have "unat ` set fs \<inter> free_set (kmmap k') = {}" using m(9) by (auto simp: foreign_def)
  then show ?thesis using m(1-8) by blast
qed

theorem thread_gets_new_memory_witness:
  "\<exists>fs s'. thread_supply_new_mem_region
       \<lparr>ks = blank, sch = \<lparr>tcbs = [0x5000 \<mapsto> zero_tcb\<lparr>page_table := 0x1000\<rparr>], top_tcb = 0, last_tcb = 0, running_tcb = 0, dummy_tcb = 0,
          thread_count = 0, cpu_cr3 = 0x1000, eoi_writes = 0\<rparr>, TID_GEN = 1, PID_GEN = 1, pcbs = (\<lambda>_. None)\<rparr>
       0x5000 SUBSPACE_CODE 2 HUGE_PAGE WRITEABLE = Some (KERNEL_PHYS_TO_VIRT (hd fs), s') \<and>
     length fs = 2 \<and> distinct fs \<and> unat ` set fs \<subseteq> free_set example_map \<and>
     translate (ks s') blank_root THREAD_CODE_VIRT_ADDR = Some (ppn_of (fs ! 0)) \<and>
     translate (ks s') blank_root (THREAD_CODE_VIRT_ADDR + 4096) = Some (ppn_of (fs ! 1))"
proof -
  let ?s = "\<lparr>ks = blank, sch = \<lparr>tcbs = [0x5000 \<mapsto> zero_tcb\<lparr>page_table := 0x1000\<rparr>], top_tcb = 0, last_tcb = 0, running_tcb = 0, dummy_tcb = 0,
          thread_count = 0, cpu_cr3 = 0x1000, eoi_writes = 0\<rparr>, TID_GEN = 1, PID_GEN = 1, pcbs = (\<lambda>_. None)\<rparr> :: sys"
  let ?b = "zero_tcb\<lparr>page_table := 0x1000\<rparr>"
  have root: "KERNEL_PHYS_TO_VIRT (page_table ?b) = blank_root" by (simp add: blank_root_def)
  have va: "THREAD_CODE_VIRT_ADDR = SUB_SPACE_TO_ADDR SUBSPACE_CODE + subspace_field (tmemory ?b) SUBSPACE_CODE"
    by (simp add: SUB_SPACE_TO_ADDR_def zero_tcb_def)
  have pre: "tcbs (sch ?s) 0x5000 = Some ?b" "pt_inv (ks ?s) (KERNEL_PHYS_TO_VIRT (page_table ?b))" "1 \<le> unat (2 :: u64)"
    "unat (2 :: u64) \<le> 510" "4 * unat (2 :: u64) \<le> frames_left (ks ?s)"
    using blank_inv root by (simp_all add: blank_frames)
  have opn: "\<forall>k < unat (2 :: u64). open_path (ks ?s) (KERNEL_PHYS_TO_VIRT (page_table ?b)) DEFAULT_PAGE_SIZE (THREAD_CODE_VIRT_ADDR + of_nat (4096 * k))"
    unfolding root by (simp add: blank_open)
  from thread_gets_new_memory [OF pre va opn, of HUGE_PAGE WRITEABLE]
  obtain fs k' where k': "thread_supply_new_mem_region ?s 0x5000 SUBSPACE_CODE 2 HUGE_PAGE WRITEABLE = Some (KERNEL_PHYS_TO_VIRT (hd fs), ?s\<lparr>ks := k',
       sch := (sch ?s)\<lparr>tcbs := (tcbs (sch ?s))(0x5000 \<mapsto> ?b\<lparr>tmemory := grown (tmemory ?b) SUBSPACE_CODE (unat (2 :: u64))\<rparr>)\<rparr>\<rparr>)"
    "length fs = unat (2 :: u64)" "distinct fs" "unat ` set fs \<subseteq> free_set (kmmap (ks ?s))"
    "\<And>k va'. k < unat (2 :: u64) \<Longrightarrow> same_page DEFAULT_PAGE_SIZE (THREAD_CODE_VIRT_ADDR + of_nat (4096 * k)) va' \<Longrightarrow>
       translate k' (KERNEL_PHYS_TO_VIRT (page_table ?b)) va' = Some (ppn_of (fs ! k))"
    by blast
  have self: "same_page sz x x" for sz x by (simp add: same_page_def)
  show ?thesis
    using k'(1-4) k'(5) [of 0] k'(5) [of 1] self unfolding root
    by (intro exI [of _ fs] exI conjI) (auto simp: blank_def simp del: fun_upd_apply)
qed

end
