(* ===== verification/Process_Space.thy ===== *)
theory Process_Space
  imports Thread_Memory
begin

text \<open>
  A new process: what \<^const>\<open>init_process\<close> builds out of the heap, the frames and the page tables.  Each step keeps what the
  steps before it have set up: \<open>kept_pages\<close> says so for pages, \<open>keeps\<close> for the pages outside the tables and for the room to map
  more, and \<open>branches\<close> for what the new address space does not share with that of the creator.
\<close>

section \<open>What a step keeps\<close>

definition off_heap :: "u64 \<Rightarrow> bool" where
  "off_heap P \<longleftrightarrow> unat P + 4096 \<le> 18446742974197923840 \<or> 18446744069414584320 \<le> unat P"

text \<open>Pages outside the heap that are no table of \<open>r\<close> on the paths \<open>A\<close> and no free frame: they keep their bytes and are
  afterwards no table of \<open>r'\<close> on the paths \<open>B\<close> and no free frame.\<close>

definition kept_pages :: "(u64 list \<Rightarrow> bool) \<Rightarrow> kstate \<Rightarrow> u64 \<Rightarrow> (u64 list \<Rightarrow> bool) \<Rightarrow> kstate \<Rightarrow> u64 \<Rightarrow> bool" where
  "kept_pages A k r B k' r' \<longleftrightarrow>
     (\<forall>P. off_heap P \<longrightarrow> foreign_at A k r P \<longrightarrow> foreign_at B k' r' P \<and> (\<forall>x. within P 4096 x \<longrightarrow> kmem k' x = kmem k x))"

abbreviation any_path :: "u64 list \<Rightarrow> bool" where
  "any_path \<equiv> \<lambda>_. True"

lemma foreign_at_any: "foreign_at any_path k r P \<longleftrightarrow> foreign k r P"
  by (simp add: foreign_at_def foreign_def)

lemma kept_pages_trans: "kept_pages A k1 r1 B k2 r2 \<Longrightarrow> kept_pages B k2 r2 C k3 r3 \<Longrightarrow> kept_pages A k1 r1 C k3 r3"
  unfolding kept_pages_def by metis

lemma kept_pagesD:
  assumes "kept_pages A k r B k' r'" "off_heap P" "foreign_at A k r P"
  shows "foreign_at B k' r' P" "within P 4096 x \<Longrightarrow> kmem k' x = kmem k x"
  using assms unfolding kept_pages_def by blast+

definition keeps :: "kstate \<Rightarrow> u64 \<Rightarrow> kstate \<Rightarrow> u64 \<Rightarrow> bool" where
  "keeps k r k' r' \<longleftrightarrow> kept_pages any_path k r any_path k' r' \<and>
     (\<forall>va. open_path k r DEFAULT_PAGE_SIZE va \<longrightarrow> open_path k' r' DEFAULT_PAGE_SIZE va)"

lemma keeps_trans: "keeps k1 r1 k2 r2 \<Longrightarrow> keeps k2 r2 k3 r3 \<Longrightarrow> keeps k1 r1 k3 r3"
  using kept_pages_trans unfolding keeps_def by metis

lemma keepsD:
  assumes "keeps k r k' r'"
  shows "off_heap P \<Longrightarrow> foreign k r P \<Longrightarrow> foreign k' r' P"
    "off_heap P \<Longrightarrow> foreign k r P \<Longrightarrow> within P 4096 x \<Longrightarrow> kmem k' x = kmem k x"
    "open_path k r DEFAULT_PAGE_SIZE va \<Longrightarrow> open_path k' r' DEFAULT_PAGE_SIZE va"
  using assms kept_pagesD unfolding keeps_def foreign_at_any [symmetric] by blast+

lemma carries_keeps: "carries k k' r \<Longrightarrow> keeps k r k' r"
  unfolding carries_def spares_def keeps_def kept_pages_def foreign_at_any by blast

lemma off_heap_byte:
  assumes P: "off_heap P" "4096 dvd unat P" and x: "within P 4096 x" and n: "n < 549755813888"
  shows "\<not> in_heap n x"
proof -
  have "unat x div 4096 = unat P div 4096" using x within_page [OF P(2)] by blast
  moreover obtain a where "unat P = 4096 * a" using P(2) by (rule dvdE)
  ultimately have "unat x = unat P + unat x mod 4096" using div_mult_mod_eq [of "unat x" 4096] by simp
  moreover have "unat x mod 4096 < 4096" by simp
  ultimately have "unat P \<le> unat x" "unat x < unat P + 4096" by simp_all
  then show ?thesis using P(1) n by (auto simp: off_heap_def in_heap_def)
qed

lemma same_tree_open:
  assumes "same_tree (kmem k) r (kmem k') r'" "open_path k r sz va"
  shows "open_path k' r' sz va"
  using assms(2) same_tree_ent [OF assms(1) paths_ok(1) index_bound(2)] same_tree_ent [OF assms(1) paths_ok(2) index_bound(3)]
  unfolding open_path_def path2_def path3_def path1_def by metis

text \<open>A step that writes no tables but perhaps a new root; the paths below the root keep their tables.\<close>

lemma same_tree_kept:
  assumes same: "same_tree (kmem k) r (kmem k') r'" and n: "n < 549755813888"
    and mm: "free_set (kmmap k') \<subseteq> free_set (kmmap k)"
    and paths: "\<And>q. B q \<Longrightarrow> q \<noteq> [] \<Longrightarrow> A q"
    and root: "\<And>P. foreign_at A k r P \<Longrightarrow> r' \<noteq> P"
    and bytes: "\<And>P x. foreign_at A k r P \<Longrightarrow> within P 4096 x \<Longrightarrow> \<not> in_heap n x \<Longrightarrow> kmem k' x = kmem k x"
  shows "kept_pages A k r B k' r'"
proof -
  have "foreign_at B k' r' P" if P: "foreign_at A k r P" for P
  proof -
    have "t \<noteq> P" if q: "B q" "path_ok q" "tab (kmem k') r' q = Some t" for q t
    proof (cases "q = []")
      case False
      then have "A q" "tab (kmem k) r q = Some t" using q paths same_tree_tab [OF same q(2)] by auto
      then show ?thesis using P q(2) by (simp add: foreign_at_def)
    qed (use q root [OF P] in simp)
    then show ?thesis using P mm by (auto simp: foreign_at_def)
  qed
  moreover have "kmem k' x = kmem k x" if "off_heap P" "foreign_at A k r P" "within P 4096 x" for P x
    using that off_heap_byte [OF that(1) _ that(3) n] bytes by (simp add: foreign_at_def)
  ultimately show ?thesis unfolding kept_pages_def by blast
qed

text \<open>The new address space \<open>r'\<close> shares with that of the creator \<open>r\<close> nothing on the paths of threads.\<close>

definition below_root :: "u64 list \<Rightarrow> bool" where
  "below_root q \<longleftrightarrow> user_path q \<and> q \<noteq> []"

definition branches :: "kstate \<Rightarrow> u64 \<Rightarrow> kstate \<Rightarrow> u64 \<Rightarrow> bool" where
  "branches k r k' r' \<longleftrightarrow> kept_pages below_root k r user_path k' r' \<and> free_set (kmmap k') \<subseteq> free_set (kmmap k)"

lemma branches_after:
  assumes "kept_pages below_root k r below_root k1 r1" "free_set (kmmap k1) \<subseteq> free_set (kmmap k)" "branches k1 r1 k' r'"
  shows "branches k r k' r'"
  using assms kept_pages_trans unfolding branches_def by blast

lemma branches_before:
  assumes "branches k r k1 r1" "kept_pages user_path k1 r1 user_path k' r'" "free_set (kmmap k') \<subseteq> free_set (kmmap k1)"
  shows "branches k r k' r'"
  using assms kept_pages_trans unfolding branches_def by blast

lemma user_only_kept: "user_only k k' r \<Longrightarrow> kept_pages user_path k r user_path k' r"
  unfolding user_only_def spares_at_def kept_pages_def by blast

section \<open>Allocations from the heap\<close>

lemma sys_malloc_run:
  assumes heap: "heap_inv (ks s) KERNEL_HEAP_ADDR (us @ (n, False) # vs)" "all_used us" "block_for sz < n"
      "unat sz + 31 < 18446744073709551616" "total us + n + total vs < 549755813888"
    and inv: "pt_inv (ks s) r" and r: "18446744069414584320 \<le> unat r"
  obtains k' where "sys_malloc s sz = Some (place_of KERNEL_HEAP_ADDR (32 + total us), s\<lparr>ks := k'\<rparr>)"
    "heap_inv k' KERNEL_HEAP_ADDR ((us @ [(block_for sz, True)]) @ (n - block_for sz, False) # vs)"
    "pt_inv k' r" "keeps (ks s) r k' r" "translate k' r = translate (ks s) r" "kmmap k' = kmmap (ks s)"
    "is_object (place_of KERNEL_HEAP_ADDR (32 + total us))" "\<forall>A. kept_pages A (ks s) r A k' r"
proof -
  obtain k' where k': "Imalloc_alocator (ks s) (cr3_of s) KERNEL_HEAP_ADDR sz = Some (place_of KERNEL_HEAP_ADDR (32 + total us), k')"
    "heap_inv k' KERNEL_HEAP_ADDR (taken_from us n (block_for sz) vs)"
    "\<And>x. n \<le> unat (x - place_of KERNEL_HEAP_ADDR (16 + total us)) \<Longrightarrow> kmem k' x = kmem (ks s) x" "kmmap k' = kmmap (ks s)"
    using malloc_taken [OF heap(1,2,4) less_imp_le [OF heap(3)], of "cr3_of s"] by metis
  have bytes: "kmem k' x = kmem (ks s) x" if "\<not> in_heap (total us + n + total vs) x" for x
    by (rule k'(3) [OF outside_block [OF that heap(5)]])
  have same: "same_tree (kmem (ks s)) r (kmem k') r" by (rule heap_only_same_tree [OF inv r heap(5) bytes])
  have tabs: "tab (kmem k') r q = tab (kmem (ks s)) r q" if "path_ok q" for q
    using same_tree_tab [OF same that] by (cases "q = []") simp_all
  have kept: "kept_pages A (ks s) r A k' r" for A
    using tabs bytes off_heap_byte [OF _ _ _ heap(5)] unfolding kept_pages_def foreign_at_def k'(4) by metis
  show thesis
  proof (rule that)
    show "sys_malloc s sz = Some (place_of KERNEL_HEAP_ADDR (32 + total us), s\<lparr>ks := k'\<rparr>)"
      by (simp add: sys_malloc_def Imalloc_def k'(1))
    show "heap_inv k' KERNEL_HEAP_ADDR ((us @ [(block_for sz, True)]) @ (n - block_for sz, False) # vs)"
      using k'(2) heap(3) by (simp add: taken_from_def)
    show "pt_inv k' r" by (rule same_tree_inv [OF inv same]) (use inv k'(4) in \<open>simp_all add: pt_inv_def\<close>)
    show "keeps (ks s) r k' r" using kept same_tree_open [OF same] by (simp add: keeps_def)
    show "translate k' r = translate (ks s) r" by (rule same_tree_translate [OF same])
    show "is_object (place_of KERNEL_HEAP_ADDR (32 + total us))"
      using unat_heap_place [of "32 + total us"] heap(5) by (auto simp: is_object_def FRAME_ALLOC_FAILED_def word_eq_by_unat)
  qed (simp_all add: kept k'(4))
qed

section \<open>The memory of the first thread\<close>

lemma page_distance:
  assumes "same_page DEFAULT_PAGE_SIZE (va + of_nat (4096 * k)) x" "same_page DEFAULT_PAGE_SIZE (va' + of_nat (4096 * k')) x"
  shows "(unat va div 4096 + k) mod 68719476736 = (unat va' div 4096 + k') mod 68719476736"
proof -
  have "same_page DEFAULT_PAGE_SIZE (va + of_nat (4096 * k)) (va' + of_nat (4096 * k'))"
    using assms by (simp add: same_page_def)
  then show ?thesis unfolding same_page_iff(1) by (simp add: word_eq_by_unat page_number_48 del: of_nat_mult)
qed

text \<open>The three subspaces are far apart.\<close>

lemma subspaces_apart:
  assumes "sub \<noteq> sub'" "k < 510" "k' < 510" "same_page DEFAULT_PAGE_SIZE (SUB_SPACE_TO_ADDR sub + of_nat (4096 * k)) x"
  shows "\<not> same_page DEFAULT_PAGE_SIZE (SUB_SPACE_TO_ADDR sub' + of_nat (4096 * k')) x"
proof
  assume "same_page DEFAULT_PAGE_SIZE (SUB_SPACE_TO_ADDR sub' + of_nat (4096 * k')) x"
  from page_distance [OF assms(4) this] show False
    using assms(1-3) by (cases sub; cases sub')
      (auto simp: SUB_SPACE_TO_ADDR_def THREAD_CODE_VIRT_ADDR_def THREAD_MAPPINGS_VIRT_ADDR_def THREAD_STACK_VIRT_ADDR_def)
qed

text \<open>What a thread without memory has afterwards: three lists of frames, each behind the start of its subspace.\<close>

definition has_pages :: "kstate \<Rightarrow> u64 \<Rightarrow> addr_sub_space \<Rightarrow> u64 list \<Rightarrow> bool" where
  "has_pages k r sub fs \<longleftrightarrow> (\<forall>i va. i < length fs \<longrightarrow> same_page DEFAULT_PAGE_SIZE (SUB_SPACE_TO_ADDR sub + of_nat (4096 * i)) va \<longrightarrow>
     translate k r va = Some (ppn_of (fs ! i)))"

definition in_pages :: "addr_sub_space \<Rightarrow> nat \<Rightarrow> u64 \<Rightarrow> bool" where
  "in_pages sub n va \<longleftrightarrow> (\<exists>i < n. same_page DEFAULT_PAGE_SIZE (SUB_SPACE_TO_ADDR sub + of_nat (4096 * i)) va)"

lemma in_pages_apart: "sub \<noteq> sub' \<Longrightarrow> n \<le> 510 \<Longrightarrow> n' \<le> 510 \<Longrightarrow> in_pages sub n va \<Longrightarrow> \<not> in_pages sub' n' va"
  using subspaces_apart unfolding in_pages_def by (meson less_le_trans)

lemma has_pages_later:
  assumes "has_pages k r sub fs" "length fs \<le> 510" "n \<le> 510" "sub \<noteq> sub'"
    and "\<And>va. \<not> in_pages sub' n va \<Longrightarrow> translate k' r va = translate k r va"
  shows "has_pages k' r sub fs"
  using assms in_pages_apart [OF assms(4,2,3)] unfolding has_pages_def by (metis in_pages_def)

lemma foreign_disjoint:
  assumes "\<And>f. f \<in> set fs \<Longrightarrow> foreign k r (KERNEL_PHYS_TO_VIRT f)" "unat ` set gs \<subseteq> free_set (kmmap k)"
  shows "set fs \<inter> set gs = {}"
  using assms unfolding foreign_def by fastforce

definition sizes_fit :: "thread_memory_allocation_info \<Rightarrow> bool" where
  "sizes_fit a \<longleftrightarrow> (\<forall>n \<in> {code_pages a, mapping_pages a, stack_pages a}. 1 \<le> unat n \<and> unat n \<le> 510)"

definition pages_wanted :: "thread_memory_allocation_info \<Rightarrow> nat" where
  "pages_wanted a = unat (code_pages a) + unat (mapping_pages a) + unat (stack_pages a)"

definition room_for :: "kstate \<Rightarrow> u64 \<Rightarrow> thread_memory_allocation_info \<Rightarrow> bool" where
  "room_for k r a \<longleftrightarrow>
     (\<forall>i < unat (code_pages a). open_path k r DEFAULT_PAGE_SIZE (SUB_SPACE_TO_ADDR SUBSPACE_CODE + of_nat (4096 * i))) \<and>
     (\<forall>i < unat (mapping_pages a). open_path k r DEFAULT_PAGE_SIZE (SUB_SPACE_TO_ADDR SUBSPACE_MAPPING + of_nat (4096 * i))) \<and>
     (\<forall>i < unat (stack_pages a). open_path k r DEFAULT_PAGE_SIZE (SUB_SPACE_TO_ADDR SUBSPACE_STACK + of_nat (4096 * i)))"

lemma room_for_keeps: "keeps k r k' r' \<Longrightarrow> room_for k r a \<Longrightarrow> room_for k' r' a"
  using keepsD(3) unfolding room_for_def by blast

definition all_grown :: "tcb \<Rightarrow> thread_memory_allocation_info \<Rightarrow> tcb" where
  "all_grown b a = b\<lparr>tmemory := grown (grown (grown (tmemory b) SUBSPACE_CODE (unat (code_pages a)))
     SUBSPACE_MAPPING (unat (mapping_pages a))) SUBSPACE_STACK (unat (stack_pages a))\<rparr>"

lemma grown_other: "sub \<noteq> sub' \<Longrightarrow> subspace_field (grown m sub n) sub' = subspace_field m sub'"
  by (cases sub; cases sub'; simp add: grown_def)

text \<open>The pages of the subspaces lie under the root entries of threads.\<close>

lemma user_pages:
  assumes "n < 510"
  shows "user_va (SUB_SPACE_TO_ADDR sub + of_nat (4096 * n))"
proof -
  have m: "0x1FF = (mask 9 :: u64)" by (simp add: mask_eq_exp_minus_1)
  have u: "unat (SUB_SPACE_TO_ADDR sub + of_nat (4096 * n)) = unat (SUB_SPACE_TO_ADDR sub) + 4096 * n"
    using assms by (cases sub) (simp_all add: SUB_SPACE_TO_ADDR_def THREAD_CODE_VIRT_ADDR_def THREAD_MAPPINGS_VIRT_ADDR_def
      THREAD_STACK_VIRT_ADDR_def unat_add_u64 unat_of_nat_u64 del: of_nat_mult)
  have small: "unat (SUB_SPACE_TO_ADDR sub) + 4096 * n < 18446744073709551616"
    using assms by (cases sub) (simp_all add: SUB_SPACE_TO_ADDR_def THREAD_CODE_VIRT_ADDR_def THREAD_MAPPINGS_VIRT_ADDR_def THREAD_STACK_VIRT_ADDR_def)
  have "unat (VA_PML4_INDEX (SUB_SPACE_TO_ADDR sub + of_nat (4096 * n))) = (unat (SUB_SPACE_TO_ADDR sub) + 4096 * n) div 2 ^ 39 mod 512"
    unfolding VA_PML4_INDEX_def m take_bit_eq_mask [symmetric] unsigned_take_bit_eq unsigned_drop_bit_eq u
    using small by (simp add: take_bit_eq_mod drop_bit_eq_div)
  moreover have "(unat (SUB_SPACE_TO_ADDR sub) + 4096 * n) div 2 ^ 39 mod 512 \<in> {9, 18, 249}"
  proof -
    have "(549755813888 * q + 4096 * n) div 549755813888 = q" for q using assms by simp
    from this [of 9] this [of 18] this [of 249] show ?thesis
      by (cases sub) (simp_all add: SUB_SPACE_TO_ADDR_def THREAD_CODE_VIRT_ADDR_def THREAD_MAPPINGS_VIRT_ADDR_def THREAD_STACK_VIRT_ADDR_def)
  qed
  ultimately show ?thesis by (auto simp: user_va_def word_eq_by_unat)
qed

text \<open>One subspace: new frames behind its start, and nothing else changes.\<close>

definition region_added :: "kstate \<Rightarrow> kstate \<Rightarrow> u64 \<Rightarrow> addr_sub_space \<Rightarrow> u64 list \<Rightarrow> bool" where
  "region_added k k' r sub fs \<longleftrightarrow> length fs \<le> 510 \<and> distinct fs \<and> pt_inv k' r \<and> carries k k' r \<and> user_only k k' r \<and>
     has_pages k' r sub fs \<and> (\<forall>va. \<not> in_pages sub (length fs) va \<longrightarrow> translate k' r va = translate k r va) \<and>
     frames_left k \<le> frames_left k' + 4 * length fs \<and>
     (\<forall>f \<in> set fs. 4096 dvd unat f \<and> unat f < 2147483648 \<and> unat f \<in> free_set (kmmap k) \<and> foreign k' r (KERNEL_PHYS_TO_VIRT f))"

lemma supply_region:
  assumes b: "tcbs (sch s) t = Some b" "subspace_field (tmemory b) sub = 0" and inv: "pt_inv (ks s) (KERNEL_PHYS_TO_VIRT (page_table b))"
    and n: "1 \<le> unat pages" "unat pages \<le> 510" "4 * unat pages \<le> frames_left (ks s)"
    and opn: "\<forall>i < unat pages. open_path (ks s) (KERNEL_PHYS_TO_VIRT (page_table b)) DEFAULT_PAGE_SIZE (SUB_SPACE_TO_ADDR sub + of_nat (4096 * i))"
  obtains fs k' where "thread_supply_new_mem_region s t sub pages p_size perms = Some (KERNEL_PHYS_TO_VIRT (hd fs), s\<lparr>ks := k',
       sch := (sch s)\<lparr>tcbs := (tcbs (sch s))(t \<mapsto> b\<lparr>tmemory := grown (tmemory b) sub (unat pages)\<rparr>)\<rparr>\<rparr>)"
    "length fs = unat pages" "region_added (ks s) k' (KERNEL_PHYS_TO_VIRT (page_table b)) sub fs"
    "KERNEL_PHYS_TO_VIRT (hd fs) \<noteq> FRAME_ALLOC_FAILED"
proof -
  let ?r = "KERNEL_PHYS_TO_VIRT (page_table b)"
  have va: "SUB_SPACE_TO_ADDR sub = SUB_SPACE_TO_ADDR sub + subspace_field (tmemory b) sub" using b(2) by simp
  have frame: "4096 dvd a \<and> a < 2147483648" if "a \<in> free_set (kmmap (ks s))" for a
    using inv that free_set_aligned by (auto simp: pt_inv_def low_frames_def)
  show thesis
    apply (rule new_memory_run [OF b(1) inv n va opn, of p_size perms])
    subgoal premises c for fs k'
    proof (rule that [OF c(1,2)])
      have "\<forall>f \<in> set fs. 4096 dvd unat f \<and> unat f < 2147483648 \<and> unat f \<in> free_set (kmmap (ks s))" using c(4) frame by auto
      moreover have "user_only (ks s) k' ?r" by (rule c(12)) (use n(2) user_pages in auto)
      moreover have "has_pages k' ?r sub fs" using c(2,7) by (simp add: has_pages_def)
      moreover have "translate k' ?r va' = translate (ks s) ?r va'" if "\<not> in_pages sub (length fs) va'" for va'
        by (rule c(8)) (use that c(2) in \<open>auto simp: in_pages_def\<close>)
      ultimately show "region_added (ks s) k' ?r sub fs"
        using c(2,3,5,9-11) n(2) unfolding region_added_def by auto
      show "KERNEL_PHYS_TO_VIRT (hd fs) \<noteq> FRAME_ALLOC_FAILED"
        using c(2,4) n(1) frame frame_no_error by (cases fs) auto
    qed
    done
qed

text \<open>Three subspaces, one after the other.\<close>

definition equipped :: "kstate \<Rightarrow> u64 \<Rightarrow> kstate \<Rightarrow> u64 \<Rightarrow> thread_memory_allocation_info \<Rightarrow> u64 list \<Rightarrow> u64 list \<Rightarrow> u64 list \<Rightarrow> bool" where
  "equipped k r k' r' a cf mf sf \<longleftrightarrow> pt_inv k' r' \<and>
     length cf = unat (code_pages a) \<and> length mf = unat (mapping_pages a) \<and> length sf = unat (stack_pages a) \<and> distinct (cf @ mf @ sf) \<and>
     has_pages k' r' SUBSPACE_CODE cf \<and> has_pages k' r' SUBSPACE_MAPPING mf \<and> has_pages k' r' SUBSPACE_STACK sf \<and>
     (\<forall>va. \<not> in_pages SUBSPACE_CODE (length cf) va \<longrightarrow> \<not> in_pages SUBSPACE_MAPPING (length mf) va \<longrightarrow>
        \<not> in_pages SUBSPACE_STACK (length sf) va \<longrightarrow> translate k' r' va = translate k r va) \<and>
     (\<forall>f \<in> set (cf @ mf @ sf). 4096 dvd unat f \<and> unat f < 2147483648 \<and> unat f \<in> free_set (kmmap k) \<and> foreign k' r' (KERNEL_PHYS_TO_VIRT f))"

lemma region_later:
  assumes "region_added k k' r sub' gs" "sub \<noteq> sub'" "length fs \<le> 510" "has_pages k r sub fs"
  shows "has_pages k' r sub fs"
  using has_pages_later [OF assms(4,3) _ assms(2), of "length gs" k'] assms(1) unfolding region_added_def by blast

lemma region_disjoint:
  assumes "region_added k k' r sub gs" "\<forall>f \<in> set fs. foreign k r (KERNEL_PHYS_TO_VIRT f)"
  shows "set fs \<inter> set gs = {}"
  by (rule foreign_disjoint [of fs k r]) (use assms in \<open>auto simp: region_added_def\<close>)

lemma region_foreign: "region_added k k' r sub gs \<Longrightarrow> foreign k r P \<Longrightarrow> foreign k' r P"
  unfolding region_added_def using carriesD(2) by blast

lemma region_free: "region_added k k' r sub gs \<Longrightarrow> free_set (kmmap k') \<subseteq> free_set (kmmap k)"
  by (simp add: region_added_def user_only_def)

lemma three_regions:
  assumes 1: "region_added k k1 r SUBSPACE_CODE cf" and 2: "region_added k1 k2 r SUBSPACE_MAPPING mf" and 3: "region_added k2 k3 r SUBSPACE_STACK sf"
    and n: "length cf = unat (code_pages a)" "length mf = unat (mapping_pages a)" "length sf = unat (stack_pages a)"
  shows "equipped k r k3 r a cf mf sf" "carries k k3 r" "user_only k k3 r" "frames_left k \<le> frames_left k3 + 4 * pages_wanted a"
proof -
  note rs = 1 [unfolded region_added_def] 2 [unfolded region_added_def] 3 [unfolded region_added_def]
  have f1: "\<forall>f \<in> set cf. foreign k1 r (KERNEL_PHYS_TO_VIRT f)" using rs(1) by blast
  have f2: "\<forall>f \<in> set (cf @ mf). foreign k2 r (KERNEL_PHYS_TO_VIRT f)" using f1 region_foreign [OF 2] rs(2) by auto
  have f3: "\<forall>f \<in> set (cf @ mf @ sf). foreign k3 r (KERNEL_PHYS_TO_VIRT f)" using f2 region_foreign [OF 3] rs(3) by auto
  have dis: "set cf \<inter> set mf = {}" "set (cf @ mf) \<inter> set sf = {}" by (rule region_disjoint [OF 2 f1], rule region_disjoint [OF 3 f2])
  have fresh: "\<forall>f \<in> set (cf @ mf @ sf). 4096 dvd unat f \<and> unat f < 2147483648 \<and> unat f \<in> free_set (kmmap k)"
    using rs region_free [OF 1] region_free [OF 2] by fastforce
  have code: "has_pages k3 r SUBSPACE_CODE cf" "has_pages k3 r SUBSPACE_MAPPING mf" "has_pages k3 r SUBSPACE_STACK sf"
    using rs region_later [OF 2, of SUBSPACE_CODE cf] region_later [OF 3, of SUBSPACE_CODE cf] region_later [OF 3, of SUBSPACE_MAPPING mf]
    by simp_all
  have "distinct (cf @ mf @ sf)" using rs dis by auto
  then show "equipped k r k3 r a cf mf sf"
    unfolding equipped_def using rs n code fresh f3 by simp
  show "carries k k3 r" using rs carries_trans by blast
  show "user_only k k3 r" using rs user_only_trans by blast
  show "frames_left k \<le> frames_left k3 + 4 * pages_wanted a" using rs n by (simp add: pages_wanted_def)
qed

lemma supply_three:
  assumes b: "tcbs (sch s) t = Some b" "\<And>sub. subspace_field (tmemory b) sub = 0"
    and inv: "pt_inv (ks s) (KERNEL_PHYS_TO_VIRT (page_table b))" and a: "sizes_fit a" "4 * pages_wanted a \<le> frames_left (ks s)"
    and room: "room_for (ks s) (KERNEL_PHYS_TO_VIRT (page_table b)) a"
  obtains cf mf sf k' where "thread_supply_new_mem s t a p = Some (0, \<lparr>code_memory = KERNEL_PHYS_TO_VIRT (hd cf),
        mapping_memory = KERNEL_PHYS_TO_VIRT (hd mf), stack_memory = KERNEL_PHYS_TO_VIRT (hd sf)\<rparr>,
        s\<lparr>ks := k', sch := (sch s)\<lparr>tcbs := (tcbs (sch s))(t \<mapsto> all_grown b a)\<rparr>\<rparr>)"
    "equipped (ks s) (KERNEL_PHYS_TO_VIRT (page_table b)) k' (KERNEL_PHYS_TO_VIRT (page_table b)) a cf mf sf"
    "carries (ks s) k' (KERNEL_PHYS_TO_VIRT (page_table b))" "user_only (ks s) k' (KERNEL_PHYS_TO_VIRT (page_table b))"
    "frames_left (ks s) \<le> frames_left k' + 4 * pages_wanted a"
proof -
  let ?r = "KERNEL_PHYS_TO_VIRT (page_table b)"
  have fit: "1 \<le> unat (code_pages a)" "unat (code_pages a) \<le> 510" "1 \<le> unat (mapping_pages a)" "unat (mapping_pages a) \<le> 510"
    "1 \<le> unat (stack_pages a)" "unat (stack_pages a) \<le> 510" "4 * unat (code_pages a) \<le> frames_left (ks s)"
    using a by (simp_all add: sizes_fit_def pages_wanted_def)
  obtain cf k1 where 1: "thread_supply_new_mem_region s t SUBSPACE_CODE (code_pages a) (ucast (code_perms p)) (code_pages a) =
        Some (KERNEL_PHYS_TO_VIRT (hd cf), s\<lparr>ks := k1, sch := (sch s)\<lparr>tcbs := (tcbs (sch s))(t \<mapsto> b\<lparr>tmemory := grown (tmemory b) SUBSPACE_CODE (unat (code_pages a))\<rparr>)\<rparr>\<rparr>)"
    "length cf = unat (code_pages a)" "region_added (ks s) k1 ?r SUBSPACE_CODE cf" "KERNEL_PHYS_TO_VIRT (hd cf) \<noteq> FRAME_ALLOC_FAILED"
    by (rule supply_region [OF b(1,2) inv fit(1,2,7)]) (use room in \<open>auto simp: room_for_def\<close>)
  let ?b1 = "b\<lparr>tmemory := grown (tmemory b) SUBSPACE_CODE (unat (code_pages a))\<rparr>"
  let ?s1 = "s\<lparr>ks := k1, sch := (sch s)\<lparr>tcbs := (tcbs (sch s))(t \<mapsto> ?b1)\<rparr>\<rparr>"
  note r1 = 1(3) [unfolded region_added_def]
  have room1: "room_for k1 ?r a" using r1 room_for_keeps [OF carries_keeps room] by blast
  have pre1: "tcbs (sch ?s1) t = Some ?b1" "subspace_field (tmemory ?b1) SUBSPACE_MAPPING = 0" "pt_inv (ks ?s1) (KERNEL_PHYS_TO_VIRT (page_table ?b1))"
    "4 * unat (mapping_pages a) \<le> frames_left (ks ?s1)"
    using r1 a(2) 1(2) b(2) by (simp_all add: grown_other pages_wanted_def del: subspace_field.simps)
  obtain mf k2 where 2: "thread_supply_new_mem_region ?s1 t SUBSPACE_MAPPING (mapping_pages a) (ucast (mapping_perms p)) (mapping_page_size a) =
        Some (KERNEL_PHYS_TO_VIRT (hd mf), ?s1\<lparr>ks := k2, sch := (sch ?s1)\<lparr>tcbs := (tcbs (sch ?s1))(t \<mapsto> ?b1\<lparr>tmemory := grown (tmemory ?b1) SUBSPACE_MAPPING (unat (mapping_pages a))\<rparr>)\<rparr>\<rparr>)"
    "length mf = unat (mapping_pages a)" "region_added (ks ?s1) k2 (KERNEL_PHYS_TO_VIRT (page_table ?b1)) SUBSPACE_MAPPING mf"
    "KERNEL_PHYS_TO_VIRT (hd mf) \<noteq> FRAME_ALLOC_FAILED"
    by (rule supply_region [OF pre1(1-3) fit(3,4) pre1(4)]) (use room1 in \<open>auto simp: room_for_def\<close>)
  let ?b2 = "?b1\<lparr>tmemory := grown (tmemory ?b1) SUBSPACE_MAPPING (unat (mapping_pages a))\<rparr>"
  let ?s2 = "?s1\<lparr>ks := k2, sch := (sch ?s1)\<lparr>tcbs := (tcbs (sch ?s1))(t \<mapsto> ?b2)\<rparr>\<rparr>"
  have R2: "region_added k1 k2 ?r SUBSPACE_MAPPING mf" using 2(3) by simp
  note r2 = R2 [unfolded region_added_def]
  have room2: "room_for k2 ?r a" using r2 room_for_keeps [OF carries_keeps room1] by blast
  have pre2: "tcbs (sch ?s2) t = Some ?b2" "subspace_field (tmemory ?b2) SUBSPACE_STACK = 0" "pt_inv (ks ?s2) (KERNEL_PHYS_TO_VIRT (page_table ?b2))"
    "4 * unat (stack_pages a) \<le> frames_left (ks ?s2)"
    using r1 r2 a(2) 1(2) 2(2) b(2) by (simp_all add: grown_other pages_wanted_def del: subspace_field.simps)
  obtain sf k3 where 3: "thread_supply_new_mem_region ?s2 t SUBSPACE_STACK (stack_pages a) (ucast (stack_perms p)) (stack_page_size a) =
        Some (KERNEL_PHYS_TO_VIRT (hd sf), ?s2\<lparr>ks := k3, sch := (sch ?s2)\<lparr>tcbs := (tcbs (sch ?s2))(t \<mapsto> ?b2\<lparr>tmemory := grown (tmemory ?b2) SUBSPACE_STACK (unat (stack_pages a))\<rparr>)\<rparr>\<rparr>)"
    "length sf = unat (stack_pages a)" "region_added (ks ?s2) k3 (KERNEL_PHYS_TO_VIRT (page_table ?b2)) SUBSPACE_STACK sf"
    "KERNEL_PHYS_TO_VIRT (hd sf) \<noteq> FRAME_ALLOC_FAILED"
    by (rule supply_region [OF pre2(1-3) fit(5,6) pre2(4)]) (use room2 in \<open>auto simp: room_for_def\<close>)
  have R3: "region_added k2 k3 ?r SUBSPACE_STACK sf" using 3(3) by simp
  have run: "thread_supply_new_mem s t a p = Some (0, \<lparr>code_memory = KERNEL_PHYS_TO_VIRT (hd cf),
        mapping_memory = KERNEL_PHYS_TO_VIRT (hd mf), stack_memory = KERNEL_PHYS_TO_VIRT (hd sf)\<rparr>,
        s\<lparr>ks := k3, sch := (sch s)\<lparr>tcbs := (tcbs (sch s))(t \<mapsto> all_grown b a)\<rparr>\<rparr>)"
    using 1(4) 2(4) 3(4) by (simp add: thread_supply_new_mem_def 1(1) 2(1) [simplified] 3(1) [simplified] all_grown_def)
  show thesis by (rule that [OF run three_regions [OF 1(3) R2 R3 1(2) 2(2) 3(2)]])
qed

section \<open>The whole process\<close>

lemma foreign_write:
  assumes inv: "pt_inv k r" and D: "foreign k r D" and same: "\<And>x. \<not> within D 4096 x \<Longrightarrow> m' x = kmem k x"
  shows "same_tree (kmem k) r m' r"
proof -
  have al: "4096 dvd unat D" using D by (simp add: foreign_def)
  have "load64 m' (entry_at u j) = load64 (kmem k) (entry_at u j)" if u: "path_ok q" "tab (kmem k) r q = Some u" "unat j < 512" for q u j
  proof -
    have ua: "4096 dvd unat u" "u \<noteq> D" using inv D u by (auto simp: pt_inv_def foreign_def dest: tables_apartD(1))
    show ?thesis
    proof (rule same_page_loads [OF ua(1) u(3) ua(1)])
      fix x :: u64 assume "unat x < 4096"
      then have "within u 4096 (u + x)" by (simp add: within_def less_by_unat)
      then have "\<not> within D 4096 (u + x)"
        using ua al unfolding within_page [OF al] within_page [OF ua(1)] by (metis dvd_div_mult_self word_eq_by_unat)
      then show "m' (u + x) = kmem k (u + x)" by (rule same)
    qed
  qed
  from this [of "[]" r] this show ?thesis by (simp add: same_tree_def)
qed

lemma frame_high: "unat f < 2147483648 \<Longrightarrow> 18446744069414584320 \<le> unat (KERNEL_PHYS_TO_VIRT f)"
  by (simp add: KERNEL_PHYS_TO_VIRT_def KERNEL_VMA_def unat_add_u64)

text \<open>The program lies in pages that no step touches.\<close>

definition program_at :: "kstate \<Rightarrow> u64 \<Rightarrow> u64 \<Rightarrow> u64 \<Rightarrow> bool" where
  "program_at k r code sz \<longleftrightarrow> unat sz \<le> 4096 \<and>
     (\<forall>i < unat sz. \<exists>P. off_heap P \<and> foreign k r P \<and> within P 4096 (code + of_nat i))"

lemma program_at_keeps: "keeps k r k' r' \<Longrightarrow> program_at k r code sz \<Longrightarrow> program_at k' r' code sz"
  using keepsD(1) unfolding program_at_def by metis

lemma program_bytes: "keeps k r k' r' \<Longrightarrow> program_at k r code sz \<Longrightarrow> i < unat sz \<Longrightarrow> kmem k' (code + of_nat i) = kmem k (code + of_nat i)"
  using keepsD(2) unfolding program_at_def by metis

lemma copy_program:
  assumes prog: "program_at k r code sz" and D: "4096 dvd unat D" and old: "\<And>P. off_heap P \<Longrightarrow> foreign k r P \<Longrightarrow> P \<noteq> D"
  shows "i < unat sz \<Longrightarrow> Imemcpy m D code sz (D + of_nat i) = m (code + of_nat i)"
    "\<not> within D 4096 x \<Longrightarrow> Imemcpy m D code sz x = m x"
proof -
  have sz: "unat sz \<le> 4096" using prog by (simp add: program_at_def)
  have in_D: "within D 4096 x" if "within D sz x" for x using that sz by (auto simp: within_def less_by_unat)
  have dis: "disjoint_regions D code sz"
    unfolding disjoint_regions_def
  proof (intro allI notI)
    fix x assume x: "within D sz x \<and> within code sz x"
    then have i: "unat (x - code) < unat sz" by (simp add: within_def less_by_unat)
    have xc: "code + of_nat (unat (x - code)) = x" by simp
    obtain P where P: "foreign k r P" "within P 4096 x" "off_heap P" using prog i xc unfolding program_at_def by metis
    have al: "4096 dvd unat P" using P(1) by (simp add: foreign_def)
    have "P = D"
      using P(2) in_D x D al unfolding within_page [OF D] within_page [OF al] by (metis dvd_div_mult_self word_eq_by_unat)
    then show False using old [OF P(3,1)] by simp
  qed
  show "\<not> within D 4096 x \<Longrightarrow> Imemcpy m D code sz x = m x" using in_D by (auto simp: Imemcpy_eq [OF dis])
  assume i: "i < unat sz"
  then have "within D sz (D + of_nat i)" using sz by (simp add: within_def less_by_unat unat_of_nat_u64)
  then show "Imemcpy m D code sz (D + of_nat i) = m (code + of_nat i)" by (simp add: Imemcpy_eq [OF dis])
qed

lemma request_blocks: "block_for SIZEOF_SUPPLY_BLOCK = 48" "block_for SIZEOF_PCB = 48" "block_for SIZEOF_THREAD_DESCRIPTOR = 32"
  "unat SIZEOF_SUPPLY_BLOCK + 31 < 18446744073709551616" "unat SIZEOF_PCB + 31 < 18446744073709551616"
  "unat SIZEOF_THREAD_DESCRIPTOR + 31 < 18446744073709551616"
  by (simp_all add: block_for_def SIZEOF_SUPPLY_BLOCK_def SIZEOF_PCB_def SIZEOF_THREAD_DESCRIPTOR_def)

definition new_pcb :: "u64 \<Rightarrow> u64 \<Rightarrow> u16 \<Rightarrow> u64 \<Rightarrow> pcb" where
  "new_pcb ppid i prio t = \<lparr>parent_pid = ppid, pcb_pid = i, init_priority = prio, process_threads = \<lparr>td_tcb = t, td_next_tcb = 0\<rparr>\<rparr>"

definition heap_place :: "block list \<Rightarrow> nat \<Rightarrow> u64" where
  "heap_place us n = place_of KERNEL_HEAP_ADDR (32 + total us + n)"

text \<open>A thread with memory of its own.\<close>

lemma thread_created_keeps:
  assumes prio: "prio \<noteq> UINT16_MAX"
    and heap: "heap_inv (ks s) KERNEL_HEAP_ADDR (us @ (n, False) # vs)" "all_used us" "288 < n" "total us + n + total vs < 549755813888"
    and inv: "pt_inv (ks s) (KERNEL_PHYS_TO_VIRT (cr3_of s))" and root: "0xFFFFFFFF00000000 \<le> KERNEL_PHYS_TO_VIRT (cr3_of s)"
    and free: "free_set (kmmap (ks s)) \<noteq> {}"
  obtains f k' where "create_thread s priv prio = Some (place_of KERNEL_HEAP_ADDR (32 + total us), s\<lparr>ks := k', TID_GEN := TID_GEN s + 1,
        sch := (sch s)\<lparr>tcbs := (tcbs (sch s))(place_of KERNEL_HEAP_ADDR (32 + total us) \<mapsto> new_block (TID_GEN s) priv prio f)\<rparr>\<rparr>)"
    "is_object (place_of KERNEL_HEAP_ADDR (32 + total us))"
    "heap_inv k' KERNEL_HEAP_ADDR ((us @ [(288, True)]) @ (n - 288, False) # vs)" "pt_inv k' (KERNEL_PHYS_TO_VIRT f)"
    "keeps (ks s) (KERNEL_PHYS_TO_VIRT (cr3_of s)) k' (KERNEL_PHYS_TO_VIRT f)"
    "translate k' (KERNEL_PHYS_TO_VIRT f) = translate (ks s) (KERNEL_PHYS_TO_VIRT (cr3_of s))"
    "frames_left (ks s) \<le> Suc (frames_left k')" "18446744069414584320 \<le> unat (KERNEL_PHYS_TO_VIRT f)"
    "branches (ks s) (KERNEL_PHYS_TO_VIRT (cr3_of s)) k' (KERNEL_PHYS_TO_VIRT f)"
proof -
  let ?r = "KERNEL_PHYS_TO_VIRT (cr3_of s)" and ?t = "place_of KERNEL_HEAP_ADDR (32 + total us)"
  obtain f k2 where 2: "create_thread s priv prio = Some (?t, s\<lparr>ks := k2, TID_GEN := TID_GEN s + 1,
        sch := (sch s)\<lparr>tcbs := (tcbs (sch s))(?t \<mapsto> new_block (TID_GEN s) priv prio f)\<rparr>\<rparr>)"
    "heap_inv k2 KERNEL_HEAP_ADDR (taken_from us n 288 vs)" "is_object ?t" "pt_inv k2 (KERNEL_PHYS_TO_VIRT f)"
    "unat f \<in> free_set (kmmap (ks s))" "free_set (kmmap k2) = free_set (kmmap (ks s)) - {unat f}"
    "same_tree (kmem (ks s)) ?r (kmem k2) (KERNEL_PHYS_TO_VIRT f)"
    "\<And>x. \<not> in_heap (total us + n + total vs) x \<Longrightarrow> \<not> within (KERNEL_PHYS_TO_VIRT f) 4096 x \<Longrightarrow> kmem k2 x = kmem (ks s) x"
    by (rule create_thread_run [OF prio heap(1,2) less_imp_le [OF heap(3)] heap(4) inv root free, of priv]) blast
  let ?F = "KERNEL_PHYS_TO_VIRT f"
  have f: "unat f < 2147483648" "4096 dvd unat f"
    using 2(5) inv free_set_aligned by (auto simp: pt_inv_def low_frames_def)
  have Fnew: "?F \<noteq> P" if "foreign_at A (ks s) ?r P" for A P using that 2(5) by (auto simp: foreign_at_def)
  have less: "free_set (kmmap k2) \<subseteq> free_set (kmmap (ks s))" using 2(6) by auto
  have kept: "kept_pages A (ks s) ?r B k2 ?F" if "\<And>q. B q \<Longrightarrow> q \<noteq> [] \<Longrightarrow> A q" for A B
  proof (rule same_tree_kept [OF 2(7) heap(4) less])
    fix P x assume P: "foreign_at A (ks s) ?r P" "within P 4096 x" "\<not> in_heap (total us + n + total vs) x"
    have al: "4096 dvd unat P" "4096 dvd unat ?F" using P(1) frame_page [OF f(2)] by (simp_all add: foreign_at_def)
    have "\<not> within ?F 4096 x"
      using P(2) Fnew [OF P(1)] al unfolding within_page [OF al(1)] within_page [OF al(2)] by (metis dvd_div_mult_self word_eq_by_unat)
    then show "kmem k2 x = kmem (ks s) x" using 2(8) [OF P(3)] by simp
  qed (use that Fnew in blast)+
  have keep: "keeps (ks s) ?r k2 ?F" using kept same_tree_open [OF 2(7)] by (simp add: keeps_def)
  have branch: "branches (ks s) ?r k2 ?F" using kept less by (simp add: branches_def below_root_def)
  have "heap_inv k2 KERNEL_HEAP_ADDR ((us @ [(288, True)]) @ (n - 288, False) # vs)" using 2(2) heap(3) by (simp add: taken_from_def)
  then show thesis
    by (rule that [OF 2(1,3) _ 2(4) keep same_tree_translate [OF 2(7)] frames_left_one [OF 2(6)] frame_high [OF f(1)] branch])
qed

lemma equipped_from:
  assumes "equipped k1 r1 k' r' a cf mf sf" "translate k1 r1 = translate k r" "free_set (kmmap k1) \<subseteq> free_set (kmmap k)"
  shows "equipped k r k' r' a cf mf sf"
  using assms unfolding equipped_def by auto

lemma equipped_later:
  assumes "equipped k r k1 r1 a cf mf sf" "pt_inv k' r1" "translate k' r1 = translate k1 r1"
    "\<And>f. f \<in> set (cf @ mf @ sf) \<Longrightarrow> foreign k1 r1 (KERNEL_PHYS_TO_VIRT f) \<Longrightarrow> foreign k' r1 (KERNEL_PHYS_TO_VIRT f)"
  shows "equipped k r k' r1 a cf mf sf"
proof -
  have "\<forall>f \<in> set (cf @ mf @ sf). foreign k' r1 (KERNEL_PHYS_TO_VIRT f)" using assms(1,4) unfolding equipped_def by blast
  then show ?thesis using assms(1-3) unfolding equipped_def has_pages_def by simp
qed

lemma equippedD:
  assumes "equipped k r k' r' a cf mf sf" "f \<in> set (cf @ mf @ sf)"
  shows "4096 dvd unat f" "unat f < 2147483648" "unat f \<in> free_set (kmmap k)" "foreign k' r' (KERNEL_PHYS_TO_VIRT f)"
    "off_heap (KERNEL_PHYS_TO_VIRT f)" "KERNEL_PHYS_TO_VIRT f \<noteq> FRAME_ALLOC_FAILED"
proof -
  show f: "4096 dvd unat f" "unat f < 2147483648" "unat f \<in> free_set (kmmap k)" "foreign k' r' (KERNEL_PHYS_TO_VIRT f)"
    using assms unfolding equipped_def by blast+
  show "off_heap (KERNEL_PHYS_TO_VIRT f)" using frame_high [OF f(2)] by (simp add: off_heap_def)
  show "KERNEL_PHYS_TO_VIRT f \<noteq> FRAME_ALLOC_FAILED" by (rule frame_no_error [OF f(1)])
qed

lemma equipped_hd:
  assumes "equipped k r k' r' a cf mf sf" "sizes_fit a"
  shows "hd cf \<in> set (cf @ mf @ sf)" "hd mf \<in> set (cf @ mf @ sf)" "hd sf \<in> set (cf @ mf @ sf)" "cf \<noteq> []"
  using assms by (cases cf; cases mf; cases sf; auto simp: equipped_def sizes_fit_def)+

lemma spawn_run:
  assumes prio: "prio \<noteq> UINT16_MAX"
    and heap: "heap_inv (ks s) KERNEL_HEAP_ADDR (us @ (n, False) # vs)" "all_used us" "288 < n" "total us + n + total vs < 549755813888"
    and inv: "pt_inv (ks s) (KERNEL_PHYS_TO_VIRT (cr3_of s))" and root: "0xFFFFFFFF00000000 \<le> KERNEL_PHYS_TO_VIRT (cr3_of s)"
    and a: "sizes_fit a" "1 + 4 * pages_wanted a \<le> frames_left (ks s)" and room: "room_for (ks s) (KERNEL_PHYS_TO_VIRT (cr3_of s)) a"
  obtains f cf mf sf k' where "spawn_alloc_thread s priv prio a p = Some (place_of KERNEL_HEAP_ADDR (32 + total us),
        \<lparr>code_memory = KERNEL_PHYS_TO_VIRT (hd cf), mapping_memory = KERNEL_PHYS_TO_VIRT (hd mf), stack_memory = KERNEL_PHYS_TO_VIRT (hd sf)\<rparr>,
        s\<lparr>ks := k', TID_GEN := TID_GEN s + 1, sch := (sch s)\<lparr>tcbs := (tcbs (sch s))
          (place_of KERNEL_HEAP_ADDR (32 + total us) \<mapsto> all_grown (new_block (TID_GEN s) priv prio f) a)\<rparr>\<rparr>)"
    "is_object (place_of KERNEL_HEAP_ADDR (32 + total us))"
    "heap_inv k' KERNEL_HEAP_ADDR ((us @ [(288, True)]) @ (n - 288, False) # vs)"
    "equipped (ks s) (KERNEL_PHYS_TO_VIRT (cr3_of s)) k' (KERNEL_PHYS_TO_VIRT f) a cf mf sf"
    "keeps (ks s) (KERNEL_PHYS_TO_VIRT (cr3_of s)) k' (KERNEL_PHYS_TO_VIRT f)" "18446744069414584320 \<le> unat (KERNEL_PHYS_TO_VIRT f)"
    "branches (ks s) (KERNEL_PHYS_TO_VIRT (cr3_of s)) k' (KERNEL_PHYS_TO_VIRT f)"
    "frames_left (ks s) \<le> frames_left k' + (1 + 4 * pages_wanted a)"
proof -
  let ?r = "KERNEL_PHYS_TO_VIRT (cr3_of s)" and ?t = "place_of KERNEL_HEAP_ADDR (32 + total us)"
  have free: "free_set (kmmap (ks s)) \<noteq> {}" using a(2) by (auto simp: frames_left_def)
  obtain f k2 where 2: "create_thread s priv prio = Some (?t, s\<lparr>ks := k2, TID_GEN := TID_GEN s + 1,
        sch := (sch s)\<lparr>tcbs := (tcbs (sch s))(?t \<mapsto> new_block (TID_GEN s) priv prio f)\<rparr>\<rparr>)" "is_object ?t"
    "heap_inv k2 KERNEL_HEAP_ADDR ((us @ [(288, True)]) @ (n - 288, False) # vs)" "pt_inv k2 (KERNEL_PHYS_TO_VIRT f)"
    "keeps (ks s) ?r k2 (KERNEL_PHYS_TO_VIRT f)" "translate k2 (KERNEL_PHYS_TO_VIRT f) = translate (ks s) ?r"
    "frames_left (ks s) \<le> Suc (frames_left k2)" "18446744069414584320 \<le> unat (KERNEL_PHYS_TO_VIRT f)"
    "branches (ks s) ?r k2 (KERNEL_PHYS_TO_VIRT f)"
    by (rule thread_created_keeps [OF prio heap inv root free, of priv])
  let ?F = "KERNEL_PHYS_TO_VIRT f" and ?b = "new_block (TID_GEN s) priv prio f"
  let ?s2 = "s\<lparr>ks := k2, TID_GEN := TID_GEN s + 1, sch := (sch s)\<lparr>tcbs := (tcbs (sch s))(?t \<mapsto> ?b)\<rparr>\<rparr>"
  have pre2: "tcbs (sch ?s2) ?t = Some ?b" "pt_inv (ks ?s2) (KERNEL_PHYS_TO_VIRT (page_table ?b))" "4 * pages_wanted a \<le> frames_left (ks ?s2)"
    "room_for (ks ?s2) (KERNEL_PHYS_TO_VIRT (page_table ?b)) a"
    using 2(4,7) a(2) room_for_keeps [OF 2(5) room] by simp_all
  obtain cf mf sf k3 where 3: "thread_supply_new_mem ?s2 ?t a p = Some (0, \<lparr>code_memory = KERNEL_PHYS_TO_VIRT (hd cf),
        mapping_memory = KERNEL_PHYS_TO_VIRT (hd mf), stack_memory = KERNEL_PHYS_TO_VIRT (hd sf)\<rparr>,
        ?s2\<lparr>ks := k3, sch := (sch ?s2)\<lparr>tcbs := (tcbs (sch ?s2))(?t \<mapsto> all_grown ?b a)\<rparr>\<rparr>)"
    "equipped (ks ?s2) (KERNEL_PHYS_TO_VIRT (page_table ?b)) k3 (KERNEL_PHYS_TO_VIRT (page_table ?b)) a cf mf sf"
    "carries (ks ?s2) k3 (KERNEL_PHYS_TO_VIRT (page_table ?b))" "user_only (ks ?s2) k3 (KERNEL_PHYS_TO_VIRT (page_table ?b))"
    "frames_left (ks ?s2) \<le> frames_left k3 + 4 * pages_wanted a"
    by (rule supply_three [OF pre2(1) new_block_fields(8) pre2(2) a(1) pre2(3,4), of p])
  have then3: "equipped k2 ?F k3 ?F a cf mf sf" "carries k2 k3 ?F" "user_only k2 k3 ?F" using 3(2-4) by simp_all
  have tot: "total ((us @ [(288, True)]) @ (n - 288, False) # vs) < 549755813888" using heap(3,4) by simp
  have heap3: "heap_inv k3 KERNEL_HEAP_ADDR ((us @ [(288, True)]) @ (n - 288, False) # vs)"
    by (rule spares_heap [OF 2(4,8) carriesD(1) [OF then3(2)] 2(3) tot])
  have run: "spawn_alloc_thread s priv prio a p = Some (?t, \<lparr>code_memory = KERNEL_PHYS_TO_VIRT (hd cf),
        mapping_memory = KERNEL_PHYS_TO_VIRT (hd mf), stack_memory = KERNEL_PHYS_TO_VIRT (hd sf)\<rparr>,
        s\<lparr>ks := k3, TID_GEN := TID_GEN s + 1, sch := (sch s)\<lparr>tcbs := (tcbs (sch s))(?t \<mapsto> all_grown ?b a)\<rparr>\<rparr>)"
    unfolding spawn_alloc_thread_def 2(1) Option.bind.bind_lunit split_conv
    unfolding 3(1) Option.bind.bind_lunit split_conv by simp
  have "equipped (ks s) ?r k3 ?F a cf mf sf"
    by (rule equipped_from [OF then3(1) 2(6)]) (use 2(9) in \<open>simp add: branches_def\<close>)
  moreover have "branches (ks s) ?r k3 ?F"
    using branches_before [OF 2(9) user_only_kept [OF then3(3)]] then3(3) by (simp add: user_only_def)
  moreover have "frames_left (ks s) \<le> frames_left k3 + (1 + 4 * pages_wanted a)" using 2(7) 3(5) by simp
  ultimately show thesis
    by (rule that [OF run 2(2) heap3 _ keeps_trans [OF 2(5) carries_keeps [OF then3(2)]] 2(8)])
qed

text \<open>The objects of the process itself.\<close>

lemma two_objects:
  assumes heap: "heap_inv (ks s) KERNEL_HEAP_ADDR (us @ (n, False) # vs)" "all_used us" "80 < n" "total us + n + total vs < 549755813888"
    and inv: "pt_inv (ks s) r" and r: "18446744069414584320 \<le> unat r"
  obtains k1 k2 where "sys_malloc s SIZEOF_PCB = Some (place_of KERNEL_HEAP_ADDR (32 + total us), s\<lparr>ks := k1\<rparr>)"
    "sys_malloc (s\<lparr>ks := k1\<rparr>) SIZEOF_THREAD_DESCRIPTOR = Some (place_of KERNEL_HEAP_ADDR (32 + total us + 48), s\<lparr>ks := k2\<rparr>)"
    "is_object (place_of KERNEL_HEAP_ADDR (32 + total us))" "is_object (place_of KERNEL_HEAP_ADDR (32 + total us + 48))"
    "heap_inv k2 KERNEL_HEAP_ADDR ((us @ [(48, True), (32, True)]) @ (n - 80, False) # vs)"
    "pt_inv k2 r" "keeps (ks s) r k2 r" "translate k2 r = translate (ks s) r" "kmmap k2 = kmmap (ks s)"
    "\<forall>A. kept_pages A (ks s) r A k2 r"
proof -
  have n: "block_for SIZEOF_PCB < n" "block_for SIZEOF_THREAD_DESCRIPTOR < n - 48" using heap(3) by (simp_all add: request_blocks)
  obtain k1 where 1: "sys_malloc s SIZEOF_PCB = Some (place_of KERNEL_HEAP_ADDR (32 + total us), s\<lparr>ks := k1\<rparr>)"
    "heap_inv k1 KERNEL_HEAP_ADDR ((us @ [(block_for SIZEOF_PCB, True)]) @ (n - block_for SIZEOF_PCB, False) # vs)"
    "pt_inv k1 r" "keeps (ks s) r k1 r" "translate k1 r = translate (ks s) r" "kmmap k1 = kmmap (ks s)"
    "is_object (place_of KERNEL_HEAP_ADDR (32 + total us))" "\<forall>A. kept_pages A (ks s) r A k1 r"
    by (rule sys_malloc_run [OF heap(1,2) n(1) request_blocks(5) heap(4) inv r])
  let ?us = "us @ [(48, True)]"
  have pre: "heap_inv (ks (s\<lparr>ks := k1\<rparr>)) KERNEL_HEAP_ADDR (?us @ (n - 48, False) # vs)" "all_used ?us"
    "total ?us + (n - 48) + total vs < 549755813888" "pt_inv (ks (s\<lparr>ks := k1\<rparr>)) r"
    using 1(2,3) heap(2-4) by (simp_all add: request_blocks)
  obtain k2 where 2: "sys_malloc (s\<lparr>ks := k1\<rparr>) SIZEOF_THREAD_DESCRIPTOR = Some (place_of KERNEL_HEAP_ADDR (32 + total ?us), s\<lparr>ks := k1\<rparr>\<lparr>ks := k2\<rparr>)"
    "heap_inv k2 KERNEL_HEAP_ADDR ((?us @ [(block_for SIZEOF_THREAD_DESCRIPTOR, True)]) @ (n - 48 - block_for SIZEOF_THREAD_DESCRIPTOR, False) # vs)"
    "pt_inv k2 r" "keeps (ks (s\<lparr>ks := k1\<rparr>)) r k2 r" "translate k2 r = translate (ks (s\<lparr>ks := k1\<rparr>)) r"
    "kmmap k2 = kmmap (ks (s\<lparr>ks := k1\<rparr>))"
    "is_object (place_of KERNEL_HEAP_ADDR (32 + total ?us))" "\<forall>A. kept_pages A (ks (s\<lparr>ks := k1\<rparr>)) r A k2 r"
    by (rule sys_malloc_run [OF pre(1,2) n(2) request_blocks(6) pre(3,4) r])
  have "\<forall>A. kept_pages A (ks s) r A k2 r" using 1(8) 2(8) kept_pages_trans by fastforce
  then show thesis
    by (intro that [OF 1(1) _ 1(7) _ _ 2(3)]) (use 1(5,6) 2(1,2,5-7) keeps_trans [OF 1(4)] 2(4) in \<open>simp_all add: request_blocks add.assoc\<close>)
qed

text \<open>The program is copied to a page that is no table.\<close>

lemma program_copied:
  assumes prog: "program_at k0 r0 code sz" and keep: "keeps k0 r0 k F" and inv: "pt_inv k F"
    and d: "4096 dvd unat d" "unat d < 2147483648" "unat d \<in> free_set (kmmap k0)" and D: "foreign k F (KERNEL_PHYS_TO_VIRT d)"
    and heap: "heap_inv k KERNEL_HEAP_ADDR bs" "total bs < 549755813888"
    and k': "k' = k\<lparr>kmem := Imemcpy (kmem k) (KERNEL_PHYS_TO_VIRT d) code sz\<rparr>"
  shows "pt_inv k' F" "translate k' F = translate k F" "heap_inv k' KERNEL_HEAP_ADDR bs"
    "i < unat sz \<Longrightarrow> kmem k' (KERNEL_PHYS_TO_VIRT d + of_nat i) = kmem k0 (code + of_nat i)"
    "kept_pages A k0 r1 B k F \<Longrightarrow> kept_pages A k0 r1 B k' F" "foreign k F P \<Longrightarrow> foreign k' F P"
proof -
  let ?D = "KERNEL_PHYS_TO_VIRT d"
  have al: "4096 dvd unat ?D" by (rule frame_page [OF d(1)])
  have new: "P \<noteq> ?D" if "foreign_at C k0 r2 P" for C r2 P using that d(3) by (auto simp: foreign_at_def)
  have old: "P \<noteq> ?D" if "off_heap P" "foreign k0 r0 P" for P using new that(2) unfolding foreign_at_any [symmetric] by blast
  note copy = copy_program [OF prog al old]
  have same: "same_tree (kmem k) F (kmem k') F" by (rule foreign_write [OF inv D]) (simp add: k' copy(2))
  have tabs: "tab (kmem k') F q = tab (kmem k) F q" if "path_ok q" for q
    using same_tree_tab [OF same that] by (cases "q = []") simp_all
  have still: "foreign_at C k F P \<Longrightarrow> foreign_at C k' F P" for C P using tabs by (simp add: foreign_at_def k')
  then show "foreign k F P \<Longrightarrow> foreign k' F P" by (simp add: foreign_at_any [symmetric])
  show "kept_pages A k0 r1 B k' F" if kept: "kept_pages A k0 r1 B k F"
    unfolding kept_pages_def
  proof (intro allI impI conjI)
    fix P x assume P: "off_heap P" "foreign_at A k0 r1 P"
    show "foreign_at B k' F P" by (rule still [OF kept_pagesD(1) [OF kept P]])
    assume x: "within P 4096 x"
    have "4096 dvd unat P" using P(2) by (simp add: foreign_at_def)
    then have "\<not> within ?D 4096 x"
      using x new [OF P(2)] al unfolding within_page [OF al] by (metis within_page dvd_div_mult_self word_eq_by_unat)
    then show "kmem k' x = kmem k0 x" using kept_pagesD(2) [OF kept P x] copy(2) by (simp add: k')
  qed
  show "pt_inv k' F" by (rule same_tree_inv [OF inv same]) (use inv in \<open>simp_all add: k' pt_inv_def\<close>)
  show "translate k' F = translate k F" by (rule same_tree_translate [OF same])
  show "i < unat sz \<Longrightarrow> kmem k' (?D + of_nat i) = kmem k0 (code + of_nat i)"
    using copy(1) program_bytes [OF keep prog] by (simp add: k')
  show "heap_inv k' KERNEL_HEAP_ADDR bs"
  proof (rule heap_untouched [OF heap(1)])
    fix x :: u64 assume "unat x < unat KERNEL_HEAP_ADDR + 64 + total bs"
    then have x: "unat x < 18446744069414584320" using heap(2) by (simp add: KERNEL_HEAP_ADDR_def)
    have "\<not> within ?D 4096 x"
    proof
      assume "within ?D 4096 x"
      then have "unat x div 4096 = unat ?D div 4096" using within_page [OF al] by blast
      then show False using x al frame_high [OF d(2)] by (auto elim!: dvdE)
    qed
    then show "kmem k' x = kmem k x" by (simp add: k' copy(2))
  qed
qed

lemma init_process_run:
  assumes prio: "prio \<noteq> UINT16_MAX"
    and heap: "heap_inv (ks s) KERNEL_HEAP_ADDR (us @ (n, False) # vs)" "all_used us" "416 < n" "total us + n + total vs < 549755813888"
    and inv: "pt_inv (ks s) (KERNEL_PHYS_TO_VIRT (cr3_of s))" and root: "0xFFFFFFFF00000000 \<le> KERNEL_PHYS_TO_VIRT (cr3_of s)"
    and a: "sizes_fit a" "1 + 4 * pages_wanted a \<le> frames_left (ks s)" and room: "room_for (ks s) (KERNEL_PHYS_TO_VIRT (cr3_of s)) a"
    and prog: "program_at (ks s) (KERNEL_PHYS_TO_VIRT (cr3_of s)) code sz"
  obtains f cf mf sf k' where "init_process s ppid priv prio code sz a = Some (heap_place us 336,
      s\<lparr>ks := k', PID_GEN := PID_GEN s + 1, TID_GEN := TID_GEN s + 1,
        sch := (sch s)\<lparr>tcbs := (tcbs (sch s))(heap_place us 48 \<mapsto> all_grown (new_block (TID_GEN s) priv prio f) a)\<rparr>,
        pcbs := (pcbs s)(heap_place us 336 \<mapsto> new_pcb ppid (PID_GEN s) prio (heap_place us 48))\<rparr>)"
    "equipped (ks s) (KERNEL_PHYS_TO_VIRT (cr3_of s)) k' (KERNEL_PHYS_TO_VIRT f) a cf mf sf"
    "heap_inv k' KERNEL_HEAP_ADDR (us @ [(48, True), (288, True), (48, True), (32, True)] @ (n - 416, False) # vs)"
    "\<forall>i < unat sz. kmem k' (KERNEL_PHYS_TO_VIRT (hd cf) + of_nat i) = kmem (ks s) (code + of_nat i)"
    "kept_pages any_path (ks s) (KERNEL_PHYS_TO_VIRT (cr3_of s)) any_path k' (KERNEL_PHYS_TO_VIRT f)"
    "branches (ks s) (KERNEL_PHYS_TO_VIRT (cr3_of s)) k' (KERNEL_PHYS_TO_VIRT f)"
    "frames_left (ks s) \<le> frames_left k' + (1 + 4 * pages_wanted a)" "18446744069414584320 \<le> unat (KERNEL_PHYS_TO_VIRT f)"
proof -
  let ?r = "KERNEL_PHYS_TO_VIRT (cr3_of s)" and ?s0 = "s\<lparr>PID_GEN := PID_GEN s + 1\<rparr>" and ?us1 = "us @ [(48, True)]" and ?us3 = "us @ [(48, True), (288, True)]"
  have r: "18446744069414584320 \<le> unat ?r" using root by (simp add: le_by_unat)
  have heap0: "heap_inv (ks ?s0) KERNEL_HEAP_ADDR (us @ (n, False) # vs)" "block_for SIZEOF_SUPPLY_BLOCK < n" "pt_inv (ks ?s0) ?r"
    using heap inv by (simp_all add: request_blocks)
  obtain k1 where 1: "sys_malloc ?s0 SIZEOF_SUPPLY_BLOCK = Some (place_of KERNEL_HEAP_ADDR (32 + total us), ?s0\<lparr>ks := k1\<rparr>)"
    "heap_inv k1 KERNEL_HEAP_ADDR ((us @ [(block_for SIZEOF_SUPPLY_BLOCK, True)]) @ (n - block_for SIZEOF_SUPPLY_BLOCK, False) # vs)"
    "pt_inv k1 ?r" "keeps (ks ?s0) ?r k1 ?r" "translate k1 ?r = translate (ks ?s0) ?r" "kmmap k1 = kmmap (ks ?s0)"
    "is_object (place_of KERNEL_HEAP_ADDR (32 + total us))" "\<forall>A. kept_pages A (ks ?s0) ?r A k1 ?r"
    by (rule sys_malloc_run [OF heap0(1) heap(2) heap0(2) request_blocks(4) heap(4) heap0(3) r])
  let ?s1 = "?s0\<lparr>ks := k1\<rparr>"
  have cr1: "cr3_of ?s1 = cr3_of s" by (simp add: cr3_of_def)
  have left1: "frames_left k1 = frames_left (ks s)" using 1(6) by (simp add: frames_left_def)
  have pre1: "heap_inv (ks ?s1) KERNEL_HEAP_ADDR (?us1 @ (n - 48, False) # vs)" "all_used ?us1" "288 < n - 48"
    "total ?us1 + (n - 48) + total vs < 549755813888" "pt_inv (ks ?s1) (KERNEL_PHYS_TO_VIRT (cr3_of ?s1))"
    "0xFFFFFFFF00000000 \<le> KERNEL_PHYS_TO_VIRT (cr3_of ?s1)" "1 + 4 * pages_wanted a \<le> frames_left (ks ?s1)"
    "room_for (ks ?s1) (KERNEL_PHYS_TO_VIRT (cr3_of ?s1)) a"
    using 1(2,3) left1 heap(2-4) root a(2) room_for_keeps [OF 1(4)] room by (auto simp: request_blocks cr1)
  note spawned = spawn_run [OF prio pre1(1-6) a(1) pre1(7,8), of priv default_permissions]
  obtain f cf mf sf k3 where 3: "spawn_alloc_thread ?s1 priv prio a default_permissions = Some (place_of KERNEL_HEAP_ADDR (32 + total ?us1),
        \<lparr>code_memory = KERNEL_PHYS_TO_VIRT (hd cf), mapping_memory = KERNEL_PHYS_TO_VIRT (hd mf), stack_memory = KERNEL_PHYS_TO_VIRT (hd sf)\<rparr>,
        ?s1\<lparr>ks := k3, TID_GEN := TID_GEN ?s1 + 1, sch := (sch ?s1)\<lparr>tcbs := (tcbs (sch ?s1))
          (place_of KERNEL_HEAP_ADDR (32 + total ?us1) \<mapsto> all_grown (new_block (TID_GEN ?s1) priv prio f) a)\<rparr>\<rparr>)"
    "is_object (place_of KERNEL_HEAP_ADDR (32 + total ?us1))"
    "heap_inv k3 KERNEL_HEAP_ADDR ((?us1 @ [(288, True)]) @ (n - 48 - 288, False) # vs)"
    "equipped (ks ?s1) (KERNEL_PHYS_TO_VIRT (cr3_of ?s1)) k3 (KERNEL_PHYS_TO_VIRT f) a cf mf sf"
    "keeps (ks ?s1) (KERNEL_PHYS_TO_VIRT (cr3_of ?s1)) k3 (KERNEL_PHYS_TO_VIRT f)" "18446744069414584320 \<le> unat (KERNEL_PHYS_TO_VIRT f)"
    "branches (ks ?s1) (KERNEL_PHYS_TO_VIRT (cr3_of ?s1)) k3 (KERNEL_PHYS_TO_VIRT f)"
    "frames_left (ks ?s1) \<le> frames_left k3 + (1 + 4 * pages_wanted a)"
    by (rule spawned)
  note 3 = 3 [unfolded cr1]
  let ?F = "KERNEL_PHYS_TO_VIRT f" and ?D = "KERNEL_PHYS_TO_VIRT (hd cf)"
  have eq3: "equipped (ks s) ?r k3 ?F a cf mf sf" by (rule equipped_from [OF 3(4)]) (use 1(5,6) in simp_all)
  note hd = equipped_hd [OF eq3 a(1)]
  let ?s3 = "?s1\<lparr>ks := k3, TID_GEN := TID_GEN s + 1, sch := (sch s)\<lparr>tcbs := (tcbs (sch s))
        (place_of KERNEL_HEAP_ADDR (32 + total ?us1) \<mapsto> all_grown (new_block (TID_GEN s) priv prio f) a)\<rparr>\<rparr>"
  have pre3: "heap_inv (ks ?s3) KERNEL_HEAP_ADDR (?us3 @ (n - 336, False) # vs)" "all_used ?us3" "80 < n - 336"
    "total ?us3 + (n - 336) + total vs < 549755813888" "pt_inv (ks ?s3) ?F"
    using 3(3) eq3 heap(2-4) by (simp_all add: equipped_def)
  obtain k4 k5 where 5: "sys_malloc ?s3 SIZEOF_PCB = Some (place_of KERNEL_HEAP_ADDR (32 + total ?us3), ?s3\<lparr>ks := k4\<rparr>)"
    "sys_malloc (?s3\<lparr>ks := k4\<rparr>) SIZEOF_THREAD_DESCRIPTOR = Some (place_of KERNEL_HEAP_ADDR (32 + total ?us3 + 48), ?s3\<lparr>ks := k5\<rparr>)"
    "is_object (place_of KERNEL_HEAP_ADDR (32 + total ?us3))" "is_object (place_of KERNEL_HEAP_ADDR (32 + total ?us3 + 48))"
    "heap_inv k5 KERNEL_HEAP_ADDR ((?us3 @ [(48, True), (32, True)]) @ (n - 336 - 80, False) # vs)"
    "pt_inv k5 ?F" "keeps (ks ?s3) ?F k5 ?F" "translate k5 ?F = translate (ks ?s3) ?F" "kmmap k5 = kmmap (ks ?s3)"
    "\<forall>A. kept_pages A (ks ?s3) ?F A k5 ?F"
    by (rule two_objects [OF pre3 3(6)])
  let ?bs = "us @ [(48, True), (288, True), (48, True), (32, True)] @ (n - 416, False) # vs"
  have heap5: "heap_inv k5 KERNEL_HEAP_ADDR ?bs" "total ?bs < 549755813888" using 5(5) heap(3,4) by simp_all
  have keep: "keeps (ks s) ?r k1 ?r" "keeps k1 ?r k3 ?F" "keeps k3 ?F k5 ?F" using 1(4) 3(5) 5(7) by simp_all
  note keep5 = keeps_trans [OF keep(1) keeps_trans [OF keep(2,3)]]
  have eq5: "equipped (ks s) ?r k5 ?F a cf mf sf"
    by (rule equipped_later [OF eq3 5(6)]) (use 5(8) keepsD(1) [OF keep(3)] equippedD(5) [OF eq3] in auto)
  have branch5: "branches (ks s) ?r k5 ?F"
    by (rule branches_after [OF _ _ branches_before [OF 3(7)]]) (use 1(6,8) 5(9,10) in simp_all)
  note frame = equippedD [OF eq5 hd(1)]
  note copied = program_copied [OF prog keep5 5(6) frame(1-4) heap5 refl]
  let ?k6 = "k5\<lparr>kmem := Imemcpy (kmem k5) ?D code sz\<rparr>"
  have eq6: "equipped (ks s) ?r ?k6 ?F a cf mf sf" by (rule equipped_later [OF eq5 copied(1,2)]) (rule copied(6))
  have kept6: "kept_pages any_path (ks s) ?r any_path ?k6 ?F" by (rule copied(5)) (use keep5 in \<open>simp add: keeps_def\<close>)
  have branch6: "branches (ks s) ?r ?k6 ?F" using copied(5) branch5 by (simp add: branches_def)
  have left6: "frames_left (ks s) \<le> frames_left ?k6 + (1 + 4 * pages_wanted a)"
    using 3(8) left1 5(9) by (simp add: frames_left_def)
  have places: "place_of KERNEL_HEAP_ADDR (32 + total ?us1) = heap_place us 48" "place_of KERNEL_HEAP_ADDR (32 + total ?us3) = heap_place us 336"
    by (simp_all add: heap_place_def add.assoc)
  note lists = equippedD(6) [OF eq5 hd(1)] equippedD(6) [OF eq5 hd(2)] equippedD(6) [OF eq5 hd(3)]
  have run: "init_process s ppid priv prio code sz a = Some (heap_place us 336, s\<lparr>ks := ?k6, PID_GEN := PID_GEN s + 1, TID_GEN := TID_GEN s + 1,
        sch := (sch s)\<lparr>tcbs := (tcbs (sch s))(heap_place us 48 \<mapsto> all_grown (new_block (TID_GEN s) priv prio f) a)\<rparr>,
        pcbs := (pcbs s)(heap_place us 336 \<mapsto> new_pcb ppid (PID_GEN s) prio (heap_place us 48))\<rparr>)"
  proof -
    have spawn: "spawn_alloc_thread ?s1 priv prio a default_permissions = Some (heap_place us 48, \<lparr>code_memory = ?D,
        mapping_memory = KERNEL_PHYS_TO_VIRT (hd mf), stack_memory = KERNEL_PHYS_TO_VIRT (hd sf)\<rparr>, ?s3)"
      unfolding 3(1) unfolding places by simp
    have obj: "place_of KERNEL_HEAP_ADDR (32 + total us) \<noteq> 0" "heap_place us 48 \<noteq> 0" "heap_place us 336 \<noteq> 0"
      "place_of KERNEL_HEAP_ADDR (32 + total ?us3 + 48) \<noteq> 0" "is_object (heap_place us 336)"
      using 1(7) 3(2) 5(3,4) unfolding places by (simp_all add: is_object_def)
    show ?thesis
      unfolding init_process_def Let_def 1(1) Option.bind.bind_lunit split_conv spawn 5(1,2) unfolding places
      using obj 1(7) 5(4) lists by (simp add: new_pcb_def)
  qed
  have bytes: "\<forall>i < unat sz. kmem ?k6 (?D + of_nat i) = kmem (ks s) (code + of_nat i)" using copied(4) by blast
  show thesis by (rule that [OF run eq6 copied(3) bytes kept6 branch6 left6 3(6)])
qed

end
