(* ===== verification/Process_Isolation.thy ===== *)
theory Process_Isolation
  imports Process_Space
begin

text \<open>
  Address spaces that share the tables of the kernel and nothing else.  The root table of the creator holds no table under the root
  entries of threads; then the creation of a process changes none of its tables, and the tables and frames that an earlier process
  has of its own stay as they are.
\<close>

section \<open>The address space of the creator\<close>

definition threads_empty :: "kstate \<Rightarrow> u64 \<Rightarrow> bool" where
  "threads_empty k r \<longleftrightarrow> (\<forall>j \<in> {9, 18, 249}. \<not> present (load64 (kmem k) (entry_at r j)))"

lemma threads_empty_tab: "threads_empty k r \<Longrightarrow> below_root q \<Longrightarrow> tab (kmem k) r q = None"
proof (induction q)
  case (Cons j q)
  then show ?case
    by (cases "q = []") (auto simp: below_root_def user_path_def threads_empty_def points_def)
qed (simp add: below_root_def)

lemma threads_empty_open:
  assumes "threads_empty k r" "user_va va"
  shows "open_path k r sz va"
proof -
  have "below_root (path1 va)" "below_root (path2 va)"
    using assms(2) by (auto simp: below_root_def user_path_def user_va_def paths_def)
  note this [THEN threads_empty_tab [OF assms(1)]]
  then show ?thesis by (simp add: open_path_def path2_def path3_def path1_def)
qed

lemma threads_empty_room: "threads_empty k r \<Longrightarrow> sizes_fit a \<Longrightarrow> room_for k r a"
  using threads_empty_open user_pages unfolding room_for_def sizes_fit_def by auto

lemma table_page:
  assumes inv: "pt_inv k r" and r: "18446744069414584320 \<le> unat r" and t: "path_ok q" "tab (kmem k) r q = Some t"
  shows "4096 dvd unat t" "off_heap t" "unat (KERNEL_VIRT_TO_PHYS t) \<notin> free_set (kmmap k)"
proof -
  show "4096 dvd unat t" using inv t by (auto simp: pt_inv_def dest: tables_apartD(1))
  show "off_heap t" using r t tab_high [OF t(2)] by (cases "q = []") (auto simp: off_heap_def)
  show "unat (KERNEL_VIRT_TO_PHYS t) \<notin> free_set (kmmap k)" using inv t by (auto simp: pt_inv_def tables_not_free_def)
qed

lemma kept_loads:
  assumes P: "4096 dvd unat P" "unat j < 512" and bytes: "\<And>x. within P 4096 x \<Longrightarrow> m' x = m x"
  shows "load64 m' (entry_at P j) = load64 m (entry_at P j)"
proof (rule same_page_loads [OF P P(1)])
  fix x :: u64 assume "unat x < 4096"
  then have "within P 4096 (P + x)" by (simp add: within_def less_by_unat)
  then show "m' (P + x) = m (P + x)" by (rule bytes)
qed

text \<open>One creation, seen from the creator.\<close>

definition created :: "kstate \<Rightarrow> u64 \<Rightarrow> kstate \<Rightarrow> u64 \<Rightarrow> bool" where
  "created k r k' F \<longleftrightarrow> pt_inv k r \<and> 18446744069414584320 \<le> unat r \<and> threads_empty k r \<and>
     pt_inv k' F \<and> 18446744069414584320 \<le> unat F \<and> kept_pages any_path k r any_path k' F \<and> branches k r k' F"

lemma creator_table:
  assumes c: "created k r k' F" and t: "path_ok q" "tab (kmem k) r q = Some t"
  shows "foreign_at user_path k' F t" "within t 4096 x \<Longrightarrow> kmem k' x = kmem k x"
proof -
  have inv: "pt_inv k r" "18446744069414584320 \<le> unat r" and emp: "threads_empty k r"
    and kept: "kept_pages below_root k r user_path k' F" using c by (simp_all add: created_def branches_def)
  have "foreign_at below_root k r t"
    using table_page [OF inv t] threads_empty_tab [OF emp] by (simp add: foreign_at_def)
  from kept_pagesD [OF kept table_page(2) [OF inv t] this]
  show "foreign_at user_path k' F t" "within t 4096 x \<Longrightarrow> kmem k' x = kmem k x" .
qed

lemma creator_same_tree:
  assumes c: "created k r k' F"
  shows "same_tree (kmem k) r (kmem k') r"
proof -
  have inv: "pt_inv k r" "18446744069414584320 \<le> unat r" using c by (simp_all add: created_def)
  have "load64 (kmem k') (entry_at t j) = load64 (kmem k) (entry_at t j)" if "path_ok q" "tab (kmem k) r q = Some t" "unat j < 512" for q t j
    by (rule kept_loads [OF table_page(1) [OF inv that(1,2)] that(3) creator_table(2) [OF c that(1,2)]])
  from this [of "[]" r] this show ?thesis by (simp add: same_tree_def)
qed

lemma creator_kept:
  assumes c: "created k r k' F"
  shows "pt_inv k' r" "threads_empty k' r" "translate k' r = translate k r"
    "path_ok q \<Longrightarrow> tab (kmem k') r q = tab (kmem k) r q" "off_heap P \<Longrightarrow> foreign k r P \<Longrightarrow> foreign k' r P"
    "off_heap P \<Longrightarrow> foreign k r P \<Longrightarrow> within P 4096 x \<Longrightarrow> kmem k' x = kmem k x"
proof -
  note same = creator_same_tree [OF c]
  have inv: "pt_inv k r" "pt_inv k' F" and free: "free_set (kmmap k') \<subseteq> free_set (kmmap k)"
    and kept: "kept_pages any_path k r any_path k' F" using c by (simp_all add: created_def branches_def)
  show "pt_inv k' r" by (rule same_tree_inv [OF inv(1) same]) (use inv free in \<open>simp_all add: pt_inv_def\<close>)
  show "translate k' r = translate k r" by (rule same_tree_translate [OF same])
  show tabs: "tab (kmem k') r q = tab (kmem k) r q" if "path_ok q" for q
    using same_tree_tab [OF same that] by (cases "q = []") simp_all
  have "load64 (kmem k') (entry_at r j) = load64 (kmem k) (entry_at r j)" if "j \<in> {9, 18, 249}" for j
    using same that by (auto simp: same_tree_def)
  then show "threads_empty k' r" using c unfolding created_def threads_empty_def by metis
  assume P: "off_heap P" "foreign k r P"
  note kept_pagesD [OF kept P(1) P(2) [folded foreign_at_any]]
  then show "foreign k' r P" "within P 4096 x \<Longrightarrow> kmem k' x = kmem k x"
    using P(2) tabs by (auto simp: foreign_def foreign_at_def)
qed

section \<open>The address space of a process\<close>

text \<open>The tables on the paths of threads are no tables of the creator.\<close>

definition own_tables :: "kstate \<Rightarrow> u64 \<Rightarrow> u64 \<Rightarrow> bool" where
  "own_tables k r F \<longleftrightarrow> 18446744069414584320 \<le> unat F \<and>
     (\<forall>q t. user_path q \<longrightarrow> path_ok q \<longrightarrow> tab (kmem k) F q = Some t \<longrightarrow> foreign k r t)"

lemma own_tables_new:
  assumes c: "created k r k' F"
  shows "own_tables k' r F"
proof -
  have inv: "pt_inv k' F" "18446744069414584320 \<le> unat F" using c by (simp_all add: created_def)
  have "foreign k' r t" if t: "user_path q" "path_ok q" "tab (kmem k') F q = Some t" for q t
  proof -
    have "u \<noteq> t" if u: "path_ok p" "tab (kmem k') r p = Some u" for p u
    proof -
      have "foreign_at user_path k' F u" by (rule creator_table(1) [OF c u(1)]) (use u creator_kept(4) [OF c] in simp)
      then show ?thesis using t by (auto simp: foreign_at_def)
    qed
    then show ?thesis using table_page [OF inv t(2,3)] by (simp add: foreign_def)
  qed
  then show ?thesis using inv(2) by (simp add: own_tables_def)
qed

lemma own_tables_tabs:
  assumes p: "own_tables k r G" and c: "created k r k' F"
  shows "user_path q \<Longrightarrow> path_ok q \<Longrightarrow> tab (kmem k') G q = tab (kmem k) G q"
    "user_path (j # q) \<Longrightarrow> user_path q \<Longrightarrow> path_ok q \<Longrightarrow> unat j < 512 \<Longrightarrow> ent (kmem k') G (j # q) = ent (kmem k) G (j # q)"
proof -
  have load: "load64 (kmem k') (entry_at t j) = load64 (kmem k) (entry_at t j)"
    if t: "user_path q" "path_ok q" "tab (kmem k) G q = Some t" "unat j < 512" for q t j
  proof -
    have "foreign k r t" "off_heap t" using p t tab_high [OF t(3)] by (cases "q = []"; auto simp: own_tables_def off_heap_def)+
    then show ?thesis using creator_kept(6) [OF c] t(4) by (intro kept_loads) (auto simp: foreign_def)
  qed
  have up: "user_path (j # q) \<Longrightarrow> user_path q" for j q by (cases q) (auto simp: user_path_def)
  show tabs: "user_path q \<Longrightarrow> path_ok q \<Longrightarrow> tab (kmem k') G q = tab (kmem k) G q" for q
  proof (induction q)
    case (Cons j q)
    then have IH: "tab (kmem k') G q = tab (kmem k) G q" "user_path q" "path_ok q" "unat j < 512" using up by auto
    then show ?case using load by (cases "tab (kmem k) G q") (simp_all add: Let_def)
  qed simp
  show "user_path (j # q) \<Longrightarrow> user_path q \<Longrightarrow> path_ok q \<Longrightarrow> unat j < 512 \<Longrightarrow> ent (kmem k') G (j # q) = ent (kmem k) G (j # q)"
    using tabs load by (cases "tab (kmem k) G q") simp_all
qed

lemma own_tables_kept:
  assumes p: "own_tables k r G" and c: "created k r k' F"
  shows "own_tables k' r G" "user_va va \<Longrightarrow> translate k' G va = translate k G va"
proof -
  have "foreign k' r t" if t: "user_path q" "path_ok q" "tab (kmem k') G q = Some t" for q t
  proof -
    have old: "tab (kmem k) G q = Some t" using own_tables_tabs(1) [OF p c t(1,2)] t(3) by simp
    have "foreign k r t" "off_heap t" using p t(1,2) old tab_high [OF old] by (cases "q = []"; auto simp: own_tables_def off_heap_def)+
    then show ?thesis using creator_kept(5) [OF c] by blast
  qed
  then show "own_tables k' r G" using p by (simp add: own_tables_def)
  assume "user_va va"
  then have u: "user_path (path1 va)" "user_path (path2 va)" "user_path (path3 va)" "user_path (path4 va)"
    by (simp_all add: user_path_def user_va_def paths_def)
  note ent = own_tables_tabs(2) [OF p c]
  have "ent (kmem k') G (path2 va) = ent (kmem k) G (path2 va)" "ent (kmem k') G (path3 va) = ent (kmem k) G (path3 va)"
    "ent (kmem k') G (path4 va) = ent (kmem k) G (path4 va)"
    using ent [of "VA_PDPT_INDEX va" "path1 va"] ent [of "VA_PD_INDEX va" "path2 va"] ent [of "VA_PT_INDEX va" "path3 va"]
      u paths_ok [of va] index_bound [of va] by (simp_all add: paths_def del: ent.simps)
  then show "translate k' G va = translate k G va" by (simp only: translate_def)
qed

text \<open>What a process has: its own tables, three subspaces, and frames that no other address space uses.\<close>

definition owns :: "kstate \<Rightarrow> u64 \<Rightarrow> u64 \<Rightarrow> u64 list \<Rightarrow> u64 list \<Rightarrow> u64 list \<Rightarrow> bool" where
  "owns k r F cf mf sf \<longleftrightarrow> own_tables k r F \<and> length cf \<le> 510 \<and> length mf \<le> 510 \<and> length sf \<le> 510 \<and> distinct (cf @ mf @ sf) \<and>
     has_pages k F SUBSPACE_CODE cf \<and> has_pages k F SUBSPACE_MAPPING mf \<and> has_pages k F SUBSPACE_STACK sf \<and>
     (\<forall>f \<in> set (cf @ mf @ sf). 4096 dvd unat f \<and> unat f < 2147483648 \<and> foreign k r (KERNEL_PHYS_TO_VIRT f))"

lemma owns_new:
  assumes c: "created k r k' F" and eq: "equipped k r k' F a cf mf sf" and a: "sizes_fit a"
  shows "owns k' r F cf mf sf"
proof -
  have inv: "pt_inv k r" "18446744069414584320 \<le> unat r" using c by (simp_all add: created_def)
  have "foreign k' r (KERNEL_PHYS_TO_VIRT f)" if f: "f \<in> set (cf @ mf @ sf)" for f
  proof -
    have "t \<noteq> KERNEL_PHYS_TO_VIRT f" if t: "path_ok q" "tab (kmem k') r q = Some t" for q t
    proof -
      have "tab (kmem k) r q = Some t" using creator_kept(4) [OF c t(1)] t(2) by simp
      from table_page(3) [OF inv t(1) this] show ?thesis using equippedD(3) [OF eq f] by auto
    qed
    then show ?thesis using equippedD(4) [OF eq f] by (simp add: foreign_def)
  qed
  then show ?thesis using own_tables_new [OF c] eq a equippedD [OF eq] by (auto simp: owns_def equipped_def sizes_fit_def)
qed

lemma user_page: "n < 510 \<Longrightarrow> same_page DEFAULT_PAGE_SIZE (SUB_SPACE_TO_ADDR sub + of_nat (4096 * n)) va \<Longrightarrow> user_va va"
  using user_pages [of n sub]
  by (simp add: user_va_def same_page_def page_path_def paths_def DEFAULT_PAGE_SIZE_def SUPER_PS_def HUGE_PS_def del: of_nat_mult)

lemma owns_kept:
  assumes o: "owns k r G cf mf sf" and c: "created k r k' F"
  shows "owns k' r G cf mf sf" "f \<in> set (cf @ mf @ sf) \<Longrightarrow> within (KERNEL_PHYS_TO_VIRT f) 4096 x \<Longrightarrow> kmem k' x = kmem k x"
proof -
  have p: "own_tables k r G" using o by (simp add: owns_def)
  have frame: "off_heap (KERNEL_PHYS_TO_VIRT f)" "foreign k r (KERNEL_PHYS_TO_VIRT f)" if "f \<in> set (cf @ mf @ sf)" for f
  proof -
    have f: "unat f < 2147483648" "foreign k r (KERNEL_PHYS_TO_VIRT f)" using o that unfolding owns_def by blast+
    show "off_heap (KERNEL_PHYS_TO_VIRT f)" "foreign k r (KERNEL_PHYS_TO_VIRT f)" using f(2) frame_high [OF f(1)] by (simp_all add: off_heap_def)
  qed
  have "has_pages k' G sub fs" if "has_pages k G sub fs" "length fs \<le> 510" for sub fs
    unfolding has_pages_def
  proof (intro allI impI)
    fix i va assume i: "i < length fs" and va: "same_page DEFAULT_PAGE_SIZE (SUB_SPACE_TO_ADDR sub + of_nat (4096 * i)) va"
    have "translate k' G va = translate k G va" by (rule own_tables_kept(2) [OF p c user_page [OF _ va]]) (use i that(2) in simp)
    then show "translate k' G va = Some (ppn_of (fs ! i))" using that(1) i va unfolding has_pages_def by simp
  qed
  moreover have "foreign k' r (KERNEL_PHYS_TO_VIRT f)" if "f \<in> set (cf @ mf @ sf)" for f
    using creator_kept(5) [OF c frame [OF that]] .
  ultimately show "owns k' r G cf mf sf" using o own_tables_kept(1) [OF p c] unfolding owns_def by blast
  show "f \<in> set (cf @ mf @ sf) \<Longrightarrow> within (KERNEL_PHYS_TO_VIRT f) 4096 x \<Longrightarrow> kmem k' x = kmem k x"
    using creator_kept(6) [OF c frame] by blast
qed

text \<open>Different processes have different frames.\<close>

lemma owns_disjoint:
  assumes o: "owns k r G cf mf sf" and eq: "equipped k r k' F a cf' mf' sf'"
  shows "set (cf @ mf @ sf) \<inter> set (cf' @ mf' @ sf') = {}"
proof -
  have "unat f \<notin> free_set (kmmap k)" if "f \<in> set (cf @ mf @ sf)" for f
    using o that unfolding owns_def foreign_def by fastforce
  then show ?thesis using equippedD(3) [OF eq] by blast
qed

end
