(* ===== verification/Process_Run.thy ===== *)
theory Process_Run
  imports Process_Isolation Scheduler_Props
begin

text \<open>
  What the calls of \<^const>\<open>create_process\<close> and \<^const>\<open>create_initial_process\<close> do to the whole system, in a form
  that can be repeated: the state is again one in which a process can be created, and the processes of earlier calls stay
  as they are.
\<close>

section \<open>Reading a program\<close>

text \<open>The byte that an address of an address space names.\<close>

definition fetch :: "kstate \<Rightarrow> u64 \<Rightarrow> u64 \<Rightarrow> u8 option" where
  "fetch k r va = map_option (\<lambda>n. kmem k (KERNEL_PHYS_TO_VIRT (shifted_ppn n + VA_OFFSET_4K va))) (translate k r va)"

lemma code_offset:
  assumes "i < 4096"
  shows "VA_OFFSET_4K (THREAD_CODE_VIRT_ADDR + of_nat i) = of_nat i" "same_page DEFAULT_PAGE_SIZE THREAD_CODE_VIRT_ADDR (THREAD_CODE_VIRT_ADDR + of_nat i)"
proof -
  have m: "0xFFF = (mask 12 :: u64)" by (simp add: mask_eq_exp_minus_1)
  have u: "unat (THREAD_CODE_VIRT_ADDR + of_nat i) = unat THREAD_CODE_VIRT_ADDR + i"
    using assms by (simp add: THREAD_CODE_VIRT_ADDR_def unat_add_u64 unat_of_nat_u64)
  obtain q where q: "unat THREAD_CODE_VIRT_ADDR = 4096 * q" by (rule dvdE [of 4096 "unat THREAD_CODE_VIRT_ADDR"]) (simp_all add: THREAD_CODE_VIRT_ADDR_def)
  then show "VA_OFFSET_4K (THREAD_CODE_VIRT_ADDR + of_nat i) = of_nat i"
    using assms unfolding VA_OFFSET_4K_def m take_bit_eq_mask [symmetric] word_eq_by_unat unsigned_take_bit_eq u q
    by (simp add: take_bit_eq_mod unat_of_nat_u64)
  show "same_page DEFAULT_PAGE_SIZE THREAD_CODE_VIRT_ADDR (THREAD_CODE_VIRT_ADDR + of_nat i)"
  proof -
    have "unat (drop_bit 12 (take_bit 48 (THREAD_CODE_VIRT_ADDR + of_nat j))) = unat THREAD_CODE_VIRT_ADDR div 4096" if "j < 4096" for j :: nat
    proof -
      have "unat (THREAD_CODE_VIRT_ADDR + of_nat j) = 4096 * q + j" "4096 * q + j < 281474976710656"
        using that q by (simp_all add: THREAD_CODE_VIRT_ADDR_def unat_add_u64 unat_of_nat_u64)
      then show ?thesis using that unfolding unsigned_drop_bit_eq unsigned_take_bit_eq
        by (simp add: drop_bit_eq_div take_bit_eq_mod [where 'a = nat] q)
    qed
    from this [of 0] this [OF assms] show ?thesis unfolding same_page_iff(1) by (simp add: word_eq_by_unat)
  qed
qed

lemma fetch_code:
  assumes "has_pages k r SUBSPACE_CODE fs" "fs \<noteq> []" "unat (hd fs) < 2147483648" "4096 dvd unat (hd fs)" "i < 4096"
  shows "fetch k r (THREAD_CODE_VIRT_ADDR + of_nat i) = Some (kmem k (KERNEL_PHYS_TO_VIRT (hd fs) + of_nat i))"
proof -
  have "translate k r (THREAD_CODE_VIRT_ADDR + of_nat i) = Some (ppn_of (hd fs))"
    using assms(1,2) code_offset(2) [OF assms(5)] unfolding has_pages_def
    by (cases fs) (auto simp: SUB_SPACE_TO_ADDR_def)
  moreover have "shifted_ppn (ppn_of (hd fs)) = hd fs"
    unfolding shifted_ppn_low [OF assms(3)] by (rule page_mask [OF assms(4)])
  ultimately show ?thesis
    by (simp add: fetch_def code_offset(1) [OF assms(5)] KERNEL_PHYS_TO_VIRT_def ac_simps)
qed

section \<open>Becoming ready\<close>

text \<open>A new block that becomes ready and is added keeps its body; only its links are set.\<close>

lemma ready_thread_added:
  assumes inv: "sched_inv (sch s) xs" and t: "t \<noteq> 0" "tcbs (sch s) t = None" and b: "priority b \<noteq> UINT16_MAX"
  obtains c b' where "set_ready (s\<lparr>sch := (sch s)\<lparr>tcbs := (tcbs (sch s))(t \<mapsto> b)\<rparr>\<rparr>) t =
      Some (s\<lparr>sch := (sch s)\<lparr>tcbs := (tcbs (sch s))(t \<mapsto> b\<lparr>tstate := THREAD_READY\<rparr>)\<rparr>\<rparr>)"
    "scheduler_add_thread ((sch s)\<lparr>tcbs := (tcbs (sch s))(t \<mapsto> b\<lparr>tstate := THREAD_READY\<rparr>)\<rparr>) t = Some c"
    "sched_inv c (xs @ [t])" "running_tcb c = running_tcb (sch s)" "thread_count c = thread_count (sch s) + 1"
    "tcbs c t = Some b'" "tstate b' = THREAD_READY" "priority b' = priority b" "registers b' = registers b" "page_table b' = page_table b"
    "dummy_tcb c = dummy_tcb (sch s)" "cpu_cr3 c = cpu_cr3 (sch s)"
    "\<forall>x. x \<noteq> t \<longrightarrow> map_option strip (tcbs c x) = map_option strip (tcbs (sch s) x)"
proof -
  let ?s = "(sch s)\<lparr>tcbs := (tcbs (sch s))(t \<mapsto> b\<lparr>tstate := THREAD_READY\<rparr>)\<rparr>"
  have new: "sched_inv ?s xs" "t \<notin> set xs" by (rule store_new_inv [OF inv t(2)])+
  have at: "tcbs ?s t = Some (b\<lparr>tstate := THREAD_READY\<rparr>)" by simp
  obtain c where c: "scheduler_add_thread ?s t = Some c" "sched_inv c (xs @ [t])" "running_tcb c = running_tcb ?s"
    "thread_count c = thread_count ?s + 1"
    by (rule add_thread_inv [OF new(1) t(1) new(2) at]) (use b in auto)
  have q: "queue ?s xs" using new(1) by (simp add: sched_inv_def)
  obtain s1 where s1: "append_last ?s t = Some s1" "relinked ?s s1" by (rule append_last_queue [OF q t(1) new(2) at])
  have "c = s1\<lparr>thread_count := thread_count s1 + 1\<rparr>" using c(1) s1(1) by (simp add: scheduler_add_thread_append)
  then have strips: "map_option strip (tcbs c x) = map_option strip (tcbs ?s x)" for x using s1(2) by (simp add: relinked_def)
  have eq: "s1 = ?s\<lparr>tcbs := tcbs s1, top_tcb := top_tcb s1, last_tcb := last_tcb s1\<rparr>" using s1(2) unfolding relinked_def by blast
  have "cpu_cr3 s1 = cpu_cr3 ?s" "dummy_tcb s1 = dummy_tcb ?s" by (subst eq, simp)+
  then have same: "cpu_cr3 c = cpu_cr3 (sch s)" "dummy_tcb c = dummy_tcb (sch s)" using \<open>c = _\<close> by simp_all
  note strip = strips [of t]
  then obtain b' where b': "tcbs c t = Some b'" using at by (cases "tcbs c t") simp_all
  from same_body [of "tcbs c" t "tcbs ?s" b', OF strip b'] at
  have "tstate b' = THREAD_READY" "priority b' = priority b" "registers b' = registers b" "page_table b' = page_table b" by auto
  then show thesis by (intro that [OF _ c(1,2) _ _ b'])
      (use c(3,4) same strips in \<open>simp_all add: set_ready_def upd_tcb_def\<close>)
qed

section \<open>One more process\<close>

text \<open>What the creation of a process needs of heap and page tables, for any number of creations.\<close>

definition can_spawn :: "kstate \<Rightarrow> u64 \<Rightarrow> block list \<Rightarrow> nat \<Rightarrow> block list \<Rightarrow> bool" where
  "can_spawn k r us n vs \<longleftrightarrow> heap_inv k KERNEL_HEAP_ADDR (us @ (n, False) # vs) \<and> all_used us \<and> total us + n + total vs < 549755813888 \<and>
     pt_inv k r \<and> 0xFFFFFFFF00000000 \<le> r \<and> threads_empty k r"

text \<open>A program that lies in memory, outside the heap, the page tables and the free frames.\<close>

definition holds_program :: "kstate \<Rightarrow> u64 \<Rightarrow> u64 \<Rightarrow> u8 list \<Rightarrow> bool" where
  "holds_program k r loc prog \<longleftrightarrow> program_at k r loc (of_nat (length prog)) \<and> length prog \<le> 4096 \<and>
     (\<forall>i < length prog. kmem k (loc + of_nat i) = prog ! i)"

lemma holds_program_kept:
  assumes c: "created k r k' F" and h: "holds_program k r loc prog"
  shows "holds_program k' r loc prog"
proof -
  have len: "unat (of_nat (length prog) :: u64) = length prog" using h by (simp add: holds_program_def unat_of_nat_u64)
  note old = h [unfolded holds_program_def program_at_def len]
  have "kmem k' (loc + of_nat i) = prog ! i" "\<exists>P. off_heap P \<and> foreign k' r P \<and> within P 4096 (loc + of_nat i)" if i: "i < length prog" for i
  proof -
    obtain P where P: "off_heap P" "foreign k r P" "within P 4096 (loc + of_nat i)" using old i by blast
    then show "\<exists>P. off_heap P \<and> foreign k' r P \<and> within P 4096 (loc + of_nat i)" using creator_kept(5) [OF c] by blast
    show "kmem k' (loc + of_nat i) = prog ! i" using creator_kept(6) [OF c P] old i by simp
  qed
  then show ?thesis using old unfolding holds_program_def program_at_def len by blast
qed

text \<open>A process whose thread waits in the queue with its program in its own address space.\<close>

definition process_in :: "sys \<Rightarrow> u64 \<Rightarrow> u16 \<Rightarrow> u8 list \<Rightarrow> u64 list \<Rightarrow> u64 list \<Rightarrow> u64 list \<Rightarrow> bool" where
  "process_in s t prio prog cf mf sf \<longleftrightarrow> (\<exists>b. tcbs (sch s) t = Some b \<and> tstate b = THREAD_READY \<and> priority b = prio \<and>
     psp (registers b) = initial_regs False \<and> owns (ks s) (KERNEL_PHYS_TO_VIRT (cr3_of s)) (KERNEL_PHYS_TO_VIRT (page_table b)) cf mf sf \<and>
     cf \<noteq> [] \<and> length prog \<le> 4096 \<and> (\<forall>i < length prog. kmem (ks s) (KERNEL_PHYS_TO_VIRT (hd cf) + of_nat i) = prog ! i))"

lemma page_byte: "i < 4096 \<Longrightarrow> within P 4096 (P + of_nat i)"
  by (simp add: within_def less_by_unat unat_of_nat_u64)

lemma process_kept:
  assumes p: "process_in s t prio prog cf mf sf" and c: "created (ks s) (KERNEL_PHYS_TO_VIRT (cr3_of s)) (ks s') F"
    and cr: "cr3_of s' = cr3_of s" and body: "map_option strip (tcbs (sch s') t) = map_option strip (tcbs (sch s) t)"
  shows "process_in s' t prio prog cf mf sf"
proof -
  obtain b where b: "tcbs (sch s) t = Some b" "tstate b = THREAD_READY" "priority b = prio" "psp (registers b) = initial_regs False"
    "owns (ks s) (KERNEL_PHYS_TO_VIRT (cr3_of s)) (KERNEL_PHYS_TO_VIRT (page_table b)) cf mf sf" "cf \<noteq> []" "length prog \<le> 4096"
    "\<And>i. i < length prog \<Longrightarrow> kmem (ks s) (KERNEL_PHYS_TO_VIRT (hd cf) + of_nat i) = prog ! i"
    using p unfolding process_in_def by blast
  obtain b' where b': "tcbs (sch s') t = Some b'" using body b(1) by (cases "tcbs (sch s') t") simp_all
  from same_body [of "tcbs (sch s')" t "tcbs (sch s)" b', OF body b'] b(1)
  have same: "tstate b' = tstate b" "priority b' = priority b" "registers b' = registers b" "page_table b' = page_table b" by auto
  have "kmem (ks s') (KERNEL_PHYS_TO_VIRT (hd cf) + of_nat i) = prog ! i" if "i < length prog" for i
    using owns_kept(2) [OF b(5) c, of "hd cf"] page_byte [of i] b(6-8) that by simp
  then show ?thesis using b' same b(2-4,6,7) owns_kept(1) [OF b(5) c] unfolding process_in_def cr by auto
qed

lemma init_process_created:
  assumes prio: "prio \<noteq> UINT16_MAX" and ok: "can_spawn (ks s) (KERNEL_PHYS_TO_VIRT (cr3_of s)) us n vs" "416 < n"
    and a: "sizes_fit a" "1 + 4 * pages_wanted a \<le> frames_left (ks s)"
    and prog: "holds_program (ks s) (KERNEL_PHYS_TO_VIRT (cr3_of s)) loc prog"
  obtains f cf mf sf k' where "init_process s ppid False prio loc (of_nat (length prog)) a = Some (heap_place us 336,
      s\<lparr>ks := k', PID_GEN := PID_GEN s + 1, TID_GEN := TID_GEN s + 1,
        sch := (sch s)\<lparr>tcbs := (tcbs (sch s))(heap_place us 48 \<mapsto> all_grown (new_block (TID_GEN s) False prio f) a)\<rparr>,
        pcbs := (pcbs s)(heap_place us 336 \<mapsto> new_pcb ppid (PID_GEN s) prio (heap_place us 48))\<rparr>)"
    "created (ks s) (KERNEL_PHYS_TO_VIRT (cr3_of s)) k' (KERNEL_PHYS_TO_VIRT f)"
    "equipped (ks s) (KERNEL_PHYS_TO_VIRT (cr3_of s)) k' (KERNEL_PHYS_TO_VIRT f) a cf mf sf"
    "can_spawn k' (KERNEL_PHYS_TO_VIRT (cr3_of s)) (us @ [(48, True), (288, True), (48, True), (32, True)]) (n - 416) vs"
    "\<forall>i < length prog. kmem k' (KERNEL_PHYS_TO_VIRT (hd cf) + of_nat i) = prog ! i"
    "frames_left (ks s) \<le> frames_left k' + (1 + 4 * pages_wanted a)" "heap_place us 48 \<noteq> 0" "heap_place us 336 \<noteq> 0"
proof -
  let ?r = "KERNEL_PHYS_TO_VIRT (cr3_of s)"
  note c = ok(1) [unfolded can_spawn_def]
  have pre: "heap_inv (ks s) KERNEL_HEAP_ADDR (us @ (n, False) # vs)" "all_used us" "total us + n + total vs < 549755813888"
    "pt_inv (ks s) ?r" "0xFFFFFFFF00000000 \<le> ?r" "room_for (ks s) ?r a" "program_at (ks s) ?r loc (of_nat (length prog))"
    using c threads_empty_room [OF _ a(1)] prog by (simp_all add: holds_program_def)
  have len: "unat (of_nat (length prog) :: u64) = length prog" using prog by (simp add: holds_program_def unat_of_nat_u64)
  obtain f cf mf sf k' where i: "init_process s ppid False prio loc (of_nat (length prog)) a = Some (heap_place us 336,
      s\<lparr>ks := k', PID_GEN := PID_GEN s + 1, TID_GEN := TID_GEN s + 1,
        sch := (sch s)\<lparr>tcbs := (tcbs (sch s))(heap_place us 48 \<mapsto> all_grown (new_block (TID_GEN s) False prio f) a)\<rparr>,
        pcbs := (pcbs s)(heap_place us 336 \<mapsto> new_pcb ppid (PID_GEN s) prio (heap_place us 48))\<rparr>)"
    "equipped (ks s) ?r k' (KERNEL_PHYS_TO_VIRT f) a cf mf sf"
    "heap_inv k' KERNEL_HEAP_ADDR (us @ [(48, True), (288, True), (48, True), (32, True)] @ (n - 416, False) # vs)"
    "\<forall>i < unat (of_nat (length prog) :: u64). kmem k' (KERNEL_PHYS_TO_VIRT (hd cf) + of_nat i) = kmem (ks s) (loc + of_nat i)"
    "kept_pages any_path (ks s) ?r any_path k' (KERNEL_PHYS_TO_VIRT f)" "branches (ks s) ?r k' (KERNEL_PHYS_TO_VIRT f)"
    "frames_left (ks s) \<le> frames_left k' + (1 + 4 * pages_wanted a)" "18446744069414584320 \<le> unat (KERNEL_PHYS_TO_VIRT f)"
    by (rule init_process_run [OF prio pre(1,2) ok(2) pre(3-5) a pre(6,7), of ppid False])
  have made: "created (ks s) ?r k' (KERNEL_PHYS_TO_VIRT f)"
    using c i(2,5,6,8) by (simp add: created_def equipped_def le_by_unat)
  have "can_spawn k' ?r (us @ [(48, True), (288, True), (48, True), (32, True)]) (n - 416) vs"
    using c ok(2) i(3) creator_kept(1,2) [OF made] by (simp add: can_spawn_def)
  moreover have "\<forall>j < length prog. kmem k' (KERNEL_PHYS_TO_VIRT (hd cf) + of_nat j) = prog ! j"
    using i(4) [unfolded len] prog by (simp add: holds_program_def)
  moreover have "heap_place us 48 \<noteq> 0" "heap_place us 336 \<noteq> 0"
    using unat_heap_place [of "32 + total us + 48"] unat_heap_place [of "32 + total us + 336"] pre(3) ok(2)
    by (auto simp: heap_place_def word_eq_by_unat)
  ultimately show thesis using i(1,2,7) made by (intro that)
qed

text \<open>The new process and the state after the call; \<open>c\<close> is the scheduler.\<close>

lemma process_new:
  assumes made: "created (ks s) (KERNEL_PHYS_TO_VIRT (cr3_of s)) k' (KERNEL_PHYS_TO_VIRT f)"
    and eq: "equipped (ks s) (KERNEL_PHYS_TO_VIRT (cr3_of s)) k' (KERNEL_PHYS_TO_VIRT f) a cf mf sf" and a: "sizes_fit a"
    and code: "\<forall>i < length prog. kmem k' (KERNEL_PHYS_TO_VIRT (hd cf) + of_nat i) = prog ! i" "length prog \<le> 4096"
    and b: "tcbs c t = Some b" "tstate b = THREAD_READY" "priority b = prio" "psp (registers b) = initial_regs False" "page_table b = f"
    and s': "ks s' = k'" "sch s' = c" "cpu_cr3 c = cpu_cr3 (sch s)"
  shows "process_in s' t prio prog cf mf sf"
proof -
  have "cr3_of s' = cr3_of s" using s' by (simp add: cr3_of_def)
  then show ?thesis using b s' code owns_new [OF made eq a] equipped_hd(4) [OF eq a] by (auto simp: process_in_def)
qed

section \<open>The two calls\<close>

lemma create_process_ready:
  assumes "init_process s ppid priv prio code sz a = Some (p, s1)" "pcbs s1 p = Some (new_pcb ppid i prio t)" "p \<noteq> 0" "t \<noteq> 0"
    "set_ready s1 t = Some s2" "scheduler_add_thread (sch s2) t = Some c"
  shows "create_process s ppid priv prio code sz a = Some (p, s2\<lparr>sch := c\<rparr>)"
  using assms by (simp add: create_process_def new_pcb_def)

lemma create_process_step:
  assumes prio: "prio \<noteq> UINT16_MAX" and ok: "can_spawn (ks s) (KERNEL_PHYS_TO_VIRT (cr3_of s)) us n vs" "416 < n"
    and a: "sizes_fit a" "1 + 4 * pages_wanted a \<le> frames_left (ks s)"
    and prog: "holds_program (ks s) (KERNEL_PHYS_TO_VIRT (cr3_of s)) loc prog"
    and sched: "sched_inv (sch s) xs" "tcbs (sch s) (heap_place us 48) = None"
  obtains s' F cf mf sf where "create_process s ppid False prio loc (of_nat (length prog)) a = Some (heap_place us 336, s')"
    "created (ks s) (KERNEL_PHYS_TO_VIRT (cr3_of s)) (ks s') F" "equipped (ks s) (KERNEL_PHYS_TO_VIRT (cr3_of s)) (ks s') F a cf mf sf"
    "can_spawn (ks s') (KERNEL_PHYS_TO_VIRT (cr3_of s)) (us @ [(48, True), (288, True), (48, True), (32, True)]) (n - 416) vs"
    "frames_left (ks s) \<le> frames_left (ks s') + (1 + 4 * pages_wanted a)" "cr3_of s' = cr3_of s"
    "process_in s' (heap_place us 48) prio prog cf mf sf" "sched_inv (sch s') (xs @ [heap_place us 48])"
    "running_tcb (sch s') = running_tcb (sch s)" "dummy_tcb (sch s') = dummy_tcb (sch s)"
    "\<forall>x. x \<noteq> heap_place us 48 \<longrightarrow> map_option strip (tcbs (sch s') x) = map_option strip (tcbs (sch s) x)"
proof -
  let ?t = "heap_place us 48" and ?p = "heap_place us 336" and ?r = "KERNEL_PHYS_TO_VIRT (cr3_of s)"
  obtain f cf mf sf k' where i: "init_process s ppid False prio loc (of_nat (length prog)) a = Some (?p,
      s\<lparr>ks := k', PID_GEN := PID_GEN s + 1, TID_GEN := TID_GEN s + 1,
        sch := (sch s)\<lparr>tcbs := (tcbs (sch s))(?t \<mapsto> all_grown (new_block (TID_GEN s) False prio f) a)\<rparr>,
        pcbs := (pcbs s)(?p \<mapsto> new_pcb ppid (PID_GEN s) prio ?t)\<rparr>)"
    "created (ks s) ?r k' (KERNEL_PHYS_TO_VIRT f)" "equipped (ks s) ?r k' (KERNEL_PHYS_TO_VIRT f) a cf mf sf"
    "can_spawn k' ?r (us @ [(48, True), (288, True), (48, True), (32, True)]) (n - 416) vs"
    "\<forall>i < length prog. kmem k' (KERNEL_PHYS_TO_VIRT (hd cf) + of_nat i) = prog ! i"
    "frames_left (ks s) \<le> frames_left k' + (1 + 4 * pages_wanted a)" "?t \<noteq> 0" "?p \<noteq> 0"
    by (rule init_process_created [OF prio ok a prog, of ppid])
  let ?b = "all_grown (new_block (TID_GEN s) False prio f) a"
  let ?s0 = "s\<lparr>ks := k', PID_GEN := PID_GEN s + 1, TID_GEN := TID_GEN s + 1, pcbs := (pcbs s)(?p \<mapsto> new_pcb ppid (PID_GEN s) prio ?t)\<rparr>"
  let ?s1 = "?s0\<lparr>sch := (sch ?s0)\<lparr>tcbs := (tcbs (sch ?s0))(?t \<mapsto> ?b)\<rparr>\<rparr>"
  have pre: "sched_inv (sch ?s0) xs" "tcbs (sch ?s0) ?t = None" "priority ?b \<noteq> UINT16_MAX"
    using sched prio by (simp_all add: all_grown_def)
  obtain c b where r: "set_ready ?s1 ?t = Some (?s0\<lparr>sch := (sch ?s0)\<lparr>tcbs := (tcbs (sch ?s0))(?t \<mapsto> ?b\<lparr>tstate := THREAD_READY\<rparr>)\<rparr>\<rparr>)"
    "scheduler_add_thread ((sch ?s0)\<lparr>tcbs := (tcbs (sch ?s0))(?t \<mapsto> ?b\<lparr>tstate := THREAD_READY\<rparr>)\<rparr>) ?t = Some c"
    "sched_inv c (xs @ [?t])" "running_tcb c = running_tcb (sch ?s0)" "thread_count c = thread_count (sch ?s0) + 1"
    "tcbs c ?t = Some b" "tstate b = THREAD_READY" "priority b = priority ?b" "registers b = registers ?b" "page_table b = page_table ?b"
    "dummy_tcb c = dummy_tcb (sch ?s0)" "cpu_cr3 c = cpu_cr3 (sch ?s0)"
    "\<forall>x. x \<noteq> ?t \<longrightarrow> map_option strip (tcbs c x) = map_option strip (tcbs (sch ?s0) x)"
    by (rule ready_thread_added [OF pre(1) i(7) pre(2,3)])
  let ?s' = "?s0\<lparr>sch := c\<rparr>"
  have init: "init_process s ppid False prio loc (of_nat (length prog)) a = Some (?p, ?s1)" unfolding i(1) by simp
  have "create_process s ppid False prio loc (of_nat (length prog)) a =
      Some (?p, ?s0\<lparr>sch := (sch ?s0)\<lparr>tcbs := (tcbs (sch ?s0))(?t \<mapsto> ?b\<lparr>tstate := THREAD_READY\<rparr>)\<rparr>\<rparr>\<lparr>sch := c\<rparr>)"
    by (rule create_process_ready [OF init _ i(8,7) r(1)]) (use r(2) in simp_all)
  then have run: "create_process s ppid False prio loc (of_nat (length prog)) a = Some (?p, ?s')" by simp
  have "length prog \<le> 4096" using prog by (simp add: holds_program_def)
  note new = process_new [OF i(2,3) a(1) i(5) this r(6,7), of prio ?s']
  show thesis
    by (rule that [OF run, of "KERNEL_PHYS_TO_VIRT f" cf mf sf])
      (use i(2-4,6) r(3,4,8-13) new in \<open>simp_all add: cr3_of_def all_grown_def\<close>)
qed

lemma scheduler_init_block:
  assumes "tcbs s (dummy_tcb s) = Some d" "p \<noteq> dummy_tcb s" "tcbs s p = Some t" "scheduler_init s p = Some c"
  shows "tcbs c p = Some (t\<lparr>tnext := dummy_tcb s, tprev := 0, tstate := THREAD_READY\<rparr>)" "cpu_cr3 c = cpu_cr3 s"
    "x \<noteq> p \<Longrightarrow> tcbs c x = None \<longleftrightarrow> tcbs s x = None"
  using assms by (auto simp: scheduler_init_def upd_tcb_def split: if_splits)

lemma create_initial_step:
  assumes prio: "prio \<noteq> UINT16_MAX" and ok: "can_spawn (ks s) (KERNEL_PHYS_TO_VIRT (cr3_of s)) us n vs" "416 < n"
    and a: "sizes_fit a" "1 + 4 * pages_wanted a \<le> frames_left (ks s)"
    and prog: "holds_program (ks s) (KERNEL_PHYS_TO_VIRT (cr3_of s)) loc prog"
    and sched: "dummy_tcb (sch s) \<noteq> 0" "tcbs (sch s) (dummy_tcb (sch s)) = Some d" "tcbs (sch s) (heap_place us 48) = None"
  obtains s' F cf mf sf where "create_initial_process s ppid False prio loc (of_nat (length prog)) a = Some (heap_place us 336, s')"
    "created (ks s) (KERNEL_PHYS_TO_VIRT (cr3_of s)) (ks s') F" "equipped (ks s) (KERNEL_PHYS_TO_VIRT (cr3_of s)) (ks s') F a cf mf sf"
    "can_spawn (ks s') (KERNEL_PHYS_TO_VIRT (cr3_of s)) (us @ [(48, True), (288, True), (48, True), (32, True)]) (n - 416) vs"
    "frames_left (ks s) \<le> frames_left (ks s') + (1 + 4 * pages_wanted a)" "cr3_of s' = cr3_of s"
    "process_in s' (heap_place us 48) prio prog cf mf sf" "sched_inv (sch s') [heap_place us 48, dummy_tcb (sch s)]"
    "running_tcb (sch s') = dummy_tcb (sch s)" "dummy_tcb (sch s') = dummy_tcb (sch s)"
    "\<forall>x. x \<noteq> heap_place us 48 \<longrightarrow> (tcbs (sch s') x = None \<longleftrightarrow> tcbs (sch s) x = None)"
proof -
  let ?t = "heap_place us 48" and ?p = "heap_place us 336" and ?r = "KERNEL_PHYS_TO_VIRT (cr3_of s)"
  obtain f cf mf sf k' where i: "init_process s ppid False prio loc (of_nat (length prog)) a = Some (?p,
      s\<lparr>ks := k', PID_GEN := PID_GEN s + 1, TID_GEN := TID_GEN s + 1,
        sch := (sch s)\<lparr>tcbs := (tcbs (sch s))(?t \<mapsto> all_grown (new_block (TID_GEN s) False prio f) a)\<rparr>,
        pcbs := (pcbs s)(?p \<mapsto> new_pcb ppid (PID_GEN s) prio ?t)\<rparr>)"
    "created (ks s) ?r k' (KERNEL_PHYS_TO_VIRT f)" "equipped (ks s) ?r k' (KERNEL_PHYS_TO_VIRT f) a cf mf sf"
    "can_spawn k' ?r (us @ [(48, True), (288, True), (48, True), (32, True)]) (n - 416) vs"
    "\<forall>i < length prog. kmem k' (KERNEL_PHYS_TO_VIRT (hd cf) + of_nat i) = prog ! i"
    "frames_left (ks s) \<le> frames_left k' + (1 + 4 * pages_wanted a)" "?t \<noteq> 0" "?p \<noteq> 0"
    by (rule init_process_created [OF prio ok a prog, of ppid])
  let ?b = "all_grown (new_block (TID_GEN s) False prio f) a"
  let ?c0 = "(sch s)\<lparr>tcbs := (tcbs (sch s))(?t \<mapsto> ?b)\<rparr>"
  have ne: "?t \<noteq> dummy_tcb (sch s)" using sched(2,3) by auto
  have pre: "dummy_tcb ?c0 \<noteq> 0" "tcbs ?c0 (dummy_tcb ?c0) = Some d" "?t \<noteq> dummy_tcb ?c0" "tcbs ?c0 ?t = Some ?b"
    "priority ?b \<noteq> UINT16_MAX" "active_priority ?b \<noteq> UINT16_MAX"
    using sched ne prio by (simp_all add: all_grown_def)
  obtain c where c: "scheduler_init ?c0 ?t = Some c" "sched_inv c [?t, dummy_tcb c]" "running_tcb c = dummy_tcb c"
    "dummy_tcb c = dummy_tcb ?c0" "thread_count c = thread_count ?c0 + 1"
    by (rule scheduler_init_inv [OF pre(1,2) i(7) pre(3-6)])
  note block = scheduler_init_block [OF pre(2-4) c(1)]
  let ?s0 = "s\<lparr>ks := k', PID_GEN := PID_GEN s + 1, TID_GEN := TID_GEN s + 1, pcbs := (pcbs s)(?p \<mapsto> new_pcb ppid (PID_GEN s) prio ?t)\<rparr>"
  let ?s' = "?s0\<lparr>sch := c\<rparr>"
  have ready: "set_ready ?s' ?t = Some ?s'"
    using block(1) by (simp add: set_ready_def upd_tcb_def fun_upd_idem)
  have run: "create_initial_process s ppid False prio loc (of_nat (length prog)) a = Some (?p, ?s')"
  proof -
    have init: "init_process s ppid False prio loc (of_nat (length prog)) a = Some (?p, ?s0\<lparr>sch := ?c0\<rparr>)" unfolding i(1) by simp
    have "pcbs (?s0\<lparr>sch := ?c0\<rparr>) ?p = Some (new_pcb ppid (PID_GEN s) prio ?t)" "td_tcb (process_threads (new_pcb ppid (PID_GEN s) prio ?t)) = ?t"
      by (simp_all add: new_pcb_def)
    then show ?thesis unfolding create_initial_process_def init Let_def Option.bind.bind_lunit split_conv
      using i(7,8) c(1) ready by simp
  qed
  have "length prog \<le> 4096" using prog by (simp add: holds_program_def)
  note new = process_new [OF i(2,3) a(1) i(5) this block(1), of prio ?s']
  show thesis
    by (rule that [OF run, of "KERNEL_PHYS_TO_VIRT f" cf mf sf])
      (use i(2-4,6) c(2-4) block(2,3) new in \<open>simp_all add: cr3_of_def all_grown_def\<close>)
qed

end
