(* ===== verification/Process_Props.thy ===== *)
theory Process_Props
  imports Process_Run Kmain
begin

text \<open>
  Claims on the creation of a process: the memory of its first thread, and its place in the run queue.
\<close>

text \<open>The page below the stack belongs to no subspace.\<close>

lemma below_stack:
  assumes "n \<le> 510"
  shows "\<not> in_pages sub n (THREAD_STACK_VIRT_ADDR - 8)"
proof
  assume "in_pages sub n (THREAD_STACK_VIRT_ADDR - 8)"
  then obtain i where i: "i < n" "same_page DEFAULT_PAGE_SIZE (SUB_SPACE_TO_ADDR sub + of_nat (4096 * i)) (THREAD_STACK_VIRT_ADDR - 8)"
    by (auto simp: in_pages_def)
  have "same_page DEFAULT_PAGE_SIZE (THREAD_STACK_VIRT_ADDR - 4096 + of_nat (4096 * 0)) (THREAD_STACK_VIRT_ADDR - 8)"
    unfolding same_page_iff(1) by (simp add: THREAD_STACK_VIRT_ADDR_def)
  from page_distance [OF i(2) this] i(1) assms show False
    by (cases sub) (auto simp: SUB_SPACE_TO_ADDR_def THREAD_CODE_VIRT_ADDR_def THREAD_MAPPINGS_VIRT_ADDR_def THREAD_STACK_VIRT_ADDR_def)
qed

text \<open>The demo system creates a process of sixteen bytes at \<open>0x500000\<close>, with the memory that \<^const>\<open>kmain\<close> asks for.\<close>

lemma demo_process:
  assumes "ks s = ks demo_sys" "cr3_of s = cr3_of demo_sys"
  shows "heap_inv (ks s) KERNEL_HEAP_ADDR ([] @ (0x1FF0, False) # [])" "pt_inv (ks s) (KERNEL_PHYS_TO_VIRT (cr3_of s))"
    "0xFFFFFFFF00000000 \<le> KERNEL_PHYS_TO_VIRT (cr3_of s)" "sizes_fit thread_allocation"
    "1 + 4 * pages_wanted thread_allocation \<le> frames_left (ks s)"
    "room_for (ks s) (KERNEL_PHYS_TO_VIRT (cr3_of s)) thread_allocation"
    "program_at (ks s) (KERNEL_PHYS_TO_VIRT (cr3_of s)) 0x500000 16"
proof -
  have root: "KERNEL_PHYS_TO_VIRT (cr3_of s) = blank_root" using assms(2) demo_sys_root by simp
  show "heap_inv (ks s) KERNEL_HEAP_ADDR ([] @ (0x1FF0, False) # [])" using demo_heap_inv assms(1) by (simp add: demo_sys_def)
  show inv: "pt_inv (ks s) (KERNEL_PHYS_TO_VIRT (cr3_of s))"
    unfolding root assms(1)
    by (rule same_tree_inv [OF blank_inv demo_sys_same]) (simp_all add: demo_sys_map example_maps_wf, simp add: blank_def)
  show r: "0xFFFFFFFF00000000 \<le> KERNEL_PHYS_TO_VIRT (cr3_of s)"
    unfolding root by (simp add: blank_root_def KERNEL_PHYS_TO_VIRT_def KERNEL_VMA_def)
  show "sizes_fit thread_allocation" by (simp add: sizes_fit_def thread_allocation_def)
  have "frames_left (ks s) = 64" using blank_frames by (simp add: frames_left_def assms(1) demo_sys_map) (simp add: blank_def)
  then show "1 + 4 * pages_wanted thread_allocation \<le> frames_left (ks s)" by (simp add: pages_wanted_def thread_allocation_def)
  show "room_for (ks s) (KERNEL_PHYS_TO_VIRT (cr3_of s)) thread_allocation"
    unfolding root assms(1) room_for_def using same_tree_open [OF demo_sys_same blank_open] by blast
  have "foreign (ks s) (KERNEL_PHYS_TO_VIRT (cr3_of s)) 0x500000"
    by (rule low_page_foreign [OF inv]) (use r in \<open>simp_all add: le_by_unat\<close>)
  moreover have "within 0x500000 4096 (0x500000 + of_nat i)" if "i < 16" for i
    using that by (simp add: within_def less_by_unat unat_of_nat_u64)
  ultimately show "program_at (ks s) (KERNEL_PHYS_TO_VIRT (cr3_of s)) 0x500000 16"
    by (auto simp: program_at_def off_heap_def intro!: exI [of _ "0x500000"])
qed

text \<open>C9. A process that is made with room in the heap for its four objects, four free frames for every page and one for the
  root table: its first thread gets an address space of its own, in which the pages of the three subspaces are mapped to pairwise
  different frames and every other address translates as it does for the creator.  Heap and page tables stay well-formed, the
  process has the next number, and its only thread the next thread number and the entry registers of its privilege level.\<close>

theorem new_process_memory:
  assumes prio: "prio \<noteq> UINT16_MAX"
    and heap: "heap_inv (ks s) KERNEL_HEAP_ADDR (us @ (n, False) # vs)" "all_used us" "416 < n" "total us + n + total vs < 549755813888"
    and inv: "pt_inv (ks s) (KERNEL_PHYS_TO_VIRT (cr3_of s))" and root: "0xFFFFFFFF00000000 \<le> KERNEL_PHYS_TO_VIRT (cr3_of s)"
    and a: "sizes_fit a" "1 + 4 * pages_wanted a \<le> frames_left (ks s)" and room: "room_for (ks s) (KERNEL_PHYS_TO_VIRT (cr3_of s)) a"
    and prog: "program_at (ks s) (KERNEL_PHYS_TO_VIRT (cr3_of s)) code sz"
  shows "\<exists>p t b r cf mf sf s'. init_process s ppid priv prio code sz a = Some (p, s') \<and>
     pcbs s' = (pcbs s)(p \<mapsto> new_pcb ppid (PID_GEN s) prio t) \<and> PID_GEN s' = PID_GEN s + 1 \<and>
     tcbs (sch s') = (tcbs (sch s))(t \<mapsto> b) \<and> tid b = TID_GEN s \<and> psp (registers b) = initial_regs priv \<and>
     r = KERNEL_PHYS_TO_VIRT (page_table b) \<and>
     heap_inv (ks s') KERNEL_HEAP_ADDR (us @ [(48, True), (288, True), (48, True), (32, True)] @ (n - 416, False) # vs) \<and>
     pt_inv (ks s') r \<and>
     length cf = unat (code_pages a) \<and> length mf = unat (mapping_pages a) \<and> length sf = unat (stack_pages a) \<and>
     distinct (cf @ mf @ sf) \<and> has_pages (ks s') r SUBSPACE_CODE cf \<and> has_pages (ks s') r SUBSPACE_MAPPING mf \<and>
     has_pages (ks s') r SUBSPACE_STACK sf \<and>
     (\<forall>va. \<not> in_pages SUBSPACE_CODE (length cf) va \<and> \<not> in_pages SUBSPACE_MAPPING (length mf) va \<and> \<not> in_pages SUBSPACE_STACK (length sf) va \<longrightarrow>
        translate (ks s') r va = translate (ks s) (KERNEL_PHYS_TO_VIRT (cr3_of s)) va)"
proof -
  obtain f cf mf sf k' where c: "init_process s ppid priv prio code sz a = Some (heap_place us 336,
      s\<lparr>ks := k', PID_GEN := PID_GEN s + 1, TID_GEN := TID_GEN s + 1,
        sch := (sch s)\<lparr>tcbs := (tcbs (sch s))(heap_place us 48 \<mapsto> all_grown (new_block (TID_GEN s) priv prio f) a)\<rparr>,
        pcbs := (pcbs s)(heap_place us 336 \<mapsto> new_pcb ppid (PID_GEN s) prio (heap_place us 48))\<rparr>)"
    "equipped (ks s) (KERNEL_PHYS_TO_VIRT (cr3_of s)) k' (KERNEL_PHYS_TO_VIRT f) a cf mf sf"
    "heap_inv k' KERNEL_HEAP_ADDR (us @ [(48, True), (288, True), (48, True), (32, True)] @ (n - 416, False) # vs)"
    by (rule init_process_run [OF assms, of ppid priv])
  let ?s' = "s\<lparr>ks := k', PID_GEN := PID_GEN s + 1, TID_GEN := TID_GEN s + 1,
        sch := (sch s)\<lparr>tcbs := (tcbs (sch s))(heap_place us 48 \<mapsto> all_grown (new_block (TID_GEN s) priv prio f) a)\<rparr>,
        pcbs := (pcbs s)(heap_place us 336 \<mapsto> new_pcb ppid (PID_GEN s) prio (heap_place us 48))\<rparr>"
  show ?thesis
    using c(2,3) unfolding equipped_def by (intro exI [of _ "heap_place us 336"] exI [of _ "heap_place us 48"] exI [of _ "all_grown (new_block (TID_GEN s) priv prio f) a"]
      exI [of _ "KERNEL_PHYS_TO_VIRT f"] exI [of _ cf] exI [of _ mf] exI [of _ sf] exI [of _ ?s'] conjI c(1)) (simp_all add: all_grown_def)
qed

theorem new_process_memory_witness:
  "\<exists>p t b cf sf s'. init_process demo_sys 7 False 10 0x500000 16 thread_allocation = Some (p, s') \<and>
     pcbs s' p = Some (new_pcb 7 1 10 t) \<and> tcbs (sch s') t = Some b \<and> length cf = 2 \<and> length sf = 4 \<and> distinct (cf @ sf) \<and>
     has_pages (ks s') (KERNEL_PHYS_TO_VIRT (page_table b)) SUBSPACE_CODE cf \<and>
     has_pages (ks s') (KERNEL_PHYS_TO_VIRT (page_table b)) SUBSPACE_STACK sf"
proof -
  note pre = demo_process [OF refl refl]
  have n: "10 \<noteq> UINT16_MAX" "all_used []" "416 < (0x1FF0 :: nat)" "total [] + 0x1FF0 + total [] < 549755813888"
    by (simp_all add: UINT16_MAX_def)
  have gen: "PID_GEN demo_sys = 1" "code_pages thread_allocation = 2" "stack_pages thread_allocation = 4"
    by (simp_all add: demo_sys_def thread_allocation_def)
  obtain p t b r cf mf sf s' where c: "init_process demo_sys 7 False 10 0x500000 16 thread_allocation = Some (p, s')"
    "pcbs s' = (pcbs demo_sys)(p \<mapsto> new_pcb 7 (PID_GEN demo_sys) 10 t)" "tcbs (sch s') = (tcbs (sch demo_sys))(t \<mapsto> b)"
    "r = KERNEL_PHYS_TO_VIRT (page_table b)" "length cf = unat (code_pages thread_allocation)"
    "length sf = unat (stack_pages thread_allocation)" "distinct (cf @ mf @ sf)" "has_pages (ks s') r SUBSPACE_CODE cf"
    "has_pages (ks s') r SUBSPACE_STACK sf"
    using new_process_memory [OF n(1) pre(1) n(2-4) pre(2-7), of 7 False] by blast
  then show ?thesis using gen
    by (intro exI [of _ p] exI [of _ t] exI [of _ b] exI [of _ cf] exI [of _ sf] exI [of _ s']) auto
qed

text \<open>C8. A process that is created is ready to run its program: its thread is at the end of the run queue, ready and with the
  given priority, the queue stays well-formed, the running thread is not changed, and the instruction pointer of the thread names, in its
  own address space, the first of the bytes that lay at the given place, for every byte of a program of at most one page.  The
  word below its stack pointer belongs to no page of its stack: it translates as it does for the creator.\<close>

theorem new_process_runs_its_program:
  assumes prio: "prio \<noteq> UINT16_MAX"
    and heap: "heap_inv (ks s) KERNEL_HEAP_ADDR (us @ (n, False) # vs)" "all_used us" "416 < n" "total us + n + total vs < 549755813888"
    and inv: "pt_inv (ks s) (KERNEL_PHYS_TO_VIRT (cr3_of s))" and root: "0xFFFFFFFF00000000 \<le> KERNEL_PHYS_TO_VIRT (cr3_of s)"
    and a: "sizes_fit a" "1 + 4 * pages_wanted a \<le> frames_left (ks s)" and room: "room_for (ks s) (KERNEL_PHYS_TO_VIRT (cr3_of s)) a"
    and prog: "program_at (ks s) (KERNEL_PHYS_TO_VIRT (cr3_of s)) code sz"
    and sched: "sched_inv (sch s) xs" "tcbs (sch s) (heap_place us 48) = None"
  shows "\<exists>p t b s'. create_process s ppid priv prio code sz a = Some (p, s') \<and> p \<noteq> 0 \<and> pcbs s' p = Some (new_pcb ppid (PID_GEN s) prio t) \<and>
     sched_inv (sch s') (xs @ [t]) \<and> running_tcb (sch s') = running_tcb (sch s) \<and>
     thread_count (sch s') = thread_count (sch s) + 1 \<and>
     tcbs (sch s') t = Some b \<and> tstate b = THREAD_READY \<and> priority b = prio \<and>
     (\<forall>i < unat sz. fetch (ks s') (KERNEL_PHYS_TO_VIRT (page_table b)) (rip (psp (registers b)) + of_nat i) = Some (kmem (ks s) (code + of_nat i))) \<and>
     translate (ks s') (KERNEL_PHYS_TO_VIRT (page_table b)) (rsp (psp (registers b)) - 8) =
       translate (ks s) (KERNEL_PHYS_TO_VIRT (cr3_of s)) (THREAD_STACK_VIRT_ADDR - 8)"
proof -
  let ?t = "heap_place us 48" and ?p = "heap_place us 336"
  obtain f cf mf sf k' where c: "init_process s ppid priv prio code sz a = Some (heap_place us 336,
      s\<lparr>ks := k', PID_GEN := PID_GEN s + 1, TID_GEN := TID_GEN s + 1,
        sch := (sch s)\<lparr>tcbs := (tcbs (sch s))(heap_place us 48 \<mapsto> all_grown (new_block (TID_GEN s) priv prio f) a)\<rparr>,
        pcbs := (pcbs s)(heap_place us 336 \<mapsto> new_pcb ppid (PID_GEN s) prio (heap_place us 48))\<rparr>)"
    "equipped (ks s) (KERNEL_PHYS_TO_VIRT (cr3_of s)) k' (KERNEL_PHYS_TO_VIRT f) a cf mf sf"
    "heap_inv k' KERNEL_HEAP_ADDR (us @ [(48, True), (288, True), (48, True), (32, True)] @ (n - 416, False) # vs)"
    "\<forall>i < unat sz. kmem k' (KERNEL_PHYS_TO_VIRT (hd cf) + of_nat i) = kmem (ks s) (code + of_nat i)"
    by (rule init_process_run [OF assms(1-11), of ppid priv])
  let ?b = "all_grown (new_block (TID_GEN s) priv prio f) a"
  let ?s0 = "s\<lparr>ks := k', PID_GEN := PID_GEN s + 1, TID_GEN := TID_GEN s + 1, pcbs := (pcbs s)(?p \<mapsto> new_pcb ppid (PID_GEN s) prio ?t)\<rparr>"
  let ?s1 = "?s0\<lparr>sch := (sch ?s0)\<lparr>tcbs := (tcbs (sch ?s0))(?t \<mapsto> ?b)\<rparr>\<rparr>"
  have far: "?t \<noteq> 0" "?p \<noteq> 0"
    using unat_heap_place [of "32 + total us + 48"] unat_heap_place [of "32 + total us + 336"] heap(3,4)
    by (auto simp: heap_place_def word_eq_by_unat)
  have pre: "sched_inv (sch ?s0) xs" "tcbs (sch ?s0) ?t = None" "priority ?b \<noteq> UINT16_MAX"
    using sched prio by (simp_all add: all_grown_def)
  obtain c' b' where r: "set_ready ?s1 ?t = Some (?s0\<lparr>sch := (sch ?s0)\<lparr>tcbs := (tcbs (sch ?s0))(?t \<mapsto> ?b\<lparr>tstate := THREAD_READY\<rparr>)\<rparr>\<rparr>)"
    "scheduler_add_thread ((sch ?s0)\<lparr>tcbs := (tcbs (sch ?s0))(?t \<mapsto> ?b\<lparr>tstate := THREAD_READY\<rparr>)\<rparr>) ?t = Some c'"
    "sched_inv c' (xs @ [?t])" "running_tcb c' = running_tcb (sch ?s0)" "thread_count c' = thread_count (sch ?s0) + 1"
    "tcbs c' ?t = Some b'" "tstate b' = THREAD_READY" "priority b' = priority ?b" "registers b' = registers ?b" "page_table b' = page_table ?b"
    by (rule ready_thread_added [OF pre(1) far(1) pre(2,3)])
  have init: "init_process s ppid priv prio code sz a = Some (?p, ?s1)" unfolding c(1) by simp
  have "create_process s ppid priv prio code sz a =
      Some (?p, ?s0\<lparr>sch := (sch ?s0)\<lparr>tcbs := (tcbs (sch ?s0))(?t \<mapsto> ?b\<lparr>tstate := THREAD_READY\<rparr>)\<rparr>\<rparr>\<lparr>sch := c'\<rparr>)"
    by (rule create_process_ready [OF init _ far(2,1) r(1)]) (use r(2) in simp_all)
  then have run: "create_process s ppid priv prio code sz a = Some (?p, ?s0\<lparr>sch := c'\<rparr>)" by simp
  note eq = c(2) [unfolded equipped_def] and hd = equipped_hd [OF c(2) a(1)]
  have fits: "length cf \<le> 510" "length mf \<le> 510" "length sf \<le> 510" "unat sz \<le> 4096" "has_pages k' (KERNEL_PHYS_TO_VIRT f) SUBSPACE_CODE cf"
    using a(1) eq prog by (auto simp: sizes_fit_def program_at_def)
  have prog': "fetch k' (KERNEL_PHYS_TO_VIRT f) (THREAD_CODE_VIRT_ADDR + of_nat i) = Some (kmem (ks s) (code + of_nat i))" if "i < unat sz" for i
    using fetch_code [OF fits(5) hd(4) equippedD(2,1) [OF c(2) hd(1)]] that fits(4) c(4) by simp
  have stack: "translate k' (KERNEL_PHYS_TO_VIRT f) (THREAD_STACK_VIRT_ADDR - 8) =
      translate (ks s) (KERNEL_PHYS_TO_VIRT (cr3_of s)) (THREAD_STACK_VIRT_ADDR - 8)"
    using eq below_stack fits by blast
  show ?thesis
    by (intro exI [of _ ?p] exI [of _ ?t] exI [of _ b'] exI [of _ "?s0\<lparr>sch := c'\<rparr>"] conjI run)
      (use r(3-10) far prog' stack in \<open>simp_all add: all_grown_def initial_regs_def\<close>)
qed

theorem new_process_runs_its_program_witness:
  "\<exists>s p t b s'. scheduler_init small_sched 64 = Some s \<and>
     create_process (demo_sys\<lparr>sch := s\<lparr>cpu_cr3 := 0x1000\<rparr>\<rparr>) 7 False 10 0x500000 16 thread_allocation = Some (p, s') \<and>
     sched_inv (sch s') [64, 32, t] \<and> tcbs (sch s') t = Some b \<and> tstate b = THREAD_READY \<and>
     fetch (ks s') (KERNEL_PHYS_TO_VIRT (page_table b)) (rip (psp (registers b))) = Some (kmem (ks demo_sys) 0x500000)"
proof -
  obtain s where s: "scheduler_init small_sched 64 = Some s" "sched_inv s [64, 32]" by (rule small_init)
  let ?s = "demo_sys\<lparr>sch := s\<lparr>cpu_cr3 := 0x1000\<rparr>\<rparr>"
  have same: "ks ?s = ks demo_sys" "cr3_of ?s = cr3_of demo_sys" by (simp_all add: cr3_of_def demo_sys_def)
  note pre = demo_process [OF same]
  have n: "10 \<noteq> UINT16_MAX" "all_used []" "416 < (0x1FF0 :: nat)" "total [] + 0x1FF0 + total [] < 549755813888"
    by (simp_all add: UINT16_MAX_def)
  have sched: "sched_inv (sch ?s) [64, 32]" using s(2) by (simp add: sched_inv_def queue_def thread_ok_def)
  have "dom (tcbs s) = {32, 64}" using scheduler_init_dom [OF s(1)] by (auto simp: small_sched_def)
  moreover have "heap_place [] 48 \<notin> {32, 64}" by (simp add: heap_place_def place_of_def KERNEL_HEAP_ADDR_def)
  ultimately have none: "tcbs (sch ?s) (heap_place [] 48) = None" by (simp add: domIff) blast
  obtain p t b s' where c: "create_process ?s 7 False 10 0x500000 16 thread_allocation = Some (p, s')"
    "sched_inv (sch s') ([64, 32] @ [t])" "tcbs (sch s') t = Some b" "tstate b = THREAD_READY"
    "\<forall>i < unat (16 :: u64). fetch (ks s') (KERNEL_PHYS_TO_VIRT (page_table b)) (rip (psp (registers b)) + of_nat i) =
        Some (kmem (ks ?s) (0x500000 + of_nat i))"
    using new_process_runs_its_program [OF n(1) pre(1) n(2-4) pre(2-7) sched none, of 7 False] by blast
  from c(5) have "fetch (ks s') (KERNEL_PHYS_TO_VIRT (page_table b)) (rip (psp (registers b)) + of_nat 0) =
        Some (kmem (ks ?s) (0x500000 + of_nat 0))" by (rule allE [of _ 0]) simp
  then show ?thesis using s(1) c(1-4)
    by (intro exI [of _ s] exI [of _ p] exI [of _ t] exI [of _ b] exI [of _ s']) simp
qed

end
