(* ===== verification/First_Processes.thy ===== *)
theory First_Processes
  imports Process_Run Kmain
begin

text \<open>
  The three processes that \<^const>\<open>kmain\<close> creates before it starts the timer: all three wait in the queue, each with its own
  program in its own address space and with frames that no other uses.
\<close>

section \<open>What is seen of a process\<close>

text \<open>The thread is ready, and reading memory from its instruction pointer on gives the program.\<close>

definition runs_program :: "sys \<Rightarrow> u64 \<Rightarrow> u16 \<Rightarrow> u8 list \<Rightarrow> bool" where
  "runs_program s t prio prog \<longleftrightarrow> (\<exists>b. tcbs (sch s) t = Some b \<and> tstate b = THREAD_READY \<and> priority b = prio \<and>
     (\<forall>i < length prog. fetch (ks s) (KERNEL_PHYS_TO_VIRT (page_table b)) (rip (psp (registers b)) + of_nat i) = Some (prog ! i)))"

text \<open>The frames behind the pages of its three subspaces.\<close>

definition uses_frames :: "sys \<Rightarrow> u64 \<Rightarrow> u64 list \<Rightarrow> u64 list \<Rightarrow> u64 list \<Rightarrow> bool" where
  "uses_frames s t cf mf sf \<longleftrightarrow> (\<exists>b. tcbs (sch s) t = Some b \<and>
     has_pages (ks s) (KERNEL_PHYS_TO_VIRT (page_table b)) SUBSPACE_CODE cf \<and>
     has_pages (ks s) (KERNEL_PHYS_TO_VIRT (page_table b)) SUBSPACE_MAPPING mf \<and>
     has_pages (ks s) (KERNEL_PHYS_TO_VIRT (page_table b)) SUBSPACE_STACK sf)"

lemma process_in_seen:
  assumes "process_in s t prio prog cf mf sf"
  shows "runs_program s t prio prog" "uses_frames s t cf mf sf" "distinct (cf @ mf @ sf)"
proof -
  obtain b where b: "tcbs (sch s) t = Some b" "tstate b = THREAD_READY" "priority b = prio" "psp (registers b) = initial_regs False"
    "owns (ks s) (KERNEL_PHYS_TO_VIRT (cr3_of s)) (KERNEL_PHYS_TO_VIRT (page_table b)) cf mf sf" "cf \<noteq> []" "length prog \<le> 4096"
    "\<forall>i < length prog. kmem (ks s) (KERNEL_PHYS_TO_VIRT (hd cf) + of_nat i) = prog ! i"
    using assms unfolding process_in_def by blast
  note own = b(5) [unfolded owns_def]
  have hd: "unat (hd cf) < 2147483648" "4096 dvd unat (hd cf)" using own b(6) by (cases cf; auto)+
  have code: "has_pages (ks s) (KERNEL_PHYS_TO_VIRT (page_table b)) SUBSPACE_CODE cf" using own by blast
  have "fetch (ks s) (KERNEL_PHYS_TO_VIRT (page_table b)) (THREAD_CODE_VIRT_ADDR + of_nat i) = Some (prog ! i)" if "i < length prog" for i
    using fetch_code [OF code b(6) hd, of i] b(7,8) that by simp
  then show "runs_program s t prio prog" using b(1-4) by (auto simp: runs_program_def initial_regs_def)
  show "uses_frames s t cf mf sf" "distinct (cf @ mf @ sf)" using b(1) own by (auto simp: uses_frames_def)
qed

lemma process_in_disjoint:
  assumes "process_in s t prio prog cf mf sf" "equipped (ks s) (KERNEL_PHYS_TO_VIRT (cr3_of s)) k' F a cf' mf' sf'"
  shows "set (cf @ mf @ sf) \<inter> set (cf' @ mf' @ sf') = {}"
  using assms owns_disjoint unfolding process_in_def by blast

section \<open>The three of them\<close>

lemma distinct_three:
  "distinct xs \<Longrightarrow> distinct ys \<Longrightarrow> distinct zs \<Longrightarrow> set xs \<inter> set ys = {} \<Longrightarrow> set xs \<inter> set zs = {} \<Longrightarrow> set ys \<inter> set zs = {} \<Longrightarrow>
     distinct (xs @ ys @ zs)"
  by auto

lemma heap_place_next: "heap_place (us @ [(48, True), (288, True), (48, True), (32, True)]) n = heap_place us (416 + n)"
  by (simp add: heap_place_def add.assoc)

lemma thread_sizes: "sizes_fit thread_allocation" "1 + 4 * pages_wanted thread_allocation = 33"
  by (simp_all add: sizes_fit_def pages_wanted_def thread_allocation_def)

text \<open>C36. The processes that the kernel starts with, given a heap block of more than 1248 bytes, 99 free frames, a root
  table with no table under the entries of threads, the three programs in memory and a placeholder thread: all three calls succeed,
  the run queue is well-formed and holds the first thread, the placeholder, which runs, and the other two; each of the three
  threads is ready with its priority, and what lies at its instruction pointer, in its own address space and after all three calls, is
  its program.  The frames behind their pages are pairwise different, and the address space of the kernel is unchanged.\<close>

theorem first_processes_run:
  assumes ok: "can_spawn (ks s) (KERNEL_PHYS_TO_VIRT (cr3_of s)) us n vs" "1248 < n" "99 \<le> frames_left (ks s)"
    and progs: "holds_program (ks s) (KERNEL_PHYS_TO_VIRT (cr3_of s)) (st_fill_vga st) fill_vga"
      "holds_program (ks s) (KERNEL_PHYS_TO_VIRT (cr3_of s)) (st_clear_vga st) clear_vga"
      "holds_program (ks s) (KERNEL_PHYS_TO_VIRT (cr3_of s)) (st_color_vga st) color_vga"
    and sched: "dummy_tcb (sch s) \<noteq> 0" "tcbs (sch s) (dummy_tcb (sch s)) = Some d"
      "\<forall>x \<in> {heap_place us 48, heap_place us 464, heap_place us 880}. tcbs (sch s) x = None"
  shows "\<exists>s' t1 t2 t3 c1 m1 s1 c2 m2 s2 c3 m3 s3. first_processes st s = Some s' \<and>
     sched_inv (sch s') [t1, dummy_tcb (sch s), t2, t3] \<and> running_tcb (sch s') = dummy_tcb (sch s) \<and>
     runs_program s' t1 10 fill_vga \<and> runs_program s' t2 15 clear_vga \<and> runs_program s' t3 10 color_vga \<and>
     uses_frames s' t1 c1 m1 s1 \<and> uses_frames s' t2 c2 m2 s2 \<and> uses_frames s' t3 c3 m3 s3 \<and>
     distinct ((c1 @ m1 @ s1) @ (c2 @ m2 @ s2) @ (c3 @ m3 @ s3)) \<and>
     translate (ks s') (KERNEL_PHYS_TO_VIRT (cr3_of s)) = translate (ks s) (KERNEL_PHYS_TO_VIRT (cr3_of s))"
proof -
  let ?r = "KERNEL_PHYS_TO_VIRT (cr3_of s)" and ?new = "[(48, True), (288, True), (48, True), (32, True)] :: block list"
  let ?t1 = "heap_place us 48" and ?t2 = "heap_place us 464" and ?t3 = "heap_place us 880"
  have prio: "10 \<noteq> UINT16_MAX" "15 \<noteq> UINT16_MAX" by (simp_all add: UINT16_MAX_def)
  have none: "tcbs (sch s) ?t1 = None" using sched(3) by simp
  have n1: "416 < n" "1 + 4 * pages_wanted thread_allocation \<le> frames_left (ks s)" using ok(2,3) thread_sizes(2) by simp_all
  obtain sA F1 c1 m1 s1 where A: "create_initial_process s 0 False 10 (st_fill_vga st) (of_nat (length fill_vga)) thread_allocation = Some (heap_place us 336, sA)"
    "created (ks s) ?r (ks sA) F1" "equipped (ks s) ?r (ks sA) F1 thread_allocation c1 m1 s1"
    "can_spawn (ks sA) ?r (us @ ?new) (n - 416) vs"
    "frames_left (ks s) \<le> frames_left (ks sA) + (1 + 4 * pages_wanted thread_allocation)" "cr3_of sA = cr3_of s"
    "process_in sA ?t1 10 fill_vga c1 m1 s1" "sched_inv (sch sA) [?t1, dummy_tcb (sch s)]"
    "running_tcb (sch sA) = dummy_tcb (sch s)" "dummy_tcb (sch sA) = dummy_tcb (sch s)"
    "\<forall>x. x \<noteq> ?t1 \<longrightarrow> (tcbs (sch sA) x = None \<longleftrightarrow> tcbs (sch s) x = None)"
    by (rule create_initial_step [OF prio(1) ok(1) n1(1) thread_sizes(1) n1(2) progs(1) sched(1,2) none, of 0])
  have places: "heap_place (us @ ?new) 48 = ?t2" "heap_place ((us @ ?new) @ ?new) 48 = ?t3" unfolding heap_place_next by simp_all
  have far: "?t1 \<noteq> ?t2" "?t1 \<noteq> ?t3" "?t2 \<noteq> ?t3"
    using unat_heap_place [of "32 + total us + 48"] unat_heap_place [of "32 + total us + 464"] unat_heap_place [of "32 + total us + 880"] ok(1,2)
    by (auto simp: heap_place_def can_spawn_def word_eq_by_unat)
  have B0: "can_spawn (ks sA) (KERNEL_PHYS_TO_VIRT (cr3_of sA)) (us @ ?new) (n - 416) vs" "416 < n - 416"
    "1 + 4 * pages_wanted thread_allocation \<le> frames_left (ks sA)"
    "holds_program (ks sA) (KERNEL_PHYS_TO_VIRT (cr3_of sA)) (st_clear_vga st) clear_vga"
    "tcbs (sch sA) (heap_place (us @ ?new) 48) = None"
    using A(4-6,11) ok(2,3) thread_sizes(2) holds_program_kept [OF A(2) progs(2)] far(1) sched(3) unfolding places by simp_all
  obtain sB F2 c2 m2 s2 where B: "create_process sA 0 False 15 (st_clear_vga st) (of_nat (length clear_vga)) thread_allocation = Some (heap_place (us @ ?new) 336, sB)"
    "created (ks sA) (KERNEL_PHYS_TO_VIRT (cr3_of sA)) (ks sB) F2" "equipped (ks sA) (KERNEL_PHYS_TO_VIRT (cr3_of sA)) (ks sB) F2 thread_allocation c2 m2 s2"
    "can_spawn (ks sB) (KERNEL_PHYS_TO_VIRT (cr3_of sA)) ((us @ ?new) @ ?new) (n - 416 - 416) vs"
    "frames_left (ks sA) \<le> frames_left (ks sB) + (1 + 4 * pages_wanted thread_allocation)" "cr3_of sB = cr3_of sA"
    "process_in sB (heap_place (us @ ?new) 48) 15 clear_vga c2 m2 s2" "sched_inv (sch sB) ([?t1, dummy_tcb (sch s)] @ [heap_place (us @ ?new) 48])"
    "running_tcb (sch sB) = running_tcb (sch sA)" "dummy_tcb (sch sB) = dummy_tcb (sch sA)"
    "\<forall>x. x \<noteq> heap_place (us @ ?new) 48 \<longrightarrow> map_option strip (tcbs (sch sB) x) = map_option strip (tcbs (sch sA) x)"
    by (rule create_process_step [OF prio(2) B0(1,2) thread_sizes(1) B0(3,4) A(8) B0(5), of 0])
  note B = B [unfolded A(6) places]
  have "map_option strip (tcbs (sch sB) ?t3) = None" using B(11) A(11) far sched(3) by simp
  then have C0: "can_spawn (ks sB) (KERNEL_PHYS_TO_VIRT (cr3_of sB)) ((us @ ?new) @ ?new) (n - 416 - 416) vs" "416 < n - 416 - 416"
    "1 + 4 * pages_wanted thread_allocation \<le> frames_left (ks sB)"
    "holds_program (ks sB) (KERNEL_PHYS_TO_VIRT (cr3_of sB)) (st_color_vga st) color_vga"
    "tcbs (sch sB) (heap_place ((us @ ?new) @ ?new) 48) = None"
    using A(5) B(4-6) ok(2,3) thread_sizes(2) holds_program_kept [OF B(2) holds_program_kept [OF A(2) progs(3)]] unfolding places by simp_all
  obtain sC F3 c3 m3 s3 where C: "create_process sB 0 False 10 (st_color_vga st) (of_nat (length color_vga)) thread_allocation = Some (heap_place ((us @ ?new) @ ?new) 336, sC)"
    "created (ks sB) (KERNEL_PHYS_TO_VIRT (cr3_of sB)) (ks sC) F3" "equipped (ks sB) (KERNEL_PHYS_TO_VIRT (cr3_of sB)) (ks sC) F3 thread_allocation c3 m3 s3"
    "can_spawn (ks sC) (KERNEL_PHYS_TO_VIRT (cr3_of sB)) (((us @ ?new) @ ?new) @ ?new) (n - 416 - 416 - 416) vs"
    "frames_left (ks sB) \<le> frames_left (ks sC) + (1 + 4 * pages_wanted thread_allocation)" "cr3_of sC = cr3_of sB"
    "process_in sC (heap_place ((us @ ?new) @ ?new) 48) 10 color_vga c3 m3 s3"
    "sched_inv (sch sC) (([?t1, dummy_tcb (sch s)] @ [?t2]) @ [heap_place ((us @ ?new) @ ?new) 48])"
    "running_tcb (sch sC) = running_tcb (sch sB)" "dummy_tcb (sch sC) = dummy_tcb (sch sB)"
    "\<forall>x. x \<noteq> heap_place ((us @ ?new) @ ?new) 48 \<longrightarrow> map_option strip (tcbs (sch sC) x) = map_option strip (tcbs (sch sB) x)"
    by (rule create_process_step [OF prio(1) C0(1,2) thread_sizes(1) C0(3,4) B(8) C0(5), of 0])
  note C = C [unfolded B(6) places]
  have run: "first_processes st s = Some sC" by (simp add: first_processes_def A(1) B(1) C(1))
  have B2: "created (ks sA) (KERNEL_PHYS_TO_VIRT (cr3_of sA)) (ks sB) F2" "created (ks sB) (KERNEL_PHYS_TO_VIRT (cr3_of sB)) (ks sC) F3"
    "cr3_of sB = cr3_of sA" "cr3_of sC = cr3_of sB" using A(6) B(2,6) C(2,6) by simp_all
  have 1: "process_in sB ?t1 10 fill_vga c1 m1 s1" by (rule process_kept [OF A(7) B2(1,3)]) (use B(11) far in simp)
  have 1: "process_in sC ?t1 10 fill_vga c1 m1 s1" "process_in sB ?t1 10 fill_vga c1 m1 s1"
    by (rule process_kept [OF 1 B2(2,4)]) (use C(11) far 1 in simp_all)
  have 2: "process_in sC ?t2 15 clear_vga c2 m2 s2" by (rule process_kept [OF B(7) B2(2,4)]) (use C(11) far in simp)
  have dis: "set (c1 @ m1 @ s1) \<inter> set (c2 @ m2 @ s2) = {}" "set (c1 @ m1 @ s1) \<inter> set (c3 @ m3 @ s3) = {}"
    "set (c2 @ m2 @ s2) \<inter> set (c3 @ m3 @ s3) = {}"
    by (rule process_in_disjoint [OF A(7)], use A(6) B(3) in simp, rule process_in_disjoint [OF 1(2)], use B(6) C(3) in simp,
      rule process_in_disjoint [OF B(7)], use B(6) C(3) in simp)
  have all: "distinct ((c1 @ m1 @ s1) @ (c2 @ m2 @ s2) @ (c3 @ m3 @ s3))"
    by (rule distinct_three [OF process_in_seen(3) [OF 1(1)] process_in_seen(3) [OF 2] process_in_seen(3) [OF C(7)] dis])
  have tr: "translate (ks sC) ?r = translate (ks s) ?r"
    using creator_kept(3) [OF A(2)] creator_kept(3) [OF B(2)] creator_kept(3) [OF C(2)] by simp
  have queue: "sched_inv (sch sC) [?t1, dummy_tcb (sch s), ?t2, ?t3]" "running_tcb (sch sC) = dummy_tcb (sch s)"
    using A(9) B(9) C(8,9) by simp_all
  show ?thesis
    by (intro exI conjI)
      (rule run queue process_in_seen(1,2) [OF 1(1)] process_in_seen(1,2) [OF 2] process_in_seen(1,2) [OF C(7)] all tr)+
qed

text \<open>128 free frames from 1 MiB on, the heap of two pages, the empty root table at 4 KiB, and the three programs in the page at
  9 MiB of the kernel image.\<close>

definition wide_region :: mem_region where
  "wide_region = \<lparr>start_addr = 0x100000, len_bytes = 0x80000, bitmap_start_addr = 0, qword_count = 2, free_frames = 128\<rparr>"

definition wide_map :: mem_map where
  "wide_map = \<lparr>mem_size = 0x80000, region_count = 1, regions = replicate 32 wide_region, bitmap = \<lparr>bm_size = 128, bm_data = (\<lambda>_. 0)\<rparr>\<rparr>"

definition image_page :: u64 where
  "image_page = 0xFFFFFFFF80900000"

definition start_mem :: mem where
  "start_mem x = (if within image_page 60 x then (fill_vga @ clear_vga @ color_vga) ! unat (x - image_page) else kmem demo_heap x)"

definition start_sys :: sys where
  "start_sys = \<lparr>ks = \<lparr>kmem = start_mem, kmmap = wide_map\<rparr>, sch = \<lparr>tcbs = [32 \<mapsto> zero_tcb], top_tcb = 0, last_tcb = 0, running_tcb = 0,
     dummy_tcb = 32, thread_count = 0, cpu_cr3 = 0x1000, eoi_writes = 0\<rparr>, TID_GEN = 1, PID_GEN = 1, pcbs = (\<lambda>_. None)\<rparr>"

definition start_statics :: kernel_statics where
  "start_statics = \<lparr>st_pml4 = KERNEL_PHYS_TO_VIRT 0x1000, st_rsdp = 0, st_rsdp_new = 0, st_kernel_start_phys = 0x800000, st_kernel_end = 0xFFFFFFFF80A00000,
      st_tss = 0, st_fadt = 0, st_mcfg = 0,
     st_fill_vga = image_page, st_clear_vga = image_page + 20, st_color_vga = image_page + 40\<rparr>"

lemma wide_region_simps:
  "nframes wide_region = 128" "nslots wide_region = 128" "first_slot wide_region = 0" "region_end wide_region = 0x180000"
  "frame_at wide_region k = 0x100000 + 4096 * k" "region_ok wide_region"
  by (simp_all add: nframes_def nslots_def first_slot_def region_end_def frame_at_def region_ok_def wide_region_def)

lemma wide_map_simps: "region_count wide_map = 1" "regions wide_map ! 0 = wide_region" "\<not> slot_used wide_map r k"
  by (simp_all add: wide_map_def slot_used_def bm_bit_def data_bit_def)

lemma wide_map_wf: "mm_wf wide_map"
proof -
  have "layout_ok wide_map"
    by (simp add: layout_ok_nth wide_map_simps wide_region_simps) (simp add: wide_map_def MAX_MEM_REGIONS_def)
  moreover have "bits_ok wide_map wide_region"
    by (simp add: bits_ok_def free_count_def wide_map_simps wide_region_simps) (simp add: wide_region_def)
  ultimately show ?thesis by (simp add: mm_wf_nth wide_map_simps)
qed

lemma wide_free_set: "free_set wide_map = (\<lambda>k. 0x100000 + 4096 * k) ` {..<128}"
  by (auto simp: free_set_def free_slot_def wide_map_simps wide_region_simps)

lemma wide_frames: "card (free_set wide_map) = 128"
  by (simp add: wide_free_set card_image inj_on_def)

lemma start_root: "KERNEL_PHYS_TO_VIRT (cr3_of start_sys) = blank_root"
  by (simp add: start_sys_def cr3_of_def blank_root_def)

lemma start_mem_other: "\<not> within image_page 4096 x \<Longrightarrow> start_mem x = kmem demo_heap x"
  by (simp add: start_mem_def within_def less_by_unat)

lemma start_same: "same_tree (kmem blank) blank_root start_mem blank_root"
proof (rule same_tree_trans [OF demo_sys_same])
  have al: "4096 dvd unat blank_root" "4096 dvd unat image_page"
    by (simp_all add: blank_root_def image_page_def KERNEL_PHYS_TO_VIRT_def KERNEL_VMA_def)
  have "load64 start_mem (entry_at blank_root j) = load64 (kmem (ks demo_sys)) (entry_at blank_root j)" if "unat j < 512" for j
  proof (rule kept_loads [OF al(1) that])
    fix x :: u64 assume "within blank_root 4096 x"
    then have "\<not> within image_page 4096 x"
      unfolding within_page [OF al(1)] within_page [OF al(2)] by (simp add: blank_root_def image_page_def KERNEL_PHYS_TO_VIRT_def KERNEL_VMA_def)
    then show "start_mem x = kmem (ks demo_sys) x" by (simp add: start_mem_other demo_sys_def)
  qed
  moreover have "tab (kmem (ks demo_sys)) blank_root q = None" if "q \<noteq> []" "path_ok q" for q
    using same_tree_tab [OF demo_sys_same that(2,1)] that(1) by (simp add: blank_tab)
  ultimately show "same_tree (kmem (ks demo_sys)) blank_root start_mem blank_root" by (simp add: same_tree_def)
qed

lemma start_tab: "path_ok q \<Longrightarrow> tab start_mem blank_root q = (if q = [] then Some blank_root else None)"
  using same_tree_tab [OF start_same, of q] by (simp add: blank_tab)

lemma start_can_spawn: "can_spawn (ks start_sys) (KERNEL_PHYS_TO_VIRT (cr3_of start_sys)) [] 0x1FF0 []"
proof -
  have "heap_inv (ks start_sys) KERNEL_HEAP_ADDR [(0x1FF0, False)]"
  proof (rule heap_untouched [OF demo_heap_inv(1)])
    fix x :: u64 assume "unat x < unat KERNEL_HEAP_ADDR + 64 + total [(0x1FF0, False)]"
    then have "\<not> within image_page 4096 x"
      by (subst within_page) (auto simp: image_page_def KERNEL_HEAP_ADDR_def div_le_mono dest: div_le_mono [of _ _ 4096])
    then show "kmem (ks start_sys) x = kmem demo_heap x" by (simp add: start_sys_def start_mem_other)
  qed
  moreover have "pt_inv (ks start_sys) blank_root"
  proof -
    have root: "4096 dvd unat blank_root" "unat (KERNEL_VIRT_TO_PHYS blank_root) = 4096"
      by (simp_all add: blank_root_def KERNEL_PHYS_TO_VIRT_def KERNEL_VIRT_TO_PHYS_def KERNEL_VMA_def)
    have at: "q = [] \<and> t = blank_root" if "path_ok q" "tab start_mem blank_root q = Some t" for q t
      using that start_tab [OF that(1)] by (auto split: if_splits)
    have "tables_apart start_mem blank_root" using at root(1) unfolding tables_apart_def by blast
    moreover have "4096 \<notin> free_set wide_map" by (auto simp: wide_free_set)
    then have "tables_not_free start_mem blank_root (free_set wide_map)" using at root(2) unfolding tables_not_free_def by metis
    moreover have "low_frames wide_map" by (auto simp: low_frames_def wide_free_set)
    ultimately show ?thesis using wide_map_wf by (simp add: pt_inv_def start_sys_def)
  qed
  moreover have "load64 start_mem (entry_at blank_root j) = 0" if "unat j < 512" for j
    using start_same that by (simp add: same_tree_def blank_def load_blank)
  then have "threads_empty (ks start_sys) blank_root" by (simp add: threads_empty_def start_sys_def present_def)
  moreover have "0xFFFFFFFF00000000 \<le> blank_root" by (simp add: blank_root_def KERNEL_PHYS_TO_VIRT_def KERNEL_VMA_def)
  ultimately show ?thesis by (simp add: can_spawn_def start_root)
qed

lemma start_program:
  assumes "length xs + length prog \<le> 60" "fill_vga @ clear_vga @ color_vga = xs @ prog @ ys"
  shows "holds_program (ks start_sys) (KERNEL_PHYS_TO_VIRT (cr3_of start_sys)) (image_page + of_nat (length xs)) prog"
proof -
  have len: "length prog \<le> 60" "unat (of_nat (length prog) :: u64) = length prog" using assms(1) by (simp_all add: unat_of_nat_u64)
  have "foreign (ks start_sys) blank_root image_page"
  proof -
    have "blank_root \<noteq> image_page" by (simp add: blank_root_def image_page_def KERNEL_PHYS_TO_VIRT_def KERNEL_VMA_def)
    then have "t \<noteq> image_page" if "path_ok q" "tab start_mem blank_root q = Some t" for q t
      using that start_tab [OF that(1)] by (auto split: if_splits)
    then show ?thesis
      by (auto simp: foreign_def start_sys_def wide_free_set image_page_def KERNEL_VIRT_TO_PHYS_def KERNEL_VMA_def)
  qed
  moreover have "off_heap image_page" by (simp add: off_heap_def image_page_def)
  moreover have "within image_page 4096 (image_page + of_nat (length xs) + of_nat i)" "start_mem (image_page + of_nat (length xs) + of_nat i) = prog ! i"
    if i: "i < length prog" for i
  proof -
    have u: "image_page + of_nat (length xs) + of_nat i - image_page = of_nat (length xs + i)" "unat (of_nat (length xs + i) :: u64) = length xs + i"
      "length xs + i < 60" using assms(1) i by (simp_all add: unat_of_nat_u64 del: of_nat_add) simp
    show "within image_page 4096 (image_page + of_nat (length xs) + of_nat i)"
      using u(2,3) by (simp only: within_def u(1) less_by_unat) simp
    have "within image_page 60 (image_page + of_nat (length xs) + of_nat i)"
      using u(2,3) by (simp only: within_def u(1) less_by_unat) simp
    then show "start_mem (image_page + of_nat (length xs) + of_nat i) = prog ! i"
      using u i by (simp only: start_mem_def if_True assms(2) u(1,2)) (simp add: nth_append)
  qed
  ultimately show ?thesis using len unfolding holds_program_def program_at_def start_root by (auto simp: start_sys_def)
qed

theorem first_processes_run_witness:
  "\<exists>s' t1 t2 t3 c1 m1 s1 c2 m2 s2 c3 m3 s3. first_processes start_statics start_sys = Some s' \<and> sched_inv (sch s') [t1, 32, t2, t3] \<and>
     runs_program s' t1 10 fill_vga \<and> runs_program s' t2 15 clear_vga \<and> runs_program s' t3 10 color_vga \<and>
     uses_frames s' t1 c1 m1 s1 \<and> uses_frames s' t2 c2 m2 s2 \<and> uses_frames s' t3 c3 m3 s3 \<and>
     distinct ((c1 @ m1 @ s1) @ (c2 @ m2 @ s2) @ (c3 @ m3 @ s3))"
proof -
  have lens: "length fill_vga = 20" "length clear_vga = 20" "length color_vga = 20" by (simp_all add: fill_vga_def clear_vga_def color_vga_def)
  note at = start_program [of "[]" fill_vga "clear_vga @ color_vga"] start_program [of fill_vga clear_vga color_vga]
    start_program [of "fill_vga @ clear_vga" color_vga "[]"]
  have progs: "holds_program (ks start_sys) (KERNEL_PHYS_TO_VIRT (cr3_of start_sys)) (st_fill_vga start_statics) fill_vga"
    "holds_program (ks start_sys) (KERNEL_PHYS_TO_VIRT (cr3_of start_sys)) (st_clear_vga start_statics) clear_vga"
    "holds_program (ks start_sys) (KERNEL_PHYS_TO_VIRT (cr3_of start_sys)) (st_color_vga start_statics) color_vga"
    using at by (simp_all add: lens start_statics_def)
  have left: "1248 < (0x1FF0 :: nat)" "99 \<le> frames_left (ks start_sys)" using wide_frames by (simp_all add: frames_left_def start_sys_def)
  have sched: "dummy_tcb (sch start_sys) = 32" "dummy_tcb (sch start_sys) \<noteq> 0" "tcbs (sch start_sys) (dummy_tcb (sch start_sys)) = Some zero_tcb"
    "\<forall>x \<in> {heap_place [] 48, heap_place [] 464, heap_place [] 880}. tcbs (sch start_sys) x = None"
    by (simp_all add: start_sys_def heap_place_def place_of_def KERNEL_HEAP_ADDR_def)
  from first_processes_run [OF start_can_spawn left progs sched(2-4)] show ?thesis
    unfolding sched(1) by (elim exE conjE) (intro exI conjI; assumption)
qed

end
