(* ===== verification/Show_Map.thy ===== *)
theory Show_Map
  imports Shellio_Props MemMap
begin

text \<open>
  The listings of the physical memory map: \<^verbatim>\<open>show_bit_map\<close> and \<^verbatim>\<open>show_bit_map_range\<close> of
  \<^verbatim>\<open>src/kernel/util/BitMap.c\<close>, \<^verbatim>\<open>show_mem_map\<close> of \<^verbatim>\<open>src/kernel/Memory/PMM/mem_map.c\<close>, as what
  \<^const>\<open>Iprintf\<close> does to the console.  The outer loop flips the value it looks for and has no other progress of its own, so that
  it ends is a theorem.
\<close>

section \<open>The runs of a bitmap\<close>

definition bit_test :: "(u64 \<Rightarrow> u8) \<Rightarrow> u64 \<Rightarrow> bool" where
  "bit_test d i \<longleftrightarrow> drop_bit (unat (i mod 8)) (d (i div 8)) AND 1 = 1"

function run_loop :: "(u64 \<Rightarrow> u8) \<Rightarrow> bool \<Rightarrow> u64 \<Rightarrow> u64 \<Rightarrow> u64 \<Rightarrow> u64 \<times> u64" where
  "run_loop d currently_set stop blockS i =
     (if i < stop \<and> currently_set = bit_test d i then run_loop d currently_set stop (blockS + 1) (i + 1) else (blockS, i))"
  by pat_completeness auto
termination
  by (relation "measure (\<lambda>(d, c, stop, b, i). unat stop - unat i)") (auto simp: count_up_less)

declare run_loop.simps [simp del]

partial_function (option) show_loop ::
  "(bool \<Rightarrow> u64 \<Rightarrow> u64 \<Rightarrow> console \<Rightarrow> console option) \<Rightarrow> (u64 \<Rightarrow> u8) \<Rightarrow> u64 \<Rightarrow> bool \<Rightarrow> u64 \<Rightarrow> console \<Rightarrow> console option"
where
  "show_loop line d stop currently_set i k =
     (if i < stop then do {
        let (blockS, j) = run_loop d currently_set stop 0 i;
        k \<leftarrow> line currently_set (j - blockS) j k;
        show_loop line d stop (\<not> currently_set) j k
      }
      else Some k)"

definition show_bit_map :: "bit_map \<Rightarrow> console \<Rightarrow> console option" where
  "show_bit_map bmap k =
     show_loop (\<lambda>currently_set a b. Iprintf (map chr8 ''found block(%i): %x - %x'' @ [0x0A])
         [Va_word (of_bool currently_set), Va_word a, Va_word b])
       (bm_data bmap) (bm_size bmap) (bm_data bmap 0 AND 1 = 1) 0 k"

definition show_bit_map_range :: "bit_map \<Rightarrow> u64 \<Rightarrow> u64 \<Rightarrow> console \<Rightarrow> (int \<times> console) option" where
  "show_bit_map_range bmap start stop k =
     (if start > bm_size bmap \<or> stop > bm_size bmap - start then Some (- 1, k)
      else do {
        k \<leftarrow> show_loop (\<lambda>currently_set a b. Iprintf (map chr8 ''found block(%i): (%x - %x)'' @ [0x0A])
            [Va_word (of_bool currently_set), Va_word (a * DEFAULT_PAGE_SIZE), Va_word (b * DEFAULT_PAGE_SIZE)])
          (bm_data bmap) stop (drop_bit (unat (start mod 8)) (bm_data bmap (start div 8)) AND 1 = 1) start k;
        Some (0, k)
      })"

section \<open>The regions\<close>

fun region_lines :: "mem_map \<Rightarrow> bool \<Rightarrow> nat \<Rightarrow> nat \<Rightarrow> console \<Rightarrow> console option" where
  "region_lines mmap verbose i 0 k = Some k"
| "region_lines mmap verbose i (Suc n) k = do {
     region \<leftarrow> idx (regions mmap) i;
     k \<leftarrow> Iprintf (map chr8 ''Memory Region[%i] {addr: %x len: %x '' @ [0x0A] @ map chr8 ''  (%x Frames) free: (%x Frames)}'' @ [0x0A])
       [Va_word (of_nat i), Va_word (start_addr region), Va_word (len_bytes region),
        Va_word (len_bytes region div DEFAULT_PAGE_SIZE), Va_word (free_frames region)] k;
     k \<leftarrow> (if verbose then do {
         k \<leftarrow> Iprintf (map chr8 ''View: '' @ [0x0A]) [] k;
         (_, k) \<leftarrow> show_bit_map_range (bitmap mmap) (bitmap_start_addr region) (len_bytes region div DEFAULT_PAGE_SIZE) k;
         Some k
       } else Some k);
     region_lines mmap verbose (Suc i) n k
   }"

definition show_mem_map :: "mem_map \<Rightarrow> bool \<Rightarrow> console \<Rightarrow> console option" where
  "show_mem_map mmap verbose k = region_lines mmap verbose 0 (unat (region_count mmap)) k"

text \<open>The kernel's map.\<close>

definition show_mem :: "kstate \<Rightarrow> bool \<Rightarrow> console \<Rightarrow> console option" where
  "show_mem st verbose k = show_mem_map (kmmap st) verbose k"

section \<open>The runs in order\<close>

text \<open>The maximal runs of equal bits between two places, in order.\<close>

fun runs_from :: "(nat \<Rightarrow> bool) \<Rightarrow> nat \<Rightarrow> nat \<Rightarrow> (bool \<times> nat \<times> nat) list \<Rightarrow> bool" where
  "runs_from P i stop [] \<longleftrightarrow> stop \<le> i"
| "runs_from P i stop ((b, x, y) # rs) \<longleftrightarrow> x = i \<and> i < y \<and> y \<le> stop \<and> (\<forall>n. x \<le> n \<and> n < y \<longrightarrow> P n = b) \<and>
     (y < stop \<longrightarrow> P y = (\<not> b)) \<and> runs_from P y stop rs"

lemma bit_test_data: "bit_test d i \<longleftrightarrow> data_bit d (unat i)"
  by (simp add: bit_test_def data_bit_def byte_of_word unat_mod_word bit_iff_odd_drop_bit and_one_eq odd_iff_mod_2_eq_one)

lemma run_loop_spec:
  assumes "i \<le> stop"
  obtains j where "run_loop d c stop bs i = (bs + (j - i), j)" "i \<le> j" "j \<le> stop"
    "\<And>n. unat i \<le> n \<Longrightarrow> n < unat j \<Longrightarrow> data_bit d n = c" "j < stop \<Longrightarrow> data_bit d (unat j) = (\<not> c)"
  using assms
proof (induction "unat stop - unat i" arbitrary: i bs thesis rule: less_induct)
  case less
  show ?case
  proof (cases "i < stop \<and> c = bit_test d i")
    case True
    then have i: "i + 1 \<le> stop" "unat (i + 1) = Suc (unat i)"
      using word_Suc_le_iff [of i stop stop] unat_Suc_less [of i stop] by simp_all
    have "unat stop - unat (i + 1) < unat stop - unat i" using True count_up_less by blast
    from less.hyps [OF this _ i(1), of "bs + 1"] obtain j where j: "run_loop d c stop (bs + 1) (i + 1) = (bs + 1 + (j - (i + 1)), j)"
      "i + 1 \<le> j" "j \<le> stop" "\<And>n. unat (i + 1) \<le> n \<Longrightarrow> n < unat j \<Longrightarrow> data_bit d n = c" "j < stop \<Longrightarrow> data_bit d (unat j) = (\<not> c)"
      by blast
    show ?thesis
    proof (rule less.prems(1))
      show "run_loop d c stop bs i = (bs + (j - i), j)" using True j(1) by (subst run_loop.simps) simp
      show "i \<le> j" "j \<le> stop" "j < stop \<Longrightarrow> data_bit d (unat j) = (\<not> c)"
        using j(2,3,5) i(2) by (simp_all add: word_le_nat_alt)
      fix n assume "unat i \<le> n" "n < unat j"
      then show "data_bit d n = c" using j(4) [of n] True i(2) by (cases "n = unat i") (auto simp: bit_test_data)
    qed
  next
    case False
    then show ?thesis using less.prems(2) by (intro less.prems(1) [of i]) (subst run_loop.simps, auto simp: bit_test_data)
  qed
qed

text \<open>The text of a list of runs, the ends in units of \<open>u\<close>.\<close>

definition runs_text :: "(bool \<Rightarrow> u64 \<Rightarrow> u64 \<Rightarrow> u8 list) \<Rightarrow> (bool \<times> nat \<times> nat) list \<Rightarrow> u8 list" where
  "runs_text t rs = concat (map (\<lambda>(b, x, y). t b (of_nat x) (of_nat y)) rs)"

lemma show_loop_done: "\<not> i < stop \<Longrightarrow> show_loop line d stop c i k = Some k"
  by (subst show_loop.simps) simp

lemma show_loop_runs:
  assumes "\<And>b x y k. line b x y k = Some (write_str (t b x y) k)" and "i < stop \<Longrightarrow> c = data_bit d (unat i)"
  shows "\<exists>rs. runs_from (data_bit d) (unat i) (unat stop) rs \<and> (\<forall>k. show_loop line d stop c i k = Some (write_str (runs_text t rs) k))"
  using assms(2)
proof (induction "unat stop - unat i" arbitrary: i c rule: less_induct)
  case less
  show ?case
  proof (cases "i < stop")
    case True
    obtain j where j: "run_loop d c stop 0 i = (0 + (j - i), j)" "i \<le> j" "j \<le> stop"
      "\<And>n. unat i \<le> n \<Longrightarrow> n < unat j \<Longrightarrow> data_bit d n = c" "j < stop \<Longrightarrow> data_bit d (unat j) = (\<not> c)"
      using run_loop_spec [of i stop d c 0] True by (metis less_imp_le)
    have "j \<noteq> i" using j(5) less.prems True by auto
    then have ij: "unat i < unat j" "unat j \<le> unat stop" using j(2,3) by (simp_all add: le_by_unat less_by_unat word_eq_by_unat)
    then have m: "unat stop - unat j < unat stop - unat i" by simp
    have next_bit: "j < stop \<Longrightarrow> (\<not> c) = data_bit d (unat j)" using j(5) by simp
    obtain rs where rs: "runs_from (data_bit d) (unat j) (unat stop) rs"
      "\<And>k. show_loop line d stop (\<not> c) j k = Some (write_str (runs_text t rs) k)"
      using less.hyps [OF m next_bit] by blast
    have "runs_from (data_bit d) (unat i) (unat stop) ((c, unat i, unat j) # rs)"
      using ij j(4,5) rs(1) by (simp add: less_by_unat)
    moreover have "show_loop line d stop c i k = Some (write_str (runs_text t ((c, unat i, unat j) # rs)) k)" for k
      using True j(1) rs(2) by (subst show_loop.simps) (simp add: assms(1) runs_text_def write_str_append)
    ultimately show ?thesis by blast
  next
    case False
    then have "unat stop \<le> unat i" by (simp add: less_by_unat)
    with False show ?thesis by (intro exI [of _ "[]"]) (simp add: runs_text_def show_loop_done)
  qed
qed

text \<open>The lines.\<close>

definition index_line :: "bool \<Rightarrow> u64 \<Rightarrow> u64 \<Rightarrow> u8 list" where
  "index_line b x y = map chr8 ''found block('' @ [if b then chr8 CHR ''1'' else chr8 CHR ''0''] @ map chr8 ''): 0x'' @ hex (unat x) @
     map chr8 '' - 0x'' @ hex (unat y) @ [0x0A]"

definition address_line :: "bool \<Rightarrow> u64 \<Rightarrow> u64 \<Rightarrow> u8 list" where
  "address_line b x y = map chr8 ''found block('' @ [if b then chr8 CHR ''1'' else chr8 CHR ''0''] @ map chr8 ''): (0x'' @
     hex (unat (x * DEFAULT_PAGE_SIZE)) @ map chr8 '' - 0x'' @ hex (unat (y * DEFAULT_PAGE_SIZE)) @ map chr8 '')'' @ [0x0A]"

lemma Iprintf_text: "Iprintf f args k = map_option (\<lambda>t. write_str t k) (format_text False f args)"
  by (simp add: Iprintf_def vprintf_def vprintf_loop_text)

lemma format_plain: "chr8 CHR ''%'' \<notin> set u \<Longrightarrow> format_text False (u @ f) args = map_option (\<lambda>t. u @ t) (format_text False f args)"
  by (induction u) (auto simp: option.map_comp comp_def map_conv_bind_option)

lemma format_directive:
  "c \<noteq> chr8 CHR ''%'' \<Longrightarrow> format_text False (chr8 CHR ''%'' # c # f) args =
     do { (t, args) \<leftarrow> directive_text c args; u \<leftarrow> format_text False f args; Some (t @ u) }"
  by simp

lemma format_number: "format_text False (chr8 CHR ''%'' # chr8 CHR ''x'' # f) (Va_word v # args) =
    map_option (\<lambda>t. map chr8 ''0x'' @ hex (unat v) @ t) (format_text False f args)"
  by (subst format_directive) (simp_all add: chr8_def directive_text_def map_conv_bind_option comp_def)

lemma format_flag: "format_text False (chr8 CHR ''%'' # chr8 CHR ''i'' # f) (Va_word (of_bool b) # args) =
    map_option (\<lambda>t. (if b then chr8 CHR ''1'' else chr8 CHR ''0'') # t) (format_text False f args)"
proof -
  have "signed_text (sint (ucast (of_bool b :: u64) :: u32)) = [if b then chr8 CHR ''1'' else chr8 CHR ''0'']"
    by (cases b) (simp_all add: signed_text_def dec.simps digit_def chr8_def)
  then show ?thesis by (subst format_directive) (simp_all add: chr8_def directive_text_def map_conv_bind_option comp_def)
qed

lemma index_line_printed:
  "Iprintf (map chr8 ''found block(%i): %x - %x'' @ [0x0A]) [Va_word (of_bool b), Va_word x, Va_word y] k = Some (write_str (index_line b x y) k)"
proof -
  have f: "map chr8 ''found block(%i): %x - %x'' @ [0x0A] = map chr8 ''found block('' @ chr8 CHR ''%'' # chr8 CHR ''i'' # map chr8 ''): '' @
     chr8 CHR ''%'' # chr8 CHR ''x'' # map chr8 '' - '' @ chr8 CHR ''%'' # chr8 CHR ''x'' # [0x0A] @ []" by simp
  have plain: "chr8 CHR ''%'' \<notin> set (map chr8 ''found block('')" "chr8 CHR ''%'' \<notin> set (map chr8 ''): '')" "chr8 CHR ''%'' \<notin> set (map chr8 '' - '')"
    "chr8 CHR ''%'' \<notin> set [0x0A]"
    by (simp_all add: chr8_def)
  show ?thesis unfolding Iprintf_text f format_plain [OF plain(1)] format_plain [OF plain(2)] format_plain [OF plain(3)] format_plain [OF plain(4)]
      format_flag format_number
    by (simp add: index_line_def)
qed

lemma address_line_printed:
  "Iprintf (map chr8 ''found block(%i): (%x - %x)'' @ [0x0A])
     [Va_word (of_bool b), Va_word (x * DEFAULT_PAGE_SIZE), Va_word (y * DEFAULT_PAGE_SIZE)] k = Some (write_str (address_line b x y) k)"
proof -
  have f: "map chr8 ''found block(%i): (%x - %x)'' @ [0x0A] = map chr8 ''found block('' @ chr8 CHR ''%'' # chr8 CHR ''i'' # map chr8 ''): ('' @
     chr8 CHR ''%'' # chr8 CHR ''x'' # map chr8 '' - '' @ chr8 CHR ''%'' # chr8 CHR ''x'' # (map chr8 '')'' @ [0x0A]) @ []" by simp
  have plain: "chr8 CHR ''%'' \<notin> set (map chr8 ''found block('')" "chr8 CHR ''%'' \<notin> set (map chr8 ''): ('')" "chr8 CHR ''%'' \<notin> set (map chr8 '' - '')"
    "chr8 CHR ''%'' \<notin> set (map chr8 '')'' @ [0x0A])"
    by (simp_all add: chr8_def)
  show ?thesis unfolding Iprintf_text f format_plain [OF plain(1)] format_plain [OF plain(2)] format_plain [OF plain(3)] format_plain [OF plain(4)]
      format_flag format_number
    by (simp add: address_line_def)
qed

lemma first_bit: "drop_bit (unat (i mod 8)) (d (i div 8)) AND 1 = 1 \<longleftrightarrow> data_bit d (unat i)"
  using bit_test_data by (simp add: bit_test_def)

section \<open>Properties\<close>

text \<open>Listing a bitmap ends, whatever it holds, and what it prints is one line for each maximal run of
  equal bits, in order and with its ends, from bit 0 to the size.\<close>

theorem show_bit_map_lists_runs:
  "\<exists>rs. runs_from (bm_bit bmap) 0 (unat (bm_size bmap)) rs \<and> show_bit_map bmap k = Some (write_str (runs_text index_line rs) k)"
proof -
  have "(bm_data bmap 0 AND 1 = 1) = data_bit (bm_data bmap) (unat (0 :: u64))" using first_bit [of 0 "bm_data bmap"] by simp
  from show_loop_runs [of _ index_line 0 "bm_size bmap", OF index_line_printed this] show ?thesis
    unfolding show_bit_map_def bm_bit_def by auto
qed

text \<open>What the view of a range prints.\<close>

definition view :: "bit_map \<Rightarrow> u64 \<Rightarrow> u64 \<Rightarrow> u8 list \<Rightarrow> bool" where
  "view bmap start stop v \<longleftrightarrow>
     (if start \<le> bm_size bmap \<and> stop \<le> bm_size bmap - start
      then \<exists>rs. runs_from (bm_bit bmap) (unat start) (unat stop) rs \<and> v = runs_text address_line rs else v = [])"

lemma show_range_view:
  obtains v r where "view bmap start stop v" "\<And>k. show_bit_map_range bmap start stop k = Some (r, write_str v k)"
proof (cases "start \<le> bm_size bmap \<and> stop \<le> bm_size bmap - start")
  case True
  obtain rs where rs: "runs_from (data_bit (bm_data bmap)) (unat start) (unat stop) rs"
    "\<And>k. show_loop (\<lambda>b x y. Iprintf (map chr8 ''found block(%i): (%x - %x)'' @ [0x0A])
        [Va_word (of_bool b), Va_word (x * DEFAULT_PAGE_SIZE), Va_word (y * DEFAULT_PAGE_SIZE)])
      (bm_data bmap) stop (drop_bit (unat (start mod 8)) (bm_data bmap (start div 8)) AND 1 = 1) start k =
      Some (write_str (runs_text address_line rs) k)"
    using show_loop_runs [of _ address_line start stop, OF address_line_printed first_bit] by blast
  show thesis
  proof (rule that)
    have "bm_bit bmap = data_bit (bm_data bmap)" by (rule ext) (simp add: bm_bit_def)
    then show "view bmap start stop (runs_text address_line rs)" using True rs(1) by (auto simp: view_def)
    show "show_bit_map_range bmap start stop k = Some (0, write_str (runs_text address_line rs) k)" for k
      unfolding show_bit_map_range_def using True rs(2) [of k] by (simp only: not_less [symmetric] if_False Option.bind.bind_lunit) simp
  qed
next
  case False
  then show thesis by (intro that [of "[]" "- 1"]) (auto simp: view_def show_bit_map_range_def not_le)
qed

text \<open>A view that ends where it starts or before is empty.\<close>

lemma view_empty: "stop \<le> start \<Longrightarrow> view bmap start stop v \<Longrightarrow> v = []"
  by (auto simp: view_def runs_text_def le_by_unat split: if_splits elim: runs_from.elims)

definition region_text :: "nat \<Rightarrow> mem_region \<Rightarrow> u8 list" where
  "region_text i r = map chr8 ''Memory Region['' @ dec i @ map chr8 ''] {addr: 0x'' @ hex (unat (start_addr r)) @
     map chr8 '' len: 0x'' @ hex (unat (len_bytes r)) @ map chr8 '' '' @ [0x0A] @ map chr8 ''  (0x'' @ hex (unat (len_bytes r div DEFAULT_PAGE_SIZE)) @
     map chr8 '' Frames) free: (0x'' @ hex (unat (free_frames r)) @ map chr8 '' Frames)}'' @ [0x0A]"

lemma format_index: "i < 256 \<Longrightarrow> format_text False (chr8 CHR ''%'' # chr8 CHR ''i'' # f) (Va_word (of_nat i) # args) =
    map_option (\<lambda>t. dec i @ t) (format_text False f args)"
proof -
  assume i: "i < 256"
  have "sint (ucast (of_nat i :: u64) :: u32) = int i"
  proof -
    have "uint (ucast (of_nat i :: u64) :: u32) = int i" using i by (simp add: uint_nat unsigned_ucast_eq unat_of_nat_u64 take_bit_eq_mod)
    then show ?thesis using i by (simp add: sint_uint signed_take_bit_int_eq_self)
  qed
  then have "signed_text (sint (ucast (of_nat i :: u64) :: u32)) = dec i" by (simp add: signed_text_def)
  then show ?thesis by (subst format_directive) (simp_all add: chr8_def directive_text_def map_conv_bind_option comp_def)
qed

lemma region_printed:
  assumes "i < 256"
  shows "Iprintf (map chr8 ''Memory Region[%i] {addr: %x len: %x '' @ [0x0A] @ map chr8 ''  (%x Frames) free: (%x Frames)}'' @ [0x0A])
     [Va_word (of_nat i), Va_word (start_addr r), Va_word (len_bytes r), Va_word (len_bytes r div DEFAULT_PAGE_SIZE), Va_word (free_frames r)] k =
     Some (write_str (region_text i r) k)"
proof -
  have f: "map chr8 ''Memory Region[%i] {addr: %x len: %x '' @ [0x0A] @ map chr8 ''  (%x Frames) free: (%x Frames)}'' @ [0x0A] =
     map chr8 ''Memory Region['' @ chr8 CHR ''%'' # chr8 CHR ''i'' # map chr8 ''] {addr: '' @ chr8 CHR ''%'' # chr8 CHR ''x'' #
     map chr8 '' len: '' @ chr8 CHR ''%'' # chr8 CHR ''x'' # (map chr8 '' '' @ [0x0A] @ map chr8 ''  ('') @ chr8 CHR ''%'' # chr8 CHR ''x'' #
     map chr8 '' Frames) free: ('' @ chr8 CHR ''%'' # chr8 CHR ''x'' # (map chr8 '' Frames)}'' @ [0x0A]) @ []" by simp
  have plain: "chr8 CHR ''%'' \<notin> set (map chr8 ''Memory Region['')" "chr8 CHR ''%'' \<notin> set (map chr8 ''] {addr: '')"
    "chr8 CHR ''%'' \<notin> set (map chr8 '' len: '')" "chr8 CHR ''%'' \<notin> set (map chr8 '' '' @ [0x0A] @ map chr8 ''  ('')"
    "chr8 CHR ''%'' \<notin> set (map chr8 '' Frames) free: ('')" "chr8 CHR ''%'' \<notin> set (map chr8 '' Frames)}'' @ [0x0A])"
    by (simp_all add: chr8_def)
  show ?thesis unfolding Iprintf_text f format_plain [OF plain(1)] format_plain [OF plain(2)] format_plain [OF plain(3)] format_plain [OF plain(4)]
      format_plain [OF plain(5)] format_plain [OF plain(6)] format_index [OF assms] format_number
    by (simp add: region_text_def)
qed

lemma view_head_printed: "Iprintf (map chr8 ''View: '' @ [0x0A]) [] k = Some (write_str (map chr8 ''View: '' @ [0x0A]) k)"
proof -
  have "chr8 CHR ''%'' \<notin> set (map chr8 ''View: '' @ [0x0A])" by (simp add: chr8_def)
  from format_plain [OF this, of "[]" "[]"] show ?thesis unfolding Iprintf_text by simp
qed

lemma region_lines_text:
  assumes "i + n \<le> length (regions mmap)" "i + n \<le> 256"
    and "\<And>j. j < i + n \<Longrightarrow> view (bitmap mmap) (bitmap_start_addr (regions mmap ! j)) (len_bytes (regions mmap ! j) div DEFAULT_PAGE_SIZE) (vs j) \<and>
      (\<forall>k. \<exists>r. show_bit_map_range (bitmap mmap) (bitmap_start_addr (regions mmap ! j)) (len_bytes (regions mmap ! j) div DEFAULT_PAGE_SIZE) k =
        Some (r, write_str (vs j) k))"
  shows "region_lines mmap verbose i n k = Some (write_str (concat (map (\<lambda>j. region_text j (regions mmap ! j) @
     (if verbose then map chr8 ''View: '' @ [0x0A] @ vs j else [])) [i..<i + n])) k)"
  using assms
proof (induction n arbitrary: i k)
  case (Suc n)
  have i: "i < 256" "i < length (regions mmap)" using Suc.prems(1,2) by simp_all
  let ?r = "regions mmap ! i"
  have seen: "(if verbose then do {
         k \<leftarrow> Iprintf (map chr8 ''View: '' @ [0x0A]) [] k;
         (_, k) \<leftarrow> show_bit_map_range (bitmap mmap) (bitmap_start_addr ?r) (len_bytes ?r div DEFAULT_PAGE_SIZE) k;
         Some k
       } else Some k) = Some (write_str (if verbose then map chr8 ''View: '' @ [0x0A] @ vs i else []) k)" for k
  proof (cases verbose)
    case True
    obtain r where r: "show_bit_map_range (bitmap mmap) (bitmap_start_addr ?r) (len_bytes ?r div DEFAULT_PAGE_SIZE)
        (write_str (map chr8 ''View: '' @ [0x0A]) k) = Some (r, write_str (vs i) (write_str (map chr8 ''View: '' @ [0x0A]) k))"
      using Suc.prems(3) [of i] by fastforce
    then show ?thesis using True by (simp only: if_True view_head_printed Option.bind.bind_lunit r split_conv write_str_append)
  qed simp
  have ih: "region_lines mmap verbose (Suc i) n k = Some (write_str (concat (map (\<lambda>j. region_text j (regions mmap ! j) @
     (if verbose then map chr8 ''View: '' @ [0x0A] @ vs j else [])) [Suc i..<Suc i + n])) k)" for k
    by (rule Suc.IH) (use Suc.prems in simp_all)
  have split: "[i..<i + Suc n] = i # [Suc i..<Suc i + n]" by (simp add: upt_conv_Cons)
  show ?case
    unfolding region_lines.simps idx_in [OF i(2)] Option.bind.bind_lunit region_printed [OF i(1)] seen ih split
    by (simp only: list.map concat.simps write_str_append)
qed simp

text \<open>C34. Listing the memory map ends for every map, and prints for each region its line and, when the view is
  asked for, the runs of the range of bits from the region's first bit to its number of frames: the end of the range is given as
  the number of frames and not as the last bit, so a region whose bits start at or behind its number of frames is shown without any run.\<close>

theorem show_mem_map_lists_regions:
  assumes "unat (region_count mmap) \<le> length (regions mmap)"
  shows "\<exists>vs. show_mem_map mmap verbose k = Some (write_str (concat (map (\<lambda>i. region_text i (regions mmap ! i) @
       (if verbose then map chr8 ''View: '' @ [0x0A] @ vs i else [])) [0..<unat (region_count mmap)])) k) \<and>
     (\<forall>i < unat (region_count mmap). view (bitmap mmap) (bitmap_start_addr (regions mmap ! i))
        (len_bytes (regions mmap ! i) div DEFAULT_PAGE_SIZE) (vs i) \<and>
        (len_bytes (regions mmap ! i) div DEFAULT_PAGE_SIZE \<le> bitmap_start_addr (regions mmap ! i) \<longrightarrow> vs i = []))"
proof -
  have "\<exists>v. view (bitmap mmap) (bitmap_start_addr r) (len_bytes r div DEFAULT_PAGE_SIZE) v \<and>
      (\<forall>k. \<exists>c. show_bit_map_range (bitmap mmap) (bitmap_start_addr r) (len_bytes r div DEFAULT_PAGE_SIZE) k = Some (c, write_str v k))" for r :: mem_region
    by (rule show_range_view [of "bitmap mmap" "bitmap_start_addr r" "len_bytes r div DEFAULT_PAGE_SIZE"]) blast
  then have "\<exists>v. \<forall>r :: mem_region. view (bitmap mmap) (bitmap_start_addr r) (len_bytes r div DEFAULT_PAGE_SIZE) (v r) \<and>
      (\<forall>k. \<exists>c. show_bit_map_range (bitmap mmap) (bitmap_start_addr r) (len_bytes r div DEFAULT_PAGE_SIZE) k = Some (c, write_str (v r) k))"
    by (intro choice allI) blast
  then obtain v :: "mem_region \<Rightarrow> u8 list" where v: "\<And>r. view (bitmap mmap) (bitmap_start_addr r) (len_bytes r div DEFAULT_PAGE_SIZE) (v r)"
    "\<And>r k. \<exists>c. show_bit_map_range (bitmap mmap) (bitmap_start_addr r) (len_bytes r div DEFAULT_PAGE_SIZE) k = Some (c, write_str (v r) k)"
    by blast
  have n: "unat (region_count mmap) \<le> 256" using u8_bound [of "region_count mmap"] by simp
  have "region_lines mmap verbose 0 (unat (region_count mmap)) k = Some (write_str (concat (map (\<lambda>i. region_text i (regions mmap ! i) @
       (if verbose then map chr8 ''View: '' @ [0x0A] @ v (regions mmap ! i) else [])) [0..<0 + unat (region_count mmap)])) k)"
    by (rule region_lines_text) (use assms n v in simp_all)
  moreover have "len_bytes r div DEFAULT_PAGE_SIZE \<le> bitmap_start_addr r \<Longrightarrow> v r = []" for r :: mem_region
    using view_empty v(1) by blast
  ultimately show ?thesis using v(1)
    by (intro exI [of _ "\<lambda>i. v (regions mmap ! i)"]) (simp add: show_mem_map_def)
qed

text \<open>Two regions, of 128 and of 64 frames: the bits of the second one start at 128.\<close>

definition two_regions :: mem_map where
  "two_regions = \<lparr>mem_size = 0xC0000, region_count = 2,
     regions = [\<lparr>start_addr = 0, len_bytes = 0x80000, bitmap_start_addr = 0, qword_count = 2, free_frames = 128\<rparr>,
                \<lparr>start_addr = 0x100000, len_bytes = 0x40000, bitmap_start_addr = 128, qword_count = 1, free_frames = 64\<rparr>],
     bitmap = \<lparr>bm_size = 192, bm_data = (\<lambda>_. 0)\<rparr>\<rparr>"

theorem show_mem_map_lists_regions_witness:
  "\<exists>v. show_mem_map two_regions True blank_console = Some (write_str (region_text 0 (regions two_regions ! 0) @ map chr8 ''View: '' @ [0x0A] @ v @
     region_text 1 (regions two_regions ! 1) @ map chr8 ''View: '' @ [0x0A]) blank_console) \<and> view (bitmap two_regions) 0 128 v"
proof -
  have "unat (region_count two_regions) \<le> length (regions two_regions)" by (simp add: two_regions_def)
  from show_mem_map_lists_regions [OF this, of True blank_console] obtain vs where vs:
    "show_mem_map two_regions True blank_console = Some (write_str (concat (map (\<lambda>i. region_text i (regions two_regions ! i) @
       (if True then map chr8 ''View: '' @ [0x0A] @ vs i else [])) [0..<unat (region_count two_regions)])) blank_console)"
    "\<forall>i < unat (region_count two_regions). view (bitmap two_regions) (bitmap_start_addr (regions two_regions ! i))
        (len_bytes (regions two_regions ! i) div DEFAULT_PAGE_SIZE) (vs i) \<and>
        (len_bytes (regions two_regions ! i) div DEFAULT_PAGE_SIZE \<le> bitmap_start_addr (regions two_regions ! i) \<longrightarrow> vs i = [])"
    by blast
  have n: "[0..<unat (region_count two_regions)] = [0, 1]" "unat (region_count two_regions) = 2" by (simp_all add: two_regions_def upt_rec)
  have b: "bitmap_start_addr (regions two_regions ! 0) = 0" "len_bytes (regions two_regions ! 0) div DEFAULT_PAGE_SIZE = 128"
    "bitmap_start_addr (regions two_regions ! 1) = 128" "len_bytes (regions two_regions ! 1) div DEFAULT_PAGE_SIZE = 64"
    by (simp_all add: two_regions_def DEFAULT_PAGE_SIZE_def)
  have "vs 1 = []" "view (bitmap two_regions) 0 128 (vs 0)"
    using vs(2) [rule_format, of 0] vs(2) [rule_format, of 1] unfolding n b by simp_all
  then show ?thesis using vs(1) unfolding n(1) list.map concat.simps by (intro exI [of _ "vs 0"]) simp
qed

end
