(* ===== verification/Boot_Tags.thy ===== *)
theory Boot_Tags
  imports Multiboot_Props
begin

text \<open>
  The list of tags of the boot information, as the multiboot2 protocol describes it, and what \<^const>\<open>handle_multiboot2\<close>
  makes of a list without modules.
\<close>

section \<open>Lists of tags\<close>

text \<open>The tags from a place on, and the end tag behind them.\<close>

fun tag_list :: "mem \<Rightarrow> u64 \<Rightarrow> u64 list \<Rightarrow> u64 \<Rightarrow> bool" where
  "tag_list m p [] e \<longleftrightarrow> e = p \<and> load32 m (tag_type p) = MULTIBOOT_TAG_TYPE_END"
| "tag_list m p (t # ts) e \<longleftrightarrow> t = p \<and> load32 m (tag_type p) \<noteq> MULTIBOOT_TAG_TYPE_END \<and> tag_list m (next_tag m p) ts e"

definition tags_of_type :: "mem \<Rightarrow> u32 \<Rightarrow> u64 list \<Rightarrow> u64 list" where
  "tags_of_type m typ ts = filter (\<lambda>t. load32 m (tag_type t) = typ) ts"

text \<open>The bytes of a tag that are read: its head, and the root pointer in the two tags of ACPI.\<close>

definition tag_extent :: "mem \<Rightarrow> u64 \<Rightarrow> nat" where
  "tag_extent m t =
     (if load32 m (tag_type t) = MULTIBOOT_TAG_TYPE_ACPI_OLD then 8 + unat SIZEOF_RSDP
      else if load32 m (tag_type t) = MULTIBOOT_TAG_TYPE_ACPI_NEW then 8 + unat SIZEOF_XSDP else 8)"

definition in_copies :: "u64 \<Rightarrow> u64 \<Rightarrow> u64 \<Rightarrow> bool" where
  "in_copies r r' x \<longleftrightarrow> within r SIZEOF_RSDP x \<or> within r' SIZEOF_XSDP x"

definition tag_apart :: "mem \<Rightarrow> u64 \<Rightarrow> u64 \<Rightarrow> u64 \<Rightarrow> bool" where
  "tag_apart m r r' t \<longleftrightarrow> (\<forall>i < tag_extent m t. \<not> in_copies r r' (t + of_nat i))"

definition root_pointers_apart :: "u64 \<Rightarrow> u64 \<Rightarrow> bool" where
  "root_pointers_apart r r' \<longleftrightarrow> (\<forall>x. \<not> (within r SIZEOF_RSDP x \<and> within r' SIZEOF_XSDP x))"

text \<open>The last of a list, or else a value given before.\<close>

definition last_or :: "'a \<Rightarrow> 'a list \<Rightarrow> 'a" where
  "last_or d ts = (if ts = [] then d else last ts)"

lemma last_or_simps [simp]: "last_or d [] = d" "last_or d (t # ts) = last_or t ts"
  by (simp_all add: last_or_def)

section \<open>The loop\<close>

lemma head_same:
  assumes same: "\<And>x. \<not> in_copies r r' x \<Longrightarrow> m' x = m x" and t: "tag_apart m r r' t"
  shows "load32 m' (tag_type t) = load32 m (tag_type t)" "next_tag m' t = next_tag m t"
proof -
  have b: "m' (t + of_nat i) = m (t + of_nat i)" if "i < 8" for i
    using t that by (intro same) (auto simp: tag_apart_def tag_extent_def split: if_splits)
  have "load_le m' (t + of_nat a) 4 = load_le m (t + of_nat a) 4" if a: "a \<le> 4" for a
    by (rule load_le_cong) (use b a in \<open>simp add: add.assoc flip: of_nat_add\<close>)
  from this [of 0] this [of 4] show "load32 m' (tag_type t) = load32 m (tag_type t)" "next_tag m' t = next_tag m t"
    by (simp_all add: load32_def tag_type_def next_tag_def tag_size_def)
qed

lemma copied_root:
  assumes same: "\<And>x. \<not> in_copies r r' x \<Longrightarrow> k x = m x"
    and src: "\<And>i. i < unat n \<Longrightarrow> \<not> in_copies r r' (s + of_nat i)" and dst: "\<And>x. within d n x \<Longrightarrow> in_copies r r' x"
  shows "Imemcpy k d s n x = (if within d n x then m (s + (x - d)) else k x)"
proof -
  have s: "\<not> in_copies r r' x" if "within s n x" for x
  proof -
    have "unat (x - s) < unat n" using that by (simp add: within_def less_by_unat)
    then show ?thesis using src [of "unat (x - s)"] by simp
  qed
  have "disjoint_regions d s n" using s dst by (auto simp: disjoint_regions_def)
  moreover have "k (s + (x - d)) = m (s + (x - d))" if "within d n x"
    using that by (intro same s) (simp add: within_def)
  ultimately show ?thesis by (simp add: Imemcpy_eq)
qed

text \<open>What the loop leaves: the bytes outside the two copies, and in each copy those of the last root pointer.\<close>

definition copies_made :: "mem \<Rightarrow> u64 \<Rightarrow> u64 \<Rightarrow> u64 list \<Rightarrow> mem \<Rightarrow> mem \<Rightarrow> bool" where
  "copies_made m r r' ts k k' \<longleftrightarrow>
     (\<forall>x. \<not> in_copies r r' x \<longrightarrow> k' x = k x) \<and>
     (\<forall>i < unat SIZEOF_RSDP. k' (r + of_nat i) =
        (case tags_of_type m MULTIBOOT_TAG_TYPE_ACPI_OLD ts of [] \<Rightarrow> k (r + of_nat i) | us \<Rightarrow> m (last us + 8 + of_nat i))) \<and>
     (\<forall>i < unat SIZEOF_XSDP. k' (r' + of_nat i) =
        (case tags_of_type m MULTIBOOT_TAG_TYPE_ACPI_NEW ts of [] \<Rightarrow> k (r' + of_nat i) | us \<Rightarrow> m (last us + 8 + of_nat i)))"

lemma copy_places:
  assumes "root_pointers_apart r r'"
  shows "i < unat SIZEOF_RSDP \<Longrightarrow> within r SIZEOF_RSDP (r + of_nat i)" "i < unat SIZEOF_XSDP \<Longrightarrow> within r' SIZEOF_XSDP (r' + of_nat i)"
    "i < unat SIZEOF_RSDP \<Longrightarrow> \<not> within r' SIZEOF_XSDP (r + of_nat i)" "i < unat SIZEOF_XSDP \<Longrightarrow> \<not> within r SIZEOF_RSDP (r' + of_nat i)"
proof -
  show 1: "i < unat SIZEOF_RSDP \<Longrightarrow> within r SIZEOF_RSDP (r + of_nat i)" "i < unat SIZEOF_XSDP \<Longrightarrow> within r' SIZEOF_XSDP (r' + of_nat i)"
    by (simp_all add: within_def less_by_unat unat_of_nat_u64 SIZEOF_RSDP_def SIZEOF_XSDP_def)
  show "i < unat SIZEOF_RSDP \<Longrightarrow> \<not> within r' SIZEOF_XSDP (r + of_nat i)" "i < unat SIZEOF_XSDP \<Longrightarrow> \<not> within r SIZEOF_RSDP (r' + of_nat i)"
    using assms 1 unfolding root_pointers_apart_def by blast+
qed

lemma copy_step:
  assumes eq: "\<forall>x. \<not> in_copies r r' x \<longrightarrow> k x = m x" and apart: "root_pointers_apart r r'" and t: "tag_apart m r r' t"
    and k1: "k1 = (if load32 m (tag_type t) = MULTIBOOT_TAG_TYPE_ACPI_OLD then Imemcpy k r (t + 8) SIZEOF_RSDP
       else if load32 m (tag_type t) = MULTIBOOT_TAG_TYPE_ACPI_NEW then Imemcpy k r' (t + 8) SIZEOF_XSDP else k)"
  shows "\<not> in_copies r r' x \<Longrightarrow> k1 x = k x"
    "i < unat SIZEOF_RSDP \<Longrightarrow> k1 (r + of_nat i) = (if load32 m (tag_type t) = MULTIBOOT_TAG_TYPE_ACPI_OLD then m (t + 8 + of_nat i) else k (r + of_nat i))"
    "i < unat SIZEOF_XSDP \<Longrightarrow> k1 (r' + of_nat i) = (if load32 m (tag_type t) = MULTIBOOT_TAG_TYPE_ACPI_NEW then m (t + 8 + of_nat i) else k (r' + of_nat i))"
proof -
  have same: "\<not> in_copies r r' x \<Longrightarrow> k x = m x" for x using eq by blast
  let ?T = "load32 m (tag_type t)"
  have types: "MULTIBOOT_TAG_TYPE_ACPI_OLD \<noteq> MULTIBOOT_TAG_TYPE_ACPI_NEW"
    by (simp add: MULTIBOOT_TAG_TYPE_ACPI_OLD_def MULTIBOOT_TAG_TYPE_ACPI_NEW_def)
  have shift: "t + 8 + of_nat i = t + of_nat (8 + i)" for i by (simp add: add.assoc)
  have old: "k1 x = (if within r SIZEOF_RSDP x then m (t + 8 + (x - r)) else k x)" if "?T = MULTIBOOT_TAG_TYPE_ACPI_OLD" for x
  proof -
    have "\<not> in_copies r r' (t + 8 + of_nat i)" if "i < unat SIZEOF_RSDP" for i
    proof -
      have "8 + i < tag_extent m t" using \<open>i < unat SIZEOF_RSDP\<close> \<open>?T = _\<close> by (simp add: tag_extent_def)
      then show ?thesis using t unfolding tag_apart_def shift by blast
    qed
    from copied_root [OF same this, where d = r] show ?thesis using that k1 by (simp add: in_copies_def)
  qed
  have new: "k1 x = (if within r' SIZEOF_XSDP x then m (t + 8 + (x - r')) else k x)" if "?T = MULTIBOOT_TAG_TYPE_ACPI_NEW" for x
  proof -
    have "\<not> in_copies r r' (t + 8 + of_nat i)" if "i < unat SIZEOF_XSDP" for i
    proof -
      have "8 + i < tag_extent m t" using \<open>i < unat SIZEOF_XSDP\<close> \<open>?T = _\<close> types by (simp add: tag_extent_def)
      then show ?thesis using t unfolding tag_apart_def shift by blast
    qed
    from copied_root [OF same this, where d = r'] show ?thesis using that k1 types by (simp add: in_copies_def)
  qed
  have other: "k1 = k" if "?T \<noteq> MULTIBOOT_TAG_TYPE_ACPI_OLD" "?T \<noteq> MULTIBOOT_TAG_TYPE_ACPI_NEW" using that k1 by simp
  show "\<not> in_copies r r' x \<Longrightarrow> k1 x = k x"
    using old [of x] new [of x] other by (cases "?T = MULTIBOOT_TAG_TYPE_ACPI_OLD"; cases "?T = MULTIBOOT_TAG_TYPE_ACPI_NEW") (auto simp: in_copies_def)
  show "k1 (r + of_nat i) = (if ?T = MULTIBOOT_TAG_TYPE_ACPI_OLD then m (t + 8 + of_nat i) else k (r + of_nat i))" if "i < unat SIZEOF_RSDP"
    using old [of "r + of_nat i"] new [of "r + of_nat i"] other copy_places(1,3) [OF apart that]
    by (cases "?T = MULTIBOOT_TAG_TYPE_ACPI_OLD"; cases "?T = MULTIBOOT_TAG_TYPE_ACPI_NEW") auto
  show "k1 (r' + of_nat i) = (if ?T = MULTIBOOT_TAG_TYPE_ACPI_NEW then m (t + 8 + of_nat i) else k (r' + of_nat i))" if "i < unat SIZEOF_XSDP"
    using old [of "r' + of_nat i"] new [of "r' + of_nat i"] other copy_places(2,4) [OF apart that] types
    by (cases "?T = MULTIBOOT_TAG_TYPE_ACPI_OLD"; cases "?T = MULTIBOOT_TAG_TYPE_ACPI_NEW") auto
qed

lemma tag_loop_run:
  assumes "tag_list (kmem k0) p ts e" "\<And>t. t \<in> insert e (set ts) \<Longrightarrow> tag_apart (kmem k0) r r' t" "root_pointers_apart r r'"
    and "\<And>t. t \<in> set ts \<Longrightarrow> load32 (kmem k0) (tag_type t) \<noteq> MULTIBOOT_TAG_TYPE_MODULE"
    and "\<And>x. \<not> in_copies r r' x \<Longrightarrow> kmem k x = kmem k0 x"
  shows "\<exists>m'. tag_loop k root r r' p mm = Some (last_or mm (tags_of_type (kmem k0) MULTIBOOT_TAG_TYPE_MMAP ts), k\<lparr>kmem := m'\<rparr>) \<and>
     copies_made (kmem k0) r r' ts (kmem k) m'"
  using assms
proof (induction ts arbitrary: p k mm)
  case Nil
  have "load32 (kmem k) (tag_type p) = MULTIBOOT_TAG_TYPE_END"
    using Nil.prems(1) head_same(1) [OF Nil.prems(5)] Nil.prems(2) [of e] by simp
  then show ?case by (intro exI [of _ "kmem k"]) (subst tag_loop.simps, simp add: copies_made_def tags_of_type_def)
next
  case (Cons t ts)
  let ?T = "load32 (kmem k0) (tag_type t)"
  have t: "t = p" "?T \<noteq> MULTIBOOT_TAG_TYPE_END" "tag_list (kmem k0) (next_tag (kmem k0) t) ts e" "tag_apart (kmem k0) r r' t"
    "?T \<noteq> MULTIBOOT_TAG_TYPE_MODULE"
    using Cons.prems(1,2,4) by auto
  have T: "load32 (kmem k) (tag_type t) = ?T" by (rule head_same(1) [OF Cons.prems(5) t(4)])
  define m1 where "m1 = (if ?T = MULTIBOOT_TAG_TYPE_ACPI_OLD then Imemcpy (kmem k) r (t + 8) SIZEOF_RSDP
       else if ?T = MULTIBOOT_TAG_TYPE_ACPI_NEW then Imemcpy (kmem k) r' (t + 8) SIZEOF_XSDP else kmem k)"
  let ?mm = "last_or mm (tags_of_type (kmem k0) MULTIBOOT_TAG_TYPE_MMAP [t])"
  have types: "MULTIBOOT_TAG_TYPE_MMAP \<noteq> MULTIBOOT_TAG_TYPE_ACPI_OLD" "MULTIBOOT_TAG_TYPE_MMAP \<noteq> MULTIBOOT_TAG_TYPE_ACPI_NEW"
    by (simp_all add: MULTIBOOT_TAG_TYPE_ACPI_OLD_def MULTIBOOT_TAG_TYPE_ACPI_NEW_def MULTIBOOT_TAG_TYPE_MMAP_def)
  have step: "handle_tag k root r r' t mm = Some (?mm, k\<lparr>kmem := m1\<rparr>)"
    using t(5) types unfolding handle_tag_def T Let_def by (simp add: m1_def tags_of_type_def)
  have eq: "\<forall>x. \<not> in_copies r r' x \<longrightarrow> kmem k x = kmem k0 x" using Cons.prems(5) by blast
  note made = copy_step [OF eq Cons.prems(3) t(4) m1_def]
  have out: "kmem (k\<lparr>kmem := m1\<rparr>) x = kmem k0 x" if "\<not> in_copies r r' x" for x
    using made(1) [OF that] Cons.prems(5) [OF that] by simp
  have nxt: "next_tag m1 t = next_tag (kmem k0) t" by (rule head_same(2) [OF _ t(4)]) (use out in simp)
  obtain m' where m': "tag_loop (k\<lparr>kmem := m1\<rparr>) root r r' (next_tag (kmem k0) t) ?mm =
      Some (last_or ?mm (tags_of_type (kmem k0) MULTIBOOT_TAG_TYPE_MMAP ts), k\<lparr>kmem := m1\<rparr>\<lparr>kmem := m'\<rparr>)"
    "copies_made (kmem k0) r r' ts m1 m'"
    using Cons.IH [OF t(3) _ Cons.prems(3) _ out, of ?mm] Cons.prems(2,4) by auto
  have "tag_loop k root r r' p mm = Some (last_or ?mm (tags_of_type (kmem k0) MULTIBOOT_TAG_TYPE_MMAP ts), k\<lparr>kmem := m'\<rparr>)"
    using t(2) T m'(1) by (subst tag_loop.simps) (simp add: t(1) [symmetric] step nxt)
  moreover have "last_or ?mm (tags_of_type (kmem k0) MULTIBOOT_TAG_TYPE_MMAP ts) = last_or mm (tags_of_type (kmem k0) MULTIBOOT_TAG_TYPE_MMAP (t # ts))"
    by (simp add: tags_of_type_def)
  moreover have "copies_made (kmem k0) r r' (t # ts) (kmem k) m'"
    using m'(2) made unfolding copies_made_def tags_of_type_def by (auto split: list.splits)
  ultimately show ?case by auto
qed

section \<open>Property\<close>

text \<open>The list of tags follows the \<open>next_tag\<close> of the code: the tag behind its size, rounded up to 8 bytes.\<close>

lemma next_tag_rounds_up:
  assumes "unat (load32 m (tag_size t)) + 7 < 4294967296"
  shows "next_tag m t = t + of_nat ((unat (load32 m (tag_size t)) + 7) div 8 * 8)"
proof -
  let ?s = "load32 m (tag_size t) + 7"
  have s: "unat ?s = unat (load32 m (tag_size t)) + 7" using assms by (subst unat_add_u32) simp_all
  have "x AND NOT (mask 3) = push_bit 3 (drop_bit 3 x)" for x :: u32 by (rule bit_eqI) (auto simp: bit_simps)
  moreover have "(7 :: u32) = mask 3" by (simp add: mask_eq_exp_minus_1)
  ultimately have "?s AND NOT 7 = push_bit 3 (drop_bit 3 ?s)" by metis
  then have "unat (?s AND NOT 7) = take_bit 32 (push_bit 3 (unat (drop_bit 3 ?s)))"
    by (simp only: unsigned_push_bit_eq) simp
  also have "\<dots> = take_bit 32 (unat ?s div 2 ^ 3 * 2 ^ 3)"
    by (simp only: unat_drop_bit_eq) (simp only: drop_bit_eq_div push_bit_eq_mult)
  also have "\<dots> = (unat (load32 m (tag_size t)) + 7) div 8 * 8" using assms unfolding s by (simp add: take_bit_eq_mod)
  finally have u: "unat (?s AND NOT 7) = (unat (load32 m (tag_size t)) + 7) div 8 * 8" .
  have "(ucast (?s AND NOT 7) :: u64) = of_nat (unat (?s AND NOT 7))" by simp
  then show ?thesis by (simp only: next_tag_def u)
qed

text \<open>C10. Boot information of a wrong magic number or alignment is refused and changes nothing.  Otherwise, for a list of tags
  without modules that the copies of the ACPI root pointers do not overlap, the list is walked to its end: each copy holds the bytes behind
  the head of the last tag of its kind, every other byte is as before, and the memory is set up from the last memory map tag; without one
  the result is an error.\<close>

theorem boot_info_read:
  assumes "tag_list (kmem k) (info + 8) ts e" "0 \<notin> set ts"
    and "\<forall>t \<in> insert e (set ts). tag_apart (kmem k) (st_rsdp st) (st_rsdp_new st) t"
    and "root_pointers_apart (st_rsdp st) (st_rsdp_new st)"
    and "tags_of_type (kmem k) MULTIBOOT_TAG_TYPE_MODULE ts = []"
  shows "\<exists>m'. copies_made (kmem k) (st_rsdp st) (st_rsdp_new st) ts (kmem k) m' \<and>
     handle_multiboot2 st k root magic info =
       (if magic \<noteq> MULTIBOOT2_BOOTLOADER_MAGIC \<or> info AND 7 \<noteq> 0 then Some (- 1, k)
        else case tags_of_type (kmem k) MULTIBOOT_TAG_TYPE_MMAP ts of
            [] \<Rightarrow> Some (- 1, k\<lparr>kmem := m'\<rparr>)
          | us \<Rightarrow> do {
              (err, k) \<leftarrow> handle_mb2_mmap (k\<lparr>kmem := m'\<rparr>) (st_pml4 st) (last us) (st_kernel_start_phys st) (st_kernel_end st);
              Some (if err \<noteq> 0 then - 1 else 0, k)
            })"
proof -
  have mod: "load32 (kmem k) (tag_type t) \<noteq> MULTIBOOT_TAG_TYPE_MODULE" if "t \<in> set ts" for t
    using assms(5) that by (auto simp: tags_of_type_def filter_empty_conv)
  obtain m' where m': "tag_loop k root (st_rsdp st) (st_rsdp_new st) (info + 8) 0 =
      Some (last_or 0 (tags_of_type (kmem k) MULTIBOOT_TAG_TYPE_MMAP ts), k\<lparr>kmem := m'\<rparr>)"
    "copies_made (kmem k) (st_rsdp st) (st_rsdp_new st) ts (kmem k) m'"
    using tag_loop_run [OF assms(1) _ assms(4) mod refl, where mm = 0 and root = root] assms(3) by blast
  have "last us \<noteq> 0" if "tags_of_type (kmem k) MULTIBOOT_TAG_TYPE_MMAP ts = us" "us \<noteq> []" for us
  proof -
    have "last us \<in> set ts" using last_in_set [OF that(2)] that(1) by (auto simp: tags_of_type_def)
    then show ?thesis using assms(2) by metis
  qed
  then show ?thesis using m'
    by (intro exI [of _ m']) (auto simp: handle_multiboot2_def last_or_def split: list.split)
qed

text \<open>Boot information at \<open>0x9000\<close>: an ACPI root pointer that starts with \<open>R\<close>, an empty memory map, and the end.\<close>

definition small_info :: mem where
  "small_info = (\<lambda>_. 0)(0x9008 := 14, 0x900C := 28, 0x9010 := 0x52, 0x9028 := 6, 0x902C := 16)"

definition small_statics :: statics where
  "small_statics = \<lparr>st_pml4 = boot_root, st_rsdp = 0x20000, st_rsdp_new = 0x20100, st_kernel_start_phys = 0x100000,
     st_kernel_end = KERNEL_PHYS_TO_VIRT 0x200000\<rparr>"

theorem boot_info_read_witness:
  "\<exists>m'. m' 0x20000 = 0x52 \<and> handle_multiboot2 small_statics (boot_state\<lparr>kmem := small_info\<rparr>) boot_root MULTIBOOT2_BOOTLOADER_MAGIC 0x9000 =
     do {
       (err, k) \<leftarrow> handle_mb2_mmap (boot_state\<lparr>kmem := m'\<rparr>) boot_root 0x9028 0x100000 (KERNEL_PHYS_TO_VIRT 0x200000);
       Some (if err \<noteq> 0 then - 1 else 0, k)
     }"
proof -
  let ?k = "boot_state\<lparr>kmem := small_info\<rparr>"
  have four: "load_le m a 4 = load_le m a (Suc (Suc (Suc (Suc 0))))" for m a by (rule arg_cong [where f = "load_le m a"]) simp
  have loads: "load32 small_info 0x9008 = 14" "load32 small_info 0x900C = 28" "load32 small_info 0x9028 = 6"
    "load32 small_info 0x902C = 16" "load32 small_info 0x9038 = 0"
    unfolding load32_def four by (simp_all add: small_info_def)
  note defs = MULTIBOOT_TAG_TYPE_END_def MULTIBOOT_TAG_TYPE_MODULE_def MULTIBOOT_TAG_TYPE_MMAP_def MULTIBOOT_TAG_TYPE_ACPI_OLD_def
    MULTIBOOT_TAG_TYPE_ACPI_NEW_def tag_type_def tag_size_def
  have nxt: "next_tag small_info 0x9008 = 0x9028" "next_tag small_info 0x9028 = 0x9038" by (simp_all add: next_tag_def tag_size_def loads)
  have list: "tag_list (kmem ?k) (0x9000 + 8) [0x9008, 0x9028] 0x9038" by (simp add: loads defs nxt)
  have far: "\<not> in_copies 0x20000 0x20100 (t + of_nat i)" if "i < 44" "unat t < 0x10000" for t :: u64 and i
  proof -
    have "unat (t + of_nat i) < 0x10100" using that by (simp add: unat_add_u64 unat_of_nat_u64)
    then show ?thesis by (simp add: in_copies_def within_iff SIZEOF_RSDP_def SIZEOF_XSDP_def)
  qed
  have ext: "tag_extent m t \<le> 44" for m t by (simp add: tag_extent_def SIZEOF_RSDP_def SIZEOF_XSDP_def)
  have apart: "tag_apart small_info 0x20000 0x20100 t" if "unat t < 0x10000" for t
    unfolding tag_apart_def using far that ext less_le_trans by blast
  have "\<forall>t \<in> insert 0x9038 (set [0x9008, 0x9028]). tag_apart (kmem ?k) (st_rsdp small_statics) (st_rsdp_new small_statics) t"
    using apart by (simp add: small_statics_def)
  moreover have "root_pointers_apart (st_rsdp small_statics) (st_rsdp_new small_statics)"
    by (auto simp: root_pointers_apart_def small_statics_def within_iff SIZEOF_RSDP_def SIZEOF_XSDP_def)
  moreover have "tags_of_type (kmem ?k) MULTIBOOT_TAG_TYPE_MODULE [0x9008, 0x9028] = []" by (simp add: tags_of_type_def loads defs)
  ultimately obtain m' where m': "copies_made (kmem ?k) (st_rsdp small_statics) (st_rsdp_new small_statics) [0x9008, 0x9028] (kmem ?k) m'"
    "handle_multiboot2 small_statics ?k boot_root MULTIBOOT2_BOOTLOADER_MAGIC 0x9000 =
       (if MULTIBOOT2_BOOTLOADER_MAGIC \<noteq> MULTIBOOT2_BOOTLOADER_MAGIC \<or> (0x9000 :: u64) AND 7 \<noteq> 0 then Some (- 1, ?k)
        else case tags_of_type (kmem ?k) MULTIBOOT_TAG_TYPE_MMAP [0x9008, 0x9028] of
            [] \<Rightarrow> Some (- 1, ?k\<lparr>kmem := m'\<rparr>)
          | us \<Rightarrow> do {
              (err, k) \<leftarrow> handle_mb2_mmap (?k\<lparr>kmem := m'\<rparr>) (st_pml4 small_statics) (last us) (st_kernel_start_phys small_statics)
                (st_kernel_end small_statics);
              Some (if err \<noteq> 0 then - 1 else 0, k)
            })"
    using boot_info_read [OF list, of small_statics boot_root MULTIBOOT2_BOOTLOADER_MAGIC] by auto
  have old: "tags_of_type (kmem ?k) MULTIBOOT_TAG_TYPE_ACPI_OLD [0x9008, 0x9028] = [0x9008]"
    "tags_of_type (kmem ?k) MULTIBOOT_TAG_TYPE_MMAP [0x9008, 0x9028] = [0x9028]" by (simp_all add: tags_of_type_def loads defs)
  have "m' 0x20000 = small_info 0x9010"
    using m'(1) unfolding copies_made_def old by (auto simp: small_statics_def SIZEOF_RSDP_def dest: spec [of _ 0])
  then show ?thesis using m'(2) unfolding old by (intro exI [of _ m']) (simp add: small_statics_def, simp add: small_info_def)
qed

end
